(* ===== verification/Go_Base.thy ===== *)
theory Go_Base
  imports Main "HOL-Library.Word" "HOL-Library.Sublist"
begin

text \<open>
  The prelude of the development: the parts of Go and of its standard library that the
  sources of ssh2incus use everywhere. A Go \<open>string\<close> is a list of bytes, here a \<^typ>\<open>string\<close>
  (a \<open>char\<close> is one byte). The functions of the packages \<open>strings\<close> and \<open>strconv\<close> are
  modelled on that type, one definition per library function, in the special cases the
  sources use (every separator of the sources is one byte, and no \<open>old\<close> of a
  \<open>ReplaceAll\<close> is empty). \<open>int\<close> and \<open>int64\<close> are \<^typ>\<open>int\<close> with the
  wrap-around written out (\<open>wrap64\<close>) where it matters.

  The collection \<open>go_strings\<close> holds the characteristic equations of the string functions;
  the component theories add it to the simplifier where they take a string apart.
\<close>

named_theorems go_strings

section \<open>Strings\<close>

subsection \<open>Definitions\<close>

text \<open>\<open>strings.HasPrefix\<close>, \<open>strings.CutPrefix\<close> and \<open>strings.TrimPrefix\<close>.\<close>

definition has_prefix :: "string \<Rightarrow> string \<Rightarrow> bool" where
  "has_prefix s p \<longleftrightarrow> take (length p) s = p"

definition cut_prefix :: "string \<Rightarrow> string \<Rightarrow> string option" where
  "cut_prefix s p = (if has_prefix s p then Some (drop (length p) s) else None)"

definition trim_prefix :: "string \<Rightarrow> string \<Rightarrow> string" where
  "trim_prefix s p = (if has_prefix s p then drop (length p) s else s)"

text \<open>
  \<open>strings.Cut(s, sep)\<close> for a one-byte separator: the text before and after the first
  separator, or \<^const>\<open>None\<close> where Go returns \<open>found = false\<close>.
\<close>

fun cut_char :: "char \<Rightarrow> string \<Rightarrow> (string \<times> string) option" where
  "cut_char c [] = None"
| "cut_char c (x # xs) =
     (if x = c then Some ([], xs)
      else map_option (\<lambda>(a, b). (x # a, b)) (cut_char c xs))"

text \<open>\<open>strings.Split(s, sep)\<close> for a one-byte separator.\<close>

fun split_char :: "char \<Rightarrow> string \<Rightarrow> string list" where
  "split_char c [] = [[]]"
| "split_char c (x # xs) =
     (if x = c then [] # split_char c xs
      else (case split_char c xs of
              [] \<Rightarrow> [[x]]
            | y # ys \<Rightarrow> (x # y) # ys))"

text \<open>\<open>strings.Join\<close>.\<close>

fun join :: "string \<Rightarrow> string list \<Rightarrow> string" where
  "join sep [] = []"
| "join sep [x] = x"
| "join sep (x # y # ys) = x @ sep @ join sep (y # ys)"

text \<open>\<open>strings.Contains\<close>.\<close>

fun contains_str :: "string \<Rightarrow> string \<Rightarrow> bool" where
  "contains_str [] sub = (sub = [])"
| "contains_str (x # xs) sub = (has_prefix (x # xs) sub \<or> contains_str xs sub)"

text \<open>\<open>strings.ReplaceAll(s, old, new)\<close> for a non-empty \<open>old\<close>, scanned from the left.\<close>

function replace_all :: "string \<Rightarrow> string \<Rightarrow> string \<Rightarrow> string" where
  "replace_all [] old new = []"
| "replace_all (x # xs) old new =
     (if old \<noteq> [] \<and> has_prefix (x # xs) old
      then new @ replace_all (drop (length old) (x # xs)) old new
      else x # replace_all xs old new)"
  by pat_completeness auto
termination
  by (relation "measure (\<lambda>(s, _, _). length s)") (auto simp: has_prefix_def)

text \<open>
  \<open>unicode.IsSpace\<close> on the ASCII bytes, and \<open>strings.TrimSpace\<close>, \<open>strings.Fields\<close>
  and \<open>strings.ToLower\<close> over it.
\<close>

definition is_space :: "char \<Rightarrow> bool" where
  "is_space c \<longleftrightarrow> c \<in> set [CHR '' '', CHR 0x09, CHR 0x0A, CHR 0x0B, CHR 0x0C, CHR 0x0D]"

definition trim_space :: "string \<Rightarrow> string" where
  "trim_space s = rev (dropWhile is_space (rev (dropWhile is_space s)))"

fun fields_acc :: "string \<Rightarrow> string \<Rightarrow> string list" where
  "fields_acc acc [] = (if acc = [] then [] else [rev acc])"
| "fields_acc acc (x # xs) =
     (if is_space x then (if acc = [] then [] else [rev acc]) @ fields_acc [] xs
      else fields_acc (x # acc) xs)"

definition fields :: "string \<Rightarrow> string list" where
  "fields s = fields_acc [] s"

definition to_lower_char :: "char \<Rightarrow> char" where
  "to_lower_char c =
     (if 65 \<le> (of_char c :: nat) \<and> (of_char c :: nat) \<le> 90 then char_of (of_char c + 32 :: nat) else c)"

definition to_lower :: "string \<Rightarrow> string" where
  "to_lower s = map to_lower_char s"

subsection \<open>Laws\<close>

lemma has_prefix_append [simp, go_strings]: "has_prefix (p @ s) p"
  by (simp add: has_prefix_def)

lemma has_prefix_Nil [simp, go_strings]: "has_prefix s []"
  by (simp add: has_prefix_def)

lemma has_prefix_empty [simp, go_strings]: "has_prefix [] p \<longleftrightarrow> p = []"
  by (auto simp: has_prefix_def)

lemma has_prefix_Cons [simp, go_strings]:
  "has_prefix (x # xs) (y # ys) \<longleftrightarrow> x = y \<and> has_prefix xs ys"
  by (simp add: has_prefix_def)

lemma cut_prefix_Some: "cut_prefix s p = Some t \<longleftrightarrow> s = p @ t"
  by (auto simp: cut_prefix_def has_prefix_def) (metis append_take_drop_id)

lemma cut_prefix_Cons [simp, go_strings]:
  "cut_prefix (x # xs) [c] = (if x = c then Some xs else None)"
  by (simp add: cut_prefix_def)

lemma cut_prefix_empty [simp, go_strings]: "cut_prefix [] [c] = None"
  by (simp add: cut_prefix_def)

lemma cut_char_append [simp, go_strings]:
  "c \<notin> set a \<Longrightarrow> cut_char c (a @ c # b) = Some (a, b)"
  by (induction a) auto

lemma cut_char_None [go_strings]: "cut_char c s = None \<longleftrightarrow> c \<notin> set s"
  by (induction s) auto

lemma cut_char_absent [simp]: "c \<notin> set s \<Longrightarrow> cut_char c s = None"
  by (simp add: cut_char_None)

lemma cut_char_Some: "cut_char c s = Some (a, b) \<longleftrightarrow> c \<notin> set a \<and> s = a @ c # b"
proof (induction s arbitrary: a)
  case (Cons x s)
  then show ?case by (cases a) auto
qed simp

lemma cut_char_length: "cut_char c s = Some (a, b) \<Longrightarrow> length b < length s"
  by (auto simp: cut_char_Some)

lemma split_char_nonempty [simp]: "split_char c s \<noteq> []"
  by (induction s) (auto split: list.splits)

lemma split_char_append [go_strings]:
  "c \<notin> set a \<Longrightarrow> split_char c (a @ c # b) = a # split_char c b"
  by (induction a) auto

lemma split_char_absent [simp, go_strings]: "c \<notin> set s \<Longrightarrow> split_char c s = [s]"
  by (induction s) auto

lemma split_char_pieces: "p \<in> set (split_char c s) \<Longrightarrow> c \<notin> set p"
proof (induction s arbitrary: p)
  case (Cons x s)
  then show ?case
    by (cases "split_char c s") (auto split: if_splits)
qed simp

lemma split_join [go_strings]:
  "xs \<noteq> [] \<Longrightarrow> \<forall>x \<in> set xs. c \<notin> set x \<Longrightarrow> split_char c (join [c] xs) = xs"
  by (induction "[c]" xs rule: join.induct) (auto simp: split_char_append)

lemma join_Cons: "xs \<noteq> [] \<Longrightarrow> join sep (x # xs) = x @ sep @ join sep xs"
  by (cases xs) auto

lemma join_head: "join sep ((x # y) # ys) = x # join sep (y # ys)"
  by (cases ys) auto

lemma join_split: "join [c] (split_char c s) = s"
proof (induction s)
  case (Cons x s)
  then show ?case
    by (cases "split_char c s") (auto simp: join_Cons join_head)
qed simp

lemma contains_str_iff: "contains_str s sub \<longleftrightarrow> (\<exists>a b. s = a @ sub @ b)"
proof (induction s)
  case (Cons x s)
  have "has_prefix (x # s) sub \<longleftrightarrow> (\<exists>b. x # s = sub @ b)"
    by (metis append_eq_conv_conj has_prefix_def append_take_drop_id)
  then show ?case
    using Cons by (auto simp: Cons_eq_append_conv)
qed simp

lemma contains_char [simp, go_strings]: "contains_str s [c] \<longleftrightarrow> c \<in> set s"
  by (induction s) (auto simp: has_prefix_def)

lemma replace_all_absent:
  "x \<in> set old \<Longrightarrow> x \<notin> set s \<Longrightarrow> replace_all s old new = s"
proof (induction s old new rule: replace_all.induct)
  case (2 y ys old new)
  have "\<not> has_prefix (y # ys) old"
    using 2 by (metis has_prefix_def in_set_takeD)
  then show ?case using 2 by simp
qed simp

section \<open>Integers and their decimal form\<close>

subsection \<open>Definitions\<close>

text \<open>Two's complement wrap-around of a 64-bit \<open>int\<close> or \<open>int64\<close> result.\<close>

definition wrap64 :: "int \<Rightarrow> int" where
  "wrap64 x = (x + 2 ^ 63) mod 2 ^ 64 - 2 ^ 63"

definition in_int64 :: "int \<Rightarrow> bool" where
  "in_int64 x \<longleftrightarrow> - (2 ^ 63) \<le> x \<and> x < 2 ^ 63"

text \<open>
  \<open>strconv.Atoi\<close>: an optional sign and at least one decimal digit, and the value in the
  range of \<open>int\<close>; everything else is an error (\<^const>\<open>None\<close>).
\<close>

definition is_digit :: "char \<Rightarrow> bool" where
  "is_digit c \<longleftrightarrow> 48 \<le> (of_char c :: nat) \<and> (of_char c :: nat) \<le> 57"

fun digits_value :: "nat \<Rightarrow> string \<Rightarrow> nat option" where
  "digits_value n [] = Some n"
| "digits_value n (c # cs) =
     (if is_digit c then digits_value (10 * n + (of_char c - 48)) cs else None)"

definition parse_nat :: "string \<Rightarrow> nat option" where
  "parse_nat s = (if s = [] then None else digits_value 0 s)"

definition atoi :: "string \<Rightarrow> int option" where
  "atoi s =
     (case (case s of
              [] \<Rightarrow> None
            | c # cs \<Rightarrow>
                if c = CHR ''-'' then map_option (\<lambda>n. - int n) (parse_nat cs)
                else if c = CHR ''+'' then map_option int (parse_nat cs)
                else map_option int (parse_nat s)) of
        None \<Rightarrow> None
      | Some v \<Rightarrow> if in_int64 v then Some v else None)"

text \<open>
  The value \<open>strconv.Atoi\<close> returns beside an error that the caller ignores: 0 for a text that is no
  number, the nearest number in range for one that is out of range.
\<close>

definition atoi_value :: "string \<Rightarrow> int" where
  "atoi_value s =
     (case (case s of
              [] \<Rightarrow> None
            | c # cs \<Rightarrow>
                if c = CHR ''-'' then map_option (\<lambda>n. - int n) (parse_nat cs)
                else if c = CHR ''+'' then map_option int (parse_nat cs)
                else map_option int (parse_nat s)) of
        None \<Rightarrow> 0
      | Some v \<Rightarrow> max (- (2 ^ 63)) (min (2 ^ 63 - 1) v))"

text \<open>\<open>strconv.Itoa\<close>, and the verb \<open>%d\<close> of \<open>fmt\<close>.\<close>

fun show_nat :: "nat \<Rightarrow> string" where
  "show_nat n =
     (if n < 10 then [char_of (48 + n)] else show_nat (n div 10) @ [char_of (48 + n mod 10)])"

declare show_nat.simps [simp del]

definition itoa :: "int \<Rightarrow> string" where
  "itoa v = (if v < 0 then CHR ''-'' # show_nat (nat (- v)) else show_nat (nat v))"

subsection \<open>Laws\<close>

lemma wrap64_id [simp]: "in_int64 x \<Longrightarrow> wrap64 x = x"
  by (simp add: in_int64_def wrap64_def)

lemma wrap64_range [simp]: "in_int64 (wrap64 x)"
proof -
  have "0 \<le> (x + 2 ^ 63) mod 2 ^ 64" and "(x + 2 ^ 63) mod 2 ^ 64 < 2 ^ 64"
    by (rule pos_mod_sign, simp) (rule pos_mod_bound, simp)
  then show ?thesis by (simp add: in_int64_def wrap64_def)
qed

lemma wrap64_over:
  assumes "2 ^ 63 \<le> x" and "x < 2 ^ 64 + 2 ^ 63"
  shows "wrap64 x = x - 2 ^ 64"
proof -
  have "(x + 2 ^ 63) mod 2 ^ 64 = (x + 2 ^ 63 - 2 ^ 64) mod 2 ^ 64"
    by (rule minus_mod_self2 [symmetric])
  also have "\<dots> = x + 2 ^ 63 - 2 ^ 64"
    using assms by (intro mod_pos_pos_trivial) auto
  finally show ?thesis by (simp add: wrap64_def)
qed

lemma of_char_digit:
  "n < 10 \<Longrightarrow> (of_char (char_of (48 + n) :: char) :: nat) = 48 + n"
  by simp

lemma is_digit_show [simp]: "n < 10 \<Longrightarrow> is_digit (char_of (48 + n :: nat))"
  unfolding is_digit_def by simp

lemma digits_value_append:
  "digits_value n (xs @ ys) = Option.bind (digits_value n xs) (\<lambda>m. digits_value m ys)"
  by (induction n xs rule: digits_value.induct) auto

lemma show_nat_nonempty [simp]: "show_nat n \<noteq> []"
  by (subst show_nat.simps) simp

lemma digits_value_show: "digits_value 0 (show_nat n) = Some n"
proof (induction n rule: show_nat.induct)
  case (1 n)
  show ?case
  proof (cases "n < 10")
    case True
    then show ?thesis by (subst show_nat.simps) simp
  next
    case False
    then have "n mod 10 < 10" by simp
    with False 1 show ?thesis
      by (subst show_nat.simps) (simp add: digits_value_append of_char_digit del: of_char_of)
  qed
qed

lemma parse_show_nat [simp]: "parse_nat (show_nat n) = Some n"
  by (simp add: parse_nat_def digits_value_show)

lemma show_nat_digits: "c \<in> set (show_nat n) \<Longrightarrow> is_digit c"
proof (induction n rule: show_nat.induct)
  case (1 n)
  show ?case
  proof (cases "n < 10")
    case True
    with 1 show ?thesis by (simp add: show_nat.simps [of n])
  next
    case False
    then have "is_digit (char_of (48 + n mod 10))" by (intro is_digit_show) simp
    with False 1 show ?thesis by (auto simp: show_nat.simps [of n])
  qed
qed

lemma show_nat_hd:
  obtains c cs where "show_nat n = c # cs" and "is_digit c"
  by (metis list.exhaust list.set_intros(1) show_nat_digits show_nat_nonempty)

lemma atoi_itoa [simp]: "in_int64 v \<Longrightarrow> atoi (itoa v) = Some v"
proof (cases "v < 0")
  case False
  assume r: "in_int64 v"
  obtain c cs where s: "show_nat (nat v) = c # cs" and d: "is_digit c"
    by (rule show_nat_hd)
  from d have "c \<noteq> CHR ''-''" "c \<noteq> CHR ''+''"
    by (auto simp: is_digit_def)
  moreover have "parse_nat (c # cs) = Some (nat v)"
    using parse_show_nat [of "nat v"] by (simp only: s)
  ultimately show ?thesis
    using False r by (simp add: atoi_def itoa_def s)
qed (simp add: atoi_def itoa_def)

lemma itoa_chars: "c \<in> set (itoa v) \<Longrightarrow> is_digit c \<or> c = CHR ''-''"
  by (auto simp: itoa_def dest: show_nat_digits split: if_splits)

section \<open>Paths\<close>

text \<open>\<open>filepath.Clean\<close>, \<open>filepath.IsAbs\<close>, \<open>filepath.Join\<close> and \<open>filepath.Dir\<close> on Unix.\<close>

fun clean_step :: "bool \<Rightarrow> string \<Rightarrow> string list \<Rightarrow> string list" where
  "clean_step rooted p stack =
     (if p = [] \<or> p = ''.'' then stack
      else if p = ''..''
      then (case stack of
              [] \<Rightarrow> if rooted then [] else [p]
            | t # ts \<Rightarrow> if t = ''..'' then p # stack else ts)
      else p # stack)"

definition IsAbs :: "string \<Rightarrow> bool" where
  "IsAbs p = has_prefix p ''/''"

definition Clean :: "string \<Rightarrow> string" where
  "Clean p =
     (let parts = rev (fold (clean_step (IsAbs p)) (split_char (CHR ''/'') p) [])
      in if IsAbs p then ''/'' @ join ''/'' parts
         else if parts = [] then ''.'' else join ''/'' parts)"

definition path_Join :: "string list \<Rightarrow> string" where
  "path_Join ps =
     (let ps = filter (\<lambda>p. p \<noteq> []) ps in if ps = [] then [] else Clean (join ''/'' ps))"

definition path_Dir :: "string \<Rightarrow> string" where
  "path_Dir p = Clean (rev (dropWhile (\<lambda>c. c \<noteq> CHR ''/'') (rev p)))"

section \<open>Host and port\<close>

text \<open>The text before and after the last occurrence of a byte.\<close>

definition cut_last :: "char \<Rightarrow> string \<Rightarrow> (string \<times> string) option" where
  "cut_last c s = map_option (\<lambda>(b, a). (rev a, rev b)) (cut_char c (rev s))"

text \<open>
  \<open>net.SplitHostPort\<close>: host and port of \<open>host:port\<close> or \<open>[host]:port\<close>, \<^const>\<open>None\<close> for each
  of its errors (no port, too many colons, misplaced brackets).
\<close>

definition split_host_port :: "string \<Rightarrow> (string \<times> string) option" where
  "split_host_port hp =
     (case cut_last (CHR '':'') hp of
        None \<Rightarrow> None
      | Some (before, port) \<Rightarrow>
          (case hp of
             [] \<Rightarrow> None
           | c # cs \<Rightarrow>
               if c = CHR ''[''
               then (case cut_char (CHR '']'') cs of
                       None \<Rightarrow> None
                     | Some (host, rest) \<Rightarrow>
                         if rest = CHR '':'' # port \<and> CHR ''['' \<notin> set cs \<and> CHR '']'' \<notin> set rest
                         then Some (host, port) else None)
               else if CHR '':'' \<in> set before \<or> CHR ''['' \<in> set hp \<or> CHR '']'' \<in> set hp then None
               else Some (before, port)))"

lemma cut_last_append: "c \<notin> set b \<Longrightarrow> cut_last c (a @ c # b) = Some (a, b)"
  by (simp add: cut_last_def)

lemma split_host_port_plain:
  assumes "set (host @ port) \<inter> set '':[]'' = {}"
  shows "split_host_port (host @ '':'' @ port) = Some (host, port)"
  using assms by (cases host) (auto simp: split_host_port_def cut_last_append [of _ _ "_ # _", simplified] cut_last_append [of _ _ "[]", simplified])

end
