(* ===== verification/Login_User.thy ===== *)
theory Login_User
  imports Go_Base
begin

text \<open>
  The login string of an SSH connection, \<open>src/server/user.go\<close>: the type \<open>LoginUser\<close>, the
  parser \<open>ParseFrom\<close> with its helpers, the printer \<open>String\<close> and the cache keys
  \<open>Hash\<close> and \<open>InstanceHash\<close>. The struct's scalar fields are the record
  \<open>login_core\<close>; the two pointers to another \<open>LoginUser\<close> make the datatype
  \<open>LoginUser\<close> recursive. A Go pointer that may be nil is an \<open>option\<close>.

  The theorems: the parser inverts every well-formed regular and creation string (all optional
  parts at once), \<open>String\<close> followed by \<open>ParseFrom\<close> is the identity on the fields it
  prints, what the parser establishes about its result for every input, and when two logins share
  a cache key.
\<close>

section \<open>Model\<close>

subsection \<open>Data\<close>

text \<open>What \<open>setDefaults\<close> reads of the process: its uid and \<open>user.LookupId\<close>.\<close>

record os_env =
  getuid :: int
  lookup_id :: "string \<Rightarrow> string option"

record LoginCreateConfig =
  lcc_Image :: "string option"
  lcc_Memory :: "int option"
  lcc_CPU :: "int option"
  lcc_Disk :: "int option"
  lcc_Ephemeral :: "bool option"
  lcc_Nesting :: "bool option"
  lcc_Privileged :: "bool option"
  lcc_VM :: "bool option"
  lcc_Profiles :: "string list"

definition empty_LoginCreateConfig :: LoginCreateConfig where
  "empty_LoginCreateConfig =
     \<lparr>lcc_Image = None, lcc_Memory = None, lcc_CPU = None, lcc_Disk = None,
      lcc_Ephemeral = None, lcc_Nesting = None, lcc_Privileged = None, lcc_VM = None,
      lcc_Profiles = []\<rparr>"

record login_core =
  lu_OrigUser :: string
  lu_Remote :: string
  lu_User :: string
  lu_Instance :: string
  lu_Project :: string
  lu_InstanceUser :: string
  lu_Command :: string
  lu_Persistent :: bool
  lu_CreateInstance :: bool
  lu_CreateConfig :: LoginCreateConfig
  lu_PublicKey :: "string option"
  lu_ForceRemove :: bool

datatype LoginUser =
  LoginUser (lu_core: login_core)
    (lu_ExplainUser: "LoginUser option")
    (lu_RemoveUser: "LoginUser option")

text \<open>The zero value \<open>LoginUser{}\<close>.\<close>

definition empty_core :: login_core where
  "empty_core =
     \<lparr>lu_OrigUser = [], lu_Remote = [], lu_User = [], lu_Instance = [], lu_Project = [],
      lu_InstanceUser = [], lu_Command = [], lu_Persistent = False, lu_CreateInstance = False,
      lu_CreateConfig = empty_LoginCreateConfig, lu_PublicKey = None, lu_ForceRemove = False\<rparr>"

definition empty_LoginUser :: LoginUser where
  "empty_LoginUser = LoginUser empty_core None None"

subsection \<open>The parser\<close>

definition setDefaults :: "os_env \<Rightarrow> login_core \<Rightarrow> login_core" where
  "setDefaults env lu =
     lu\<lparr>lu_InstanceUser := ''root'', lu_Project := ''default'',
        lu_User := (if getuid env = 0 then ''root''
                    else (case lookup_id env (itoa (getuid env)) of
                            Some name \<Rightarrow> name
                          | None \<Rightarrow> ''root''))\<rparr>"

definition isCreationFormat :: "string \<Rightarrow> bool" where
  "isCreationFormat user =
     (case user of [] \<Rightarrow> False | c # _ \<Rightarrow> c = CHR ''+'' \<or> c = CHR ''~'')"

definition parseInstanceAndProject :: "string \<Rightarrow> login_core \<Rightarrow> login_core" where
  "parseInstanceAndProject instance lu =
     (let lu = (case cut_char (CHR ''.'') instance of
                  Some (i, p) \<Rightarrow> lu\<lparr>lu_Instance := i, lu_Project := p\<rparr>
                | None \<Rightarrow> lu\<lparr>lu_Instance := instance\<rparr>)
      in if lu_Project lu = [] then lu\<lparr>lu_Project := ''default''\<rparr> else lu)"

definition parseInstanceAndUser :: "string \<Rightarrow> login_core \<Rightarrow> login_core" where
  "parseInstanceAndUser instance lu =
     (let instance = replace_all instance ''%40'' ''@'';
          instance = replace_all instance ''%2540'' ''@''
      in case cut_char (CHR ''@'') instance of
           Some (u, i) \<Rightarrow> parseInstanceAndProject i (lu\<lparr>lu_InstanceUser := u\<rparr>)
         | None \<Rightarrow> parseInstanceAndProject instance lu)"

definition parseRemoteAndInstance :: "string \<Rightarrow> login_core \<Rightarrow> login_core" where
  "parseRemoteAndInstance instance lu =
     (case cut_char (CHR '':'') instance of
        Some (r, i) \<Rightarrow> parseInstanceAndUser i (lu\<lparr>lu_Remote := r\<rparr>)
      | None \<Rightarrow> parseInstanceAndUser instance lu)"

text \<open>The body of the loop of \<open>parseCreateConfig\<close>: one \<open>+\<close>-separated option.\<close>

definition parseCreateOption :: "string \<Rightarrow> LoginCreateConfig \<Rightarrow> LoginCreateConfig" where
  "parseCreateOption c cc =
     (if c = [] then cc
      else if has_prefix c ''%''
      then cc\<lparr>lcc_Profiles := lcc_Profiles cc @ split_char (CHR '','') (trim_prefix c ''%'')\<rparr>
      else if contains_str c ''/'' then cc\<lparr>lcc_Image := Some c\<rparr>
      else if hd c = CHR ''m''
      then (case atoi (tl c) of Some n \<Rightarrow> cc\<lparr>lcc_Memory := Some n\<rparr> | None \<Rightarrow> cc)
      else if hd c = CHR ''c''
      then (case atoi (tl c) of Some n \<Rightarrow> cc\<lparr>lcc_CPU := Some n\<rparr> | None \<Rightarrow> cc)
      else if hd c = CHR ''d''
      then (case atoi (tl c) of Some n \<Rightarrow> cc\<lparr>lcc_Disk := Some n\<rparr> | None \<Rightarrow> cc)
      else if c = ''n'' \<or> has_prefix c ''nest'' then cc\<lparr>lcc_Nesting := Some True\<rparr>
      else if c = ''p'' \<or> has_prefix c ''priv'' then cc\<lparr>lcc_Privileged := Some True\<rparr>
      else if c = ''e'' \<or> has_prefix c ''ephe'' then cc\<lparr>lcc_Ephemeral := Some True\<rparr>
      else if c = ''v'' \<or> c = ''vm'' then cc\<lparr>lcc_VM := Some True\<rparr>
      else cc)"

definition parseCreateConfig :: "string \<Rightarrow> login_core \<Rightarrow> login_core" where
  "parseCreateConfig configStr lu =
     (if configStr = [] then lu
      else lu\<lparr>lu_CreateConfig :=
                fold parseCreateOption (split_char (CHR ''+'') configStr) (lu_CreateConfig lu)\<rparr>)"

text \<open>\<open>parseCreationFormat\<close> is only called on a string that \<open>isCreationFormat\<close> accepts.\<close>

definition parseCreationFormat :: "string \<Rightarrow> login_core \<Rightarrow> login_core" where
  "parseCreationFormat user lu =
     (let conf = tl user;
          cc = empty_LoginCreateConfig;
          cc = (if hd user = CHR ''~'' then cc\<lparr>lcc_Ephemeral := Some True\<rparr> else cc);
          lu = lu\<lparr>lu_CreateInstance := True, lu_CreateConfig := cc\<rparr>;
          (conf, lu) = (case cut_char (CHR ''~'') conf of
                          Some (c, u) \<Rightarrow> (c, lu\<lparr>lu_User := u\<rparr>)
                        | None \<Rightarrow> (conf, lu));
          (instance, configStr) = (case cut_char (CHR ''+'') conf of
                                     Some (i, s) \<Rightarrow> (i, s)
                                   | None \<Rightarrow> (conf, []))
      in parseCreateConfig configStr (parseRemoteAndInstance instance lu))"

text \<open>The part of \<open>parseRegularFormat\<close> after the command branch.\<close>

definition parseRegularInstance :: "string \<Rightarrow> login_core \<Rightarrow> login_core" where
  "parseRegularInstance user lu =
     (let (user, lu) = (case cut_prefix user ''%'' of
                          Some u \<Rightarrow> (u, lu\<lparr>lu_Persistent := True\<rparr>)
                        | None \<Rightarrow> (user, lu));
          (instance, lu) = (case cut_char (CHR ''~'') user of
                              Some (i, u) \<Rightarrow> (i, lu\<lparr>lu_User := u\<rparr>)
                            | None \<Rightarrow>
                                (case cut_char (CHR ''+'') user of
                                   Some (i, u) \<Rightarrow> (i, lu\<lparr>lu_User := u\<rparr>)
                                 | None \<Rightarrow> (user, lu)))
      in parseRemoteAndInstance instance lu)"

text \<open>The end of the command branch: a command login names no instance.\<close>

definition clearInstance :: "login_core \<Rightarrow> login_core" where
  "clearInstance lu = lu\<lparr>lu_Instance := [], lu_Project := [], lu_InstanceUser := []\<rparr>"

text \<open>
  \<open>ParseFrom\<close> and \<open>parseRegularFormat\<close>: the targets of \<open>/explain/\<close> and of the
  remove commands are parsed by a recursive call on a shorter string.
\<close>

function ParseFrom :: "os_env \<Rightarrow> string \<Rightarrow> LoginUser \<Rightarrow> LoginUser"
  and parseRegularFormat :: "os_env \<Rightarrow> string \<Rightarrow> LoginUser \<Rightarrow> LoginUser" where
  "ParseFrom env user (LoginUser lu ex rm) =
     (let lu = (setDefaults env lu)\<lparr>lu_OrigUser := user\<rparr>
      in if isCreationFormat user then LoginUser (parseCreationFormat user lu) ex rm
         else parseRegularFormat env user (LoginUser lu ex rm))"
| "parseRegularFormat env user (LoginUser lu ex rm) =
     (case cut_prefix user ''/'' of
        Some cmd \<Rightarrow>
          (case cut_char (CHR ''/'') cmd of
             None \<Rightarrow> LoginUser (clearInstance (lu\<lparr>lu_Command := cmd\<rparr>)) ex rm
           | Some (cmdName, target) \<Rightarrow>
               if cmdName = ''explain''
               then LoginUser (clearInstance (lu\<lparr>lu_Command := ''explain''\<rparr>))
                      (Some (ParseFrom env target empty_LoginUser)) rm
               else if cmdName \<in> set [''rm'', ''rm-f'', ''remove'', ''remove-force'']
               then LoginUser
                      (clearInstance
                         (lu\<lparr>lu_Command := ''remove'',
                             lu_ForceRemove := (cmdName = ''rm-f'' \<or> cmdName = ''remove-force'')\<rparr>))
                      ex (Some (ParseFrom env target empty_LoginUser))
               else LoginUser (clearInstance (lu\<lparr>lu_Command := cmdName\<rparr>)) ex rm)
      | None \<Rightarrow> LoginUser (parseRegularInstance user lu) ex rm)"
  by pat_completeness auto
termination
  by (relation "measure (\<lambda>x. case x of Inl (_, u, _) \<Rightarrow> 2 * length u + 1
                                      | Inr (_, u, _) \<Rightarrow> 2 * length u)")
    (auto simp: cut_prefix_Some dest!: cut_char_length)

declare ParseFrom.simps [simp del] parseRegularFormat.simps [simp del]

definition parseLoginUser :: "os_env \<Rightarrow> string \<Rightarrow> LoginUser" where
  "parseLoginUser env user = ParseFrom env user empty_LoginUser"

subsection \<open>The printer and the keys\<close>

text \<open>The \<open>+\<close>-separated options of a creation login.\<close>

definition createOptions :: "LoginCreateConfig \<Rightarrow> string list" where
  "createOptions cc =
     (case lcc_Image cc of Some i \<Rightarrow> [i] | None \<Rightarrow> []) @
     map (\<lambda>p. CHR ''%'' # p) (lcc_Profiles cc) @
     (case lcc_Memory cc of Some n \<Rightarrow> [CHR ''m'' # itoa n] | None \<Rightarrow> []) @
     (case lcc_CPU cc of Some n \<Rightarrow> [CHR ''c'' # itoa n] | None \<Rightarrow> []) @
     (case lcc_Disk cc of Some n \<Rightarrow> [CHR ''d'' # itoa n] | None \<Rightarrow> [])"

definition createFlags :: "LoginCreateConfig \<Rightarrow> string list" where
  "createFlags cc =
     (if lcc_Nesting cc = Some True then [''nest''] else []) @
     (if lcc_Privileged cc = Some True then [''priv''] else []) @
     (if lcc_VM cc = Some True then [''vm''] else [])"

definition createString :: "login_core \<Rightarrow> string" where
  "createString lu =
     (let remote = (if lu_Remote lu \<noteq> [] then lu_Remote lu @ '':'' else []);
          create = (if lcc_Ephemeral (lu_CreateConfig lu) = Some True then ''~'' else ''+'');
          cc = [] # createOptions (lu_CreateConfig lu);
          conf = [] # createFlags (lu_CreateConfig lu);
          options = (if length cc > 1 then join ''+'' cc else []);
          options = options @ (if length conf > 1 then join ''+'' conf else [])
      in create @ remote @ lu_Instance lu @ ''.'' @ lu_Project lu @ options)"

function String :: "LoginUser option \<Rightarrow> string" where
  "String None = []"
| "String (Some (LoginUser lu ex rm)) =
     (let remote = (if lu_Remote lu \<noteq> [] then lu_Remote lu @ '':'' else []);
          persistent = (if lu_Persistent lu then ''%'' else [])
      in if lu_CreateInstance lu then createString lu
         else if lu_Command lu \<noteq> []
         then (if lu_Command lu = ''explain'' \<and> ex \<noteq> None
               then ''/'' @ ''explain/'' @ String ex
               else if lu_Command lu = ''remove'' \<and> rm \<noteq> None
               then ''/'' @ (if lu_ForceRemove lu then ''remove-force'' else ''remove'') @ ''/'' @ String rm
               else ''/'' @ lu_Command lu @ ''@'' @ lu_User lu)
         else remote @ persistent @ lu_InstanceUser lu @ ''@'' @ lu_Instance lu @ ''.'' @
              lu_Project lu @ ''~'' @ lu_User lu)"
  by pat_completeness auto
termination
  by (relation "measure (size_option size)") (auto simp: Let_def)

declare String.simps [simp del]

definition FullInstance :: "LoginUser option \<Rightarrow> string" where
  "FullInstance lu =
     (case lu of None \<Rightarrow> [] | Some u \<Rightarrow> lu_Instance (lu_core u) @ ''.'' @ lu_Project (lu_core u))"

definition IsCommand :: "LoginUser \<Rightarrow> bool" where
  "IsCommand lu \<longleftrightarrow> lu_Command (lu_core lu) \<noteq> []"

definition Hash :: "LoginUser option \<Rightarrow> string" where
  "Hash lu =
     (case lu of None \<Rightarrow> []
      | Some (LoginUser u _ _) \<Rightarrow>
          join ''/'' [lu_Remote u, lu_User u, lu_Project u, lu_Instance u, lu_InstanceUser u])"

definition InstanceHash :: "LoginUser option \<Rightarrow> string" where
  "InstanceHash lu =
     (case lu of None \<Rightarrow> []
      | Some (LoginUser u _ _) \<Rightarrow> join ''/'' [lu_Remote u, lu_Project u, lu_Instance u])"

text \<open>\<open>groupMatch\<close>: the first group of \<open>a\<close> that occurs in \<open>b\<close>.\<close>

fun groupMatch :: "string list \<Rightarrow> string list \<Rightarrow> string option" where
  "groupMatch [] b = None"
| "groupMatch (i # a) b = (if List.member b i then Some i else groupMatch a b)"

text \<open>\<open>getGroupIds\<close>: the ids of the groups that \<open>user.LookupGroup\<close> knows.\<close>

definition getGroupIds :: "(string \<Rightarrow> string option) \<Rightarrow> string list \<Rightarrow> string list" where
  "getGroupIds lookup_group groups = List.map_filter lookup_group groups"

section \<open>Specification of the login syntax\<close>

text \<open>
  The concrete syntax of the README, \<open>[%][remote:][instance-user@]instance[.project][~host-user]\<close>,
  as a printer of its parts, and what each part sets.
\<close>

definition plain :: "string \<Rightarrow> bool" where
  "plain s \<longleftrightarrow> set s \<inter> set ''~+:@.%/'' = {}"

definition opt_before :: "char \<Rightarrow> string option \<Rightarrow> string" where
  "opt_before c part = (case part of None \<Rightarrow> [] | Some s \<Rightarrow> s @ [c])"

definition opt_after :: "char \<Rightarrow> string option \<Rightarrow> string" where
  "opt_after c part = (case part of None \<Rightarrow> [] | Some s \<Rightarrow> c # s)"

definition instance_string ::
  "string option \<Rightarrow> string option \<Rightarrow> string \<Rightarrow> string option \<Rightarrow> string" where
  "instance_string remote iuser inst project =
     opt_before (CHR '':'') remote @ opt_before (CHR ''@'') iuser @ inst @ opt_after (CHR ''.'') project"

definition plain_parts ::
  "string option \<Rightarrow> string option \<Rightarrow> string \<Rightarrow> string option \<Rightarrow> bool" where
  "plain_parts remote iuser inst project \<longleftrightarrow>
     pred_option plain remote \<and> pred_option plain iuser \<and> plain inst \<and> pred_option plain project"

definition set_instance ::
  "string option \<Rightarrow> string option \<Rightarrow> string \<Rightarrow> string option \<Rightarrow> login_core \<Rightarrow> login_core" where
  "set_instance remote iuser inst project lu =
     lu\<lparr>lu_Remote := case_option (lu_Remote lu) id remote,
        lu_InstanceUser := case_option (lu_InstanceUser lu) id iuser,
        lu_Instance := inst,
        lu_Project := (case project of
                         None \<Rightarrow> lu_Project lu
                       | Some p \<Rightarrow> if p = [] then ''default'' else p)\<rparr>"

text \<open>The host user of a login that names none.\<close>

definition default_user :: "os_env \<Rightarrow> string" where
  "default_user env = lu_User (setDefaults env empty_core)"

definition default_core :: "os_env \<Rightarrow> string \<Rightarrow> login_core" where
  "default_core env user =
     empty_core\<lparr>lu_OrigUser := user, lu_User := default_user env,
                lu_InstanceUser := ''root'', lu_Project := ''default''\<rparr>"

definition regular_string ::
  "bool \<Rightarrow> string option \<Rightarrow> string option \<Rightarrow> string \<Rightarrow> string option \<Rightarrow> (char \<times> string) option \<Rightarrow> string" where
  "regular_string persistent remote iuser inst project host =
     (if persistent then ''%'' else []) @ instance_string remote iuser inst project @
     (case host of None \<Rightarrow> [] | Some (c, h) \<Rightarrow> c # h)"

definition creation_string ::
  "bool \<Rightarrow> string option \<Rightarrow> string option \<Rightarrow> string \<Rightarrow> string option \<Rightarrow> string list \<Rightarrow> string option \<Rightarrow> string" where
  "creation_string ephemeral remote iuser inst project options host =
     (if ephemeral then ''~'' else ''+'') @ instance_string remote iuser inst project @
     concat (map (\<lambda>c. CHR ''+'' # c) options) @ opt_after (CHR ''~'') host"

section \<open>Lemmas\<close>

lemma plain_notin [simp]:
  assumes "plain s"
  shows "CHR ''~'' \<notin> set s" "CHR ''+'' \<notin> set s" "CHR '':'' \<notin> set s" "CHR ''@'' \<notin> set s"
    "CHR ''.'' \<notin> set s" "CHR ''%'' \<notin> set s" "CHR ''/'' \<notin> set s"
  using assms by (auto simp: plain_def)

lemmas login_parts = opt_before_def opt_after_def instance_string_def set_instance_def plain_parts_def

lemma default_core_eq: "(setDefaults env empty_core)\<lparr>lu_OrigUser := user\<rparr> = default_core env user"
  by (simp add: default_core_def default_user_def setDefaults_def empty_core_def)

lemma replace_40 [simp]: "CHR ''%'' \<notin> set s \<Longrightarrow> replace_all s (CHR ''%'' # xs) new = s"
  by (rule replace_all_absent [of "CHR ''%''"]) auto

lemma parseInstanceAndProject_parts:
  assumes "plain inst" and "pred_option plain project" and "lu_Project lu \<noteq> []"
  shows "parseInstanceAndProject (inst @ opt_after (CHR ''.'') project) lu =
         lu\<lparr>lu_Instance := inst, lu_Project := lu_Project (set_instance None None inst project lu)\<rparr>"
  using assms by (cases project) (auto simp: parseInstanceAndProject_def login_parts Let_def)

lemma parseInstanceAndUser_parts:
  assumes "plain_parts None iuser inst project" and "lu_Project lu \<noteq> []"
  shows "parseInstanceAndUser (instance_string None iuser inst project) lu =
         set_instance None iuser inst project lu"
proof -
  have no_pct: "CHR ''%'' \<notin> set (instance_string None iuser inst project)"
    using assms(1) by (cases iuser; cases project) (auto simp: login_parts)
  have no_at: "CHR ''@'' \<notin> set (inst @ opt_after (CHR ''.'') project)"
    using assms(1) by (cases project) (auto simp: login_parts)
  have ip: "plain inst" "pred_option plain project"
    using assms(1) by (auto simp: plain_parts_def)
  show ?thesis
  proof (cases iuser)
    case None
    then show ?thesis
      using no_pct no_at ip assms(2)
      by (simp add: parseInstanceAndUser_def instance_string_def opt_before_def
          parseInstanceAndProject_parts) (simp add: set_instance_def)
  next
    case (Some u)
    then have "CHR ''@'' \<notin> set u"
      using assms(1) by (simp add: plain_parts_def)
    then show ?thesis
      using Some no_pct ip assms(2)
      by (simp add: parseInstanceAndUser_def instance_string_def opt_before_def
          parseInstanceAndProject_parts) (simp add: set_instance_def split: option.split)
  qed
qed

lemma parseRemoteAndInstance_parts:
  assumes "plain_parts remote iuser inst project" and "lu_Project lu \<noteq> []"
  shows "parseRemoteAndInstance (instance_string remote iuser inst project) lu =
         set_instance remote iuser inst project lu"
proof -
  have rest: "plain_parts None iuser inst project"
    using assms(1) by (simp add: plain_parts_def)
  have split: "instance_string (Some r) iuser inst project =
               r @ CHR '':'' # instance_string None iuser inst project" for r
    by (simp add: instance_string_def opt_before_def)
  have no_colon: "CHR '':'' \<notin> set (instance_string None iuser inst project)"
    using rest by (cases iuser; cases project) (auto simp: login_parts)
  show ?thesis
  proof (cases remote)
    case None
    then show ?thesis
      using no_colon rest assms(2)
      by (simp add: parseRemoteAndInstance_def parseInstanceAndUser_parts)
  next
    case (Some r)
    then have "CHR '':'' \<notin> set r"
      using assms(1) by (simp add: plain_parts_def)
    then show ?thesis
      using Some rest assms(2)
      by (simp add: parseRemoteAndInstance_def split parseInstanceAndUser_parts)
        (simp add: set_instance_def split: option.split)
  qed
qed

lemma instance_string_set:
  assumes "plain_parts remote iuser inst project"
  shows "set (instance_string remote iuser inst project) \<inter> set ''~+%/'' = {}"
proof -
  have "set s \<inter> set ''~+%/'' = {}" if "plain s" for s
    using that by simp
  with assms show ?thesis
    by (cases remote; cases iuser; cases project) (simp_all add: login_parts Int_Un_distrib2)
qed

lemma instance_string_chars:
  assumes "plain_parts remote iuser inst project"
  shows "CHR ''~'' \<notin> set (instance_string remote iuser inst project)"
    and "CHR ''+'' \<notin> set (instance_string remote iuser inst project)"
  using instance_string_set [OF assms] by auto

lemma instance_string_hd:
  assumes "plain_parts remote iuser inst project" and "inst \<noteq> []"
  obtains c cs where "instance_string remote iuser inst project = c # cs"
    and "c \<notin> set ''~+%/''"
proof -
  from assms(2) obtain c cs where eq: "instance_string remote iuser inst project = c # cs"
    by (cases "instance_string remote iuser inst project") (auto simp: instance_string_def)
  then have "c \<in> set (instance_string remote iuser inst project)" by simp
  with instance_string_set [OF assms(1)] have "c \<notin> set ''~+%/''" by blast
  with eq show ?thesis by (rule that)
qed

lemma parseRegularInstance_parts:
  assumes parts: "plain_parts remote iuser inst project" and "inst \<noteq> []"
    and host: "\<And>c h. host = Some (c, h) \<Longrightarrow> c = CHR ''~'' \<or> c = CHR ''+'' \<and> CHR ''~'' \<notin> set h"
    and "lu_Project lu \<noteq> []"
  shows "parseRegularInstance (regular_string persistent remote iuser inst project host) lu =
         set_instance remote iuser inst project
           (lu\<lparr>lu_Persistent := persistent \<or> lu_Persistent lu, lu_User := case_option (lu_User lu) snd host\<rparr>)"
proof -
  let ?s = "instance_string remote iuser inst project"
  obtain c cs where hd: "?s = c # cs" and c: "c \<notin> set ''~+%/''"
    using instance_string_hd [OF parts \<open>inst \<noteq> []\<close>] .
  have cut: "cut_prefix (?s @ t) ''%'' = None" for t
    using c by (simp add: hd)
  note chars = instance_string_chars [OF parts]
  note set = parseRemoteAndInstance_parts [OF parts]
  show ?thesis
  proof (cases host)
    case None
    then show ?thesis
      using chars assms(4) cut [of "[]"]
      by (cases persistent) (simp_all add: parseRegularInstance_def regular_string_def set)
  next
    case (Some ch)
    obtain d h where ch: "ch = (d, h)" by (cases ch)
    from host Some ch consider "d = CHR ''~''" | "d = CHR ''+''" "CHR ''~'' \<notin> set h" by blast
    then show ?thesis
      using Some ch chars assms(4) cut [of "d # h"]
      by cases (cases persistent;
          simp add: parseRegularInstance_def regular_string_def set)+
  qed
qed

lemma isCreationFormat_simps [simp]:
  "\<not> isCreationFormat []"
  "isCreationFormat (c # cs) \<longleftrightarrow> c = CHR ''+'' \<or> c = CHR ''~''"
  by (simp_all add: isCreationFormat_def)

lemma parseLoginUser_creation:
  "isCreationFormat user \<Longrightarrow>
   parseLoginUser env user = LoginUser (parseCreationFormat user (default_core env user)) None None"
  by (simp add: parseLoginUser_def empty_LoginUser_def ParseFrom.simps default_core_eq Let_def)

lemma parseLoginUser_regular:
  "\<not> isCreationFormat user \<Longrightarrow> cut_prefix user ''/'' = None \<Longrightarrow>
   parseLoginUser env user = LoginUser (parseRegularInstance user (default_core env user)) None None"
  by (simp add: parseLoginUser_def empty_LoginUser_def ParseFrom.simps parseRegularFormat.simps
      default_core_eq Let_def)

lemma split_char_concat:
  "c \<notin> set x \<Longrightarrow> \<forall>o' \<in> set os. c \<notin> set o' \<Longrightarrow>
   split_char c (x @ concat (map (\<lambda>o'. c # o') os)) = x # os"
  by (induction os arbitrary: x) (simp_all add: split_char_append)

lemma parseCreateConfig_options:
  assumes "\<forall>c \<in> set (x # xs). CHR ''+'' \<notin> set c"
  shows "parseCreateConfig (x @ concat (map (\<lambda>c. CHR ''+'' # c) xs)) lu =
         lu\<lparr>lu_CreateConfig := fold parseCreateOption (x # xs) (lu_CreateConfig lu)\<rparr>"
proof (cases "x @ concat (map (\<lambda>c. CHR ''+'' # c) xs) = []")
  case True
  then have "x = []" "xs = []" by auto
  then show ?thesis by (simp add: parseCreateConfig_def parseCreateOption_def)
next
  case False
  with assms show ?thesis by (auto simp: parseCreateConfig_def split_char_concat)
qed

lemma parseCreationFormat_parts:
  assumes parts: "plain_parts remote iuser inst project"
    and options: "\<forall>c \<in> set options. CHR ''+'' \<notin> set c \<and> CHR ''~'' \<notin> set c"
    and project: "lu_Project lu \<noteq> []"
  shows "parseCreationFormat (creation_string ephemeral remote iuser inst project options host) lu =
         (set_instance remote iuser inst project lu)
           \<lparr>lu_User := case_option (lu_User lu) id host, lu_CreateInstance := True,
            lu_CreateConfig := fold parseCreateOption options
              (empty_LoginCreateConfig\<lparr>lcc_Ephemeral := if ephemeral then Some True else None\<rparr>)\<rparr>"
proof -
  let ?i = "instance_string remote iuser inst project"
  let ?os = "concat (map (\<lambda>c. CHR ''+'' # c) options)"
  note chars = instance_string_chars [OF parts]
  have no_tilde: "CHR ''~'' \<notin> set (?i @ ?os)" using chars options by auto
  have cut_host: "cut_char (CHR ''~'') (?i @ ?os @ CHR ''~'' # h) = Some (?i @ ?os, h)" for h
    using cut_char_append [OF no_tilde, of h] by simp
  have cfg: "case_prod (\<lambda>i c. parseCreateConfig c (parseRemoteAndInstance i l))
               (case cut_char (CHR ''+'') (?i @ ?os) of Some (i, s) \<Rightarrow> (i, s) | None \<Rightarrow> (?i @ ?os, [])) =
             (set_instance remote iuser inst project l)
               \<lparr>lu_CreateConfig := fold parseCreateOption options (lu_CreateConfig l)\<rparr>"
    if "lu_Project l \<noteq> []" for l
  proof (cases options)
    case Nil
    with that chars show ?thesis
      by (simp add: parseRemoteAndInstance_parts [OF parts] parseCreateConfig_def)
        (simp add: set_instance_def)
  next
    case (Cons x xs)
    with that chars options show ?thesis
      by (simp add: parseRemoteAndInstance_parts [OF parts] parseCreateConfig_options)
        (simp add: set_instance_def)
  qed
  show ?thesis
    using project no_tilde
    by (cases host; cases ephemeral)
      (simp_all add: parseCreationFormat_def creation_string_def opt_after_def cut_host cfg
        empty_LoginCreateConfig_def, simp_all add: set_instance_def split: option.split)
qed

section \<open>Parsing the documented syntax\<close>

text \<open>
  C1. A regular login string \<open>[%][remote:][instance-user@]instance[.project][~host-user]\<close> (or
  with \<open>+host-user\<close>), whatever optional parts it has, is parsed into exactly these parts; a part
  that is absent gets its documented default: user \<open>root\<close> in the instance, project
  \<open>default\<close>, the process owner as the host user.
\<close>

theorem parse_regular:
  assumes parts: "plain_parts remote iuser inst project" and inst: "inst \<noteq> []"
    and host: "\<And>c h. host = Some (c, h) \<Longrightarrow> c = CHR ''~'' \<or> c = CHR ''+'' \<and> CHR ''~'' \<notin> set h"
  shows "parseLoginUser env (regular_string persistent remote iuser inst project host) =
    LoginUser
      ((default_core env (regular_string persistent remote iuser inst project host))
         \<lparr>lu_Remote := case_option [] id remote,
          lu_User := case_option (default_user env) snd host,
          lu_Instance := inst,
          lu_Project := (case project of None \<Rightarrow> ''default'' | Some p \<Rightarrow> if p = [] then ''default'' else p),
          lu_InstanceUser := case_option ''root'' id iuser,
          lu_Persistent := persistent\<rparr>)
      None None"
proof -
  let ?s = "regular_string persistent remote iuser inst project host"
  obtain c cs where "instance_string remote iuser inst project = c # cs" "c \<notin> set ''~+%/''"
    using instance_string_hd [OF parts inst] .
  then have "\<not> isCreationFormat ?s" "cut_prefix ?s ''/'' = None"
    by (simp_all add: regular_string_def)
  from parseLoginUser_regular [OF this] parseRegularInstance_parts [OF parts inst host]
  show ?thesis
    by (simp add: default_core_def empty_core_def set_instance_def split: option.split)
qed

text \<open>
  A creation login string \<open>[+|~][remote:][user@]instance[.project][+option]*[~host-user]\<close> is
  parsed into its instance parts, its host user, and the options applied from left to right to a
  configuration that is ephemeral exactly when the string starts with \<open>~\<close>.
\<close>

theorem parse_creation:
  assumes parts: "plain_parts remote iuser inst project"
    and options: "\<forall>c \<in> set options. CHR ''+'' \<notin> set c \<and> CHR ''~'' \<notin> set c"
  shows "parseLoginUser env (creation_string ephemeral remote iuser inst project options host) =
    LoginUser
      ((default_core env (creation_string ephemeral remote iuser inst project options host))
         \<lparr>lu_Remote := case_option [] id remote,
          lu_User := case_option (default_user env) id host,
          lu_Instance := inst,
          lu_Project := (case project of None \<Rightarrow> ''default'' | Some p \<Rightarrow> if p = [] then ''default'' else p),
          lu_InstanceUser := case_option ''root'' id iuser,
          lu_CreateInstance := True,
          lu_CreateConfig := fold parseCreateOption options
            (empty_LoginCreateConfig\<lparr>lcc_Ephemeral := if ephemeral then Some True else None\<rparr>)\<rparr>)
      None None"
proof -
  let ?s = "creation_string ephemeral remote iuser inst project options host"
  have "isCreationFormat ?s" by (simp add: creation_string_def)
  from parseLoginUser_creation [OF this] parseCreationFormat_parts [OF parts options]
  show ?thesis
    by (simp add: default_core_def empty_core_def set_instance_def split: option.split)
qed

theorem parse_regular_witness:
  "parseLoginUser \<lparr>getuid = 0, lookup_id = \<lambda>_. None\<rparr> ''%r:bob@web.prod~alice'' =
   LoginUser
     (empty_core\<lparr>lu_OrigUser := ''%r:bob@web.prod~alice'', lu_Remote := ''r'', lu_User := ''alice'',
        lu_Instance := ''web'', lu_Project := ''prod'', lu_InstanceUser := ''bob'',
        lu_Persistent := True\<rparr>) None None"
  using parse_regular [of "Some ''r''" "Some ''bob''" "''web''" "Some ''prod''"
      "Some (CHR ''~'', ''alice'')" "\<lparr>getuid = 0, lookup_id = \<lambda>_. None\<rparr>" True]
  by (simp add: regular_string_def login_parts plain_def default_core_def empty_core_def)

theorem parse_creation_witness:
  "parseLoginUser \<lparr>getuid = 0, lookup_id = \<lambda>_. None\<rparr> ''~web+images:alpine/3+m2+nest~alice'' =
   LoginUser
     (empty_core\<lparr>lu_OrigUser := ''~web+images:alpine/3+m2+nest~alice'', lu_User := ''alice'',
        lu_Instance := ''web'', lu_Project := ''default'', lu_InstanceUser := ''root'',
        lu_CreateInstance := True,
        lu_CreateConfig := empty_LoginCreateConfig\<lparr>lcc_Image := Some ''images:alpine/3'',
          lcc_Memory := Some 2, lcc_Ephemeral := Some True, lcc_Nesting := Some True\<rparr>\<rparr>) None None"
proof -
  have "fold parseCreateOption [''images:alpine/3'', ''m2'', ''nest'']
          (empty_LoginCreateConfig\<lparr>lcc_Ephemeral := Some True\<rparr>) =
        empty_LoginCreateConfig\<lparr>lcc_Image := Some ''images:alpine/3'',
          lcc_Memory := Some 2, lcc_Ephemeral := Some True, lcc_Nesting := Some True\<rparr>"
    by code_simp
  then show ?thesis
    using parse_creation [of None None "''web''" None "[''images:alpine/3'', ''m2'', ''nest'']"
        "\<lparr>getuid = 0, lookup_id = \<lambda>_. None\<rparr>" True "Some ''alice''"]
    by (simp add: creation_string_def login_parts plain_def default_core_def empty_core_def
        del: fold.simps plain_notin)
qed

section \<open>Printing and parsing again\<close>

text \<open>
  The logins whose printed form carries all their parts: names without separators, an option
  list that the syntax can express, no host user or instance user on a creation login (the
  printer leaves them out), and not both a remote and the persistent flag (the printer puts
  the remote first, where the parser no longer sees the flag).
\<close>

definition wf_create :: "LoginCreateConfig \<Rightarrow> bool" where
  "wf_create cc \<longleftrightarrow>
     pred_option (\<lambda>i. CHR ''/'' \<in> set i \<and> hd i \<noteq> CHR ''%'' \<and> CHR ''+'' \<notin> set i \<and> CHR ''~'' \<notin> set i)
       (lcc_Image cc) \<and>
     list_all (\<lambda>p. CHR '','' \<notin> set p \<and> CHR ''+'' \<notin> set p \<and> CHR ''~'' \<notin> set p) (lcc_Profiles cc) \<and>
     pred_option in_int64 (lcc_Memory cc) \<and> pred_option in_int64 (lcc_CPU cc) \<and>
     pred_option in_int64 (lcc_Disk cc) \<and>
     lcc_Ephemeral cc \<noteq> Some False \<and> lcc_Nesting cc \<noteq> Some False \<and>
     lcc_Privileged cc \<noteq> Some False \<and> lcc_VM cc \<noteq> Some False"

definition printable_create :: "os_env \<Rightarrow> login_core \<Rightarrow> bool" where
  "printable_create env c \<longleftrightarrow>
     plain (lu_Remote c) \<and> plain (lu_Instance c) \<and> plain (lu_Project c) \<and> lu_Project c \<noteq> [] \<and>
     wf_create (lu_CreateConfig c) \<and>
     c = (default_core env (lu_OrigUser c))
           \<lparr>lu_Remote := lu_Remote c, lu_Instance := lu_Instance c, lu_Project := lu_Project c,
            lu_CreateInstance := True, lu_CreateConfig := lu_CreateConfig c\<rparr>"

definition printable_regular :: "login_core \<Rightarrow> bool" where
  "printable_regular c \<longleftrightarrow>
     plain_parts (Some (lu_Remote c)) (Some (lu_InstanceUser c)) (lu_Instance c) (Some (lu_Project c)) \<and>
     lu_Project c \<noteq> [] \<and> lu_Instance c \<noteq> [] \<and> (lu_Persistent c \<longrightarrow> lu_Remote c = []) \<and>
     c = empty_core
           \<lparr>lu_OrigUser := lu_OrigUser c, lu_Remote := lu_Remote c, lu_User := lu_User c,
            lu_Instance := lu_Instance c, lu_Project := lu_Project c,
            lu_InstanceUser := lu_InstanceUser c, lu_Persistent := lu_Persistent c\<rparr>"

definition command_core :: "os_env \<Rightarrow> string \<Rightarrow> string \<Rightarrow> bool \<Rightarrow> login_core" where
  "command_core env orig cmd force =
     empty_core\<lparr>lu_OrigUser := orig, lu_User := default_user env, lu_Command := cmd,
                lu_ForceRemove := force\<rparr>"

fun printable :: "os_env \<Rightarrow> LoginUser \<Rightarrow> bool" where
  "printable env (LoginUser c None None) \<longleftrightarrow> printable_regular c \<or> printable_create env c"
| "printable env (LoginUser c (Some e) None) \<longleftrightarrow>
     c = command_core env (lu_OrigUser c) ''explain'' False \<and> printable env e"
| "printable env (LoginUser c None (Some r)) \<longleftrightarrow>
     c = command_core env (lu_OrigUser c) ''remove'' (lu_ForceRemove c) \<and> printable env r"
| "printable env (LoginUser c (Some e) (Some r)) \<longleftrightarrow> False"

text \<open>The login with its original string replaced by the printed one, at every level.\<close>

fun reprinted :: "LoginUser \<Rightarrow> LoginUser" where
  "reprinted (LoginUser c ex rm) =
     LoginUser (c\<lparr>lu_OrigUser := String (Some (LoginUser c ex rm))\<rparr>)
       (map_option reprinted ex) (map_option reprinted rm)"

lemma parseCreateOption_image:
  "CHR ''/'' \<in> set i \<Longrightarrow> hd i \<noteq> CHR ''%'' \<Longrightarrow> parseCreateOption i cc = cc\<lparr>lcc_Image := Some i\<rparr>"
  by (cases i) (auto simp: parseCreateOption_def)

lemma parseCreateOption_profile:
  "CHR '','' \<notin> set p \<Longrightarrow>
   parseCreateOption (CHR ''%'' # p) cc = cc\<lparr>lcc_Profiles := lcc_Profiles cc @ [p]\<rparr>"
  by (simp add: parseCreateOption_def trim_prefix_def)

lemma fold_profiles:
  "list_all (\<lambda>p. CHR '','' \<notin> set p) ps \<Longrightarrow>
   fold parseCreateOption (map (\<lambda>p. CHR ''%'' # p) ps) cc =
   cc\<lparr>lcc_Profiles := lcc_Profiles cc @ ps\<rparr>"
  by (induction ps arbitrary: cc) (simp_all add: parseCreateOption_profile)

lemma itoa_notin [simp]:
  "CHR ''/'' \<notin> set (itoa n)" "CHR ''+'' \<notin> set (itoa n)" "CHR ''~'' \<notin> set (itoa n)"
  by (auto dest!: itoa_chars simp: is_digit_def)

lemma parseCreateOption_number:
  assumes "in_int64 n"
  shows "parseCreateOption (CHR ''m'' # itoa n) cc = cc\<lparr>lcc_Memory := Some n\<rparr>"
    "parseCreateOption (CHR ''c'' # itoa n) cc = cc\<lparr>lcc_CPU := Some n\<rparr>"
    "parseCreateOption (CHR ''d'' # itoa n) cc = cc\<lparr>lcc_Disk := Some n\<rparr>"
  using assms by (simp_all add: parseCreateOption_def)

lemma parseCreateOption_flag:
  "parseCreateOption ''nest'' cc = cc\<lparr>lcc_Nesting := Some True\<rparr>"
  "parseCreateOption ''priv'' cc = cc\<lparr>lcc_Privileged := Some True\<rparr>"
  "parseCreateOption ''vm'' cc = cc\<lparr>lcc_VM := Some True\<rparr>"
  by (simp_all add: parseCreateOption_def)

lemmas parse_option = parseCreateOption_image parseCreateOption_number parseCreateOption_flag fold_profiles

lemma not_False_cases: "b \<noteq> Some False \<Longrightarrow> b = None \<or> b = Some True"
  by (cases b) auto

lemma fold_createOptions:
  assumes "wf_create cc"
  shows "fold parseCreateOption (createOptions cc)
           (empty_LoginCreateConfig\<lparr>lcc_Ephemeral := lcc_Ephemeral cc\<rparr>) =
         cc\<lparr>lcc_Nesting := None, lcc_Privileged := None, lcc_VM := None\<rparr>"
proof -
  have "list_all (\<lambda>p. CHR '','' \<notin> set p) (lcc_Profiles cc)"
    using assms by (simp add: wf_create_def list_all_iff)
  with assms show ?thesis
    by (cases "lcc_Image cc"; cases "lcc_Memory cc"; cases "lcc_CPU cc"; cases "lcc_Disk cc")
      (simp_all add: wf_create_def createOptions_def empty_LoginCreateConfig_def parse_option)
qed

lemma fold_createFlags:
  assumes "wf_create cc"
  shows "fold parseCreateOption (createFlags cc)
           (cc\<lparr>lcc_Nesting := None, lcc_Privileged := None, lcc_VM := None\<rparr>) = cc"
proof -
  from assms have "lcc_Nesting cc = None \<or> lcc_Nesting cc = Some True"
    "lcc_Privileged cc = None \<or> lcc_Privileged cc = Some True"
    "lcc_VM cc = None \<or> lcc_VM cc = Some True"
    by (auto simp: wf_create_def dest!: not_False_cases)
  then show ?thesis
    by (cases cc) (auto simp: createFlags_def parse_option)
qed

lemma create_option_chars:
  assumes "wf_create cc"
  shows "\<forall>c \<in> set (createOptions cc @ createFlags cc). CHR ''+'' \<notin> set c \<and> CHR ''~'' \<notin> set c"
  using assms
  by (cases "lcc_Image cc")
    (auto simp: wf_create_def createOptions_def createFlags_def list_all_iff split: option.splits if_splits)

lemma join_empty_head: "xs \<noteq> [] \<Longrightarrow> join [c] ([] # xs) = concat (map (\<lambda>x. c # x) xs)"
  by (induction xs rule: induct_list012) (auto simp: join_Cons)

lemma createString_parts:
  "createString c =
   creation_string (lcc_Ephemeral (lu_CreateConfig c) = Some True)
     (if lu_Remote c = [] then None else Some (lu_Remote c)) None (lu_Instance c) (Some (lu_Project c))
     (createOptions (lu_CreateConfig c) @ createFlags (lu_CreateConfig c)) None"
proof -
  have "(if length ([] # xs) > 1 then join ''+'' ([] # xs) else []) = concat (map (\<lambda>x. CHR ''+'' # x) xs)"
    for xs by (cases "xs = []") (simp_all add: join_empty_head del: join.simps(3))
  then show ?thesis
    by (simp add: createString_def creation_string_def instance_string_def opt_before_def opt_after_def Let_def
        del: One_nat_def)
qed

lemma parse_explain:
  "parseLoginUser env (''/explain/'' @ target) =
   LoginUser (command_core env (''/explain/'' @ target) ''explain'' False)
     (Some (parseLoginUser env target)) None"
proof -
  have "cut_char (CHR ''/'') (''explain/'' @ target) = Some (''explain'', target)"
    by simp
  then show ?thesis
    by (simp add: parseLoginUser_def empty_LoginUser_def ParseFrom.simps parseRegularFormat.simps
        Let_def setDefaults_def clearInstance_def command_core_def empty_core_def default_user_def)
qed

lemma parse_remove:
  assumes "cmd = (if force then ''remove-force'' else ''remove'')"
  shows "parseLoginUser env (''/'' @ cmd @ ''/'' @ target) =
   LoginUser (command_core env (''/'' @ cmd @ ''/'' @ target) ''remove'' force)
     None (Some (parseLoginUser env target))"
proof -
  have "CHR ''/'' \<notin> set cmd" and neq: "cmd \<noteq> ''explain''"
    and mem: "cmd \<in> set [''rm'', ''rm-f'', ''remove'', ''remove-force'']"
    and forced: "(cmd = ''rm-f'' \<or> cmd = ''remove-force'') = force"
    using assms by (simp_all split: if_splits)
  then have "cut_char (CHR ''/'') (cmd @ CHR ''/'' # target) = Some (cmd, target)"
    by (intro cut_char_append)
  then show ?thesis
    using neq mem forced
    by (simp add: parseLoginUser_def empty_LoginUser_def ParseFrom.simps parseRegularFormat.simps
        Let_def setDefaults_def clearInstance_def command_core_def empty_core_def default_user_def)
qed

lemma parse_printed_create:
  assumes "printable_create env c"
  shows "parseLoginUser env (createString c) = LoginUser (c\<lparr>lu_OrigUser := createString c\<rparr>) None None"
proof -
  let ?cc = "lu_CreateConfig c"
  let ?r = "if lu_Remote c = [] then None else Some (lu_Remote c)"
  let ?base = "empty_LoginCreateConfig
    \<lparr>lcc_Ephemeral := if lcc_Ephemeral ?cc = Some True then Some True else None\<rparr>"
  from assms have wf: "wf_create ?cc" and parts: "plain_parts ?r None (lu_Instance c) (Some (lu_Project c))"
    and project: "lu_Project c \<noteq> []"
    by (auto simp: printable_create_def plain_parts_def)
  from assms obtain orig remote inst proj cc where
    c: "c = (default_core env orig)\<lparr>lu_Remote := remote, lu_Instance := inst, lu_Project := proj,
              lu_CreateInstance := True, lu_CreateConfig := cc\<rparr>"
    unfolding printable_create_def by metis
  have "?base = empty_LoginCreateConfig\<lparr>lcc_Ephemeral := lcc_Ephemeral ?cc\<rparr>"
    using wf not_False_cases [of "lcc_Ephemeral ?cc"] by (auto simp: wf_create_def)
  with fold_createFlags [OF wf] fold_createOptions [OF wf]
  have fold: "fold parseCreateOption (createOptions ?cc @ createFlags ?cc) ?base = ?cc"
    by simp
  have create: "isCreationFormat (createString c)"
    by (simp add: createString_parts creation_string_def)
  have "lu_Project (default_core env (createString c)) \<noteq> []"
    by (simp add: default_core_def)
  from parseLoginUser_creation [OF create, of env]
    parseCreationFormat_parts [OF parts create_option_chars [OF wf] this,
      of "lcc_Ephemeral ?cc = Some True" None, unfolded fold]
  show ?thesis
    using project by (simp add: createString_parts [symmetric])
      (simp add: c set_instance_def default_core_def empty_core_def)
qed

lemma parse_printed_regular:
  assumes "printable_regular c"
  shows "parseLoginUser env (String (Some (LoginUser c None None))) =
         LoginUser (c\<lparr>lu_OrigUser := String (Some (LoginUser c None None))\<rparr>) None None"
proof -
  let ?r = "if lu_Remote c = [] then None else Some (lu_Remote c)"
  let ?s = "regular_string (lu_Persistent c) ?r (Some (lu_InstanceUser c)) (lu_Instance c)
              (Some (lu_Project c)) (Some (CHR ''~'', lu_User c))"
  from assms have parts: "plain_parts ?r (Some (lu_InstanceUser c)) (lu_Instance c) (Some (lu_Project c))"
    and inst: "lu_Instance c \<noteq> []" and "lu_Persistent c \<longrightarrow> lu_Remote c = []"
    by (auto simp: printable_regular_def plain_parts_def)
  from assms obtain orig remote user inst project iuser pers where
    c: "c = empty_core\<lparr>lu_OrigUser := orig, lu_Remote := remote, lu_User := user,
            lu_Instance := inst, lu_Project := project,
            lu_InstanceUser := iuser, lu_Persistent := pers\<rparr>" and "project \<noteq> []"
    unfolding printable_regular_def by metis
  have str: "String (Some (LoginUser c None None)) = ?s"
    using \<open>lu_Persistent c \<longrightarrow> lu_Remote c = []\<close>
    by (simp add: c String.simps regular_string_def instance_string_def opt_before_def
        opt_after_def empty_core_def)
  obtain x xs where "instance_string ?r (Some (lu_InstanceUser c)) (lu_Instance c) (Some (lu_Project c)) = x # xs"
    "x \<notin> set ''~+%/''"
    using instance_string_hd [OF parts inst] .
  then have "\<not> isCreationFormat ?s" "cut_prefix ?s ''/'' = None"
    by (simp_all add: regular_string_def)
  note step = parseLoginUser_regular [OF this, of env]
  have "lu_Project (default_core env ?s) \<noteq> []"
    by (simp add: default_core_def)
  from step parseRegularInstance_parts [OF parts inst _ this, of "Some (CHR ''~'', lu_User c)" "lu_Persistent c"]
  have "parseLoginUser env ?s = LoginUser
      (set_instance ?r (Some (lu_InstanceUser c)) (lu_Instance c) (Some (lu_Project c))
         ((default_core env ?s)\<lparr>lu_Persistent := lu_Persistent c, lu_User := lu_User c\<rparr>)) None None"
    by (simp add: default_core_def empty_core_def)
  with \<open>project \<noteq> []\<close> show ?thesis
    unfolding str by (simp add: c default_core_def set_instance_def empty_core_def)
qed

lemma printable_create_flag: "printable_create env c \<Longrightarrow> lu_CreateInstance c"
  by (cases c) (simp add: printable_create_def default_core_def empty_core_def)

lemma String_create: "lu_CreateInstance c \<Longrightarrow> String (Some (LoginUser c ex rm)) = createString c"
  by (simp add: String.simps Let_def)

lemma String_explain:
  "c = command_core env orig ''explain'' force \<Longrightarrow>
   String (Some (LoginUser c (Some e) rm)) = ''/explain/'' @ String (Some e)"
  by (simp add: String.simps Let_def command_core_def empty_core_def)

lemma String_remove:
  "c = command_core env orig ''remove'' force \<Longrightarrow>
   String (Some (LoginUser c ex (Some r))) =
   ''/'' @ (if force then ''remove-force'' else ''remove'') @ ''/'' @ String (Some r)"
  by (simp add: String.simps Let_def command_core_def empty_core_def)



section \<open>What every parsed login satisfies\<close>

lemma parseInstanceAndProject_frame [simp]:
  "lu_Command (parseInstanceAndProject s lu) = lu_Command lu"
  "lu_Persistent (parseInstanceAndProject s lu) = lu_Persistent lu"
  "lu_CreateInstance (parseInstanceAndProject s lu) = lu_CreateInstance lu"
  "lu_OrigUser (parseInstanceAndProject s lu) = lu_OrigUser lu"
  "lu_ForceRemove (parseInstanceAndProject s lu) = lu_ForceRemove lu"
  by (simp_all add: parseInstanceAndProject_def Let_def split: option.split prod.split)

lemma parseInstanceAndProject_names:
  "lu_Project (parseInstanceAndProject s lu) \<noteq> []"
  "CHR ''.'' \<notin> set (lu_Instance (parseInstanceAndProject s lu))"
  by (auto simp: parseInstanceAndProject_def Let_def cut_char_Some cut_char_None split: option.splits)

lemma parseInstanceAndUser_frame [simp]:
  "lu_Command (parseInstanceAndUser s lu) = lu_Command lu"
  "lu_Persistent (parseInstanceAndUser s lu) = lu_Persistent lu"
  "lu_CreateInstance (parseInstanceAndUser s lu) = lu_CreateInstance lu"
  "lu_OrigUser (parseInstanceAndUser s lu) = lu_OrigUser lu"
  "lu_ForceRemove (parseInstanceAndUser s lu) = lu_ForceRemove lu"
  by (simp_all add: parseInstanceAndUser_def Let_def split: option.split prod.split)

lemma parseInstanceAndUser_names:
  "lu_Project (parseInstanceAndUser s lu) \<noteq> []" "CHR ''.'' \<notin> set (lu_Instance (parseInstanceAndUser s lu))"
  by (simp_all add: parseInstanceAndUser_def parseInstanceAndProject_names Let_def split: option.split prod.split)

lemma parseRemoteAndInstance_frame [simp]:
  "lu_Command (parseRemoteAndInstance s lu) = lu_Command lu"
  "lu_Persistent (parseRemoteAndInstance s lu) = lu_Persistent lu"
  "lu_CreateInstance (parseRemoteAndInstance s lu) = lu_CreateInstance lu"
  "lu_OrigUser (parseRemoteAndInstance s lu) = lu_OrigUser lu"
  "lu_ForceRemove (parseRemoteAndInstance s lu) = lu_ForceRemove lu"
  by (simp_all add: parseRemoteAndInstance_def Let_def split: option.split prod.split)

lemma parseRemoteAndInstance_names:
  "lu_Project (parseRemoteAndInstance s lu) \<noteq> []" "CHR ''.'' \<notin> set (lu_Instance (parseRemoteAndInstance s lu))"
  by (simp_all add: parseRemoteAndInstance_def parseInstanceAndUser_names split: option.split prod.split)

lemma parseRegularInstance_shape:
  "lu_Project (parseRegularInstance s lu) \<noteq> []"
  "CHR ''.'' \<notin> set (lu_Instance (parseRegularInstance s lu))"
  "lu_Command (parseRegularInstance s lu) = lu_Command lu"
  "lu_Persistent (parseRegularInstance s lu) \<longleftrightarrow> lu_Persistent lu \<or> has_prefix s ''%''"
  "lu_CreateInstance (parseRegularInstance s lu) = lu_CreateInstance lu"
  "lu_OrigUser (parseRegularInstance s lu) = lu_OrigUser lu"
  "lu_ForceRemove (parseRegularInstance s lu) = lu_ForceRemove lu"
  by (simp_all add: parseRegularInstance_def parseRemoteAndInstance_names cut_prefix_def
      split: option.split prod.split)

lemma parseCreateConfig_frame [simp]:
  "lu_Project (parseCreateConfig s lu) = lu_Project lu"
  "lu_Instance (parseCreateConfig s lu) = lu_Instance lu"
  "lu_Command (parseCreateConfig s lu) = lu_Command lu"
  "lu_Persistent (parseCreateConfig s lu) = lu_Persistent lu"
  "lu_CreateInstance (parseCreateConfig s lu) = lu_CreateInstance lu"
  "lu_OrigUser (parseCreateConfig s lu) = lu_OrigUser lu"
  "lu_ForceRemove (parseCreateConfig s lu) = lu_ForceRemove lu"
  by (simp_all add: parseCreateConfig_def)

lemma parseCreationFormat_shape:
  "lu_Project (parseCreationFormat s lu) \<noteq> []"
  "CHR ''.'' \<notin> set (lu_Instance (parseCreationFormat s lu))"
  "lu_Command (parseCreationFormat s lu) = lu_Command lu"
  "lu_Persistent (parseCreationFormat s lu) = lu_Persistent lu"
  "lu_CreateInstance (parseCreationFormat s lu)"
  "lu_OrigUser (parseCreationFormat s lu) = lu_OrigUser lu"
  "lu_ForceRemove (parseCreationFormat s lu) = lu_ForceRemove lu"
  by (simp_all add: parseCreationFormat_def parseRemoteAndInstance_names Let_def split: option.split prod.split)

lemmas parse_shape_facts = parseRegularInstance_shape parseCreationFormat_shape

definition login_shape :: "string \<Rightarrow> LoginUser \<Rightarrow> bool" where
  "login_shape s u \<longleftrightarrow>
     (let c = lu_core u
      in lu_OrigUser c = s \<and>
         (lu_CreateInstance c \<longleftrightarrow> isCreationFormat s) \<and>
         (lu_Persistent c \<longleftrightarrow> has_prefix s ''%'') \<and>
         (if has_prefix s ''/''
          then lu_Instance c = [] \<and> lu_Project c = [] \<and> lu_InstanceUser c = [] \<and> lu_Remote c = []
          else lu_Command c = [] \<and> lu_ExplainUser u = None \<and> lu_RemoveUser u = None \<and>
               lu_Project c \<noteq> [] \<and> CHR ''.'' \<notin> set (lu_Instance c)) \<and>
         (lu_ForceRemove c \<longrightarrow> lu_Command c = ''remove'') \<and>
         (lu_ExplainUser u \<noteq> None \<longleftrightarrow> lu_Command c = ''explain'' \<and> has_prefix s ''/explain/'') \<and>
         (lu_RemoveUser u \<noteq> None \<longrightarrow> lu_Command c = ''remove''))"

lemma has_prefix_cut:
  assumes "c \<notin> set name"
  shows "has_prefix s (name @ [c]) \<longleftrightarrow> (\<exists>t. cut_char c s = Some (name, t))"
proof
  assume "has_prefix s (name @ [c])"
  then have "s = (name @ [c]) @ drop (length (name @ [c])) s"
    unfolding has_prefix_def by (metis append_take_drop_id)
  then have "s = name @ c # drop (length (name @ [c])) s" by simp
  with assms show "\<exists>t. cut_char c s = Some (name, t)" by (metis cut_char_append)
qed (auto simp: cut_char_Some has_prefix_def)

lemma parse_command_cases:
  "parseLoginUser env (CHR ''/'' # cmd) =
   (case cut_char (CHR ''/'') cmd of
      None \<Rightarrow> LoginUser (command_core env (CHR ''/'' # cmd) cmd False) None None
    | Some (name, target) \<Rightarrow>
        let t = Some (parseLoginUser env target); core = command_core env (CHR ''/'' # cmd)
        in if name = ''explain'' then LoginUser (core name False) t None
           else if name \<in> set [''rm'', ''rm-f'', ''remove'', ''remove-force'']
           then LoginUser (core ''remove'' (name = ''rm-f'' \<or> name = ''remove-force'')) None t
           else LoginUser (core name False) None None)"
proof -
  have core: "clearInstance ((setDefaults env empty_core)\<lparr>lu_OrigUser := s, lu_Command := name, lu_ForceRemove := f\<rparr>) =
        command_core env s name f"
       "clearInstance ((setDefaults env empty_core)\<lparr>lu_OrigUser := s, lu_Command := name\<rparr>) =
        command_core env s name False" for s name f
    by (simp_all add: clearInstance_def setDefaults_def command_core_def empty_core_def default_user_def)
  show ?thesis
    by (simp add: parseLoginUser_def empty_LoginUser_def ParseFrom.simps parseRegularFormat.simps
        Let_def core [simplified] del: set_simps split: option.split prod.split)
qed

text \<open>
  C19. Every parsed login, whatever the string: it creates an instance exactly when the string starts
  with \<open>+\<close> or \<open>~\<close>, is persistent exactly when it starts with \<open>%\<close>; a command login
  (\<open>/...\<close>) names no instance, project, user or remote, and any other login has no command, no
  nested login, a non-empty project and an instance name without a dot; forced removal and a
  removal target come only with the command \<open>remove\<close>.
\<close>

theorem parse_login_shape: "login_shape s (parseLoginUser env s)"
proof (cases "isCreationFormat s")
  case True
  then have "\<not> has_prefix s ''%''" "\<not> has_prefix s ''/''" "\<not> has_prefix s ''/explain/''"
    by (auto simp: isCreationFormat_def split: list.splits)
  with True show ?thesis
    by (simp add: parseLoginUser_creation login_shape_def parse_shape_facts)
      (simp add: default_core_def empty_core_def)
next
  case False
  show ?thesis
  proof (cases "cut_prefix s ''/''")
    case None
    then have "\<not> has_prefix s ''/''" "\<not> has_prefix s ''/explain/''"
      by (auto simp: cut_prefix_def has_prefix_def split: if_splits) (cases s; simp)+
    with None False show ?thesis
      by (simp add: parseLoginUser_regular login_shape_def parse_shape_facts)
        (simp add: default_core_def empty_core_def)
  next
    case (Some cmd)
    then have s: "s = CHR ''/'' # cmd" by (simp add: cut_prefix_Some)
    have explain: "has_prefix s ''/explain/'' \<longleftrightarrow> (\<exists>t. cut_char (CHR ''/'') cmd = Some (''explain'', t))"
      unfolding s using has_prefix_cut [of "CHR ''/''" "''explain''" cmd] by simp
    show ?thesis
      unfolding login_shape_def explain
      by (simp add: s parse_command_cases command_core_def empty_core_def Let_def
          split: option.split)
  qed
qed

section \<open>Cache keys and groups\<close>

text \<open>The number of separators in a joined key.\<close>

lemma count_join:
  "xs \<noteq> [] \<Longrightarrow>
   count_list (join [c] xs) c = length xs - 1 + sum_list (map (\<lambda>x. count_list x c) xs)"
  by (induction "[c]" xs rule: join.induct) auto

lemma join_inject:
  assumes "join [c] xs = join [c] ys" and "\<forall>x \<in> set xs. c \<notin> set x"
    and "length xs = length ys" and "xs \<noteq> []"
  shows "xs = ys"
proof -
  from assms have ne: "ys \<noteq> []" by auto
  have zero: "sum_list (map (\<lambda>x. count_list x c) zs) = 0 \<longleftrightarrow> (\<forall>z \<in> set zs. c \<notin> set z)" for zs
    by (auto simp: count_list_0_iff)
  from assms zero [of xs] count_join [OF assms(4), of c] count_join [OF ne, of c]
  have "sum_list (map (\<lambda>x. count_list x c) ys) = 0" by simp
  with zero [of ys] have "\<forall>y \<in> set ys. c \<notin> set y" by blast
  with split_join [OF assms(4,2)] split_join [OF ne] assms(1) show ?thesis by simp
qed

definition key_parts :: "login_core \<Rightarrow> string list" where
  "key_parts c = [lu_Remote c, lu_User c, lu_Project c, lu_Instance c, lu_InstanceUser c]"

text \<open>
  The key under which the validity of a login is cached determines the remote, host user,
  project, instance and instance user: a login whose parts have no slash shares its key with no
  other login, not even with one whose parts do contain slashes.
\<close>

theorem hash_inject:
  assumes "Hash (Some u) = Hash (Some v)"
    and "\<forall>p \<in> set (key_parts (lu_core u)). CHR ''/'' \<notin> set p"
  shows "key_parts (lu_core u) = key_parts (lu_core v)"
proof -
  have "Hash (Some w) = join ''/'' (key_parts (lu_core w))" for w
    by (cases w) (simp add: Hash_def key_parts_def del: join.simps)
  with assms show ?thesis
    by (intro join_inject [of "CHR ''/''"]) (auto simp: key_parts_def)
qed

theorem hash_inject_witness:
  "key_parts (lu_core (LoginUser (empty_core\<lparr>lu_Instance := ''web''\<rparr>) None None)) =
   key_parts (lu_core (LoginUser (empty_core\<lparr>lu_Instance := ''web'', lu_Persistent := True\<rparr>) None None))"
  by (rule hash_inject) (simp_all add: Hash_def key_parts_def empty_core_def)

lemma ex_first_Cons:
  "(\<exists>xs ys. i # a = xs @ g # ys \<and> g \<in> set b \<and> set xs \<inter> set b = {}) \<longleftrightarrow>
   (if i \<in> set b then g = i
    else \<exists>xs ys. a = xs @ g # ys \<and> g \<in> set b \<and> set xs \<inter> set b = {})" (is "?l \<longleftrightarrow> ?r")
proof
  assume ?l
  then obtain xs ys where xs: "i # a = xs @ g # ys" "g \<in> set b" "set xs \<inter> set b = {}" by blast
  then show ?r by (cases xs) auto
next
  assume r: ?r
  show ?l
  proof (cases "i \<in> set b")
    case True
    with r show ?thesis by (intro exI [of _ "[]"] exI [of _ a]) auto
  next
    case False
    with r obtain xs ys where "a = xs @ g # ys" "g \<in> set b" "set xs \<inter> set b = {}" by auto
    with False show ?thesis by (intro exI [of _ "i # xs"] exI [of _ ys]) auto
  qed
qed

text \<open>
  \<open>groupMatch\<close> finds a common group exactly when there is one, and the one it returns is the
  first of the allowed groups that the user has.
\<close>

theorem groupMatch_correct:
  "(groupMatch a b = None \<longleftrightarrow> set a \<inter> set b = {}) \<and>
   (groupMatch a b = Some g \<longleftrightarrow>
      (\<exists>xs ys. a = xs @ g # ys \<and> g \<in> set b \<and> set xs \<inter> set b = {}))"
proof (induction a)
  case (Cons i a)
  then show ?case
    unfolding ex_first_Cons by auto
qed simp

end
