(* ===== verification/Cache.thy ===== *)
theory Cache
  imports Go_Base "HOL-Library.AList_Mapping"
begin

text \<open>
  The expiring key-value cache of \<open>src/pkg/cache/cache.go\<close>. The struct \<open>cache\<close> is the record
  \<open>cache\<close>; a Go map is a \<open>mapping\<close>, the mutex has no counterpart because every operation is
  one atomic step. Each call of \<open>time.Now()\<close> is a parameter (\<open>UnixNano\<close>), and each loop
  over a map takes the order in which Go happens to visit the keys as a list. The callback
  \<open>onEvicted\<close> is an element of an arbitrary type and its calls are recorded in order.

  The contents are \<open>any\<close> values: one constructor per numeric type of the type switches, with
  the integers as words of their width (addition and subtraction of \<open>intN\<close> and \<open>uintN\<close>
  are the same on words) and the two floating-point types abstract, with their operations in the
  record \<open>float_ops\<close>.

  The locale \<open>expiring_store\<close> is the contract a client relies on: what a lookup returns after
  any history of writes, deletions, flushes and janitor runs. It is interpreted here on the cache
  and in \<open>Sharded\<close> on the sharded cache.
\<close>

section \<open>Model\<close>

subsection \<open>Data\<close>

datatype ('f32, 'f64, 'o) any =
    VInt "64 word" | VInt8 "8 word" | VInt16 "16 word" | VInt32 "32 word" | VInt64 "64 word"
  | VUint "64 word" | VUintptr "64 word" | VUint8 "8 word" | VUint16 "16 word" | VUint32 "32 word"
  | VUint64 "64 word" | VFloat32 'f32 | VFloat64 'f64 | VOther 'o

text \<open>The operations of the language on \<open>float32\<close> and \<open>float64\<close>.\<close>

record ('f32, 'f64) float_ops =
  f32_add :: "'f32 \<Rightarrow> 'f32 \<Rightarrow> 'f32"
  f32_sub :: "'f32 \<Rightarrow> 'f32 \<Rightarrow> 'f32"
  f64_add :: "'f64 \<Rightarrow> 'f64 \<Rightarrow> 'f64"
  f64_sub :: "'f64 \<Rightarrow> 'f64 \<Rightarrow> 'f64"
  f32_of_int64 :: "64 word \<Rightarrow> 'f32"
  f64_of_int64 :: "64 word \<Rightarrow> 'f64"
  f32_of_f64 :: "'f64 \<Rightarrow> 'f32"

record 'v Item =
  Object :: 'v
  Expiration :: int

record ('v, 'cb) cache =
  defaultExpiration :: int
  items :: "(string, 'v Item) mapping"
  onEvicted :: "'cb option"
  janitor :: "int option"
  evictions :: "('cb \<times> string \<times> 'v) list"

text \<open>The errors, with the key their messages name.\<close>

datatype cache_error =
    AlreadyExists string
  | DoesNotExist string
  | NotFound string
  | NotAnInteger string
  | NotAFloat string
  | WrongType string string

abbreviation NoExpiration :: int where "NoExpiration \<equiv> -1"
abbreviation DefaultExpiration :: int where "DefaultExpiration \<equiv> 0"

definition Expired :: "int \<Rightarrow> 'v Item \<Rightarrow> bool" where
  "Expired now item = (if Expiration item = 0 then False else now > Expiration item)"

subsection \<open>Writing and reading\<close>

definition set_item :: "int \<Rightarrow> string \<Rightarrow> 'v \<Rightarrow> int \<Rightarrow> ('v, 'cb) cache \<Rightarrow> ('v, 'cb) cache" where
  "set_item now k x d c =
     (let d = (if d = DefaultExpiration then defaultExpiration c else d);
          e = (if d > 0 then wrap64 (now + d) else 0)
      in c\<lparr>items := Mapping.update k \<lparr>Object = x, Expiration = e\<rparr> (items c)\<rparr>)"

definition cache_Set :: "int \<Rightarrow> string \<Rightarrow> 'v \<Rightarrow> int \<Rightarrow> ('v, 'cb) cache \<Rightarrow> ('v, 'cb) cache" where
  "cache_Set now k x d c =
     (let d = (if d = DefaultExpiration then defaultExpiration c else d);
          e = (if d > 0 then wrap64 (now + d) else 0)
      in c\<lparr>items := Mapping.update k \<lparr>Object = x, Expiration = e\<rparr> (items c)\<rparr>)"

definition SetDefault :: "int \<Rightarrow> string \<Rightarrow> 'v \<Rightarrow> ('v, 'cb) cache \<Rightarrow> ('v, 'cb) cache" where
  "SetDefault now k x c = cache_Set now k x DefaultExpiration c"

definition cache_get :: "int \<Rightarrow> string \<Rightarrow> ('v, 'cb) cache \<Rightarrow> 'v option" where
  "cache_get now k c =
     (case Mapping.lookup (items c) k of
        None \<Rightarrow> None
      | Some item \<Rightarrow>
          if Expiration item > 0 \<and> now > Expiration item then None else Some (Object item))"

definition cache_Get :: "int \<Rightarrow> string \<Rightarrow> ('v, 'cb) cache \<Rightarrow> 'v option" where
  "cache_Get now k c =
     (case Mapping.lookup (items c) k of
        None \<Rightarrow> None
      | Some item \<Rightarrow>
          if Expiration item > 0 \<and> now > Expiration item then None else Some (Object item))"

text \<open>The expiration time is \<^const>\<open>None\<close> where the code returns the zero \<open>time.Time\<close>.\<close>

definition GetWithExpiration :: "int \<Rightarrow> string \<Rightarrow> ('v, 'cb) cache \<Rightarrow> ('v \<times> int option) option" where
  "GetWithExpiration now k c =
     (case Mapping.lookup (items c) k of
        None \<Rightarrow> None
      | Some item \<Rightarrow>
          if Expiration item > 0
          then (if now > Expiration item then None else Some (Object item, Some (Expiration item)))
          else Some (Object item, None))"

text \<open>\<open>Add\<close> and \<open>Replace\<close> read the clock twice: in \<open>get\<close> and in \<open>set\<close>.\<close>

definition cache_Add ::
  "int \<Rightarrow> int \<Rightarrow> string \<Rightarrow> 'v \<Rightarrow> int \<Rightarrow> ('v, 'cb) cache \<Rightarrow> ('v, 'cb) cache \<times> cache_error option" where
  "cache_Add now now' k x d c =
     (if cache_get now k c \<noteq> None then (c, Some (AlreadyExists k))
      else (set_item now' k x d c, None))"

definition cache_Replace ::
  "int \<Rightarrow> int \<Rightarrow> string \<Rightarrow> 'v \<Rightarrow> int \<Rightarrow> ('v, 'cb) cache \<Rightarrow> ('v, 'cb) cache \<times> cache_error option" where
  "cache_Replace now now' k x d c =
     (if cache_get now k c = None then (c, Some (DoesNotExist k))
      else (set_item now' k x d c, None))"

subsection \<open>Arithmetic on the stored values\<close>

text \<open>
  The common frame of the numeric methods: find the item, fail when it is missing or expired,
  apply the type switch (or type assertion) \<open>f\<close> to its value, and store the new value under the
  old expiration.
\<close>

definition modify ::
  "int \<Rightarrow> string \<Rightarrow> ('v \<Rightarrow> cache_error + 'v \<times> 'r) \<Rightarrow> ('v, 'cb) cache \<Rightarrow>
   ('v, 'cb) cache \<times> (cache_error + 'r)" where
  "modify now k f c =
     (case Mapping.lookup (items c) k of
        None \<Rightarrow> (c, Inl (NotFound k))
      | Some v \<Rightarrow>
          if Expired now v then (c, Inl (NotFound k))
          else (case f (Object v) of
                  Inl e \<Rightarrow> (c, Inl e)
                | Inr (nv, r) \<Rightarrow> (c\<lparr>items := Mapping.update k (v\<lparr>Object := nv\<rparr>) (items c)\<rparr>, Inr r)))"

text \<open>The type switches of \<open>Increment\<close> and \<open>Decrement\<close>.\<close>

fun increment_switch ::
  "('f32, 'f64) float_ops \<Rightarrow> string \<Rightarrow> 64 word \<Rightarrow> ('f32, 'f64, 'o) any \<Rightarrow>
   cache_error + ('f32, 'f64, 'o) any \<times> unit" where
  "increment_switch fo k n (VInt v) = Inr (VInt (v + n), ())"
| "increment_switch fo k n (VInt8 v) = Inr (VInt8 (v + (ucast n)), ())"
| "increment_switch fo k n (VInt16 v) = Inr (VInt16 (v + (ucast n)), ())"
| "increment_switch fo k n (VInt32 v) = Inr (VInt32 (v + (ucast n)), ())"
| "increment_switch fo k n (VInt64 v) = Inr (VInt64 (v + n), ())"
| "increment_switch fo k n (VUint v) = Inr (VUint (v + n), ())"
| "increment_switch fo k n (VUintptr v) = Inr (VUintptr (v + n), ())"
| "increment_switch fo k n (VUint8 v) = Inr (VUint8 (v + (ucast n)), ())"
| "increment_switch fo k n (VUint16 v) = Inr (VUint16 (v + (ucast n)), ())"
| "increment_switch fo k n (VUint32 v) = Inr (VUint32 (v + (ucast n)), ())"
| "increment_switch fo k n (VUint64 v) = Inr (VUint64 (v + n), ())"
| "increment_switch fo k n (VFloat32 v) = Inr (VFloat32 (f32_add fo v (f32_of_int64 fo n)), ())"
| "increment_switch fo k n (VFloat64 v) = Inr (VFloat64 (f64_add fo v (f64_of_int64 fo n)), ())"
| "increment_switch fo k n (VOther v) = Inl (NotAnInteger k)"

fun decrement_switch ::
  "('f32, 'f64) float_ops \<Rightarrow> string \<Rightarrow> 64 word \<Rightarrow> ('f32, 'f64, 'o) any \<Rightarrow>
   cache_error + ('f32, 'f64, 'o) any \<times> unit" where
  "decrement_switch fo k n (VInt v) = Inr (VInt (v - n), ())"
| "decrement_switch fo k n (VInt8 v) = Inr (VInt8 (v - (ucast n)), ())"
| "decrement_switch fo k n (VInt16 v) = Inr (VInt16 (v - (ucast n)), ())"
| "decrement_switch fo k n (VInt32 v) = Inr (VInt32 (v - (ucast n)), ())"
| "decrement_switch fo k n (VInt64 v) = Inr (VInt64 (v - n), ())"
| "decrement_switch fo k n (VUint v) = Inr (VUint (v - n), ())"
| "decrement_switch fo k n (VUintptr v) = Inr (VUintptr (v - n), ())"
| "decrement_switch fo k n (VUint8 v) = Inr (VUint8 (v - (ucast n)), ())"
| "decrement_switch fo k n (VUint16 v) = Inr (VUint16 (v - (ucast n)), ())"
| "decrement_switch fo k n (VUint32 v) = Inr (VUint32 (v - (ucast n)), ())"
| "decrement_switch fo k n (VUint64 v) = Inr (VUint64 (v - n), ())"
| "decrement_switch fo k n (VFloat32 v) = Inr (VFloat32 (f32_sub fo v (f32_of_int64 fo n)), ())"
| "decrement_switch fo k n (VFloat64 v) = Inr (VFloat64 (f64_sub fo v (f64_of_int64 fo n)), ())"
| "decrement_switch fo k n (VOther v) = Inl (NotAnInteger k)"

definition cache_Increment ::
  "('f32, 'f64) float_ops \<Rightarrow> int \<Rightarrow> string \<Rightarrow> 64 word \<Rightarrow> (('f32, 'f64, 'o) any, 'cb) cache \<Rightarrow>
   (('f32, 'f64, 'o) any, 'cb) cache \<times> (cache_error + unit)" where
  "cache_Increment fo now k n c = modify now k (increment_switch fo k n) c"

definition cache_IncrementFloat ::
  "('f32, 'f64) float_ops \<Rightarrow> int \<Rightarrow> string \<Rightarrow> 'f64 \<Rightarrow> (('f32, 'f64, 'o) any, 'cb) cache \<Rightarrow>
   (('f32, 'f64, 'o) any, 'cb) cache \<times> (cache_error + unit)" where
  "cache_IncrementFloat fo now k n c =
     modify now k
       (\<lambda>v. case v of
              VFloat32 x \<Rightarrow> Inr (VFloat32 (f32_add fo x (f32_of_f64 fo n)), ())
            | VFloat64 x \<Rightarrow> Inr (VFloat64 (f64_add fo x n), ())
            | _ \<Rightarrow> Inl (NotAFloat k)) c"

definition IncrementInt ::
  "int \<Rightarrow> string \<Rightarrow> 64 word \<Rightarrow> (('f32, 'f64, 'o) any, 'cb) cache \<Rightarrow>
   (('f32, 'f64, 'o) any, 'cb) cache \<times> (cache_error + 64 word)" where
  "IncrementInt now k n c =
     modify now k
       (\<lambda>v. case v of VInt rv \<Rightarrow> Inr (VInt (rv + n), rv + n) | _ \<Rightarrow> Inl (WrongType ''int'' k)) c"

definition IncrementInt8 ::
  "int \<Rightarrow> string \<Rightarrow> 8 word \<Rightarrow> (('f32, 'f64, 'o) any, 'cb) cache \<Rightarrow>
   (('f32, 'f64, 'o) any, 'cb) cache \<times> (cache_error + 8 word)" where
  "IncrementInt8 now k n c =
     modify now k
       (\<lambda>v. case v of VInt8 rv \<Rightarrow> Inr (VInt8 (rv + n), rv + n) | _ \<Rightarrow> Inl (WrongType ''int8'' k)) c"

definition IncrementInt16 ::
  "int \<Rightarrow> string \<Rightarrow> 16 word \<Rightarrow> (('f32, 'f64, 'o) any, 'cb) cache \<Rightarrow>
   (('f32, 'f64, 'o) any, 'cb) cache \<times> (cache_error + 16 word)" where
  "IncrementInt16 now k n c =
     modify now k
       (\<lambda>v. case v of VInt16 rv \<Rightarrow> Inr (VInt16 (rv + n), rv + n) | _ \<Rightarrow> Inl (WrongType ''int16'' k)) c"

definition IncrementInt32 ::
  "int \<Rightarrow> string \<Rightarrow> 32 word \<Rightarrow> (('f32, 'f64, 'o) any, 'cb) cache \<Rightarrow>
   (('f32, 'f64, 'o) any, 'cb) cache \<times> (cache_error + 32 word)" where
  "IncrementInt32 now k n c =
     modify now k
       (\<lambda>v. case v of VInt32 rv \<Rightarrow> Inr (VInt32 (rv + n), rv + n) | _ \<Rightarrow> Inl (WrongType ''int32'' k)) c"

definition IncrementInt64 ::
  "int \<Rightarrow> string \<Rightarrow> 64 word \<Rightarrow> (('f32, 'f64, 'o) any, 'cb) cache \<Rightarrow>
   (('f32, 'f64, 'o) any, 'cb) cache \<times> (cache_error + 64 word)" where
  "IncrementInt64 now k n c =
     modify now k
       (\<lambda>v. case v of VInt64 rv \<Rightarrow> Inr (VInt64 (rv + n), rv + n) | _ \<Rightarrow> Inl (WrongType ''int64'' k)) c"

definition IncrementUint ::
  "int \<Rightarrow> string \<Rightarrow> 64 word \<Rightarrow> (('f32, 'f64, 'o) any, 'cb) cache \<Rightarrow>
   (('f32, 'f64, 'o) any, 'cb) cache \<times> (cache_error + 64 word)" where
  "IncrementUint now k n c =
     modify now k
       (\<lambda>v. case v of VUint rv \<Rightarrow> Inr (VUint (rv + n), rv + n) | _ \<Rightarrow> Inl (WrongType ''uint'' k)) c"

definition IncrementUintptr ::
  "int \<Rightarrow> string \<Rightarrow> 64 word \<Rightarrow> (('f32, 'f64, 'o) any, 'cb) cache \<Rightarrow>
   (('f32, 'f64, 'o) any, 'cb) cache \<times> (cache_error + 64 word)" where
  "IncrementUintptr now k n c =
     modify now k
       (\<lambda>v. case v of VUintptr rv \<Rightarrow> Inr (VUintptr (rv + n), rv + n) | _ \<Rightarrow> Inl (WrongType ''uintptr'' k)) c"

definition IncrementUint8 ::
  "int \<Rightarrow> string \<Rightarrow> 8 word \<Rightarrow> (('f32, 'f64, 'o) any, 'cb) cache \<Rightarrow>
   (('f32, 'f64, 'o) any, 'cb) cache \<times> (cache_error + 8 word)" where
  "IncrementUint8 now k n c =
     modify now k
       (\<lambda>v. case v of VUint8 rv \<Rightarrow> Inr (VUint8 (rv + n), rv + n) | _ \<Rightarrow> Inl (WrongType ''uint8'' k)) c"

definition IncrementUint16 ::
  "int \<Rightarrow> string \<Rightarrow> 16 word \<Rightarrow> (('f32, 'f64, 'o) any, 'cb) cache \<Rightarrow>
   (('f32, 'f64, 'o) any, 'cb) cache \<times> (cache_error + 16 word)" where
  "IncrementUint16 now k n c =
     modify now k
       (\<lambda>v. case v of VUint16 rv \<Rightarrow> Inr (VUint16 (rv + n), rv + n) | _ \<Rightarrow> Inl (WrongType ''uint16'' k)) c"

definition IncrementUint32 ::
  "int \<Rightarrow> string \<Rightarrow> 32 word \<Rightarrow> (('f32, 'f64, 'o) any, 'cb) cache \<Rightarrow>
   (('f32, 'f64, 'o) any, 'cb) cache \<times> (cache_error + 32 word)" where
  "IncrementUint32 now k n c =
     modify now k
       (\<lambda>v. case v of VUint32 rv \<Rightarrow> Inr (VUint32 (rv + n), rv + n) | _ \<Rightarrow> Inl (WrongType ''uint32'' k)) c"

definition IncrementUint64 ::
  "int \<Rightarrow> string \<Rightarrow> 64 word \<Rightarrow> (('f32, 'f64, 'o) any, 'cb) cache \<Rightarrow>
   (('f32, 'f64, 'o) any, 'cb) cache \<times> (cache_error + 64 word)" where
  "IncrementUint64 now k n c =
     modify now k
       (\<lambda>v. case v of VUint64 rv \<Rightarrow> Inr (VUint64 (rv + n), rv + n) | _ \<Rightarrow> Inl (WrongType ''uint64'' k)) c"

definition IncrementFloat32 ::
  "('f32, 'f64) float_ops \<Rightarrow> int \<Rightarrow> string \<Rightarrow> 'f32 \<Rightarrow> (('f32, 'f64, 'o) any, 'cb) cache \<Rightarrow>
   (('f32, 'f64, 'o) any, 'cb) cache \<times> (cache_error + 'f32)" where
  "IncrementFloat32 fo now k n c =
     modify now k
       (\<lambda>v. case v of VFloat32 rv \<Rightarrow> Inr (VFloat32 (f32_add fo rv n), f32_add fo rv n) | _ \<Rightarrow> Inl (WrongType ''float32'' k)) c"

definition IncrementFloat64 ::
  "('f32, 'f64) float_ops \<Rightarrow> int \<Rightarrow> string \<Rightarrow> 'f64 \<Rightarrow> (('f32, 'f64, 'o) any, 'cb) cache \<Rightarrow>
   (('f32, 'f64, 'o) any, 'cb) cache \<times> (cache_error + 'f64)" where
  "IncrementFloat64 fo now k n c =
     modify now k
       (\<lambda>v. case v of VFloat64 rv \<Rightarrow> Inr (VFloat64 (f64_add fo rv n), f64_add fo rv n) | _ \<Rightarrow> Inl (WrongType ''float64'' k)) c"

definition cache_Decrement ::
  "('f32, 'f64) float_ops \<Rightarrow> int \<Rightarrow> string \<Rightarrow> 64 word \<Rightarrow> (('f32, 'f64, 'o) any, 'cb) cache \<Rightarrow>
   (('f32, 'f64, 'o) any, 'cb) cache \<times> (cache_error + unit)" where
  "cache_Decrement fo now k n c = modify now k (decrement_switch fo k n) c"

definition cache_DecrementFloat ::
  "('f32, 'f64) float_ops \<Rightarrow> int \<Rightarrow> string \<Rightarrow> 'f64 \<Rightarrow> (('f32, 'f64, 'o) any, 'cb) cache \<Rightarrow>
   (('f32, 'f64, 'o) any, 'cb) cache \<times> (cache_error + unit)" where
  "cache_DecrementFloat fo now k n c =
     modify now k
       (\<lambda>v. case v of
              VFloat32 x \<Rightarrow> Inr (VFloat32 (f32_sub fo x (f32_of_f64 fo n)), ())
            | VFloat64 x \<Rightarrow> Inr (VFloat64 (f64_sub fo x n), ())
            | _ \<Rightarrow> Inl (NotAFloat k)) c"

definition DecrementInt ::
  "int \<Rightarrow> string \<Rightarrow> 64 word \<Rightarrow> (('f32, 'f64, 'o) any, 'cb) cache \<Rightarrow>
   (('f32, 'f64, 'o) any, 'cb) cache \<times> (cache_error + 64 word)" where
  "DecrementInt now k n c =
     modify now k
       (\<lambda>v. case v of VInt rv \<Rightarrow> Inr (VInt (rv - n), rv - n) | _ \<Rightarrow> Inl (WrongType ''int'' k)) c"

definition DecrementInt8 ::
  "int \<Rightarrow> string \<Rightarrow> 8 word \<Rightarrow> (('f32, 'f64, 'o) any, 'cb) cache \<Rightarrow>
   (('f32, 'f64, 'o) any, 'cb) cache \<times> (cache_error + 8 word)" where
  "DecrementInt8 now k n c =
     modify now k
       (\<lambda>v. case v of VInt8 rv \<Rightarrow> Inr (VInt8 (rv - n), rv - n) | _ \<Rightarrow> Inl (WrongType ''int8'' k)) c"

definition DecrementInt16 ::
  "int \<Rightarrow> string \<Rightarrow> 16 word \<Rightarrow> (('f32, 'f64, 'o) any, 'cb) cache \<Rightarrow>
   (('f32, 'f64, 'o) any, 'cb) cache \<times> (cache_error + 16 word)" where
  "DecrementInt16 now k n c =
     modify now k
       (\<lambda>v. case v of VInt16 rv \<Rightarrow> Inr (VInt16 (rv - n), rv - n) | _ \<Rightarrow> Inl (WrongType ''int16'' k)) c"

definition DecrementInt32 ::
  "int \<Rightarrow> string \<Rightarrow> 32 word \<Rightarrow> (('f32, 'f64, 'o) any, 'cb) cache \<Rightarrow>
   (('f32, 'f64, 'o) any, 'cb) cache \<times> (cache_error + 32 word)" where
  "DecrementInt32 now k n c =
     modify now k
       (\<lambda>v. case v of VInt32 rv \<Rightarrow> Inr (VInt32 (rv - n), rv - n) | _ \<Rightarrow> Inl (WrongType ''int32'' k)) c"

definition DecrementInt64 ::
  "int \<Rightarrow> string \<Rightarrow> 64 word \<Rightarrow> (('f32, 'f64, 'o) any, 'cb) cache \<Rightarrow>
   (('f32, 'f64, 'o) any, 'cb) cache \<times> (cache_error + 64 word)" where
  "DecrementInt64 now k n c =
     modify now k
       (\<lambda>v. case v of VInt64 rv \<Rightarrow> Inr (VInt64 (rv - n), rv - n) | _ \<Rightarrow> Inl (WrongType ''int64'' k)) c"

definition DecrementUint ::
  "int \<Rightarrow> string \<Rightarrow> 64 word \<Rightarrow> (('f32, 'f64, 'o) any, 'cb) cache \<Rightarrow>
   (('f32, 'f64, 'o) any, 'cb) cache \<times> (cache_error + 64 word)" where
  "DecrementUint now k n c =
     modify now k
       (\<lambda>v. case v of VUint rv \<Rightarrow> Inr (VUint (rv - n), rv - n) | _ \<Rightarrow> Inl (WrongType ''uint'' k)) c"

definition DecrementUintptr ::
  "int \<Rightarrow> string \<Rightarrow> 64 word \<Rightarrow> (('f32, 'f64, 'o) any, 'cb) cache \<Rightarrow>
   (('f32, 'f64, 'o) any, 'cb) cache \<times> (cache_error + 64 word)" where
  "DecrementUintptr now k n c =
     modify now k
       (\<lambda>v. case v of VUintptr rv \<Rightarrow> Inr (VUintptr (rv - n), rv - n) | _ \<Rightarrow> Inl (WrongType ''uintptr'' k)) c"

definition DecrementUint8 ::
  "int \<Rightarrow> string \<Rightarrow> 8 word \<Rightarrow> (('f32, 'f64, 'o) any, 'cb) cache \<Rightarrow>
   (('f32, 'f64, 'o) any, 'cb) cache \<times> (cache_error + 8 word)" where
  "DecrementUint8 now k n c =
     modify now k
       (\<lambda>v. case v of VUint8 rv \<Rightarrow> Inr (VUint8 (rv - n), rv - n) | _ \<Rightarrow> Inl (WrongType ''uint8'' k)) c"

definition DecrementUint16 ::
  "int \<Rightarrow> string \<Rightarrow> 16 word \<Rightarrow> (('f32, 'f64, 'o) any, 'cb) cache \<Rightarrow>
   (('f32, 'f64, 'o) any, 'cb) cache \<times> (cache_error + 16 word)" where
  "DecrementUint16 now k n c =
     modify now k
       (\<lambda>v. case v of VUint16 rv \<Rightarrow> Inr (VUint16 (rv - n), rv - n) | _ \<Rightarrow> Inl (WrongType ''uint16'' k)) c"

definition DecrementUint32 ::
  "int \<Rightarrow> string \<Rightarrow> 32 word \<Rightarrow> (('f32, 'f64, 'o) any, 'cb) cache \<Rightarrow>
   (('f32, 'f64, 'o) any, 'cb) cache \<times> (cache_error + 32 word)" where
  "DecrementUint32 now k n c =
     modify now k
       (\<lambda>v. case v of VUint32 rv \<Rightarrow> Inr (VUint32 (rv - n), rv - n) | _ \<Rightarrow> Inl (WrongType ''uint32'' k)) c"

definition DecrementUint64 ::
  "int \<Rightarrow> string \<Rightarrow> 64 word \<Rightarrow> (('f32, 'f64, 'o) any, 'cb) cache \<Rightarrow>
   (('f32, 'f64, 'o) any, 'cb) cache \<times> (cache_error + 64 word)" where
  "DecrementUint64 now k n c =
     modify now k
       (\<lambda>v. case v of VUint64 rv \<Rightarrow> Inr (VUint64 (rv - n), rv - n) | _ \<Rightarrow> Inl (WrongType ''uint64'' k)) c"

definition DecrementFloat32 ::
  "('f32, 'f64) float_ops \<Rightarrow> int \<Rightarrow> string \<Rightarrow> 'f32 \<Rightarrow> (('f32, 'f64, 'o) any, 'cb) cache \<Rightarrow>
   (('f32, 'f64, 'o) any, 'cb) cache \<times> (cache_error + 'f32)" where
  "DecrementFloat32 fo now k n c =
     modify now k
       (\<lambda>v. case v of VFloat32 rv \<Rightarrow> Inr (VFloat32 (f32_sub fo rv n), f32_sub fo rv n) | _ \<Rightarrow> Inl (WrongType ''float32'' k)) c"

definition DecrementFloat64 ::
  "('f32, 'f64) float_ops \<Rightarrow> int \<Rightarrow> string \<Rightarrow> 'f64 \<Rightarrow> (('f32, 'f64, 'o) any, 'cb) cache \<Rightarrow>
   (('f32, 'f64, 'o) any, 'cb) cache \<times> (cache_error + 'f64)" where
  "DecrementFloat64 fo now k n c =
     modify now k
       (\<lambda>v. case v of VFloat64 rv \<Rightarrow> Inr (VFloat64 (f64_sub fo rv n), f64_sub fo rv n) | _ \<Rightarrow> Inl (WrongType ''float64'' k)) c"

subsection \<open>Deleting\<close>

definition delete_item :: "string \<Rightarrow> ('v, 'cb) cache \<Rightarrow> ('v, 'cb) cache \<times> 'v option" where
  "delete_item k c =
     (case (onEvicted c, Mapping.lookup (items c) k) of
        (Some _, Some v) \<Rightarrow> (c\<lparr>items := Mapping.delete k (items c)\<rparr>, Some (Object v))
      | _ \<Rightarrow> (c\<lparr>items := Mapping.delete k (items c)\<rparr>, None))"

text \<open>A call of the callback, recorded; it is only made when \<open>delete\<close> reported an eviction.\<close>

definition call_onEvicted :: "string \<Rightarrow> 'v \<Rightarrow> ('v, 'cb) cache \<Rightarrow> ('v, 'cb) cache" where
  "call_onEvicted k v c =
     (case onEvicted c of None \<Rightarrow> c | Some f \<Rightarrow> c\<lparr>evictions := evictions c @ [(f, k, v)]\<rparr>)"

definition cache_Delete :: "string \<Rightarrow> ('v, 'cb) cache \<Rightarrow> ('v, 'cb) cache" where
  "cache_Delete k c =
     (let (c, v) = delete_item k c
      in case v of Some v \<Rightarrow> call_onEvicted k v c | None \<Rightarrow> c)"

text \<open>The loop of \<open>DeleteExpired\<close> over the keys in their visiting order.\<close>

fun delete_expired_loop ::
  "int \<Rightarrow> string list \<Rightarrow> ('v, 'cb) cache \<times> (string \<times> 'v) list \<Rightarrow> ('v, 'cb) cache \<times> (string \<times> 'v) list" where
  "delete_expired_loop now [] st = st"
| "delete_expired_loop now (k # ks) (c, evicted) =
     (case Mapping.lookup (items c) k of
        None \<Rightarrow> delete_expired_loop now ks (c, evicted)
      | Some v \<Rightarrow>
          if Expiration v > 0 \<and> now > Expiration v
          then (let (c, ov) = delete_item k c
                in delete_expired_loop now ks
                     (c, case ov of Some ov \<Rightarrow> evicted @ [(k, ov)] | None \<Rightarrow> evicted))
          else delete_expired_loop now ks (c, evicted))"

definition DeleteExpired :: "int \<Rightarrow> string list \<Rightarrow> ('v, 'cb) cache \<Rightarrow> ('v, 'cb) cache" where
  "DeleteExpired now ks c =
     (let (c, evicted) = delete_expired_loop now ks (c, [])
      in fold (\<lambda>(k, v). call_onEvicted k v) evicted c)"

definition OnEvicted :: "'cb option \<Rightarrow> ('v, 'cb) cache \<Rightarrow> ('v, 'cb) cache" where
  "OnEvicted f c = c\<lparr>onEvicted := f\<rparr>"

definition Flush :: "('v, 'cb) cache \<Rightarrow> ('v, 'cb) cache" where
  "Flush c = c\<lparr>items := Mapping.empty\<rparr>"

subsection \<open>Snapshots and construction\<close>

definition Items :: "int \<Rightarrow> ('v, 'cb) cache \<Rightarrow> (string, 'v Item) mapping" where
  "Items now c = Mapping.filter (\<lambda>_ v. \<not> (Expiration v > 0 \<and> now > Expiration v)) (items c)"

definition ItemCount :: "('v, 'cb) cache \<Rightarrow> nat" where
  "ItemCount c = Mapping.size (items c)"

text \<open>
  \<open>Load\<close>: \<open>decoded\<close> is the map that \<open>gob\<close> decoded (\<^const>\<open>None\<close> where it failed), \<open>ks\<close> the
  order in which its keys are visited and \<open>clock k\<close> the time of the check for key \<open>k\<close>. The
  result says whether there was no error.
\<close>

definition load_item ::
  "(string \<Rightarrow> int) \<Rightarrow> (string, 'v Item) mapping \<Rightarrow> string \<Rightarrow> ('v, 'cb) cache \<Rightarrow> ('v, 'cb) cache" where
  "load_item clock loaded k c =
     (case Mapping.lookup loaded k of
        None \<Rightarrow> c
      | Some v \<Rightarrow>
          (case Mapping.lookup (items c) k of
             None \<Rightarrow> c\<lparr>items := Mapping.update k v (items c)\<rparr>
           | Some ov \<Rightarrow>
               if Expired (clock k) ov then c\<lparr>items := Mapping.update k v (items c)\<rparr> else c))"

definition Load ::
  "(string \<Rightarrow> int) \<Rightarrow> string list \<Rightarrow> (string, 'v Item) mapping option \<Rightarrow> ('v, 'cb) cache \<Rightarrow>
   ('v, 'cb) cache \<times> bool" where
  "Load clock ks decoded c =
     (case decoded of
        None \<Rightarrow> (c, False)
      | Some loaded \<Rightarrow> (fold (load_item clock loaded) ks c, True))"

definition newCache :: "int \<Rightarrow> (string, 'v Item) mapping \<Rightarrow> ('v, 'cb) cache" where
  "newCache de m =
     \<lparr>defaultExpiration = (if de = 0 then -1 else de), items = m, onEvicted = None, janitor = None,
      evictions = []\<rparr>"

definition runJanitor :: "int \<Rightarrow> ('v, 'cb) cache \<Rightarrow> ('v, 'cb) cache" where
  "runJanitor ci c = c\<lparr>janitor := Some ci\<rparr>"

definition newCacheWithJanitor :: "int \<Rightarrow> int \<Rightarrow> (string, 'v Item) mapping \<Rightarrow> ('v, 'cb) cache" where
  "newCacheWithJanitor de ci m =
     (let c = newCache de m in if ci > 0 then runJanitor ci c else c)"

definition cache_New :: "int \<Rightarrow> int \<Rightarrow> ('v, 'cb) cache" where
  "cache_New defaultExp cleanupInterval =
     newCacheWithJanitor defaultExp cleanupInterval Mapping.empty"

definition NewFrom :: "int \<Rightarrow> int \<Rightarrow> (string, 'v Item) mapping \<Rightarrow> ('v, 'cb) cache" where
  "NewFrom defaultExp cleanupInterval m = newCacheWithJanitor defaultExp cleanupInterval m"

text \<open>
  The janitor goroutine: it receives ticks (each with the time and the visiting order of the
  deletion it starts) until the stop signal; what comes after the signal is not received.
\<close>

datatype janitor_event = Tick int "string list" | Stop

fun janitor_Run :: "janitor_event list \<Rightarrow> ('v, 'cb) cache \<Rightarrow> ('v, 'cb) cache" where
  "janitor_Run [] c = c"
| "janitor_Run (Tick now ks # es) c = janitor_Run es (DeleteExpired now ks c)"
| "janitor_Run (Stop # es) c = c"

section \<open>The contract of an expiring store\<close>

text \<open>
  The histories a store goes through: writes (with the time of the call), deletions, flushes and
  janitor runs (with the time and the visiting order).
\<close>

datatype ('v, 'o) store_op =
    OpSet int string 'v int
  | OpDelete string
  | OpFlush
  | OpSweep int 'o

text \<open>
  The specification: the entry a write leaves, with the time after which it is gone (0 or less:
  never), what a history leaves for a key, and whether an entry is visible.
\<close>

definition deadline :: "int \<Rightarrow> int \<Rightarrow> int \<Rightarrow> int" where
  "deadline def now d =
     (let d = (if d = DefaultExpiration then def else d) in if d > 0 then wrap64 (now + d) else 0)"

definition visible :: "int \<Rightarrow> ('v \<times> int) option \<Rightarrow> 'v option" where
  "visible t entry =
     (case entry of
        None \<Rightarrow> None
      | Some (x, e) \<Rightarrow> if e > 0 \<and> t > e then None else Some x)"

fun last_write :: "int \<Rightarrow> string \<Rightarrow> ('v, 'o) store_op \<Rightarrow> ('v \<times> int) option \<Rightarrow> ('v \<times> int) option" where
  "last_write def k (OpSet now k' x d) entry = (if k' = k then Some (x, deadline def now d) else entry)"
| "last_write def k (OpDelete k') entry = (if k' = k then None else entry)"
| "last_write def k OpFlush entry = None"
| "last_write def k (OpSweep now o') entry = entry"

fun sweeps_before :: "int \<Rightarrow> ('v, 'o) store_op \<Rightarrow> bool" where
  "sweeps_before t (OpSweep now o') \<longleftrightarrow> now \<le> t"
| "sweeps_before t (OpSet now k x d) \<longleftrightarrow> True"
| "sweeps_before t (OpDelete k) \<longleftrightarrow> True"
| "sweeps_before t OpFlush \<longleftrightarrow> True"

locale expiring_store =
  fixes get :: "int \<Rightarrow> string \<Rightarrow> 's \<Rightarrow> 'v option"
    and step :: "('v, 'o) store_op \<Rightarrow> 's \<Rightarrow> 's"
    and inv :: "'s \<Rightarrow> bool"
    and def :: int
  assumes inv_step: "inv s \<Longrightarrow> inv (step e s)"
    and get_set: "inv s \<Longrightarrow> get t k (step (OpSet now k' x d) s) =
      (if k' = k then visible t (Some (x, deadline def now d)) else get t k s)"
    and get_delete: "inv s \<Longrightarrow> get t k (step (OpDelete k') s) = (if k' = k then None else get t k s)"
    and get_flush: "inv s \<Longrightarrow> get t k (step OpFlush s) = None"
    and get_sweep: "inv s \<Longrightarrow> now \<le> t \<Longrightarrow> get t k (step (OpSweep now ord) s) = get t k s"
begin

lemma inv_fold: "inv s \<Longrightarrow> inv (fold step es s)"
  by (induction es arbitrary: s) (simp_all add: inv_step)

text \<open>
  What a lookup returns after a history depends only on the last write of the key: the janitor
  runs are invisible.
\<close>

lemma get_history:
  assumes "inv s" and "\<And>k. get t k s = None" and "list_all (sweeps_before t) es"
  shows "get t k (fold step es s) = visible t (fold (last_write def k) es None)"
  using assms(3)
proof (induction es rule: rev_induct)
  case Nil
  then show ?case using assms(2) by (simp add: visible_def)
next
  case (snoc e es)
  then have "get t k (fold step es s) = visible t (fold (last_write def k) es None)" by simp
  moreover have "inv (fold step es s)" using assms(1) by (rule inv_fold)
  ultimately show ?case
    using snoc.prems
    by (cases e) (auto simp: get_set get_delete get_flush get_sweep visible_def)
qed

lemma get_last_set:
  assumes "inv s" and "list_all (sweeps_before t) es"
    and "\<forall>e \<in> set es. case e of OpSet _ k' _ _ \<Rightarrow> k' \<noteq> k | OpDelete k' \<Rightarrow> k' \<noteq> k | OpFlush \<Rightarrow> False | OpSweep _ _ \<Rightarrow> True"
  shows "get t k (fold step (OpSet now k x d # es) s) = visible t (Some (x, deadline def now d))"
  using assms(2,3)
proof (induction es rule: rev_induct)
  case Nil
  then show ?case using assms(1) by (simp add: get_set)
next
  case (snoc e es)
  have "inv (fold step es (step (OpSet now k x d) s))"
    using assms(1) by (intro inv_fold inv_step)
  with snoc show ?case
    by (cases e) (auto simp: get_set get_delete get_flush get_sweep)
qed

end

section \<open>The cache as an expiring store\<close>

fun cache_step :: "('v, string list) store_op \<Rightarrow> ('v, 'cb) cache \<Rightarrow> ('v, 'cb) cache" where
  "cache_step (OpSet now k x d) c = cache_Set now k x d c"
| "cache_step (OpDelete k) c = cache_Delete k c"
| "cache_step OpFlush c = Flush c"
| "cache_step (OpSweep now ks) c = DeleteExpired now ks c"

lemma set_item_eq: "set_item now k x d c = cache_Set now k x d c"
  by (simp add: set_item_def cache_Set_def)

lemma cache_get_eq: "cache_get now k c = cache_Get now k c"
  by (simp add: cache_get_def cache_Get_def)

text \<open>What each operation does to the four parts of the state.\<close>

lemma cache_Set_simps [simp]:
  "items (cache_Set now k x d c) =
   Mapping.update k \<lparr>Object = x, Expiration = deadline (defaultExpiration c) now d\<rparr> (items c)"
  "defaultExpiration (cache_Set now k x d c) = defaultExpiration c"
  "onEvicted (cache_Set now k x d c) = onEvicted c"
  "evictions (cache_Set now k x d c) = evictions c"
  by (simp_all add: cache_Set_def deadline_def Let_def)

lemma delete_item_simps [simp]:
  "items (fst (delete_item k c)) = Mapping.delete k (items c)"
  "defaultExpiration (fst (delete_item k c)) = defaultExpiration c"
  "onEvicted (fst (delete_item k c)) = onEvicted c"
  "evictions (fst (delete_item k c)) = evictions c"
  "snd (delete_item k c) =
   (if onEvicted c = None then None else map_option Object (Mapping.lookup (items c) k))"
  by (auto simp: delete_item_def split: option.splits)

lemma call_onEvicted_simps [simp]:
  "items (call_onEvicted k v c) = items c"
  "defaultExpiration (call_onEvicted k v c) = defaultExpiration c"
  "onEvicted (call_onEvicted k v c) = onEvicted c"
  by (simp_all add: call_onEvicted_def split: option.split)

lemma fold_call_onEvicted [simp]:
  "items (fold (\<lambda>(k, v). call_onEvicted k v) kvs c) = items c"
  "defaultExpiration (fold (\<lambda>(k, v). call_onEvicted k v) kvs c) = defaultExpiration c"
  "onEvicted (fold (\<lambda>(k, v). call_onEvicted k v) kvs c) = onEvicted c"
  by (induction kvs arbitrary: c) auto

lemma fold_call_onEvicted_log:
  "onEvicted c = Some f \<Longrightarrow>
   evictions (fold (\<lambda>(k, v). call_onEvicted k v) kvs c) = evictions c @ map (\<lambda>(k, v). (f, k, v)) kvs"
proof (induction kvs arbitrary: c)
  case (Cons kv kvs)
  then have "onEvicted (call_onEvicted (fst kv) (snd kv) c) = Some f" by simp
  from Cons.IH [OF this] Cons.prems show ?case
    by (simp add: call_onEvicted_def case_prod_unfold)
qed simp

lemma cache_Delete_simps [simp]:
  "items (cache_Delete k c) = Mapping.delete k (items c)"
  "defaultExpiration (cache_Delete k c) = defaultExpiration c"
  "onEvicted (cache_Delete k c) = onEvicted c"
  by (simp_all add: cache_Delete_def Let_def case_prod_unfold split: option.split)

text \<open>The items the sweep removes, and what the loop leaves and reports.\<close>

definition dead :: "int \<Rightarrow> 'v Item \<Rightarrow> bool" where
  "dead now v \<longleftrightarrow> Expiration v > 0 \<and> now > Expiration v"

definition swept :: "int \<Rightarrow> string list \<Rightarrow> (string, 'v Item) mapping \<Rightarrow> (string, 'v Item) mapping" where
  "swept now ks m = Mapping.filter (\<lambda>k v. \<not> (k \<in> set ks \<and> dead now v)) m"

lemma filter_cong_mapping:
  "(\<And>k v. Mapping.lookup m k = Some v \<Longrightarrow> P k v = Q k v) \<Longrightarrow> Mapping.filter P m = Mapping.filter Q m"
  by (rule mapping_eqI) (auto simp: lookup_filter split: option.split)

lemma lookup_delete_if: "Mapping.lookup (Mapping.delete k m) k' = (if k' = k then None else Mapping.lookup m k')"
  by (cases "k' = k") auto

lemma swept_Cons:
  "swept now (k # ks) m =
   (case Mapping.lookup m k of
      Some v \<Rightarrow> if dead now v then swept now ks (Mapping.delete k m) else swept now ks m
    | None \<Rightarrow> swept now ks m)"
  by (rule mapping_eqI)
    (auto simp: swept_def lookup_filter lookup_delete_if split: option.split)

definition expired_entries :: "int \<Rightarrow> string list \<Rightarrow> (string, 'v Item) mapping \<Rightarrow> (string \<times> 'v) list" where
  "expired_entries now ks m =
     List.map_filter
       (\<lambda>k. case Mapping.lookup m k of
              Some v \<Rightarrow> if dead now v then Some (k, Object v) else None
            | None \<Rightarrow> None) ks"

lemma expired_entries_Cons:
  "expired_entries now (k # ks) m =
   (case Mapping.lookup m k of
      Some v \<Rightarrow> if dead now v then (k, Object v) # expired_entries now ks m else expired_entries now ks m
    | None \<Rightarrow> expired_entries now ks m)"
  by (simp add: expired_entries_def split: option.split)

lemma expired_entries_delete:
  "k \<notin> set ks \<Longrightarrow> expired_entries now ks (Mapping.delete k m) = expired_entries now ks m"
  by (induction ks) (auto simp: expired_entries_Cons lookup_delete_if expired_entries_def split: option.split)

lemma delete_item_eq:
  "delete_item k c =
   (c\<lparr>items := Mapping.delete k (items c)\<rparr>,
    if onEvicted c = None then None else map_option Object (Mapping.lookup (items c) k))"
  by (auto simp: delete_item_def split: option.splits)

lemma loop_items: "items (fst (delete_expired_loop now ks (c, ev))) = swept now ks (items c)"
proof (induction ks arbitrary: c ev)
  case Nil
  show ?case by (rule mapping_eqI) (simp add: swept_def lookup_filter split: option.split)
next
  case (Cons k ks)
  then show ?case
    by (auto simp: swept_Cons delete_item_eq dead_def Let_def split: option.split)
qed

lemma loop_frame:
  "defaultExpiration (fst (delete_expired_loop now ks (c, ev))) = defaultExpiration c"
  "onEvicted (fst (delete_expired_loop now ks (c, ev))) = onEvicted c"
  "evictions (fst (delete_expired_loop now ks (c, ev))) = evictions c"
  by (induction ks arbitrary: c ev) (auto simp: delete_item_eq Let_def split: option.split)

lemma loop_evicted:
  "distinct ks \<Longrightarrow>
   snd (delete_expired_loop now ks (c, ev)) =
   ev @ (if onEvicted c = None then [] else expired_entries now ks (items c))"
proof (induction ks arbitrary: c ev)
  case Nil
  then show ?case by (simp add: expired_entries_def)
next
  case (Cons k ks)
  then show ?case
    by (auto simp: expired_entries_Cons expired_entries_delete delete_item_eq dead_def Let_def split: option.split)
qed

lemma DeleteExpired_simps [simp]:
  "items (DeleteExpired now ks c) = swept now ks (items c)"
  "defaultExpiration (DeleteExpired now ks c) = defaultExpiration c"
  "onEvicted (DeleteExpired now ks c) = onEvicted c"
  using loop_items [of now ks c "[]"] loop_frame [of now ks c "[]"]
  by (cases "delete_expired_loop now ks (c, [])"; simp add: DeleteExpired_def)+

lemma Flush_simps [simp]:
  "items (Flush c) = Mapping.empty" "defaultExpiration (Flush c) = defaultExpiration c"
  by (simp_all add: Flush_def)

lemma cache_Get_visible:
  "cache_Get t k c =
   visible t (map_option (\<lambda>v. (Object v, Expiration v)) (Mapping.lookup (items c) k))"
  by (simp add: cache_Get_def visible_def split: option.split)

lemma lookup_swept:
  "Mapping.lookup (swept now ks m) k =
   (case Mapping.lookup m k of
      Some v \<Rightarrow> if k \<in> set ks \<and> dead now v then None else Some v | None \<Rightarrow> None)"
  by (simp add: swept_def lookup_filter split: option.split)

interpretation plain: expiring_store cache_Get cache_step "\<lambda>c. defaultExpiration c = def" def for def
proof unfold_locales
  fix t now :: int and k ks and s :: "('v, 'cb) cache"
  assume "now \<le> t"
  then show "cache_Get t k (cache_step (OpSweep now ks) s) = cache_Get t k s"
    by (auto simp: cache_Get_visible visible_def lookup_swept dead_def split: option.split)
next
  fix e and s :: "('v, 'cb) cache"
  assume "defaultExpiration s = def"
  then show "defaultExpiration (cache_step e s) = def" by (cases e) simp_all
qed (simp_all add: cache_Get_visible visible_def lookup_update' lookup_delete_if)

section \<open>Properties\<close>

lemma cache_New_simps [simp]:
  "items (cache_New de ci) = Mapping.empty"
  "defaultExpiration (cache_New de ci) = (if de = 0 then -1 else de)"
  by (simp_all add: cache_New_def newCacheWithJanitor_def newCache_def runJanitor_def Let_def)

text \<open>
  C15. After any history of \<open>Set\<close>, \<open>Delete\<close>, \<open>Flush\<close> and janitor runs on a new cache, \<open>Get\<close>
  returns the value of the last write of the key if it was neither deleted nor flushed since and its
  deadline has not passed, and nothing otherwise; janitor runs, in whatever order they visit the
  keys, never change what \<open>Get\<close> returns.
\<close>

theorem cache_history:
  assumes "list_all (sweeps_before t) es"
  shows "cache_Get t k (fold cache_step es (cache_New de ci)) =
         visible t (fold (last_write (if de = 0 then -1 else de) k) es None)"
  using assms
  by (intro plain.get_history) (simp_all add: cache_Get_visible visible_def)

theorem cache_history_witness:
  "cache_Get 150 ''a''
     (fold cache_step
        [OpSet 10 ''a'' (1::nat) 100, OpSet 20 ''b'' 2 0, OpSweep 140 [''b'', ''a''], OpSet 60 ''a'' 3 200,
         OpDelete ''b'', OpSweep 150 [''a'']] (cache_New 1000 5)) = Some 3"
  by (subst cache_history) (simp_all add: visible_def deadline_def wrap64_def)

text \<open>
  \<open>DeleteExpired\<close> leaves exactly the items that \<open>Items\<close> reports as unexpired, and calls the
  eviction callback once for every other item, with its key and value, in the visiting order.
\<close>

theorem deleteExpired_exact:
  assumes "distinct ks" and "set ks = Mapping.keys (items c)"
  shows "items (DeleteExpired now ks c) = Items now c \<and>
    evictions (DeleteExpired now ks c) =
      evictions c @ (case onEvicted c of
                       None \<Rightarrow> []
                     | Some f \<Rightarrow> map (\<lambda>(k, v). (f, k, v)) (expired_entries now ks (items c)))"
proof
  show "items (DeleteExpired now ks c) = Items now c"
    using assms(2)
    by (auto simp: Items_def swept_def dead_def keys_dom_lookup intro!: filter_cong_mapping)
  show "evictions (DeleteExpired now ks c) =
      evictions c @ (case onEvicted c of
                       None \<Rightarrow> []
                     | Some f \<Rightarrow> map (\<lambda>(k, v). (f, k, v)) (expired_entries now ks (items c)))"
    using loop_evicted [OF assms(1), of now c "[]"] loop_frame [of now ks c "[]"]
    by (cases "delete_expired_loop now ks (c, [])")
      (auto simp: DeleteExpired_def fold_call_onEvicted_log split: option.split)
qed

theorem deleteExpired_exact_witness:
  "items (DeleteExpired 50 [''b'', ''a'']
     (OnEvicted (Some ()) (cache_Set 0 ''b'' (2::nat) 10 (cache_Set 0 ''a'' 1 100 (cache_New 0 0))))) =
   Items 50 (OnEvicted (Some ()) (cache_Set 0 ''b'' 2 10 (cache_Set 0 ''a'' 1 100 (cache_New 0 0)))) \<and>
   evictions (DeleteExpired 50 [''b'', ''a'']
     (OnEvicted (Some ()) (cache_Set 0 ''b'' (2::nat) 10 (cache_Set 0 ''a'' 1 100 (cache_New 0 0))))) =
   [((), ''b'', 2)]"
proof -
  let ?c = "OnEvicted (Some ()) (cache_Set 0 ''b'' (2::nat) 10 (cache_Set 0 ''a'' 1 100 (cache_New 0 0)))"
  have "set [''b'', ''a''] = Mapping.keys (items ?c)"
    by (auto simp: OnEvicted_def)
  moreover have "distinct [''b'', ''a'']" by simp
  moreover have "expired_entries 50 [''b'', ''a''] (items ?c) = [(''b'', 2)]"
    by (simp add: expired_entries_def OnEvicted_def lookup_update' dead_def deadline_def wrap64_def)
  moreover have "onEvicted ?c = Some ()" "evictions ?c = []"
    by (simp_all add: OnEvicted_def cache_New_def newCacheWithJanitor_def newCache_def Let_def)
  ultimately show ?thesis
    using deleteExpired_exact [of "[''b'', ''a'']" ?c 50] by simp
qed

subsection \<open>Numeric methods\<close>

text \<open>What \<open>modify\<close>, and so every numeric method, does on each branch.\<close>

lemma modify_live:
  assumes "Mapping.lookup (items c) k = Some v" and "\<not> Expired now v"
  shows "modify now k f c =
    (case f (Object v) of
       Inl e \<Rightarrow> (c, Inl e)
     | Inr (nv, r) \<Rightarrow> (c\<lparr>items := Mapping.update k (v\<lparr>Object := nv\<rparr>) (items c)\<rparr>, Inr r))"
  using assms by (simp add: modify_def)

lemma update_same: "Mapping.lookup m k = Some v \<Longrightarrow> Mapping.update k v m = m"
  by (rule mapping_eqI) (auto simp: lookup_update')

definition typed_increment ::
  "('f32, 'f64) float_ops \<Rightarrow> int \<Rightarrow> string \<Rightarrow> 64 word \<Rightarrow> (('f32, 'f64, 'o) any, 'cb) cache \<Rightarrow>
   ('f32, 'f64, 'o) any \<Rightarrow> (('f32, 'f64, 'o) any, 'cb) cache" where
  "typed_increment fo now k n c v =
     (case v of
        VInt _ \<Rightarrow> fst (IncrementInt now k n c)
      | VInt8 _ \<Rightarrow> fst (IncrementInt8 now k (ucast n) c)
      | VInt16 _ \<Rightarrow> fst (IncrementInt16 now k (ucast n) c)
      | VInt32 _ \<Rightarrow> fst (IncrementInt32 now k (ucast n) c)
      | VInt64 _ \<Rightarrow> fst (IncrementInt64 now k n c)
      | VUint _ \<Rightarrow> fst (IncrementUint now k n c)
      | VUintptr _ \<Rightarrow> fst (IncrementUintptr now k n c)
      | VUint8 _ \<Rightarrow> fst (IncrementUint8 now k (ucast n) c)
      | VUint16 _ \<Rightarrow> fst (IncrementUint16 now k (ucast n) c)
      | VUint32 _ \<Rightarrow> fst (IncrementUint32 now k (ucast n) c)
      | VUint64 _ \<Rightarrow> fst (IncrementUint64 now k n c)
      | VFloat32 _ \<Rightarrow> fst (IncrementFloat32 fo now k (f32_of_int64 fo n) c)
      | VFloat64 _ \<Rightarrow> fst (IncrementFloat64 fo now k (f64_of_int64 fo n) c)
      | VOther _ \<Rightarrow> c)"

fun is_integer :: "('f32, 'f64, 'o) any \<Rightarrow> bool" where
  "is_integer (VFloat32 v) \<longleftrightarrow> False"
| "is_integer (VFloat64 v) \<longleftrightarrow> False"
| "is_integer (VOther v) \<longleftrightarrow> False"
| "is_integer v \<longleftrightarrow> True"

text \<open>
  On a live numeric item \<open>Increment\<close> does what the method for the item's own type does, with
  the 64-bit increment converted to that type (so an \<open>int8\<close> wraps around at 8 bits); on anything
  else it fails and leaves the cache as it was.
\<close>

theorem increment_typed:
  "cache_Increment fo now k n c =
   (case Mapping.lookup (items c) k of
      None \<Rightarrow> (c, Inl (NotFound k))
    | Some v \<Rightarrow>
        if Expired now v then (c, Inl (NotFound k))
        else if \<exists>x. Object v = VOther x then (c, Inl (NotAnInteger k))
        else (typed_increment fo now k n c (Object v), Inr ()))"
proof (cases "Mapping.lookup (items c) k")
  case None
  then show ?thesis by (simp add: cache_Increment_def modify_def)
next
  case (Some v)
  show ?thesis
  proof (cases "Expired now v")
    case True
    with Some show ?thesis by (simp add: cache_Increment_def modify_def)
  next
    case False
    with Some show ?thesis
      by (cases "Object v")
        (simp_all add: typed_increment_def cache_Increment_def modify_live [OF Some False] IncrementInt_def IncrementInt8_def IncrementInt16_def IncrementInt32_def IncrementInt64_def IncrementUint_def IncrementUintptr_def IncrementUint8_def IncrementUint16_def IncrementUint32_def IncrementUint64_def IncrementFloat32_def IncrementFloat64_def)
  qed
qed

text \<open>An instance of the floating-point operations for the concrete examples.\<close>

definition exact_floats :: "(int, int) float_ops" where
  "exact_floats =
     \<lparr>f32_add = (+), f32_sub = (-), f64_add = (+), f64_sub = (-), f32_of_int64 = sint,
      f64_of_int64 = sint, f32_of_f64 = id\<rparr>"

text \<open>
  Decrementing a live integer item by the amount it was incremented by restores the cache exactly,
  also when the increment wrapped around.
\<close>

theorem decrement_increment:
  assumes "Mapping.lookup (items c) k = Some v" and "is_integer (Object v)"
    and "\<not> Expired now v" and "\<not> Expired now' v"
  shows "cache_Decrement fo now' k n (fst (cache_Increment fo now k n c)) = (c, Inr ())"
proof -
  obtain nv where nv: "increment_switch fo k n (Object v) = Inr (nv, ())"
    and undo: "decrement_switch fo k n nv = Inr (Object v, ())"
    using assms(2) by (cases "Object v") simp_all
  let ?c = "c\<lparr>items := Mapping.update k (v\<lparr>Object := nv\<rparr>) (items c)\<rparr>"
  have inc: "cache_Increment fo now k n c = (?c, Inr ())"
    by (simp add: cache_Increment_def modify_live [OF assms(1,3)] nv)
  have "Mapping.lookup (items ?c) k = Some (v\<lparr>Object := nv\<rparr>)" "\<not> Expired now' (v\<lparr>Object := nv\<rparr>)"
    using assms(4) by (auto simp: Expired_def)
  from modify_live [OF this, of "decrement_switch fo k n"] show ?thesis
    by (simp add: inc cache_Decrement_def undo update_update update_same [OF assms(1)])
qed

theorem decrement_increment_witness:
  "cache_Decrement exact_floats 2 ''n'' 10
     (fst (cache_Increment exact_floats 1 ''n'' 10
        (cache_Set 0 ''n'' (VInt8 120 :: (int, int, unit) any) 0 (cache_New 0 0 :: (_, unit) cache)))) =
   (cache_Set 0 ''n'' (VInt8 120) 0 (cache_New 0 0), Inr ())"
  by (rule decrement_increment [where v = "\<lparr>Object = VInt8 120, Expiration = 0\<rparr>"])
    (simp_all add: deadline_def Expired_def)

text \<open>
  A lifetime that takes the deadline past the range of \<open>int64\<close> leaves a negative deadline, and
  the two expiry checks then disagree for ever: \<open>Get\<close> returns the item at every time, while the
  numeric methods (through \<open>Expired\<close>) report it as not found at every time.
\<close>

theorem deadline_overflow:
  assumes "0 < d" and "in_int64 d" and "in_int64 now" and "2 ^ 63 \<le> now + d" and "0 \<le> t"
  shows "cache_Get t k (cache_Set now k x d c) = Some x \<and>
         cache_Increment fo t k n (cache_Set now k x d c) = (cache_Set now k x d c, Inl (NotFound k))"
proof -
  have "wrap64 (now + d) = now + d - 2 ^ 64"
    using assms by (intro wrap64_over) (auto simp: in_int64_def)
  then have neg: "deadline (defaultExpiration c) now d < 0"
    using assms by (simp add: deadline_def in_int64_def)
  have "Expired t \<lparr>Object = x, Expiration = deadline (defaultExpiration c) now d\<rparr>"
    using neg assms(5) by (simp add: Expired_def)
  with neg show ?thesis
    by (simp add: cache_Get_visible visible_def cache_Increment_def modify_def)
qed

theorem deadline_overflow_witness:
  "cache_Get 5 ''k'' (cache_Set 1 ''k'' (VInt 0 :: (int, int, unit) any) (2 ^ 63 - 1)
     (cache_New 0 0 :: (_, unit) cache)) = Some (VInt 0) \<and>
   cache_Increment exact_floats 5 ''k'' 1
     (cache_Set 1 ''k'' (VInt 0 :: (int, int, unit) any) (2 ^ 63 - 1) (cache_New 0 0 :: (_, unit) cache)) =
   (cache_Set 1 ''k'' (VInt 0) (2 ^ 63 - 1) (cache_New 0 0), Inl (NotFound ''k''))"
  by (rule deadline_overflow) (simp_all add: in_int64_def)

text \<open>
  \<open>Add\<close> stores exactly when the key is not visible, \<open>Replace\<close> exactly when it is; on failure
  both leave the cache as it was, and on success the new value is what \<open>Set\<close> would have stored.
\<close>

lemma add_replace:
  "cache_Add now now' k x d c =
     (if cache_Get now k c = None then (cache_Set now' k x d c, None) else (c, Some (AlreadyExists k))) \<and>
   cache_Replace now now' k x d c =
     (if cache_Get now k c = None then (c, Some (DoesNotExist k)) else (cache_Set now' k x d c, None))"
  by (simp add: cache_Add_def cache_Replace_def set_item_eq cache_get_eq)

lemma lookup_load_item:
  "Mapping.lookup (items (load_item clock m k c)) k' =
   (if k' = k
    then (case Mapping.lookup m k of
            None \<Rightarrow> Mapping.lookup (items c) k
          | Some v \<Rightarrow> (case Mapping.lookup (items c) k of
                        None \<Rightarrow> Some v
                      | Some ov \<Rightarrow> Some (if Expired (clock k) ov then v else ov)))
    else Mapping.lookup (items c) k')"
  by (auto simp: load_item_def lookup_update' split: option.splits)

lemma lookup_fold_load:
  "distinct ks \<Longrightarrow>
   Mapping.lookup (items (fold (load_item clock m) ks c)) k =
   (if k \<in> set ks then Mapping.lookup (items (load_item clock m k c)) k else Mapping.lookup (items c) k)"
proof (induction ks arbitrary: c)
  case (Cons a ks)
  have "Mapping.lookup (items (load_item clock m a c)) k = Mapping.lookup (items c) k" if "k \<noteq> a"
    using that by (simp add: lookup_load_item)
  then show ?case using Cons by (cases "k = a") (simp_all add: lookup_load_item [of _ _ k] cong: option.case_cong)
qed simp

text \<open>
  \<open>Load\<close> merges the decoded items: an existing item that has not expired is kept, every other
  decoded item is stored, and no key outside the decoded map is touched; a decoding error changes
  nothing.
\<close>

theorem load_merges:
  assumes "distinct ks" and "set ks = Mapping.keys m"
  shows "Mapping.lookup (items (fst (Load clock ks (Some m) c))) k =
    (case Mapping.lookup m k of
       None \<Rightarrow> Mapping.lookup (items c) k
     | Some v \<Rightarrow> (case Mapping.lookup (items c) k of
                   None \<Rightarrow> Some v
                 | Some ov \<Rightarrow> Some (if Expired (clock k) ov then v else ov)))
    \<and> fst (Load clock ks None c) = c"
proof -
  have "k \<in> set ks \<longleftrightarrow> Mapping.lookup m k \<noteq> None"
    using assms(2) by (auto simp: keys_dom_lookup)
  with lookup_fold_load [OF assms(1), of clock m c k] show ?thesis
    by (auto simp: Load_def lookup_load_item split: option.split)
qed

theorem load_merges_witness:
  "Mapping.lookup (items (fst (Load (\<lambda>_. 7) [''a'']
      (Some (Mapping.update ''a'' \<lparr>Object = (1::nat), Expiration = 9\<rparr> Mapping.empty))
      (cache_Set 0 ''a'' 2 5 (cache_New 0 0 :: (nat, unit) cache))))) ''a'' = Some \<lparr>Object = 1, Expiration = 9\<rparr>"
  using load_merges [of "[''a'']" "Mapping.update ''a'' \<lparr>Object = (1::nat), Expiration = 9\<rparr> Mapping.empty"
      "\<lambda>_. 7" "cache_Set 0 ''a'' 2 5 (cache_New 0 0 :: (nat, unit) cache)" "''a''"]
  by (simp add: Expired_def deadline_def wrap64_def)

end
