(* ===== verification/Sharded.thy ===== *)
theory Sharded
  imports Cache
begin

text \<open>
  The sharded cache of \<open>src/pkg/cache/sharded.go\<close>: a list of caches and a hash that chooses one
  by key. The hash \<open>djb33\<close> works on \<open>uint32\<close> values, here \<open>32 word\<close>, with the unrolled loop
  and the final switch of the source. The sharded cache is shown to meet the same contract as one
  cache, for every seed and every positive number of shards, and the hash is shown equal to a plain
  fold (which reveals that the last byte of a key is never hashed).
\<close>

unbundle bit_operations_syntax

section \<open>Model\<close>

record ('v, 'cb) shardedCache =
  seed :: "32 word"
  m_shards :: "32 word"
  cs :: "('v, 'cb) cache list"
  sharded_janitor :: "int option"

subsection \<open>The hash\<close>

definition byte_at :: "string \<Rightarrow> 32 word \<Rightarrow> 32 word" where
  "byte_at k i = of_nat (of_char (k ! unat i))"

text \<open>One line \<open>d = (d * 33) ^ uint32(k[i])\<close>.\<close>

definition mix :: "string \<Rightarrow> 32 word \<Rightarrow> 32 word \<Rightarrow> 32 word" where
  "mix k i d = (d * 33) XOR byte_at k i"

function djb33_loop :: "string \<Rightarrow> 32 word \<Rightarrow> 32 word \<Rightarrow> 32 word \<Rightarrow> 32 word \<times> 32 word" where
  "djb33_loop k l i d =
     (if 4 \<le> l \<and> i < l - 4
      then djb33_loop k l (i + 4) (mix k (i + 3) (mix k (i + 2) (mix k (i + 1) (mix k i d))))
      else (i, d))"
  by pat_completeness auto
termination
proof (relation "measure (\<lambda>(_, l, i, _). unat l - unat i)")
  fix k :: string and l i d :: "32 word"
  assume "4 \<le> l \<and> i < l - 4"
  then have "unat (i + 4) = unat i + 4" and "unat i + 4 < unat l"
    by unat_arith+
  then show "((k, l, i + 4, mix k (i + 3) (mix k (i + 2) (mix k (i + 1) (mix k i d)))), (k, l, i, d))
     \<in> measure (\<lambda>(_, l, i, _). unat l - unat i)" by simp
qed simp

declare djb33_loop.simps [simp del]

definition djb33 :: "32 word \<Rightarrow> string \<Rightarrow> 32 word" where
  "djb33 s k =
     (let l = of_nat (length k);
          (i, d) = djb33_loop k l 0 (5381 + s + l);
          d = (if l - i = 1 then d
               else if l - i = 2 then mix k i d
               else if l - i = 3 then mix k (i + 1) (mix k i d)
               else if l - i = 4 then mix k (i + 2) (mix k (i + 1) (mix k i d))
               else d)
      in d XOR drop_bit 16 d)"

subsection \<open>Operations\<close>

definition bucket :: "('v, 'cb) shardedCache \<Rightarrow> string \<Rightarrow> nat" where
  "bucket sc k = unat (djb33 (seed sc) k mod m_shards sc)"

text \<open>An operation on the shard that \<open>bucket\<close> chooses.\<close>

definition on_bucket ::
  "string \<Rightarrow> (('v, 'cb) cache \<Rightarrow> ('v, 'cb) cache) \<Rightarrow> ('v, 'cb) shardedCache \<Rightarrow> ('v, 'cb) shardedCache" where
  "on_bucket k f sc = sc\<lparr>cs := (cs sc)[bucket sc k := f (cs sc ! bucket sc k)]\<rparr>"

definition on_bucket_result ::
  "string \<Rightarrow> (('v, 'cb) cache \<Rightarrow> ('v, 'cb) cache \<times> 'r) \<Rightarrow> ('v, 'cb) shardedCache \<Rightarrow>
   ('v, 'cb) shardedCache \<times> 'r" where
  "on_bucket_result k f sc =
     (let (c, r) = f (cs sc ! bucket sc k) in (sc\<lparr>cs := (cs sc)[bucket sc k := c]\<rparr>, r))"

definition sharded_Set :: "int \<Rightarrow> string \<Rightarrow> 'v \<Rightarrow> int \<Rightarrow> ('v, 'cb) shardedCache \<Rightarrow> ('v, 'cb) shardedCache" where
  "sharded_Set now k x d sc = on_bucket k (cache_Set now k x d) sc"

definition sharded_Add ::
  "int \<Rightarrow> int \<Rightarrow> string \<Rightarrow> 'v \<Rightarrow> int \<Rightarrow> ('v, 'cb) shardedCache \<Rightarrow>
   ('v, 'cb) shardedCache \<times> cache_error option" where
  "sharded_Add now now' k x d sc = on_bucket_result k (cache_Add now now' k x d) sc"

definition sharded_Replace ::
  "int \<Rightarrow> int \<Rightarrow> string \<Rightarrow> 'v \<Rightarrow> int \<Rightarrow> ('v, 'cb) shardedCache \<Rightarrow>
   ('v, 'cb) shardedCache \<times> cache_error option" where
  "sharded_Replace now now' k x d sc = on_bucket_result k (cache_Replace now now' k x d) sc"

definition sharded_Get :: "int \<Rightarrow> string \<Rightarrow> ('v, 'cb) shardedCache \<Rightarrow> 'v option" where
  "sharded_Get now k sc = cache_Get now k (cs sc ! bucket sc k)"

definition sharded_Increment ::
  "('f32, 'f64) float_ops \<Rightarrow> int \<Rightarrow> string \<Rightarrow> 64 word \<Rightarrow> (('f32, 'f64, 'o) any, 'cb) shardedCache \<Rightarrow>
   (('f32, 'f64, 'o) any, 'cb) shardedCache \<times> (cache_error + unit)" where
  "sharded_Increment fo now k n sc = on_bucket_result k (cache_Increment fo now k n) sc"

definition sharded_IncrementFloat ::
  "('f32, 'f64) float_ops \<Rightarrow> int \<Rightarrow> string \<Rightarrow> 'f64 \<Rightarrow> (('f32, 'f64, 'o) any, 'cb) shardedCache \<Rightarrow>
   (('f32, 'f64, 'o) any, 'cb) shardedCache \<times> (cache_error + unit)" where
  "sharded_IncrementFloat fo now k n sc = on_bucket_result k (cache_IncrementFloat fo now k n) sc"

definition sharded_Decrement ::
  "('f32, 'f64) float_ops \<Rightarrow> int \<Rightarrow> string \<Rightarrow> 64 word \<Rightarrow> (('f32, 'f64, 'o) any, 'cb) shardedCache \<Rightarrow>
   (('f32, 'f64, 'o) any, 'cb) shardedCache \<times> (cache_error + unit)" where
  "sharded_Decrement fo now k n sc = on_bucket_result k (cache_Decrement fo now k n) sc"

definition sharded_Delete :: "string \<Rightarrow> ('v, 'cb) shardedCache \<Rightarrow> ('v, 'cb) shardedCache" where
  "sharded_Delete k sc = on_bucket k (cache_Delete k) sc"

text \<open>
  The sweep visits every shard; \<open>runs ! i\<close> is the time and the visiting order of the run on shard
  \<open>i\<close>.
\<close>

definition sharded_DeleteExpired ::
  "(nat \<Rightarrow> int \<times> string list) \<Rightarrow> ('v, 'cb) shardedCache \<Rightarrow> ('v, 'cb) shardedCache" where
  "sharded_DeleteExpired runs sc =
     sc\<lparr>cs := map (\<lambda>(i, c). DeleteExpired (fst (runs i)) (snd (runs i)) c) (enumerate 0 (cs sc))\<rparr>"

definition sharded_Items :: "(nat \<Rightarrow> int) \<Rightarrow> ('v, 'cb) shardedCache \<Rightarrow> (string, 'v Item) mapping list" where
  "sharded_Items clock sc = map (\<lambda>(i, c). Items (clock i) c) (enumerate 0 (cs sc))"

definition sharded_Flush :: "('v, 'cb) shardedCache \<Rightarrow> ('v, 'cb) shardedCache" where
  "sharded_Flush sc = sc\<lparr>cs := map Flush (cs sc)\<rparr>"

text \<open>\<open>rnd\<close> is the random seed that the constructor draws.\<close>

definition newShardedCache :: "32 word \<Rightarrow> nat \<Rightarrow> int \<Rightarrow> ('v, 'cb) shardedCache" where
  "newShardedCache rnd n de =
     \<lparr>seed = rnd, m_shards = of_nat n,
      cs = replicate n \<lparr>defaultExpiration = de, items = Mapping.empty, onEvicted = None, janitor = None,
                        evictions = []\<rparr>,
      sharded_janitor = None\<rparr>"

definition unexportedNewSharded :: "32 word \<Rightarrow> int \<Rightarrow> int \<Rightarrow> nat \<Rightarrow> ('v, 'cb) shardedCache" where
  "unexportedNewSharded rnd de cleanupInterval shards =
     (let de = (if de = 0 then -1 else de); sc = newShardedCache rnd shards de
      in if cleanupInterval > 0 then sc\<lparr>sharded_janitor := Some cleanupInterval\<rparr> else sc)"

section \<open>The hash as a fold\<close>

definition hash_step :: "char \<Rightarrow> 32 word \<Rightarrow> 32 word" where
  "hash_step c d = (d * 33) XOR of_nat (of_char c)"

definition djb33_spec :: "32 word \<Rightarrow> string \<Rightarrow> 32 word" where
  "djb33_spec s k =
     (let d = fold hash_step (butlast k) (5381 + s + of_nat (length k)) in d XOR drop_bit 16 d)"

lemma mix_fold:
  "unat i = j \<Longrightarrow> j < length k \<Longrightarrow>
   mix k i (fold hash_step (take j k) a) = fold hash_step (take (Suc j) k) a"
  by (auto simp: mix_def byte_at_def hash_step_def take_Suc_conv_app_nth)

lemma djb33_loop_spec:
  assumes "djb33_loop k l i d = (i', d')" and "unat l = length k"
    and "unat i < length k \<or> i = 0" and "d = fold hash_step (take (unat i) k) a"
  shows "d' = fold hash_step (take (unat i') k) a" and "length k - unat i' \<le> 4"
    and "unat i' < length k \<or> i' = 0"
proof -
  have "d' = fold hash_step (take (unat i') k) a \<and> length k - unat i' \<le> 4 \<and>
        (unat i' < length k \<or> i' = 0)"
    using assms
  proof (induction k l i d arbitrary: i' d' rule: djb33_loop.induct)
    case (1 k l i d)
    show ?case
    proof (cases "4 \<le> l \<and> i < l - 4")
      case True
      then have i: "unat i + 4 < unat l" "unat (i + 1) = Suc (unat i)" "unat (i + 2) = Suc (Suc (unat i))"
        "unat (i + 3) = Suc (Suc (Suc (unat i)))" "unat (i + 4) = Suc (Suc (Suc (Suc (unat i))))"
        by unat_arith+
      have "mix k (i + 3) (mix k (i + 2) (mix k (i + 1) (mix k i d))) =
            fold hash_step (take (unat (i + 4)) k) a"
        using 1(5) i 1(3) by (simp add: mix_fold)
      moreover have "djb33_loop k l (i + 4) (mix k (i + 3) (mix k (i + 2) (mix k (i + 1) (mix k i d)))) = (i', d')"
        using 1(2) True by (simp add: djb33_loop.simps [of k l i d])
      ultimately show ?thesis
        using 1(1) [OF True] 1(3) i by simp
    next
      case False
      then have "unat l - unat i \<le> 4" using 1(4) by unat_arith
      moreover have "i' = i" "d' = d"
        using False 1(2) by (auto simp: djb33_loop.simps [of k l i d])
      ultimately show ?thesis using 1(3-5) by simp
    qed
  qed
  then show "d' = fold hash_step (take (unat i') k) a" and "length k - unat i' \<le> 4"
    and "unat i' < length k \<or> i' = 0" by auto
qed

lemma unat_Suc_less:
  "Suc (unat (i :: 32 word)) < unat (l :: 32 word) \<Longrightarrow> unat (i + 1) = Suc (unat i)"
  "Suc (Suc (unat i)) < unat l \<Longrightarrow> unat (i + 2) = Suc (Suc (unat i))"
  using unsigned_less [of l, where 'a = nat] by (simp_all add: unat_word_ariths(1))

text \<open>
  The unrolled hash \<open>djb33\<close> is, for every key shorter than 4 GiB, the plain djb2 fold with xor
  over all bytes of the key but the last one: keys that differ in their last byte only always share
  a shard.
\<close>

theorem djb33_fold:
  assumes "length k < 2 ^ 32"
  shows "djb33 s k = djb33_spec s k"
proof -
  let ?l = "of_nat (length k) :: 32 word"
  let ?a = "5381 + s + ?l"
  have l: "unat ?l = length k" using assms by (simp add: unat_of_nat)
  obtain i d where loop: "djb33_loop k ?l 0 ?a = (i, d)" by (cases "djb33_loop k ?l 0 ?a")
  have d: "d = fold hash_step (take (unat i) k) ?a" and r: "length k - unat i \<le> 4"
    and i: "unat i < length k \<or> i = 0"
    using djb33_loop_spec [OF loop l, of ?a] by simp_all
  have sub: "unat (?l - i) = length k - unat i"
    using i l by (subst unat_sub) (auto simp: word_le_nat_alt)
  have eqs: "?l - i = n \<longleftrightarrow> length k - unat i = unat n" for n
    using sub by (metis word_unat_eq_iff)
  consider "k = []" "i = 0" | "length k = Suc (unat i)" | "length k = Suc (Suc (unat i))"
    | "length k = Suc (Suc (Suc (unat i)))" | "length k = Suc (Suc (Suc (Suc (unat i))))"
  proof -
    have "n \<in> {1, 2, 3, 4}" if "0 < n" "n \<le> 4" for n :: nat
      using that by (simp, presburger)
    moreover have "k = [] \<and> i = 0 \<or> 0 < length k - unat i" using i by auto
    ultimately have "k = [] \<and> i = 0 \<or> length k - unat i \<in> {1, 2, 3, 4}" using r by blast
    with that show thesis by (auto simp: numeral_eq_Suc)
  qed
  then have "(if ?l - i = 1 then d else if ?l - i = 2 then mix k i d
      else if ?l - i = 3 then mix k (i + 1) (mix k i d)
      else if ?l - i = 4 then mix k (i + 2) (mix k (i + 1) (mix k i d)) else d) =
     fold hash_step (butlast k) ?a"
    using l by cases (simp_all add: eqs d butlast_conv_take mix_fold unat_Suc_less [of _ ?l])
  with loop show ?thesis
    by (simp add: djb33_def djb33_spec_def Let_def)
qed

theorem djb33_fold_witness: "djb33 7 ''web.default'' = djb33_spec 7 ''web.default''"
  by (rule djb33_fold) simp

section \<open>The sharded cache as an expiring store\<close>

fun sharded_step ::
  "('v, nat \<Rightarrow> string list) store_op \<Rightarrow> ('v, 'cb) shardedCache \<Rightarrow> ('v, 'cb) shardedCache" where
  "sharded_step (OpSet now k x d) sc = sharded_Set now k x d sc"
| "sharded_step (OpDelete k) sc = sharded_Delete k sc"
| "sharded_step OpFlush sc = sharded_Flush sc"
| "sharded_step (OpSweep now ord) sc = sharded_DeleteExpired (\<lambda>i. (now, ord i)) sc"

definition sharded_inv :: "int \<Rightarrow> ('v, 'cb) shardedCache \<Rightarrow> bool" where
  "sharded_inv def sc \<longleftrightarrow>
     0 < length (cs sc) \<and> length (cs sc) < 2 ^ 32 \<and> m_shards sc = of_nat (length (cs sc)) \<and>
     (\<forall>c \<in> set (cs sc). defaultExpiration c = def)"

text \<open>The index computed by \<open>bucket\<close> is always in range.\<close>

lemma bucket_less:
  assumes "sharded_inv def sc"
  shows "bucket sc k < length (cs sc)"
proof -
  have m: "unat (m_shards sc) = length (cs sc)"
    using assms by (simp add: sharded_inv_def unat_of_nat)
  have "unat (djb33 (seed sc) k mod m_shards sc) = unat (djb33 (seed sc) k) mod unat (m_shards sc)"
    by (rule unat_mod)
  also have "\<dots> < length (cs sc)"
    unfolding m using assms by (simp add: sharded_inv_def)
  finally show ?thesis by (simp add: bucket_def)
qed

lemma bucket_frame [simp]: "bucket (sc\<lparr>cs := xs\<rparr>) k = bucket sc k"
  by (simp add: bucket_def)

lemma sharded_Get_on_bucket:
  assumes "sharded_inv def sc"
    and "\<And>c. c \<in> set (cs sc) \<Longrightarrow> cache_Get t k' (f c) = (if k' = k then r else cache_Get t k' c)"
  shows "sharded_Get t k' (on_bucket k f sc) = (if k' = k then r else sharded_Get t k' sc)"
  using bucket_less [OF assms(1)] assms(2)
  by (cases "k' = k"; cases "bucket sc k' = bucket sc k") (simp_all add: sharded_Get_def on_bucket_def)

lemma sharded_inv_on_bucket:
  assumes "sharded_inv def sc" and "\<And>c. defaultExpiration (f c) = defaultExpiration c"
  shows "sharded_inv def (on_bucket k f sc)"
  using assms bucket_less [OF assms(1), of k]
  by (auto simp: sharded_inv_def on_bucket_def dest!: subsetD [OF set_update_subset_insert])

interpretation sharded: expiring_store sharded_Get sharded_step "sharded_inv def" def for def
proof unfold_locales
  fix t now :: int and k ord and s :: "('v, 'cb) shardedCache"
  assume inv: "sharded_inv def s" and "now \<le> t"
  have "cache_Get t k (DeleteExpired now ks c) = cache_Get t k c" for ks and c :: "('v, 'cb) cache"
    using plain.get_sweep [OF refl \<open>now \<le> t\<close>, of k ks c] by simp
  with bucket_less [OF inv, of k] show "sharded_Get t k (sharded_step (OpSweep now ord) s) = sharded_Get t k s"
    by (simp add: sharded_Get_def sharded_DeleteExpired_def nth_enumerate_eq)
next
  fix e and s :: "('v, 'cb) shardedCache"
  assume inv: "sharded_inv def s"
  show "sharded_inv def (sharded_step e s)"
  proof (cases e)
    case (OpSweep now ord)
    with inv show ?thesis
      by (auto simp: sharded_inv_def sharded_DeleteExpired_def dest!: in_set_enumerate_eq [THEN iffD1])
  qed (use inv in \<open>auto simp: sharded_Set_def sharded_Delete_def sharded_Flush_def sharded_inv_on_bucket,
        auto simp: sharded_inv_def\<close>)
next
  fix t now d :: int and k k' x and s :: "('v, 'cb) shardedCache"
  assume inv: "sharded_inv def s"
  show "sharded_Get t k (sharded_step (OpSet now k' x d) s) =
        (if k' = k then visible t (Some (x, deadline def now d)) else sharded_Get t k s)"
    unfolding sharded_step.simps sharded_Set_def
    using sharded_Get_on_bucket [OF inv, of t k "cache_Set now k' x d" k' "visible t (Some (x, deadline def now d))"]
      inv by (simp add: cache_Get_visible lookup_update' visible_def sharded_inv_def eq_commute)
next
  fix t :: int and k k' and s :: "('v, 'cb) shardedCache"
  assume inv: "sharded_inv def s"
  show "sharded_Get t k (sharded_step (OpDelete k') s) = (if k' = k then None else sharded_Get t k s)"
    using sharded_Get_on_bucket [OF inv, of t k "cache_Delete k'" k' None]
    by (simp add: sharded_Delete_def cache_Get_visible lookup_delete_if visible_def)
  show "sharded_Get t k (sharded_step OpFlush s) = None"
    using bucket_less [OF inv, of k]
    by (simp add: sharded_Get_def sharded_Flush_def cache_Get_visible visible_def)
qed

lemma unexportedNewSharded_inv:
  assumes "0 < n" and "n < 2 ^ 32"
  shows "sharded_inv (if de = 0 then -1 else de) (unexportedNewSharded rnd de ci n :: ('v, 'cb) shardedCache)"
    and "sharded_Get t k (unexportedNewSharded rnd de ci n :: ('v, 'cb) shardedCache) = None"
proof -
  show inv: "sharded_inv (if de = 0 then -1 else de) (unexportedNewSharded rnd de ci n :: ('v, 'cb) shardedCache)"
    using assms by (simp add: unexportedNewSharded_def newShardedCache_def sharded_inv_def Let_def)
  have "Mapping.lookup (items c) k = None"
    if "c \<in> set (cs (unexportedNewSharded rnd de ci n))" for c :: "('v, 'cb) cache"
    using that by (auto simp: unexportedNewSharded_def newShardedCache_def Let_def split: if_splits)
  with nth_mem [OF bucket_less [OF inv, of k]]
  show "sharded_Get t k (unexportedNewSharded rnd de ci n :: ('v, 'cb) shardedCache) = None"
    by (simp add: sharded_Get_def cache_Get_visible visible_def)
qed

text \<open>The same history with the visiting orders forgotten, or put on one cache.\<close>

fun reorder :: "('o \<Rightarrow> 'p) \<Rightarrow> ('v, 'o) store_op \<Rightarrow> ('v, 'p) store_op" where
  "reorder f (OpSet now k x d) = OpSet now k x d"
| "reorder f (OpDelete k) = OpDelete k"
| "reorder f OpFlush = OpFlush"
| "reorder f (OpSweep now ord) = OpSweep now (f ord)"

lemma reorder_simps [simp]:
  "last_write def k (reorder f e) = last_write def k e"
  "sweeps_before t (reorder f e) = sweeps_before t e"
  by (cases e; auto simp: fun_eq_iff)+

text \<open>
  C24. A sharded cache with any seed and any positive number of shards answers every \<open>Get\<close> exactly as
  one unsharded cache does after the same history, whatever order the janitor runs of either visit
  the keys in; no shard index is ever out of range.
\<close>

theorem sharded_equiv:
  assumes "0 < n" and "n < 2 ^ 32" and "list_all (sweeps_before t) es"
  shows "sharded_Get t k (fold sharded_step es (unexportedNewSharded rnd de ci n :: ('v, 'a) shardedCache)) =
         cache_Get t k (fold cache_step (map (reorder f) es) (cache_New de ci' :: ('v, 'b) cache)) \<and>
    bucket (fold sharded_step es (unexportedNewSharded rnd de ci n :: ('v, 'a) shardedCache)) k <
    length (cs (fold sharded_step es (unexportedNewSharded rnd de ci n :: ('v, 'a) shardedCache)))"
proof -
  let ?def = "if de = 0 then -1 else de"
  have "sharded_Get t k (fold sharded_step es (unexportedNewSharded rnd de ci n :: ('v, 'a) shardedCache)) =
        visible t (fold (last_write ?def k) es None)"
    by (intro sharded.get_history unexportedNewSharded_inv assms)
  moreover have "cache_Get t k (fold cache_step (map (reorder f) es) (cache_New de ci' :: ('v, 'b) cache)) =
        visible t (fold (last_write ?def k) (map (reorder f) es) None)"
    using assms(3)
    by (intro plain.get_history) (simp_all add: cache_Get_visible visible_def list_all_iff)
  moreover have "bucket (fold sharded_step es (unexportedNewSharded rnd de ci n :: ('v, 'a) shardedCache)) k <
      length (cs (fold sharded_step es (unexportedNewSharded rnd de ci n :: ('v, 'a) shardedCache)))"
    using bucket_less [OF sharded.inv_fold [OF unexportedNewSharded_inv(1) [OF assms(1,2)]]] .
  ultimately show ?thesis by (simp add: fold_map comp_def)
qed

theorem sharded_equiv_witness:
  "sharded_Get 5 ''b''
     (fold sharded_step [OpSet 0 ''a'' (1::nat) 3, OpSet 1 ''b'' 2 0, OpSweep 4 (\<lambda>_. [''a''])]
        (unexportedNewSharded 99 10 0 13 :: (nat, unit) shardedCache)) =
   cache_Get 5 ''b''
     (fold cache_step (map (reorder (\<lambda>_. [''b'', ''a'']))
          [OpSet 0 ''a'' (1::nat) 3, OpSet 1 ''b'' 2 0, OpSweep 4 (\<lambda>_::nat. [''a''])])
        (cache_New 10 0 :: (nat, unit) cache))"
  by (rule sharded_equiv [THEN conjunct1]) simp_all

end
