(* ===== verification/Shlex.thy ===== *)
theory Shlex
  imports Go_Base
begin

text \<open>
  The shell-like lexer of \<open>src/pkg/shlex/shlex.go\<close>. A rune is a \<open>char\<close> here: the input is the
  list of its code points, all below 256 (for ASCII input these are its bytes). The interface
  \<open>Tokenizer\<close> is the record \<open>Tokenizer\<close>; \<open>DefaultTokenizer\<close> spells out
  \<open>unicode.IsLetter\<close>, \<open>IsNumber\<close> and \<open>IsSpace\<close> on this range. \<open>readToken\<close> is a
  recursive function over the unread input with the four variables of the loop as arguments;
  it returns the token, the error (or end of input) and what is left unread.

  \<open>strconv.Quote\<close> is here too because the server quotes with \<open>%q\<close> and splits with \<open>Split\<close>: the
  theorems say when the two are inverse.
\<close>

section \<open>Model\<close>

record Tokenizer =
  IsWord :: "char \<Rightarrow> bool"
  IsWhitespace :: "char \<Rightarrow> bool"
  IsQuote :: "char \<Rightarrow> bool"
  IsEscape :: "char \<Rightarrow> bool"
  IsEscapedQuote :: "char \<Rightarrow> bool"

abbreviation code :: "char \<Rightarrow> nat" where "code c \<equiv> of_char c"

definition unicode_IsLetter :: "char \<Rightarrow> bool" where
  "unicode_IsLetter c \<longleftrightarrow>
     65 \<le> code c \<and> code c \<le> 90 \<or> 97 \<le> code c \<and> code c \<le> 122 \<or>
     code c \<in> set [0xAA, 0xB5, 0xBA] \<or>
     0xC0 \<le> code c \<and> code c \<noteq> 0xD7 \<and> code c \<noteq> 0xF7"

definition unicode_IsNumber :: "char \<Rightarrow> bool" where
  "unicode_IsNumber c \<longleftrightarrow>
     48 \<le> code c \<and> code c \<le> 57 \<or> code c \<in> set [0xB2, 0xB3, 0xB9, 0xBC, 0xBD, 0xBE]"

definition unicode_IsSpace :: "char \<Rightarrow> bool" where
  "unicode_IsSpace c \<longleftrightarrow> is_space c \<or> code c = 0x85 \<or> code c = 0xA0"

definition DefaultTokenizer :: Tokenizer where
  "DefaultTokenizer =
     \<lparr>IsWord = (\<lambda>r. r = CHR ''_'' \<or> unicode_IsLetter r \<or> unicode_IsNumber r),
      IsWhitespace = unicode_IsSpace,
      IsQuote = (\<lambda>r. r = CHR 0x27 \<or> r = CHR 0x22),
      IsEscape = (\<lambda>r. r = CHR 0x5C),
      IsEscapedQuote = (\<lambda>r. r = CHR 0x22)\<rparr>"

datatype lex_error = EOF | ErrNoClosing | ErrNoEscaped

record Lexer =
  lx_tokenizer :: Tokenizer
  lx_posix :: bool
  lx_whitespacesplit :: bool

text \<open>The four local variables of the scanning loop.\<close>

record scan =
  sc_token :: string
  sc_quoted :: bool
  sc_state :: char
  sc_escapedstate :: char

definition init_scan :: scan where
  "init_scan = \<lparr>sc_token = [], sc_quoted = False, sc_state = CHR '' '', sc_escapedstate = CHR '' ''\<rparr>"

datatype scan_result = Continue scan | Break string | BreakUnread string

text \<open>One iteration of the loop on the rune \<open>next\<close>.\<close>

definition scan_step :: "Lexer \<Rightarrow> char \<Rightarrow> scan \<Rightarrow> scan_result" where
  "scan_step l next sc =
     (let t = lx_tokenizer l
      in if IsWhitespace t (sc_state sc)
         then (if IsWhitespace t next then Break (sc_token sc)
               else if lx_posix l \<and> IsEscape t next
               then Continue (sc\<lparr>sc_escapedstate := CHR ''a'', sc_state := next\<rparr>)
               else if IsWord t next
               then Continue (sc\<lparr>sc_token := sc_token sc @ [next], sc_state := CHR ''a''\<rparr>)
               else if IsQuote t next
               then Continue (sc\<lparr>sc_token := (if lx_posix l then sc_token sc else sc_token sc @ [next]),
                                 sc_state := next\<rparr>)
               else if lx_whitespacesplit l
               then Continue (sc\<lparr>sc_token := [next], sc_state := CHR ''a''\<rparr>)
               else Break [next])
         else if IsQuote t (sc_state sc)
         then (let sc = sc\<lparr>sc_quoted := True\<rparr>
               in if next = sc_state sc
                  then (if \<not> lx_posix l then Break (sc_token sc @ [next])
                        else Continue (sc\<lparr>sc_state := CHR ''a''\<rparr>))
                  else if lx_posix l \<and> IsEscape t next \<and> IsEscapedQuote t (sc_state sc)
                  then Continue (sc\<lparr>sc_escapedstate := sc_state sc, sc_state := next\<rparr>)
                  else Continue (sc\<lparr>sc_token := sc_token sc @ [next]\<rparr>))
         else if IsEscape t (sc_state sc)
         then Continue
                (sc\<lparr>sc_token := sc_token sc @
                      (if IsQuote t (sc_escapedstate sc) \<and> next \<noteq> sc_state sc \<and> next \<noteq> sc_escapedstate sc
                       then [sc_state sc] else []) @ [next],
                    sc_state := sc_escapedstate sc\<rparr>)
         else if IsWord t (sc_state sc)
         then (if IsWhitespace t next
               then (if sc_token sc \<noteq> [] \<or> (lx_posix l \<and> sc_quoted sc) then Break (sc_token sc) else Continue sc)
               else if lx_posix l \<and> IsQuote t next then Continue (sc\<lparr>sc_state := next\<rparr>)
               else if lx_posix l \<and> IsEscape t next
               then Continue (sc\<lparr>sc_escapedstate := CHR ''a'', sc_state := next\<rparr>)
               else if IsWord t next \<or> IsQuote t next
               then Continue (sc\<lparr>sc_token := sc_token sc @ [next]\<rparr>)
               else if lx_whitespacesplit l then Continue (sc\<lparr>sc_token := sc_token sc @ [next]\<rparr>)
               else if sc_token sc \<noteq> [] then BreakUnread (sc_token sc)
               else Continue sc)
         else Continue sc)"

text \<open>What \<open>readToken\<close> returns when \<open>ReadRune\<close> reports the end of the input.\<close>

definition scan_end :: "Lexer \<Rightarrow> scan \<Rightarrow> lex_error" where
  "scan_end l sc =
     (if IsQuote (lx_tokenizer l) (sc_state sc) then ErrNoClosing
      else if IsEscape (lx_tokenizer l) (sc_state sc) then ErrNoEscaped
      else EOF)"

fun scanning :: "Lexer \<Rightarrow> string \<Rightarrow> scan \<Rightarrow> string \<times> lex_error option \<times> string" where
  "scanning l [] sc = (sc_token sc, Some (scan_end l sc), [])"
| "scanning l (next # rest) sc =
     (case scan_step l next sc of
        Continue sc \<Rightarrow> scanning l rest sc
      | Break tok \<Rightarrow> (tok, None, rest)
      | BreakUnread tok \<Rightarrow> (tok, None, next # rest))"

definition readToken :: "Lexer \<Rightarrow> string \<Rightarrow> string \<times> lex_error option \<times> string" where
  "readToken l input = scanning l input init_scan"

text \<open>A token is returned without an error only after at least one rune was consumed.\<close>

lemma scanning_progress:
  "scanning l input sc = (tok, None, rest) \<Longrightarrow>
   length rest \<le> length input \<and> (sc_token sc = [] \<longrightarrow> length rest < length input)"
proof (induction l input sc rule: scanning.induct)
  case (2 l c cs sc)
  have "sc_token sc = [] \<Longrightarrow> scan_step l c sc \<noteq> BreakUnread t" for t
    by (auto simp: scan_step_def Let_def)
  with 2 show ?case by (auto split: scan_result.splits)
qed simp

lemma readToken_progress: "readToken l input = (tok, None, rest) \<Longrightarrow> length rest < length input"
  by (auto simp: readToken_def init_scan_def dest: scanning_progress)

text \<open>\<open>Split\<close> returns the tokens read so far also when it fails.\<close>

function Lexer_Split :: "Lexer \<Rightarrow> string \<Rightarrow> string list \<times> lex_error option" where
  "Lexer_Split l input =
     (case readToken l input of
        (tok, err, rest) \<Rightarrow>
          (let result = (if tok \<noteq> [] then [tok] else [])
           in case err of
                Some EOF \<Rightarrow> (result, None)
              | Some e \<Rightarrow> (result, Some e)
              | None \<Rightarrow> (case Lexer_Split l rest of (toks, e) \<Rightarrow> (result @ toks, e))))"
  by pat_completeness auto
termination
  by (relation "measure (\<lambda>(_, input). length input)") (auto dest: readToken_progress [OF sym])

declare Lexer_Split.simps [simp del]

definition NewLexerString :: "bool \<Rightarrow> bool \<Rightarrow> Lexer" where
  "NewLexerString p w = \<lparr>lx_tokenizer = DefaultTokenizer, lx_posix = p, lx_whitespacesplit = w\<rparr>"

definition Split :: "string \<Rightarrow> bool \<Rightarrow> string list \<times> lex_error option" where
  "Split s p = Lexer_Split (NewLexerString p True) s"

text \<open>
  \<open>strconv.Quote\<close>, the verb \<open>%q\<close>, on ASCII: the two special characters escaped with a
  backslash, the named control characters by their letter, other control characters in hexadecimal.
\<close>

definition hex_digit :: "nat \<Rightarrow> char" where
  "hex_digit n = (if n < 10 then char_of (48 + n) else char_of (87 + n))"

definition quote_char :: "char \<Rightarrow> string" where
  "quote_char c =
     (if c = CHR 0x22 \<or> c = CHR 0x5C then [CHR 0x5C, c]
      else if 32 \<le> code c \<and> code c < 127 then [c]
      else if code c = 7 then [CHR 0x5C, CHR ''a'']
      else if code c = 8 then [CHR 0x5C, CHR ''b'']
      else if code c = 12 then [CHR 0x5C, CHR ''f'']
      else if code c = 10 then [CHR 0x5C, CHR ''n'']
      else if code c = 13 then [CHR 0x5C, CHR ''r'']
      else if code c = 9 then [CHR 0x5C, CHR ''t'']
      else if code c = 11 then [CHR 0x5C, CHR ''v'']
      else [CHR 0x5C, CHR ''x'', hex_digit (code c div 16), hex_digit (code c mod 16)])"

definition Quote :: "string \<Rightarrow> string" where
  "Quote s = [CHR 0x22] @ concat (map quote_char s) @ [CHR 0x22]"

section \<open>Specification: shell words\<close>

text \<open>
  A word of the POSIX syntax is a sequence of pieces: a bare character, an escaped character, a
  single-quoted string, a double-quoted string (in which a backslash escapes only a double quote
  and itself and is kept before any other character).
\<close>

datatype dq = DPlain char | DEsc char

datatype piece = Bare char | Esc char | SQ string | DQ "dq list"

fun dq_text :: "dq \<Rightarrow> string" where
  "dq_text (DPlain c) = [c]"
| "dq_text (DEsc c) = [CHR 0x5C, c]"

fun dq_value :: "dq \<Rightarrow> string" where
  "dq_value (DPlain c) = [c]"
| "dq_value (DEsc c) = (if c = CHR 0x22 \<or> c = CHR 0x5C then [c] else [CHR 0x5C, c])"

fun wf_dq :: "dq \<Rightarrow> bool" where
  "wf_dq (DPlain c) \<longleftrightarrow> c \<noteq> CHR 0x22 \<and> c \<noteq> CHR 0x5C"
| "wf_dq (DEsc c) \<longleftrightarrow> True"

fun piece_text :: "piece \<Rightarrow> string" where
  "piece_text (Bare c) = [c]"
| "piece_text (Esc c) = [CHR 0x5C, c]"
| "piece_text (SQ s) = [CHR 0x27] @ s @ [CHR 0x27]"
| "piece_text (DQ ds) = [CHR 0x22] @ concat (map dq_text ds) @ [CHR 0x22]"

fun piece_value :: "piece \<Rightarrow> string" where
  "piece_value (Bare c) = [c]"
| "piece_value (Esc c) = [c]"
| "piece_value (SQ s) = s"
| "piece_value (DQ ds) = concat (map dq_value ds)"

fun wf_piece :: "piece \<Rightarrow> bool" where
  "wf_piece (Bare c) \<longleftrightarrow> \<not> unicode_IsSpace c \<and> c \<notin> {CHR 0x27, CHR 0x22, CHR 0x5C}"
| "wf_piece (Esc c) \<longleftrightarrow> True"
| "wf_piece (SQ s) \<longleftrightarrow> CHR 0x27 \<notin> set s"
| "wf_piece (DQ ds) \<longleftrightarrow> list_all wf_dq ds"

definition word_text :: "piece list \<Rightarrow> string" where
  "word_text w = concat (map piece_text w)"

definition word_value :: "piece list \<Rightarrow> string" where
  "word_value w = concat (map piece_value w)"

text \<open>A command line: words, each followed by white space (which only the last may lack).\<close>

fun line_text :: "(piece list \<times> string) list \<Rightarrow> string" where
  "line_text [] = []"
| "line_text ((w, ws) # rest) = word_text w @ ws @ line_text rest"

fun wf_line :: "(piece list \<times> string) list \<Rightarrow> bool" where
  "wf_line [] \<longleftrightarrow> True"
| "wf_line ((w, ws) # rest) \<longleftrightarrow>
     w \<noteq> [] \<and> list_all wf_piece w \<and> list_all unicode_IsSpace ws \<and> (rest \<noteq> [] \<longrightarrow> ws \<noteq> []) \<and> wf_line rest"

section \<open>The lexer accepts exactly these words\<close>

abbreviation posix_lexer :: Lexer where "posix_lexer \<equiv> NewLexerString True True"

lemma lexer_simps [simp]:
  "lx_posix (NewLexerString p w) = p" "lx_whitespacesplit (NewLexerString p w) = w"
  "lx_tokenizer (NewLexerString p w) = DefaultTokenizer"
  by (simp_all add: NewLexerString_def)

lemma tokenizer_simps [simp]:
  "IsWhitespace DefaultTokenizer = unicode_IsSpace"
  "IsQuote DefaultTokenizer r \<longleftrightarrow> r = CHR 0x27 \<or> r = CHR 0x22"
  "IsEscape DefaultTokenizer r \<longleftrightarrow> r = CHR 0x5C"
  "IsEscapedQuote DefaultTokenizer r \<longleftrightarrow> r = CHR 0x22"
  by (simp_all add: DefaultTokenizer_def)

lemma char_classes [simp]:
  "unicode_IsSpace (CHR '' '')" "\<not> unicode_IsSpace (CHR ''a'')" "\<not> unicode_IsSpace (CHR 0x27)"
  "\<not> unicode_IsSpace (CHR 0x22)" "\<not> unicode_IsSpace (CHR 0x5C)"
  "IsWord DefaultTokenizer (CHR ''a'')" "\<not> IsWord DefaultTokenizer (CHR 0x27)"
  "\<not> IsWord DefaultTokenizer (CHR 0x22)" "\<not> IsWord DefaultTokenizer (CHR 0x5C)"
  by (simp_all add: unicode_IsSpace_def is_space_def DefaultTokenizer_def unicode_IsLetter_def
      unicode_IsNumber_def)

text \<open>The scanner between two pieces of a word, with the text read so far.\<close>

definition in_word :: "scan \<Rightarrow> string \<Rightarrow> bool" where
  "in_word sc t \<longleftrightarrow>
     sc_token sc = t \<and> sc_state sc = CHR ''a'' \<and> (t \<noteq> [] \<or> sc_quoted sc)"

definition ready :: "scan \<Rightarrow> string \<Rightarrow> bool" where
  "ready sc t \<longleftrightarrow> in_word sc t \<or> sc_token sc = [] \<and> t = [] \<and> sc_state sc = CHR '' ''"

lemma scan_single_quoted:
  "CHR 0x27 \<notin> set s \<Longrightarrow> sc_state sc = CHR 0x27 \<Longrightarrow>
   scanning posix_lexer (s @ rest) sc =
   scanning posix_lexer rest (sc\<lparr>sc_token := sc_token sc @ s, sc_quoted := sc_quoted sc \<or> s \<noteq> []\<rparr>)"
  by (induction s arbitrary: sc) (auto simp: scan_step_def Let_def)

lemma scan_double_quoted:
  "list_all wf_dq ds \<Longrightarrow> sc_state sc = CHR 0x22 \<Longrightarrow>
   \<exists>sc'. scanning posix_lexer (concat (map dq_text ds) @ rest) sc = scanning posix_lexer rest sc' \<and>
         sc_state sc' = CHR 0x22 \<and> sc_token sc' = sc_token sc @ concat (map dq_value ds)"
proof (induction ds arbitrary: sc)
  case (Cons d ds)
  obtain sc' where step: "scanning posix_lexer (dq_text d @ concat (map dq_text ds) @ rest) sc =
      scanning posix_lexer (concat (map dq_text ds) @ rest) sc'"
    and sc': "sc_state sc' = CHR 0x22" "sc_token sc' = sc_token sc @ dq_value d"
    using Cons.prems by (cases d) (auto simp: scan_step_def Let_def)
  from Cons.IH [of sc'] Cons.prems sc' step show ?case by auto
qed auto

lemma scan_piece:
  assumes "wf_piece p" and "ready sc t"
  shows "\<exists>sc'. scanning posix_lexer (piece_text p @ rest) sc = scanning posix_lexer rest sc' \<and>
               in_word sc' (t @ piece_value p)"
proof (cases p)
  case (Bare c)
  then have c: "\<not> unicode_IsSpace c" "c \<noteq> CHR 0x27" "c \<noteq> CHR 0x22" "c \<noteq> CHR 0x5C"
    using assms(1) by auto
  from assms(2) have st: "sc_token sc = t" "sc_state sc = CHR ''a'' \<or> sc_state sc = CHR '' '' \<and> t = []"
    by (auto simp: ready_def in_word_def)
  obtain tok q s e where sc: "sc = \<lparr>sc_token = tok, sc_quoted = q, sc_state = s, sc_escapedstate = e\<rparr>"
    by (cases sc)
  have "scan_step posix_lexer c sc = Continue (sc\<lparr>sc_token := t @ [c], sc_state := CHR ''a''\<rparr>)"
    using st c by (cases "s = CHR ''a''") (simp_all add: sc scan_step_def)
  with Bare show ?thesis
    by (intro exI [of _ "sc\<lparr>sc_token := t @ [c], sc_state := CHR ''a''\<rparr>"]) (simp add: in_word_def)
next
  case (Esc c)
  from assms(2) have st: "sc_token sc = t" "sc_state sc = CHR ''a'' \<or> sc_state sc = CHR '' ''"
    by (auto simp: ready_def in_word_def)
  let ?sc = "sc\<lparr>sc_state := CHR 0x5C, sc_escapedstate := CHR ''a''\<rparr>"
  have "scan_step posix_lexer (CHR 0x5C) sc = Continue ?sc"
    using st(2) by (elim disjE) (simp_all add: scan_step_def)
  moreover have "scan_step posix_lexer c ?sc = Continue (?sc\<lparr>sc_token := t @ [c], sc_state := CHR ''a''\<rparr>)"
    using st(1) by (simp add: scan_step_def)
  ultimately show ?thesis
    using Esc by (intro exI [of _ "?sc\<lparr>sc_token := t @ [c], sc_state := CHR ''a''\<rparr>"]) (simp add: in_word_def)
next
  case (SQ s)
  with assms show ?thesis
    by (auto simp: ready_def in_word_def scan_step_def Let_def scan_single_quoted)
next
  case (DQ ds)
  let ?sc = "sc\<lparr>sc_state := CHR 0x22\<rparr>"
  from DQ assms obtain sc' where
    "scanning posix_lexer (concat (map dq_text ds) @ CHR 0x22 # rest) ?sc = scanning posix_lexer (CHR 0x22 # rest) sc'"
    "sc_state sc' = CHR 0x22" "sc_token sc' = t @ concat (map dq_value ds)"
    using scan_double_quoted [of ds ?sc "CHR 0x22 # rest"] by (auto simp: ready_def in_word_def)
  with DQ assms show ?thesis
    by (auto simp: ready_def in_word_def scan_step_def Let_def)
qed

lemma scan_word:
  assumes "list_all wf_piece w" and "w \<noteq> []" and "ready sc t"
  shows "\<exists>sc'. scanning posix_lexer (word_text w @ rest) sc = scanning posix_lexer rest sc' \<and>
               in_word sc' (t @ word_value w)"
  using assms
proof (induction w arbitrary: sc t)
  case (Cons p w)
  obtain sc' where sc': "scanning posix_lexer (piece_text p @ word_text w @ rest) sc =
      scanning posix_lexer (word_text w @ rest) sc'" "in_word sc' (t @ piece_value p)"
    using scan_piece [of p sc t "word_text w @ rest"] Cons.prems by auto
  show ?case
  proof (cases "w = []")
    case True
    with sc' show ?thesis by (auto simp: word_text_def word_value_def)
  next
    case False
    with Cons.IH [of sc' "t @ piece_value p"] Cons.prems sc' show ?thesis
      by (auto simp: word_text_def word_value_def ready_def)
  qed
qed simp

lemma ready_init: "ready init_scan []"
  by (simp add: ready_def init_scan_def)

lemma Split_space:
  assumes "unicode_IsSpace c"
  shows "Lexer_Split posix_lexer (c # cs) = Lexer_Split posix_lexer cs"
proof -
  have "readToken posix_lexer (c # cs) = ([], None, cs)"
    using assms by (simp add: readToken_def init_scan_def scan_step_def)
  then show ?thesis by (simp add: Lexer_Split.simps [of _ "c # cs"])
qed

lemma Split_spaces:
  "list_all unicode_IsSpace ws \<Longrightarrow> Lexer_Split posix_lexer (ws @ cs) = Lexer_Split posix_lexer cs"
  by (induction ws) (simp_all add: Split_space)

lemma Split_word:
  assumes "list_all wf_piece w" and "w \<noteq> []" and "unicode_IsSpace c"
  shows "Lexer_Split posix_lexer (word_text w @ c # cs) =
    (let (toks, e) = Lexer_Split posix_lexer cs
     in ((if word_value w \<noteq> [] then [word_value w] else []) @ toks, e))"
proof -
  obtain sc where "scanning posix_lexer (word_text w @ c # cs) init_scan = scanning posix_lexer (c # cs) sc"
    "in_word sc (word_value w)"
    using scan_word [OF assms(1,2) ready_init, of "c # cs"] by auto
  then have "readToken posix_lexer (word_text w @ c # cs) = (word_value w, None, cs)"
    using assms(3) by (auto simp: readToken_def in_word_def scan_step_def)
  then show ?thesis by (simp add: Lexer_Split.simps [of _ "word_text w @ c # cs"])
qed

lemma Split_nil: "Lexer_Split posix_lexer [] = ([], None)"
  by (simp add: Lexer_Split.simps [of _ "[]"] readToken_def init_scan_def scan_end_def)

lemma Split_last:
  assumes "list_all wf_piece w" and "w \<noteq> []"
  shows "Lexer_Split posix_lexer (word_text w) = (if word_value w \<noteq> [] then [word_value w] else [], None)"
proof -
  obtain sc where "scanning posix_lexer (word_text w @ []) init_scan = scanning posix_lexer [] sc"
    "in_word sc (word_value w)"
    using scan_word [OF assms ready_init, of "[]"] by auto
  then have "readToken posix_lexer (word_text w) = (word_value w, Some EOF, [])"
    by (auto simp: readToken_def in_word_def scan_end_def)
  then show ?thesis by (simp add: Lexer_Split.simps [of _ "word_text w"])
qed

lemma Split_line:
  "wf_line ps \<Longrightarrow>
   Lexer_Split posix_lexer (line_text ps) = (filter (\<lambda>v. v \<noteq> []) (map (word_value \<circ> fst) ps), None)"
proof (induction ps rule: line_text.induct)
  case (2 w ws rest)
  show ?case
  proof (cases ws)
    case Nil
    with 2 show ?thesis by (simp add: Split_last)
  next
    case (Cons c cs)
    with 2 show ?thesis by (simp add: Split_word Split_spaces)
  qed
qed (simp add: Split_nil)

text \<open>
  C12. \<open>Split\<close> in POSIX mode on any command line built from bare, escaped, single-quoted and
  double-quoted pieces returns the values of its words in order, without an error; words whose value
  is empty are dropped.
\<close>

theorem split_words:
  assumes "list_all unicode_IsSpace lead" and "wf_line ps"
  shows "Split (lead @ line_text ps) True = (filter (\<lambda>v. v \<noteq> []) (map (word_value \<circ> fst) ps), None)"
  using assms by (simp add: Split_def Split_spaces Split_line)

theorem split_words_witness:
  "Split (''  '' @ line_text
     [([Bare (CHR ''s''), Bare (CHR ''h'')], '' ''), ([SQ []], '' ''),
      ([Bare (CHR ''a''), DQ [DPlain (CHR '' ''), DEsc (CHR 0x22), DEsc (CHR ''n'')], Esc (CHR '' '')], [])]) True =
   ([''sh'', ''a '' @ [CHR 0x22, CHR 0x5C] @ ''n ''], None)"
  by (subst split_words) (simp_all add: word_value_def unicode_IsSpace_def is_space_def)

section \<open>Quoting\<close>

definition ascii :: "string \<Rightarrow> bool" where
  "ascii s \<longleftrightarrow> list_all (\<lambda>c. code c < 128) s"

definition printable_ascii :: "string \<Rightarrow> bool" where
  "printable_ascii s \<longleftrightarrow> list_all (\<lambda>c. 32 \<le> code c \<and> code c < 127) s"

text \<open>What the lexer makes of a quoted character: the quoted control characters stay quoted.\<close>

definition unquoted_char :: "char \<Rightarrow> string" where
  "unquoted_char c = (if 32 \<le> code c \<and> code c < 127 then [c] else quote_char c)"

definition quote_pieces :: "char \<Rightarrow> dq list" where
  "quote_pieces c =
     (case quote_char c of
        x # y # zs \<Rightarrow> DEsc y # map DPlain zs
      | xs \<Rightarrow> map DPlain xs)"

lemma hex_digit_plain:
  assumes "n < 16"
  shows "hex_digit n \<noteq> CHR 0x22" "hex_digit n \<noteq> CHR 0x5C"
proof -
  have "(of_char (hex_digit n) :: nat) = (if n < 10 then 48 + n else 87 + n)"
    using assms by (simp add: hex_digit_def)
  then have "(of_char (hex_digit n) :: nat) \<noteq> 34" "(of_char (hex_digit n) :: nat) \<noteq> 92"
    using assms by auto
  then show "hex_digit n \<noteq> CHR 0x22" "hex_digit n \<noteq> CHR 0x5C"
    by auto
qed

lemma quote_pieces_props:
  "concat (map dq_text (quote_pieces c)) = quote_char c"
  "concat (map dq_value (quote_pieces c)) = unquoted_char c"
  "list_all wf_dq (quote_pieces c)"
proof -
  have "code c div 16 < 16" using nat_of_char_less_256 [of c] by linarith
  note hex = hex_digit_plain [OF this] hex_digit_plain [of "code c mod 16"]
  have special: "c = CHR 0x22 \<or> c = CHR 0x5C \<Longrightarrow> 32 \<le> code c \<and> code c < 127" by auto
  show "concat (map dq_text (quote_pieces c)) = quote_char c"
    by (simp add: quote_pieces_def quote_char_def)
  show "list_all wf_dq (quote_pieces c)"
    by (simp add: quote_pieces_def quote_char_def hex)
  show "concat (map dq_value (quote_pieces c)) = unquoted_char c"
    using special by (simp add: quote_pieces_def quote_char_def unquoted_char_def)
qed

lemma Quote_text: "Quote s = word_text [DQ (concat (map quote_pieces s))]"
proof -
  have "concat (map dq_text (concat (map quote_pieces s))) = concat (map quote_char s)"
    by (induction s) (simp_all add: quote_pieces_props)
  then show ?thesis by (simp add: Quote_def word_text_def)
qed

lemma Quote_value: "word_value [DQ (concat (map quote_pieces s))] = concat (map unquoted_char s)"
  by (induction s) (simp_all add: quote_pieces_props word_value_def)

lemma Quote_wf: "wf_piece (DQ (concat (map quote_pieces s)))"
  by (induction s) (simp_all add: quote_pieces_props)

lemma unquoted_printable: "printable_ascii s \<Longrightarrow> concat (map unquoted_char s) = s"
  by (induction s) (auto simp: printable_ascii_def unquoted_char_def)

definition bare_word :: "string \<Rightarrow> bool" where
  "bare_word s \<longleftrightarrow> s \<noteq> [] \<and> list_all (\<lambda>c. wf_piece (Bare c)) s"

lemma bare_word_pieces:
  "word_text (map Bare s) = s" "word_value (map Bare s) = s"
  by (induction s) (simp_all add: word_text_def word_value_def)

lemma Split_bare_quote:
  assumes "list_all bare_word ws"
  shows "Split (concat (map (\<lambda>w. w @ '' '') ws) @ Quote s) True =
         (ws @ (if concat (map unquoted_char s) = [] then [] else [concat (map unquoted_char s)]), None)"
proof -
  let ?q = "[DQ (concat (map quote_pieces s))]"
  let ?line = "map (\<lambda>w. (map Bare w, '' '')) ws @ [(?q, [])]"
  have space: "unicode_IsSpace (CHR '' '')" by simp
  have "line_text (map (\<lambda>w. (map Bare w, '' '')) vs @ [(?q, [])]) = concat (map (\<lambda>w. w @ '' '') vs) @ Quote s"
    and "list_all bare_word vs \<Longrightarrow> wf_line (map (\<lambda>w. (map Bare w, '' '')) vs @ [(?q, [])])" for vs
    using space Quote_wf [of s]
    by (induction vs) (auto simp: bare_word_pieces Quote_text bare_word_def list_all_iff simp del: wf_piece.simps char_classes)
  moreover have "map (word_value \<circ> fst) ?line = ws @ [concat (map unquoted_char s)]"
    by (simp add: bare_word_pieces Quote_value comp_def)
  moreover have "filter (\<lambda>v. v \<noteq> []) ws = ws"
    using assms by (induction ws) (auto simp: bare_word_def)
  ultimately show ?thesis
    using Split_line [of ?line] assms by (simp add: Split_def)
qed

text \<open>
  Quoting an argument with \<open>%q\<close> and splitting the line again gives the argument back, for every
  non-empty text of printable ASCII characters (quotes, backslashes, dollar signs and spaces included)
  after any number of bare words.
\<close>

theorem quote_split_roundtrip:
  assumes "list_all bare_word ws" and "printable_ascii s" and "s \<noteq> []"
  shows "Split (concat (map (\<lambda>w. w @ '' '') ws) @ Quote s) True = (ws @ [s], None)"
  using assms by (simp add: Split_bare_quote unquoted_printable)

text \<open>
  A control character in the argument does not survive: the lexer keeps the escape sequence
  that \<open>%q\<close> writes for it as literal text, so the argument arrives changed.
\<close>

theorem quote_split_control:
  assumes "list_all bare_word ws" and "ascii s" and "c \<in> set s" and "code c < 32"
  shows "Split (concat (map (\<lambda>w. w @ '' '') ws) @ Quote s) True \<noteq> (ws @ [s], None)"
proof -
  have ge: "length (concat (map unquoted_char t)) \<ge> length t" for t
    by (induction t) (auto simp: unquoted_char_def quote_char_def)
  obtain a b where s: "s = a @ c # b" using assms(3) by (meson split_list)
  have "length (unquoted_char c) > 1"
    using assms(4) by (auto simp: unquoted_char_def quote_char_def)
  with ge [of a] ge [of b] s have "length (concat (map unquoted_char s)) > length s" by simp
  then show ?thesis using assms(1) by (auto simp: Split_bare_quote)
qed

theorem quote_split_roundtrip_witness:
  "Split (''/bin/sh -c '' @ Quote (''echo '' @ [CHR 0x22] @ ''$HOME'' @ [CHR 0x22] @ '' | wc -c'')) True =
   ([''/bin/sh'', ''-c'', ''echo '' @ [CHR 0x22] @ ''$HOME'' @ [CHR 0x22] @ '' | wc -c''], None)"
  using quote_split_roundtrip [of "[''/bin/sh'', ''-c'']" "''echo '' @ [CHR 0x22] @ ''$HOME'' @ [CHR 0x22] @ '' | wc -c''"]
  by (simp add: bare_word_def printable_ascii_def unicode_IsSpace_def is_space_def)

theorem quote_split_control_witness:
  "Split (''sh -c '' @ Quote (''a'' @ [CHR 0x0A] @ ''b'')) True \<noteq> ([''sh'', ''-c'', ''a'' @ [CHR 0x0A] @ ''b''], None)"
  using quote_split_control [of "[''sh'', ''-c'']" "''a'' @ [CHR 0x0A] @ ''b''" "CHR 0x0A"]
  by (simp add: bare_word_def ascii_def unicode_IsSpace_def is_space_def)

end
