(* ===== verification/Shell_Command.thy ===== *)
theory Shell_Command
  imports Shlex "HOL-Library.AList_Mapping"
begin

text \<open>
  How the shell handler turns a request into the process that runs in the instance:
  \<open>setupEnvironmentVariables\<close>, \<open>buildCommandString\<close> and \<open>needsShellWrapping\<close> of
  \<open>src/server/shell.go\<close>, and the splitting of the command by \<open>BuildExecRequest\<close> of
  \<open>src/pkg/incus/exec.go\<close>. The five regular expressions are written out as predicates on the
  text (\<open>\w\<close>, \<open>\s\<close> and \<open>\b\<close> are the ASCII classes, as in Go).
\<close>

section \<open>Model\<close>

subsection \<open>Environment\<close>

record InstanceUser =
  iu_Project :: string
  iu_Instance :: string
  iu_User :: string
  iu_Uid :: int
  iu_Gid :: int
  iu_Dir :: string
  iu_Shell :: string
  iu_Ent :: string

definition zero_InstanceUser :: InstanceUser where
  "zero_InstanceUser =
     \<lparr>iu_Project = [], iu_Instance = [], iu_User = [], iu_Uid = 0, iu_Gid = 0, iu_Dir = [],
      iu_Shell = [], iu_Ent = []\<rparr>"

definition add_environ :: "string \<Rightarrow> (string, string) mapping \<Rightarrow> (string, string) mapping" where
  "add_environ v env =
     (case cut_char (CHR ''='') v of
        Some (name, val) \<Rightarrow> Mapping.update name val env
      | None \<Rightarrow> env)"

definition setupEnvironmentVariables ::
  "string list \<Rightarrow> string \<Rightarrow> InstanceUser \<Rightarrow> string \<Rightarrow> (string, string) mapping" where
  "setupEnvironmentVariables environ session iu term =
     (let env = fold add_environ environ Mapping.empty;
          env = (if Mapping.lookup env ''TERM'' = None
                 then Mapping.update ''TERM'' (if term \<noteq> [] then term else ''xterm-256color'') env
                 else env)
      in Mapping.update ''SSH_SESSION'' session
           (Mapping.update ''SHELL'' (iu_Shell iu)
             (Mapping.update ''HOME'' (iu_Dir iu)
               (Mapping.update ''USER'' (iu_User iu) env))))"

subsection \<open>Does a command need a shell?\<close>

definition re_word :: "char \<Rightarrow> bool" where
  "re_word c \<longleftrightarrow>
     is_digit c \<or> 65 \<le> code c \<and> code c \<le> 90 \<or> 97 \<le> code c \<and> code c \<le> 122 \<or> c = CHR ''_''"

definition re_space :: "char \<Rightarrow> bool" where
  "re_space c \<longleftrightarrow> c \<in> set [CHR '' '', CHR 0x09, CHR 0x0A, CHR 0x0C, CHR 0x0D]"

text \<open>\<open>.+?\<close> followed by a closing character: a match exists when the text up to some later closing
  character is non-empty and has no newline.\<close>

fun closes :: "char \<Rightarrow> string \<Rightarrow> bool" where
  "closes c [] \<longleftrightarrow> False"
| "closes c (x # xs) \<longleftrightarrow> x \<noteq> CHR 0x0A \<and> (case xs of [] \<Rightarrow> False | y # _ \<Rightarrow> y = c \<or> closes c xs)"

definition re_dollar_at :: "string \<Rightarrow> bool" where
  "re_dollar_at s \<longleftrightarrow>
     (case s of
        d # c # rest \<Rightarrow>
          d = CHR ''$'' \<and>
          (re_word c \<or> c = CHR ''{'' \<and> closes (CHR ''}'') rest \<or> c = CHR ''('' \<and> closes (CHR '')'') rest)
      | _ \<Rightarrow> False)"

definition re_backtick_at :: "string \<Rightarrow> bool" where
  "re_backtick_at s \<longleftrightarrow>
     (case s of
        b # rest \<Rightarrow> b = CHR 0x60 \<and> (case cut_char (CHR 0x60) rest of Some (x, _) \<Rightarrow> x \<noteq> [] | None \<Rightarrow> False)
      | [] \<Rightarrow> False)"

text \<open>Does a predicate hold of some suffix?\<close>

fun some_suffix :: "(string \<Rightarrow> bool) \<Rightarrow> string \<Rightarrow> bool" where
  "some_suffix p [] \<longleftrightarrow> p []"
| "some_suffix p (x # xs) \<longleftrightarrow> p (x # xs) \<or> some_suffix p xs"

definition shell_keywords :: "string list" where
  "shell_keywords =
     [''if'', ''for'', ''while'', ''until'', ''case'', ''function'', ''source'', ''alias'', ''export'',
      ''set'', ''unset'']"

definition keyword_at :: "string \<Rightarrow> bool" where
  "keyword_at s \<longleftrightarrow>
     list_ex (\<lambda>k. has_prefix s k \<and> (case drop (length k) s of [] \<Rightarrow> True | c # _ \<Rightarrow> \<not> re_word c)) shell_keywords"

text \<open>A keyword with a word boundary on both sides; \<open>prev\<close>: is the byte before a word byte?\<close>

fun has_keyword :: "bool \<Rightarrow> string \<Rightarrow> bool" where
  "has_keyword prev [] \<longleftrightarrow> False"
| "has_keyword prev (x # xs) \<longleftrightarrow> (\<not> prev \<and> keyword_at (x # xs)) \<or> has_keyword (re_word x) xs"

definition needsShellWrapping :: "string \<Rightarrow> bool" where
  "needsShellWrapping cmd =
     (let cmd = trim_space cmd
      in if cmd = [] then False
         else if list_ex (\<lambda>c. c \<in> set ''|&;()<>'' \<or> re_space c) cmd then True
         else if list_ex (\<lambda>c. c \<in> set ''*?[]{}~'') cmd then True
         else if some_suffix re_dollar_at cmd then True
         else if some_suffix re_backtick_at cmd then True
         else if has_keyword False cmd then True
         else if list_ex (contains_str cmd) ['' > '', '' >> '', '' < '', '' << '', '' 2> '', '' 2>> ''] then True
         else contains_str cmd '' && '' \<or> contains_str cmd '' || '' \<or> contains_str cmd '' ; '')"

subsection \<open>The command\<close>

definition buildCommandString :: "string \<Rightarrow> string \<Rightarrow> InstanceUser \<Rightarrow> string \<Rightarrow> string \<times> bool" where
  "buildCommandString shell raw iu remoteAddr =
     (if raw = []
      then (if shell = ''su'' then (''su - '' @ Quote (iu_User iu), False)
            else if shell = ''sush'' then (''sush '' @ Quote (iu_User iu), False)
            else if shell = ''login''
            then (''login '' @
                    (case split_host_port remoteAddr of
                       Some (host, _) \<Rightarrow> ''-h '' @ Quote host @ '' ''
                     | None \<Rightarrow> []) @
                    ''-f '' @ Quote (iu_User iu), False)
            else (iu_Shell iu @ '' -l'', True))
      else (if needsShellWrapping raw then iu_Shell iu @ '' -c '' @ Quote raw else raw, True))"

text \<open>The argument vector of the exec request; the error of \<open>Split\<close> is ignored.\<close>

definition exec_Command :: "string \<Rightarrow> string list" where
  "exec_Command cmd = fst (Split cmd True)"

section \<open>Properties\<close>

lemma trim_space_parts:
  obtains a b where "s = a @ trim_space s @ b" and "list_all is_space a" and "list_all is_space b"
proof -
  let ?t = "dropWhile is_space s"
  have 1: "s = takeWhile is_space s @ ?t" by simp
  have 2: "?t = rev (dropWhile is_space (rev ?t)) @ rev (takeWhile is_space (rev ?t))"
    by (metis rev_append rev_rev_ident takeWhile_dropWhile_id)
  have "s = takeWhile is_space s @ trim_space s @ rev (takeWhile is_space (rev ?t))"
    using 1 2 by (metis trim_space_def)
  then show ?thesis
    by (rule that) (auto simp: list_all_iff dest: set_takeWhileD)
qed

lemma unwrapped_chars:
  assumes "\<not> needsShellWrapping raw" and "c \<in> set (trim_space raw)"
  shows "\<not> re_space c"
proof -
  have "trim_space raw \<noteq> []" using assms(2) by auto
  with assms show ?thesis by (auto simp: needsShellWrapping_def Let_def list_ex_iff split: if_splits)
qed

lemma printable_not_space:
  "32 \<le> code c \<Longrightarrow> code c < 127 \<Longrightarrow> unicode_IsSpace c \<longleftrightarrow> c = CHR '' ''"
  by (auto simp: unicode_IsSpace_def is_space_def)

lemma Split_unwrapped:
  assumes "printable_ascii raw" and "\<not> needsShellWrapping raw"
    and "set raw \<inter> {CHR 0x27, CHR 0x22, CHR 0x5C} = {}"
  shows "Split raw True = (if trim_space raw = [] then [] else [trim_space raw], None)"
proof -
  obtain a b where raw: "raw = a @ trim_space raw @ b" and ab: "list_all is_space a" "list_all is_space b"
    by (rule trim_space_parts)
  have sub: "set (trim_space raw) \<subseteq> set raw"
    by (metis raw set_append Un_upper1 Un_upper2 subset_trans)
  have "list_all (\<lambda>c. wf_piece (Bare c)) (trim_space raw)"
    unfolding list_all_iff
  proof
    fix c assume c: "c \<in> set (trim_space raw)"
    then have "32 \<le> code c" "code c < 127" "c \<notin> {CHR 0x27, CHR 0x22, CHR 0x5C}"
      using sub assms(1,3) by (auto simp: printable_ascii_def list_all_iff)
    moreover have "c \<noteq> CHR '' ''"
      using unwrapped_chars [OF assms(2) c] by (auto simp: re_space_def)
    ultimately show "wf_piece (Bare c)" using printable_not_space by auto
  qed
  moreover have spaces: "list_all unicode_IsSpace a" "list_all unicode_IsSpace b"
    using ab by (simp_all add: unicode_IsSpace_def list_all_iff)
  ultimately have "trim_space raw \<noteq> [] \<Longrightarrow> wf_line [(map Bare (trim_space raw), b)]"
    by (simp add: list_all_iff)
  then show ?thesis
    using Split_line [of "[(map Bare (trim_space raw), b)]"] Split_line [of "[]"] spaces
      Split_spaces [of a "trim_space raw @ b"] Split_spaces [of b "[]"]
    by (subst raw) (auto simp: Split_def bare_word_pieces)
qed

lemma Split_wrapped:
  assumes "bare_word shell" and "printable_ascii raw" and "raw \<noteq> []"
  shows "Split (shell @ '' -c '' @ Quote raw) True = ([shell, ''-c'', raw], None)"
proof -
  have "list_all bare_word [shell, ''-c'']"
    using assms(1) by (simp add: bare_word_def unicode_IsSpace_def is_space_def)
  from Split_bare_quote [OF this, of raw] assms show ?thesis by (simp add: unquoted_printable)
qed



lemma login_words:
  "list_all bare_word [''su'', ''-''] \<and> list_all bare_word [''sush'']"
  by (simp add: bare_word_def unicode_IsSpace_def is_space_def)

text \<open>
  With the shells \<open>su\<close> and \<open>sush\<close> an interactive login runs the login program with the
  instance user as its only operand, for every printable user name: no name can add an argument.
\<close>

theorem login_command:
  assumes "printable_ascii (iu_User iu)" and "iu_User iu \<noteq> []"
  shows "exec_Command (fst (buildCommandString ''su'' [] iu addr)) = [''su'', ''-'', iu_User iu] \<and>
         exec_Command (fst (buildCommandString ''sush'' [] iu addr)) = [''sush'', iu_User iu]"
  using assms Split_bare_quote [OF login_words [THEN conjunct1], of "iu_User iu"]
    Split_bare_quote [OF login_words [THEN conjunct2], of "iu_User iu"]
  by (simp add: exec_Command_def buildCommandString_def unquoted_printable)

theorem login_command_witness:
  "exec_Command (fst (buildCommandString ''su'' [] (zero_InstanceUser\<lparr>iu_User := ''a b; c''\<rparr>) [])) =
   [''su'', ''-'', ''a b; c'']"
  using login_command [of "zero_InstanceUser\<lparr>iu_User := ''a b; c''\<rparr>" "[]"]
  by (simp add: printable_ascii_def)

text \<open>
  Whatever environment the client asks for, the process sees the user name, home directory and
  shell of the instance user and the id of the session; every other variable of the client is kept
  with its last value, and \<open>TERM\<close> is always set.
\<close>

theorem environment_safe:
  "let env = setupEnvironmentVariables environ session iu term;
       client = fold add_environ environ Mapping.empty
   in Mapping.lookup env ''USER'' = Some (iu_User iu) \<and>
      Mapping.lookup env ''HOME'' = Some (iu_Dir iu) \<and>
      Mapping.lookup env ''SHELL'' = Some (iu_Shell iu) \<and>
      Mapping.lookup env ''SSH_SESSION'' = Some session \<and>
      Mapping.lookup env ''TERM'' =
        Some (case Mapping.lookup client ''TERM'' of
                Some t \<Rightarrow> t
              | None \<Rightarrow> if term \<noteq> [] then term else ''xterm-256color'') \<and>
      (k \<in> set [''USER'', ''HOME'', ''SHELL'', ''SSH_SESSION'', ''TERM''] \<or>
       Mapping.lookup env k = Mapping.lookup client k)"
  by (simp add: setupEnvironmentVariables_def Let_def lookup_update' split: option.split)

end
