(* ===== verification/Create_Config.thy ===== *)
theory Create_Config
  imports Go_Base "HOL-Library.AList_Mapping"
begin

text \<open>
  The instance-creation defaults and profiles, \<open>src/server/create-config.go\<close>. A Go map is a
  reference, and the code shares the maps of the defaults with the configuration it builds, so the
  two kinds of maps that are updated in place live in a store: \<open>cfgs\<close> for the
  \<open>map[string]string\<close> of a \<open>Config\<close> field and \<open>devs\<close> for the map of a \<open>Devices\<close>
  field; the field is the index of its map or \<^const>\<open>None\<close> for nil. The map of one device is
  never updated in place (it is cloned), so it is a value, with \<^const>\<open>None\<close> for nil. Files are
  functions from paths to contents.

  The theorems: merging yields the defaults overridden by the profiles in order, and an unknown
  profile is an error; the documented promise that \<open>MergeProfiles\<close> does not modify the receiver
  holds exactly when the defaults have no maps of their own, and is broken otherwise.
\<close>

section \<open>Model\<close>

type_synonym strmap = "(string, string) mapping"
type_synonym devmap = "(string, strmap option) mapping"

record store =
  cfgs :: "strmap list"
  devs :: "devmap list"

record InstanceCreateConfig =
  icc_Image :: "string option"
  icc_Memory :: "string option"
  icc_CPU :: "string option"
  icc_Disk :: "string option"
  icc_Ephemeral :: "bool option"
  icc_VM :: "bool option"
  icc_Devices :: "nat option"
  icc_Config :: "nat option"

definition zero_icc :: InstanceCreateConfig where
  "zero_icc =
     \<lparr>icc_Image = None, icc_Memory = None, icc_CPU = None, icc_Disk = None, icc_Ephemeral = None,
      icc_VM = None, icc_Devices = None, icc_Config = None\<rparr>"

record CreateConfig =
  cc_Version :: string
  cc_Defaults :: InstanceCreateConfig
  cc_Profiles :: "(string, InstanceCreateConfig) mapping"
  cc_config :: InstanceCreateConfig
  cc_configFile :: string

subsection \<open>Accessors\<close>

definition cc_Image :: "CreateConfig \<Rightarrow> string" where
  "cc_Image c = (case icc_Image (cc_config c) of Some i \<Rightarrow> i | None \<Rightarrow> [])"

text \<open>The error of \<open>Atoi\<close> is ignored; the value is then 0.\<close>

definition atoi_or_zero :: "string option \<Rightarrow> int" where
  "atoi_or_zero s = (case s of Some s \<Rightarrow> (case atoi s of Some i \<Rightarrow> i | None \<Rightarrow> 0) | None \<Rightarrow> 0)"

definition cc_Memory :: "CreateConfig \<Rightarrow> int" where
  "cc_Memory c = atoi_or_zero (icc_Memory (cc_config c))"

definition cc_CPU :: "CreateConfig \<Rightarrow> int" where
  "cc_CPU c = atoi_or_zero (icc_CPU (cc_config c))"

definition cc_Disk :: "CreateConfig \<Rightarrow> int" where
  "cc_Disk c = atoi_or_zero (icc_Disk (cc_config c))"

definition cc_Ephemeral :: "CreateConfig \<Rightarrow> bool" where
  "cc_Ephemeral c = (case icc_Ephemeral (cc_config c) of Some b \<Rightarrow> b | None \<Rightarrow> False)"

definition cc_VM :: "CreateConfig \<Rightarrow> bool" where
  "cc_VM c = (case icc_VM (cc_config c) of Some b \<Rightarrow> b | None \<Rightarrow> False)"

definition alloc_cfg :: "strmap \<Rightarrow> store \<Rightarrow> store \<times> nat" where
  "alloc_cfg m h = (h\<lparr>cfgs := cfgs h @ [m]\<rparr>, length (cfgs h))"

definition alloc_dev :: "devmap \<Rightarrow> store \<Rightarrow> store \<times> nat" where
  "alloc_dev m h = (h\<lparr>devs := devs h @ [m]\<rparr>, length (devs h))"

definition cc_Config :: "CreateConfig \<Rightarrow> store \<Rightarrow> store \<times> nat" where
  "cc_Config c h = (case icc_Config (cc_config c) of Some r \<Rightarrow> (h, r) | None \<Rightarrow> alloc_cfg Mapping.empty h)"

definition cc_Devices :: "CreateConfig \<Rightarrow> store \<Rightarrow> store \<times> nat" where
  "cc_Devices c h = (case icc_Devices (cc_config c) of Some r \<Rightarrow> (h, r) | None \<Rightarrow> alloc_dev Mapping.empty h)"

subsection \<open>Merging profiles\<close>

text \<open>\<open>for k, v := range m2 { m1[k] = v }\<close>\<close>

definition override :: "('k, 'v) mapping \<Rightarrow> ('k, 'v) mapping \<Rightarrow> ('k, 'v) mapping" where
  "override m1 m2 = Mapping.combine (\<lambda>_ v. v) m1 m2"

definition merge_scalars :: "InstanceCreateConfig \<Rightarrow> InstanceCreateConfig \<Rightarrow> InstanceCreateConfig" where
  "merge_scalars p r =
     r\<lparr>icc_Image := (if icc_Image p \<noteq> None then icc_Image p else icc_Image r),
       icc_Ephemeral := (if icc_Ephemeral p \<noteq> None then icc_Ephemeral p else icc_Ephemeral r),
       icc_Memory := (if icc_Memory p \<noteq> None then icc_Memory p else icc_Memory r),
       icc_CPU := (if icc_CPU p \<noteq> None then icc_CPU p else icc_CPU r),
       icc_Disk := (if icc_Disk p \<noteq> None then icc_Disk p else icc_Disk r),
       icc_VM := (if icc_VM p \<noteq> None then icc_VM p else icc_VM r)\<rparr>"

definition merge_config ::
  "InstanceCreateConfig \<Rightarrow> store \<times> InstanceCreateConfig \<Rightarrow> store \<times> InstanceCreateConfig" where
  "merge_config p st =
     (case st of (h, r) \<Rightarrow>
        (case icc_Config p of
           None \<Rightarrow> (h, r)
         | Some pc \<Rightarrow>
             (let (h, rc) = (case icc_Config r of Some rc \<Rightarrow> (h, rc) | None \<Rightarrow> alloc_cfg Mapping.empty h)
              in (h\<lparr>cfgs := (cfgs h)[rc := override (cfgs h ! rc) (cfgs h ! pc)]\<rparr>,
                  r\<lparr>icc_Config := Some rc\<rparr>))))"

text \<open>Only devices whose map is not nil are copied.\<close>

definition merge_devices ::
  "InstanceCreateConfig \<Rightarrow> store \<times> InstanceCreateConfig \<Rightarrow> store \<times> InstanceCreateConfig" where
  "merge_devices p st =
     (case st of (h, r) \<Rightarrow>
        (case icc_Devices p of
           None \<Rightarrow> (h, r)
         | Some pd \<Rightarrow>
             (let (h, rd) = (case icc_Devices r of Some rd \<Rightarrow> (h, rd) | None \<Rightarrow> alloc_dev Mapping.empty h)
              in (h\<lparr>devs := (devs h)[rd := override (devs h ! rd)
                                     (Mapping.filter (\<lambda>_ d. d \<noteq> None) (devs h ! pd))]\<rparr>,
                  r\<lparr>icc_Devices := Some rd\<rparr>))))"

text \<open>The body of the loop over the profile names, shared by both functions.\<close>

definition apply_profile ::
  "InstanceCreateConfig \<Rightarrow> store \<times> InstanceCreateConfig \<Rightarrow> store \<times> InstanceCreateConfig" where
  "apply_profile p st =
     (case st of (h, r) \<Rightarrow> merge_devices p (merge_config p (h, merge_scalars p r)))"

text \<open>The loop; \<^const>\<open>Inl\<close> carries the name of a profile that does not exist.\<close>

fun apply_names ::
  "CreateConfig \<Rightarrow> string list \<Rightarrow> store \<times> InstanceCreateConfig \<Rightarrow>
   (store \<times> InstanceCreateConfig) \<times> string option" where
  "apply_names c [] st = (st, None)"
| "apply_names c (name # names) st =
     (if name = [] then apply_names c names st
      else (case Mapping.lookup (cc_Profiles c) name of
              None \<Rightarrow> (st, Some name)
            | Some p \<Rightarrow> apply_names c names (apply_profile p st)))"

definition MergeProfiles ::
  "CreateConfig \<Rightarrow> string list \<Rightarrow> store \<Rightarrow> store \<times> (string + InstanceCreateConfig)" where
  "MergeProfiles c profiles h =
     (case apply_names c profiles (h, cc_Defaults c) of
        ((h, result), None) \<Rightarrow> (h, Inr result)
      | ((h, _), Some name) \<Rightarrow> (h, Inl name))"

text \<open>On an error the profiles before the missing one stay applied to \<open>c.config\<close>.\<close>

definition ApplyProfiles ::
  "CreateConfig \<Rightarrow> string list \<Rightarrow> store \<Rightarrow> store \<times> CreateConfig \<times> string option" where
  "ApplyProfiles c profiles h =
     (case apply_names c profiles (h, cc_Defaults c) of
        ((h, r), err) \<Rightarrow> (h, c\<lparr>cc_config := r\<rparr>, err))"

subsection \<open>Loading\<close>

text \<open>What the code reads of the file system: contents by path, existence, working directory.\<close>

record files =
  fs_ReadFile :: "string \<Rightarrow> string option"
  fs_Stat :: "string \<Rightarrow> bool"
  fs_Getwd :: "string option"

datatype load_error =
    NoWorkingDirectory
  | CannotRead string
  | CannotParse
  | NoConfigFound

definition include_name :: "string \<Rightarrow> string option" where
  "include_name value =
     (let trimmed = trim_space value
      in if has_prefix trimmed ''!include '' then Some (trim_space (drop 9 trimmed))
         else if has_prefix trimmed ''<@'' then Some (trim_space (drop 2 trimmed))
         else None)"

definition include_path :: "files \<Rightarrow> string \<Rightarrow> string \<Rightarrow> load_error + string" where
  "include_path fs dir filename =
     (if IsAbs filename then Inr filename
      else if fs_Stat fs (path_Join [dir, filename]) then Inr (path_Join [dir, filename])
      else (case fs_Getwd fs of
              None \<Rightarrow> Inl NoWorkingDirectory
            | Some cwd \<Rightarrow> Inr (path_Join [cwd, filename])))"

text \<open>The value an entry has after its include directive is processed.\<close>

definition include_value :: "files \<Rightarrow> string \<Rightarrow> string \<Rightarrow> load_error + string" where
  "include_value fs dir value =
     (case include_name value of
        None \<Rightarrow> Inr value
      | Some filename \<Rightarrow>
          (case include_path fs dir filename of
             Inl e \<Rightarrow> Inl e
           | Inr path \<Rightarrow>
               (case fs_ReadFile fs path of
                  None \<Rightarrow> Inl (CannotRead path)
                | Some content \<Rightarrow> Inr content)))"

text \<open>The loop over the entries in their visiting order \<open>ks\<close>.\<close>

fun include_loop :: "files \<Rightarrow> string \<Rightarrow> string list \<Rightarrow> strmap \<Rightarrow> strmap \<times> load_error option" where
  "include_loop fs dir [] m = (m, None)"
| "include_loop fs dir (k # ks) m =
     (case Mapping.lookup m k of
        None \<Rightarrow> include_loop fs dir ks m
      | Some v \<Rightarrow>
          (case include_value fs dir v of
             Inl e \<Rightarrow> (m, Some e)
           | Inr w \<Rightarrow> include_loop fs dir ks (Mapping.update k w m)))"

definition processIncludes ::
  "files \<Rightarrow> string \<Rightarrow> (strmap \<Rightarrow> string list) \<Rightarrow> nat option \<Rightarrow> store \<Rightarrow> store \<times> load_error option" where
  "processIncludes fs dir order r h =
     (case r of
        None \<Rightarrow> (h, None)
      | Some a \<Rightarrow>
          (let (m, err) = include_loop fs dir (order (cfgs h ! a)) (cfgs h ! a)
           in (h\<lparr>cfgs := (cfgs h)[a := m]\<rparr>, err)))"

fun include_profiles ::
  "files \<Rightarrow> string \<Rightarrow> (strmap \<Rightarrow> string list) \<Rightarrow> CreateConfig \<Rightarrow> string list \<Rightarrow> store \<Rightarrow> store \<times> load_error option" where
  "include_profiles fs dir order c [] h = (h, None)"
| "include_profiles fs dir order c (n # ns) h =
     (case Mapping.lookup (cc_Profiles c) n of
        None \<Rightarrow> include_profiles fs dir order c ns h
      | Some p \<Rightarrow>
          (case processIncludes fs dir order (icc_Config p) h of
             (h, Some e) \<Rightarrow> (h, Some e)
           | (h, None) \<Rightarrow> include_profiles fs dir order c ns h))"

text \<open>
  \<open>LoadCreateConfig\<close>: \<open>unmarshal\<close> is the YAML library (it allocates the maps of the document in the
  store), \<open>order\<close> and \<open>names\<close> are the visiting orders of the loops over maps.
\<close>

definition LoadCreateConfig ::
  "files \<Rightarrow> (string \<Rightarrow> store \<Rightarrow> (store \<times> CreateConfig) option) \<Rightarrow> (strmap \<Rightarrow> string list) \<Rightarrow>
   (CreateConfig \<Rightarrow> string list) \<Rightarrow> string \<Rightarrow> store \<Rightarrow> store \<times> (load_error + CreateConfig)" where
  "LoadCreateConfig fs unmarshal order names path h =
     (case fs_ReadFile fs path of
        None \<Rightarrow> (h, Inl (CannotRead path))
      | Some data \<Rightarrow>
          (case unmarshal data h of
             None \<Rightarrow> (h, Inl CannotParse)
           | Some (h, c) \<Rightarrow>
               (case processIncludes fs (path_Dir path) order (icc_Config (cc_Defaults c)) h of
                  (h, Some e) \<Rightarrow> (h, Inl e)
                | (h, None) \<Rightarrow>
                    (case include_profiles fs (path_Dir path) order c (names c) h of
                       (h, Some e) \<Rightarrow> (h, Inl e)
                     | (h, None) \<Rightarrow> (h, Inr (c\<lparr>cc_config := cc_Defaults c, cc_configFile := path\<rparr>))))))"

definition config_paths :: "files \<Rightarrow> string list \<Rightarrow> string list" where
  "config_paths fs paths =
     List.map_filter
       (\<lambda>p. if IsAbs p then Some (path_Join [p, ''create-config.yaml''])
            else (case fs_Getwd fs of
                    Some cwd \<Rightarrow> Some (path_Join [cwd, p, ''create-config.yaml''])
                  | None \<Rightarrow> None)) paths"

fun first_config ::
  "(string \<Rightarrow> store \<Rightarrow> store \<times> (load_error + CreateConfig)) \<Rightarrow> string list \<Rightarrow> store \<Rightarrow>
   store \<times> (load_error + CreateConfig)" where
  "first_config load [] h = (h, Inl NoConfigFound)"
| "first_config load (p # ps) h =
     (case load p h of
        (h, Inr c) \<Rightarrow> (h, Inr c)
      | (h, Inl _) \<Rightarrow> first_config load ps h)"

definition LoadCreateConfigWithFallback ::
  "files \<Rightarrow> (string \<Rightarrow> store \<Rightarrow> (store \<times> CreateConfig) option) \<Rightarrow> (strmap \<Rightarrow> string list) \<Rightarrow>
   (CreateConfig \<Rightarrow> string list) \<Rightarrow> string list \<Rightarrow> store \<Rightarrow> store \<times> (load_error + CreateConfig)" where
  "LoadCreateConfigWithFallback fs unmarshal order names paths h =
     first_config (LoadCreateConfig fs unmarshal order names) (config_paths fs paths) h"

section \<open>Specification: values instead of references\<close>

text \<open>A configuration as its reader sees it: the scalar fields and the contents of its maps.\<close>

type_synonym view = "InstanceCreateConfig \<times> strmap option \<times> devmap option"

definition view :: "store \<Rightarrow> InstanceCreateConfig \<Rightarrow> view" where
  "view h r =
     (r\<lparr>icc_Devices := None, icc_Config := None\<rparr>,
      map_option (\<lambda>a. cfgs h ! a) (icc_Config r), map_option (\<lambda>a. devs h ! a) (icc_Devices r))"

text \<open>A profile on top of a configuration, on values.\<close>

definition overlay :: "('k, 'v) mapping option \<Rightarrow> ('k, 'v) mapping option \<Rightarrow> ('k, 'v) mapping option" where
  "overlay over base =
     (case over of
        None \<Rightarrow> base
      | Some m \<Rightarrow> Some (override (case base of Some b \<Rightarrow> b | None \<Rightarrow> Mapping.empty) m))"

definition merge_view :: "view \<Rightarrow> view \<Rightarrow> view" where
  "merge_view p r =
     (case (p, r) of
        ((ps, pc, pd), (rs, rc, rd)) \<Rightarrow>
          (merge_scalars ps rs, overlay pc rc,
           overlay (map_option (Mapping.filter (\<lambda>_ d. d \<noteq> None)) pd) rd))"

text \<open>References into the store, and configurations that share no map.\<close>

definition valid :: "store \<Rightarrow> InstanceCreateConfig \<Rightarrow> bool" where
  "valid h r \<longleftrightarrow>
     pred_option (\<lambda>a. a < length (cfgs h)) (icc_Config r) \<and>
     pred_option (\<lambda>a. a < length (devs h)) (icc_Devices r)"

definition apart :: "InstanceCreateConfig \<Rightarrow> InstanceCreateConfig \<Rightarrow> bool" where
  "apart p r \<longleftrightarrow>
     (icc_Config p = None \<or> icc_Config p \<noteq> icc_Config r) \<and>
     (icc_Devices p = None \<or> icc_Devices p \<noteq> icc_Devices r)"

text \<open>A loaded configuration: all references valid, the defaults share no map with a profile.\<close>

definition loaded :: "store \<Rightarrow> CreateConfig \<Rightarrow> bool" where
  "loaded h c \<longleftrightarrow>
     valid h (cc_Defaults c) \<and>
     (\<forall>name p. Mapping.lookup (cc_Profiles c) name = Some p \<longrightarrow> valid h p \<and> apart p (cc_Defaults c))"

section \<open>Lemmas\<close>

lemma lookup_override:
  "Mapping.lookup (override m1 m2) k =
   (case Mapping.lookup m2 k of Some v \<Rightarrow> Some v | None \<Rightarrow> Mapping.lookup m1 k)"
  by (simp add: override_def lookup_combine combine_options_def split: option.split)

text \<open>What holds of the result under construction while the profiles are applied.\<close>

definition merging :: "store \<Rightarrow> CreateConfig \<Rightarrow> store \<times> InstanceCreateConfig \<Rightarrow> bool" where
  "merging h0 c st \<longleftrightarrow>
     valid (fst st) (snd st) \<and>
     (\<forall>name p. Mapping.lookup (cc_Profiles c) name = Some p \<longrightarrow>
        valid (fst st) p \<and> apart p (snd st) \<and> view (fst st) p = view h0 p)"

lemmas merge_defs = merge_config_def merge_devices_def alloc_cfg_def alloc_dev_def

lemma merge_scalars_frame [simp]:
  "icc_Config (merge_scalars p r) = icc_Config r" "icc_Devices (merge_scalars p r) = icc_Devices r"
  by (simp_all add: merge_scalars_def)

lemma deref_simps:
  "x \<noteq> Some a \<Longrightarrow> map_option ((!) (xs[a := v])) x = map_option ((!) xs) x"
  "pred_option (\<lambda>a. a < length xs) x \<Longrightarrow> map_option ((!) (xs @ ys)) x = map_option ((!) xs) x"
  by (cases x; simp add: nth_append)+

lemma fresh_ref: "pred_option (\<lambda>a. a < (n :: nat)) x \<Longrightarrow> x \<noteq> Some n"
  by (cases x) auto

lemma weaken_ref: "pred_option (\<lambda>a. a < n) x \<Longrightarrow> pred_option (\<lambda>a. a < Suc n) x"
  by (cases x) auto

lemma merge_config_view:
  assumes "valid h r" and "valid h p" and "merge_config p (h, r) = (h', r')"
  shows "view h' r' =
           (fst (view h r), overlay (fst (snd (view h p))) (fst (snd (view h r))), snd (snd (view h r)))"
    and "valid h' r'" and "devs h' = devs h" and "length (cfgs h) \<le> length (cfgs h')"
    and "icc_Devices r' = icc_Devices r"
    and "\<And>q. valid h q \<Longrightarrow> apart q r \<Longrightarrow> valid h' q \<and> apart q r' \<and> view h' q = view h q"
  using assms
  by (auto simp: merge_defs view_def overlay_def valid_def apart_def nth_append nth_list_update
      deref_simps fresh_ref weaken_ref split: option.splits prod.splits)

lemma merge_devices_view:
  assumes "valid h r" and "valid h p" and "merge_devices p (h, r) = (h', r')"
  shows "view h' r' =
           (fst (view h r), fst (snd (view h r)),
            overlay (map_option (Mapping.filter (\<lambda>_ d. d \<noteq> None)) (snd (snd (view h p)))) (snd (snd (view h r))))"
    and "valid h' r'" and "cfgs h' = cfgs h"
    and "\<And>q. valid h q \<Longrightarrow> apart q r \<Longrightarrow> valid h' q \<and> apart q r' \<and> view h' q = view h q"
  using assms
  by (auto simp: merge_defs view_def overlay_def valid_def apart_def nth_append nth_list_update
      deref_simps fresh_ref weaken_ref split: option.splits prod.splits)

lemma merge_scalars_valid [simp]:
  "valid h (merge_scalars p r) = valid h r" "apart q (merge_scalars p r) = apart q r"
  by (simp_all add: valid_def apart_def)

lemma view_merge_scalars:
  "view h (merge_scalars p r) = (merge_scalars (fst (view h p)) (fst (view h r)), snd (view h r))"
  by (simp add: view_def merge_scalars_def)

lemma apply_profile_step:
  assumes "merging h0 c (h, r)" and "Mapping.lookup (cc_Profiles c) name = Some p"
  shows "merging h0 c (apply_profile p (h, r)) \<and>
         view (fst (apply_profile p (h, r))) (snd (apply_profile p (h, r))) =
         merge_view (view h0 p) (view h r)"
proof -
  let ?r = "merge_scalars p r"
  have r: "valid h ?r" and p: "valid h p" "apart p r" "view h p = view h0 p"
    using assms by (auto simp: merging_def)
  obtain h1 r1 where c1: "merge_config p (h, ?r) = (h1, r1)" by (cases "merge_config p (h, ?r)")
  note m1 = merge_config_view [OF r p(1) c1]
  obtain h2 r2 where c2: "merge_devices p (h1, r1) = (h2, r2)" by (cases "merge_devices p (h1, r1)")
  have p1: "valid h1 p" "view h1 p = view h p"
    using m1(6) [of p] p by simp_all
  note m2 = merge_devices_view [OF m1(2) p1(1) c2]
  have eq: "apply_profile p (h, r) = (h2, r2)" by (simp add: apply_profile_def c1 c2)
  have "valid h2 q \<and> apart q r2 \<and> view h2 q = view h0 q"
    if "Mapping.lookup (cc_Profiles c) n = Some q" for n q
    using that assms(1) m1(6) [of q] m2(4) [of q] by (auto simp: merging_def)
  moreover have "view h2 r2 = merge_view (view h0 p) (view h r)"
    using m2(1) m1(1) p1(2) p(3)
    by (simp add: view_merge_scalars merge_view_def case_prod_unfold)
  ultimately show ?thesis
    using m2(2) by (auto simp: merging_def eq)
qed

definition known :: "CreateConfig \<Rightarrow> string list \<Rightarrow> bool" where
  "known c names \<longleftrightarrow> list_all (\<lambda>n. n = [] \<or> Mapping.lookup (cc_Profiles c) n \<noteq> None) names"

definition profile_views :: "store \<Rightarrow> CreateConfig \<Rightarrow> string list \<Rightarrow> view list" where
  "profile_views h c names =
     List.map_filter (\<lambda>n. if n = [] then None else map_option (view h) (Mapping.lookup (cc_Profiles c) n)) names"

lemma apply_names_merging:
  assumes "merging h0 c st"
  shows "merging h0 c (fst (apply_names c names st))"
    and "snd (apply_names c names st) = None \<longleftrightarrow> known c names"
    and "known c names \<Longrightarrow>
         view (fst (fst (apply_names c names st))) (snd (fst (apply_names c names st))) =
         fold merge_view (profile_views h0 c names) (view (fst st) (snd st))"
proof -
  have "merging h0 c (fst (apply_names c names st)) \<and>
    (snd (apply_names c names st) = None \<longleftrightarrow> known c names) \<and>
    (known c names \<longrightarrow>
       view (fst (fst (apply_names c names st))) (snd (fst (apply_names c names st))) =
       fold merge_view (profile_views h0 c names) (view (fst st) (snd st)))"
    using assms
  proof (induction c names st rule: apply_names.induct)
    case (1 c st)
    then show ?case by (simp add: known_def profile_views_def)
  next
    case (2 c name names st)
    show ?case
    proof (cases "name = [] \<or> Mapping.lookup (cc_Profiles c) name = None")
      case True
      with 2 show ?thesis by (auto simp: known_def profile_views_def)
    next
      case False
      then obtain p where p: "Mapping.lookup (cc_Profiles c) name = Some p" by auto
      note step = apply_profile_step [OF _ p, of h0 "fst st" "snd st"]
      show ?thesis
        using 2(2) [OF _ p] step 2(3) False p by (simp add: known_def profile_views_def)
    qed
  qed
  then show "merging h0 c (fst (apply_names c names st))"
    and "snd (apply_names c names st) = None \<longleftrightarrow> known c names"
    and "known c names \<Longrightarrow>
         view (fst (fst (apply_names c names st))) (snd (fst (apply_names c names st))) =
         fold merge_view (profile_views h0 c names) (view (fst st) (snd st))" by auto
qed

lemma loaded_merging: "loaded h c \<Longrightarrow> merging h c (h, cc_Defaults c)"
  by (auto simp: loaded_def merging_def)

section \<open>Properties\<close>


text \<open>A small configuration file: defaults with one config entry, and the profile \<open>dev\<close>.\<close>

definition sample_store :: store where
  "sample_store =
     \<lparr>cfgs = [Mapping.update ''a'' ''1'' Mapping.empty, Mapping.update ''b'' ''2'' Mapping.empty], devs = []\<rparr>"

definition sample_config :: CreateConfig where
  "sample_config =
     \<lparr>cc_Version = ''1'', cc_Defaults = zero_icc\<lparr>icc_Config := Some 0\<rparr>,
      cc_Profiles = Mapping.update ''dev'' (zero_icc\<lparr>icc_Config := Some 1, icc_VM := Some True\<rparr>) Mapping.empty,
      cc_config = zero_icc, cc_configFile = []\<rparr>"

lemma sample_loaded: "loaded sample_store sample_config"
  by (auto simp: loaded_def sample_store_def sample_config_def zero_icc_def valid_def apart_def
      lookup_update' split: if_splits)

lemma sample_profile:
  "Mapping.lookup (cc_Profiles sample_config) ''dev'' = Some (zero_icc\<lparr>icc_Config := Some 1, icc_VM := Some True\<rparr>)"
  by (simp add: sample_config_def)


text \<open>
  A name that is not a profile makes both functions fail with that name, the first unknown one; a
  failed \<open>ApplyProfiles\<close> has already applied the profiles before it.
\<close>

theorem merge_profiles_unknown:
  assumes "known c before" and "name \<noteq> []" and "Mapping.lookup (cc_Profiles c) name = None"
  shows "snd (MergeProfiles c (before @ name # after) h) = Inl name \<and>
         snd (snd (ApplyProfiles c (before @ name # after) h)) = Some name \<and>
         cc_config (fst (snd (ApplyProfiles c (before @ name # after) h))) =
         cc_config (fst (snd (ApplyProfiles c before h)))"
proof -
  have "apply_names c (before @ name # after) st = (fst (apply_names c before st), Some name)" for st
    using assms by (induction before arbitrary: st) (auto simp: known_def split: option.split)
  then show ?thesis
    by (simp add: MergeProfiles_def ApplyProfiles_def case_prod_unfold)
qed

theorem merge_profiles_unknown_witness:
  "snd (MergeProfiles sample_config ([''dev''] @ ''nope'' # []) sample_store) = Inl ''nope''"
  using merge_profiles_unknown [of sample_config "[''dev'']" "''nope''" "[]" sample_store]
  by (simp add: known_def sample_config_def)

text \<open>
  \<open>MergeProfiles\<close> does modify the receiver: when the defaults have a config map, every entry of
  the merged profile is written into it, so afterwards the defaults themselves, and every later
  merge of any profiles (even none), carry the entries of this profile.
\<close>

theorem merge_profiles_leaks:
  assumes "loaded h c" and "name \<noteq> []" and "Mapping.lookup (cc_Profiles c) name = Some p"
    and "icc_Config (cc_Defaults c) = Some a" and "icc_Config p = Some b"
    and "Mapping.lookup (cfgs h ! b) k = Some v"
    and "MergeProfiles c [name] h = (h', res)"
  shows "Mapping.lookup (cfgs h' ! a) k = Some v \<and>
         MergeProfiles c [] h' = (h', Inr (cc_Defaults c))"
proof -
  have a: "a < length (cfgs h)" using assms(1,4) by (simp add: loaded_def valid_def)
  have "fst (apply_profile p (h, cc_Defaults c)) = h'"
    using assms(2,3,7) by (simp add: MergeProfiles_def case_prod_unfold)
  then have "cfgs h' = (cfgs h)[a := override (cfgs h ! a) (cfgs h ! b)]"
    using assms(4,5) by (auto simp: apply_profile_def merge_defs Let_def split: option.splits)
  with a assms(6) show ?thesis by (simp add: lookup_override MergeProfiles_def)
qed

theorem merge_profiles_leaks_witness:
  "Mapping.lookup (cfgs (fst (MergeProfiles sample_config [''dev''] sample_store)) ! 0) ''b'' = Some ''2''"
  using merge_profiles_leaks [OF sample_loaded _ sample_profile, where a = 0 and b = 1 and k = "''b''" and v = "''2''"
      and h' = "fst (MergeProfiles sample_config [''dev''] sample_store)"
      and res = "snd (MergeProfiles sample_config [''dev''] sample_store)"]
  by (simp add: sample_config_def sample_store_def)

text \<open>
  Merging never changes what a profile contains, and it leaves the defaults unchanged when they
  have no maps of their own.
\<close>

theorem merge_profiles_preserves:
  assumes "loaded h c" and "MergeProfiles c names h = (h', res)"
    and "Mapping.lookup (cc_Profiles c) name = Some p"
  shows "view h' p = view h p \<and>
         (icc_Config (cc_Defaults c) = None \<and> icc_Devices (cc_Defaults c) = None \<longrightarrow>
            view h' (cc_Defaults c) = view h (cc_Defaults c))"
proof -
  have "fst (fst (apply_names c names (h, cc_Defaults c))) = h'"
    using assms(2) by (auto simp: MergeProfiles_def case_prod_unfold split: option.splits)
  with apply_names_merging(1) [OF loaded_merging [OF assms(1)], of names] assms(3)
  show ?thesis by (auto simp: merging_def view_def)
qed

theorem merge_profiles_preserves_witness:
  "view (fst (MergeProfiles sample_config [''dev''] sample_store)) (zero_icc\<lparr>icc_Config := Some 1, icc_VM := Some True\<rparr>) =
   view sample_store (zero_icc\<lparr>icc_Config := Some 1, icc_VM := Some True\<rparr>)"
  using merge_profiles_preserves [OF sample_loaded, of "[''dev'']"] sample_profile
  by (metis prod.collapse)

lemma include_loop_other:
  "k \<notin> set ks \<Longrightarrow> Mapping.lookup (fst (include_loop fs dir ks m)) k = Mapping.lookup m k"
  by (induction fs dir ks m rule: include_loop.induct) (auto split: option.split sum.split)

lemma include_loop_ok:
  "include_loop fs dir ks m = (m', None) \<Longrightarrow> distinct ks \<Longrightarrow> k \<in> set ks \<Longrightarrow>
   map_option Inr (Mapping.lookup m' k) = map_option (include_value fs dir) (Mapping.lookup m k)"
proof (induction fs dir ks m rule: include_loop.induct)
  case (2 fs dir x ks m)
  show ?case
  proof (cases "Mapping.lookup m x")
    case None
    with 2 include_loop_other [of x ks fs dir m] show ?thesis by auto
  next
    case (Some v)
    then obtain w where w: "include_value fs dir v = Inr w"
      using 2(3) by (auto split: sum.splits)
    with Some 2(3) have loop: "include_loop fs dir ks (Mapping.update x w m) = (m', None)" by simp
    with include_loop_other [of x ks fs dir "Mapping.update x w m"] 2(4) have "Mapping.lookup m' x = Some w"
      by simp
    with 2(2) [OF Some w loop] 2(4,5) Some w show ?thesis by (cases "k = x") auto
  qed
qed simp

lemma include_loop_err:
  "include_loop fs dir ks m = (m', Some e) \<Longrightarrow> distinct ks \<Longrightarrow>
   \<exists>k \<in> set ks. \<exists>v. Mapping.lookup m k = Some v \<and> include_value fs dir v = Inl e"
proof (induction fs dir ks m rule: include_loop.induct)
  case (2 fs dir x ks m)
  show ?case
  proof (cases "Mapping.lookup m x")
    case None
    with 2 show ?thesis by auto
  next
    case (Some v)
    show ?thesis
    proof (cases "include_value fs dir v")
      case (Inl e')
      with Some 2(3) show ?thesis by auto
    next
      case (Inr w)
      with Some 2(3) have "include_loop fs dir ks (Mapping.update x w m) = (m', Some e)" by simp
      from 2(2) [OF Some Inr this] 2(4) obtain k u where
        "k \<in> set ks" "Mapping.lookup (Mapping.update x w m) k = Some u" "include_value fs dir u = Inl e"
        by auto
      moreover from this(1) 2(4) have "k \<noteq> x" by auto
      ultimately show ?thesis by auto
    qed
  qed
qed simp

text \<open>
  Processing the includes of a map, in any visiting order: when it succeeds every entry with an
  include directive holds the content of the file it names and every other entry is as before; when
  it fails, the error is that of one of the entries.
\<close>

theorem process_includes_correct:
  assumes "distinct ks" and "set ks = Mapping.keys m"
  shows "case include_loop fs dir ks m of
           (m', None) \<Rightarrow> map_option Inr (Mapping.lookup m' k) = map_option (include_value fs dir) (Mapping.lookup m k)
         | (m', Some e) \<Rightarrow> \<exists>k v. Mapping.lookup m k = Some v \<and> include_value fs dir v = Inl e"
proof -
  obtain m' err where run: "include_loop fs dir ks m = (m', err)" by (cases "include_loop fs dir ks m")
  show ?thesis
  proof (cases err)
    case None
    show ?thesis
    proof (cases "k \<in> set ks")
      case True
      with run None include_loop_ok [of fs dir ks m m' k] assms(1) show ?thesis by simp
    next
      case False
      then have "Mapping.lookup m k = None" using assms(2) by (auto simp: keys_dom_lookup)
      with include_loop_other [OF False, of fs dir m] run None show ?thesis by simp
    qed
  next
    case (Some e)
    with run include_loop_err [of fs dir ks m m' e] assms(1) show ?thesis by auto
  qed
qed

theorem process_includes_correct_witness:
  "case include_loop \<lparr>fs_ReadFile = [''/etc/x/u.yaml'' \<mapsto> ''data''], fs_Stat = (\<lambda>p. p = ''/etc/x/u.yaml''), fs_Getwd = None\<rparr>
          ''/etc/x'' [''k''] (Mapping.update ''k'' '' <@ u.yaml'' Mapping.empty) of
     (m', None) \<Rightarrow> map_option Inr (Mapping.lookup m' ''k'') = (Some (Inr ''data'') :: (load_error + string) option)
   | (m', Some e) \<Rightarrow> False"
proof -
  let ?fs = "\<lparr>fs_ReadFile = [''/etc/x/u.yaml'' \<mapsto> ''data''], fs_Stat = (\<lambda>p. p = ''/etc/x/u.yaml''), fs_Getwd = None\<rparr>"
  let ?m = "Mapping.update ''k'' '' <@ u.yaml'' Mapping.empty"
  have v: "include_value ?fs ''/etc/x'' '' <@ u.yaml'' = Inr ''data''"
    by code_simp
  have "case include_loop ?fs ''/etc/x'' [''k''] ?m of
      (m', None) \<Rightarrow> map_option Inr (Mapping.lookup m' ''k'') = map_option (include_value ?fs ''/etc/x'') (Mapping.lookup ?m ''k'')
    | (m', Some e) \<Rightarrow> \<exists>k v. Mapping.lookup ?m k = Some v \<and> include_value ?fs ''/etc/x'' v = Inl e"
    by (rule process_includes_correct) simp_all
  with v show ?thesis by simp
qed

end
