(* ===== verification/Scanner.thy ===== *)
theory Scanner
  imports Go_Base
begin

text \<open>
  \<open>bufio.Scanner\<close> over lines, as the program uses it: \<open>getUserAuthKeys\<close> (\<open>src/server/user.go\<close>) and
  \<open>BytesBuffer\<close> (\<open>src/pkg/util/buffer/bytes.go\<close>) keep the slices that \<open>Bytes\<close> returns while the
  scan goes on, although the scanner reuses the array below them. The arrays are therefore explicit: a
  token is an array, an offset and a length, and its bytes are read when the scan is over. \<open>Text\<close>
  copies the bytes at once.
\<close>

section \<open>Model\<close>

subsection \<open>The scanner\<close>

abbreviation newline :: char where "newline \<equiv> CHR 0x0A"

record scanner =
  sc_retired :: "string list"
  sc_buf :: string
  sc_start :: nat
  sc_end :: nat
  sc_in :: string
  sc_eof :: bool

definition MaxScanTokenSize :: nat where
  "MaxScanTokenSize = 65536"

definition startBufSize :: nat where
  "startBufSize = 4096"

definition new_scanner :: "string \<Rightarrow> scanner" where
  "new_scanner input = \<lparr>sc_retired = [], sc_buf = [], sc_start = 0, sc_end = 0, sc_in = input, sc_eof = False\<rparr>"

definition dropCR :: "string \<Rightarrow> string" where
  "dropCR d = (if d \<noteq> [] \<and> last d = CHR 0x0D then butlast d else d)"

text \<open>\<open>ScanLines\<close>: how far to advance and the length of the token, which starts the data.\<close>

definition ScanLines :: "string \<Rightarrow> bool \<Rightarrow> (nat \<times> nat) option" where
  "ScanLines d atEOF =
     (let line = takeWhile (\<lambda>c. c \<noteq> newline) d
      in if d = [] then None
         else if length line < length d then Some (Suc (length line), length (dropCR line))
         else if atEOF then Some (length d, length (dropCR d))
         else None)"

definition window :: "scanner \<Rightarrow> string" where
  "window s = take (sc_end s - sc_start s) (drop (sc_start s) (sc_buf s))"

text \<open>The unread bytes move to the start of the array when space is needed or half of it is consumed.\<close>

definition shift :: "scanner \<Rightarrow> scanner" where
  "shift s =
     (if sc_start s > 0 \<and> (sc_end s = length (sc_buf s) \<or> sc_start s > length (sc_buf s) div 2)
      then s\<lparr>sc_buf := window s @ drop (length (window s)) (sc_buf s),
             sc_end := sc_end s - sc_start s, sc_start := 0\<rparr>
      else s)"

text \<open>A full array is replaced by one of twice the size.\<close>

definition new_size :: "nat \<Rightarrow> nat" where
  "new_size n = min (if 2 * n = 0 then startBufSize else 2 * n) MaxScanTokenSize"

definition grow :: "scanner \<Rightarrow> scanner" where
  "grow s =
     (if sc_end s = length (sc_buf s)
      then s\<lparr>sc_retired := sc_retired s @ [sc_buf s],
             sc_buf := window s @ replicate (new_size (length (sc_buf s)) - length (window s)) (CHR 0x00),
             sc_end := sc_end s - sc_start s, sc_start := 0\<rparr>
      else s)"

text \<open>The reader delivers what fits, and then reports the end of the input.\<close>

definition fill :: "scanner \<Rightarrow> scanner" where
  "fill s =
     (if sc_in s = [] then s\<lparr>sc_eof := True\<rparr>
      else let n = min (length (sc_buf s) - sc_end s) (length (sc_in s))
           in s\<lparr>sc_buf := take (sc_end s) (sc_buf s) @ take n (sc_in s) @ drop (sc_end s + n) (sc_buf s),
                sc_end := sc_end s + n, sc_in := drop n (sc_in s)\<rparr>)"

type_synonym token = "nat \<times> nat \<times> nat"

definition next_token :: "scanner \<Rightarrow> (nat \<times> nat) option" where
  "next_token s = (if sc_end s > sc_start s \<or> sc_eof s then ScanLines (window s) (sc_eof s) else None)"

text \<open>
  The loop over \<open>Scan\<close>: the tokens, the final state and whether a line was too long. The first
  argument bounds the number of rounds.
\<close>

fun scan_all :: "nat \<Rightarrow> scanner \<Rightarrow> (token list \<times> scanner \<times> bool) option" where
  "scan_all 0 s = None"
| "scan_all (Suc n) s =
     (case next_token s of
        Some (adv, len) \<Rightarrow>
          map_option (\<lambda>(ts, s'). ((length (sc_retired s), sc_start s, len) # ts, s'))
            (scan_all n (s\<lparr>sc_start := sc_start s + adv\<rparr>))
      | None \<Rightarrow>
          if sc_eof s then Some ([], s, False)
          else let s = shift s
               in if sc_end s = length (sc_buf s) \<and> length (sc_buf s) \<ge> MaxScanTokenSize then Some ([], s, True)
                  else scan_all n (fill (grow s)))"

definition resolve :: "scanner \<Rightarrow> token \<Rightarrow> string" where
  "resolve s t = (case t of (k, off, len) \<Rightarrow> take len (drop off ((sc_retired s @ [sc_buf s]) ! k)))"

text \<open>The kept slices of a whole input, and what the reader has left over.\<close>

definition kept_lines :: "string \<Rightarrow> string list \<times> string" where
  "kept_lines input =
     (case scan_all (2 * length input + 2) (new_scanner input) of
        Some (ts, s, _) \<Rightarrow> (map (resolve s) ts, sc_in s)
      | None \<Rightarrow> ([], []))"

text \<open>The lines as \<open>Text\<close> returns them, up to the first that is too long, and whether there is one.\<close>

fun until_long :: "string list \<Rightarrow> string list \<times> bool" where
  "until_long [] = ([], False)"
| "until_long (l # ls) =
     (if length l \<ge> MaxScanTokenSize then ([], True)
      else (case until_long ls of (r, e) \<Rightarrow> (dropCR l # r, e)))"

definition raw_lines :: "string \<Rightarrow> string list" where
  "raw_lines s = (let ls = split_char newline s in if last ls = [] then butlast ls else ls)"

definition scan_lines :: "string \<Rightarrow> string list \<times> bool" where
  "scan_lines s = until_long (raw_lines s)"

subsection \<open>The byte buffer\<close>

record BytesBuffer =
  bb_buf :: string
  bb_lines :: "string list"

definition NewBytesBuffer :: BytesBuffer where
  "NewBytesBuffer = \<lparr>bb_buf = [], bb_lines = []\<rparr>"

definition bb_Write :: "string \<Rightarrow> BytesBuffer \<Rightarrow> BytesBuffer" where
  "bb_Write p b = b\<lparr>bb_buf := bb_buf b @ p\<rparr>"

definition byteLines :: "BytesBuffer \<Rightarrow> BytesBuffer" where
  "byteLines b = (case kept_lines (bb_buf b) of (ls, rest) \<Rightarrow> b\<lparr>bb_lines := bb_lines b @ ls, bb_buf := rest\<rparr>)"

definition bb_Close :: "BytesBuffer \<Rightarrow> BytesBuffer" where
  "bb_Close b = byteLines b"

text \<open>The constructor sets \<open>lines\<close> to a slice that is not nil, so \<open>Lines\<close> never scans.\<close>

definition bb_Lines :: "BytesBuffer \<Rightarrow> string list" where
  "bb_Lines b = bb_lines b"

definition bb_Bytes :: "BytesBuffer \<Rightarrow> string" where
  "bb_Bytes b = bb_buf b"

subsection \<open>The output buffer\<close>

text \<open>\<open>Lines\<close> drains the buffer and returns all lines so far.\<close>

record OutputBuffer =
  ob_buf :: string
  ob_lines :: "string list"

definition NewOutputBuffer :: OutputBuffer where
  "NewOutputBuffer = \<lparr>ob_buf = [], ob_lines = []\<rparr>"

definition ob_Write :: "string \<Rightarrow> OutputBuffer \<Rightarrow> OutputBuffer" where
  "ob_Write p b = b\<lparr>ob_buf := ob_buf b @ p\<rparr>"

definition ob_Lines :: "OutputBuffer \<Rightarrow> string list \<times> OutputBuffer" where
  "ob_Lines b =
     (let ls = ob_lines b @ fst (scan_lines (ob_buf b))
      in (ls, b\<lparr>ob_lines := ls, ob_buf := snd (kept_lines (ob_buf b))\<rparr>))"

section \<open>Lemmas\<close>

definition sc_inv :: "scanner \<Rightarrow> bool" where
  "sc_inv s \<longleftrightarrow> sc_start s \<le> sc_end s \<and> sc_end s \<le> length (sc_buf s) \<and> length (sc_buf s) \<le> MaxScanTokenSize"

definition rounds :: "scanner \<Rightarrow> nat" where
  "rounds s = 2 * length (sc_in s) + (sc_end s - sc_start s) + (if sc_eof s then 1 else 2)"

lemma sc_inv_new [simp]: "sc_inv (new_scanner i)"
  by (simp add: sc_inv_def new_scanner_def)

lemma length_window: "sc_inv s \<Longrightarrow> length (window s) = sc_end s - sc_start s"
  by (auto simp: window_def sc_inv_def)

lemma ScanLines_advance: "ScanLines d e = Some (adv, len) \<Longrightarrow> 0 < adv \<and> adv \<le> length d"
  using length_takeWhile_le [of "\<lambda>c. c \<noteq> newline" d]
  by (auto simp: ScanLines_def Let_def split: if_splits)

lemma next_token_inv:
  assumes "sc_inv s" and "next_token s = Some (adv, len)"
  shows "sc_inv (s\<lparr>sc_start := sc_start s + adv\<rparr>) \<and> rounds (s\<lparr>sc_start := sc_start s + adv\<rparr>) < rounds s"
proof -
  have "0 < adv \<and> adv \<le> sc_end s - sc_start s"
    using assms ScanLines_advance [of "window s"] length_window [OF assms(1)]
    by (simp add: next_token_def split: if_splits)
  then show ?thesis using assms(1) by (auto simp: sc_inv_def rounds_def)
qed

lemma shift_inv:
  assumes "sc_inv s"
  shows "sc_inv (shift s) \<and> rounds (shift s) = rounds s \<and> sc_eof (shift s) = sc_eof s \<and>
    (sc_end (shift s) = length (sc_buf (shift s)) \<longrightarrow> sc_start (shift s) = 0)"
  using assms length_window [OF assms]
  by (auto simp: shift_def sc_inv_def rounds_def)

lemma grow_inv:
  assumes "sc_inv s" and "\<not> (sc_end s = length (sc_buf s) \<and> length (sc_buf s) \<ge> MaxScanTokenSize)"
    and "sc_end s = length (sc_buf s) \<longrightarrow> sc_start s = 0"
  shows "sc_inv (grow s) \<and> rounds (grow s) = rounds s \<and> sc_eof (grow s) = sc_eof s \<and>
    sc_end (grow s) < length (sc_buf (grow s))"
  using assms length_window [OF assms(1)]
  by (auto simp: grow_def sc_inv_def rounds_def new_size_def MaxScanTokenSize_def startBufSize_def)

lemma fill_inv:
  assumes "sc_inv s" and "sc_end s < length (sc_buf s)" and "\<not> sc_eof s"
  shows "sc_inv (fill s) \<and> rounds (fill s) < rounds s"
proof (cases "sc_in s = []")
  case False
  then obtain k where "length (sc_in s) = Suc k" by (cases "sc_in s") auto
  with assms show ?thesis by (auto simp: fill_def sc_inv_def rounds_def Let_def min_def)
qed (use assms in \<open>auto simp: fill_def sc_inv_def rounds_def\<close>)

text \<open>The bound on the rounds is enough: every scan returns.\<close>

lemma scan_all_returns: "sc_inv s \<Longrightarrow> rounds s \<le> n \<Longrightarrow> \<exists>r. scan_all n s = Some r"
proof (induction n arbitrary: s)
  case 0
  then show ?case by (simp add: rounds_def split: if_splits)
next
  case (Suc n)
  show ?case
  proof (cases "next_token s")
    case (Some t)
    obtain adv len where t: "t = (adv, len)" by fastforce
    have "\<exists>r. scan_all n (s\<lparr>sc_start := sc_start s + adv\<rparr>) = Some r"
      using next_token_inv [OF Suc.prems(1) Some [unfolded t]] Suc.prems(2) by (intro Suc.IH) auto
    with Some t show ?thesis by auto
  next
    case None
    note sh = shift_inv [OF Suc.prems(1)]
    have "\<exists>r. scan_all n (fill (grow (shift s))) = Some r"
      if "\<not> sc_eof s" and full: "\<not> (sc_end (shift s) = length (sc_buf (shift s)) \<and> length (sc_buf (shift s)) \<ge> MaxScanTokenSize)"
    proof -
      have g: "sc_inv (grow (shift s)) \<and> rounds (grow (shift s)) = rounds (shift s) \<and>
          sc_eof (grow (shift s)) = sc_eof (shift s) \<and> sc_end (grow (shift s)) < length (sc_buf (grow (shift s)))"
        using sh full by (intro grow_inv) auto
      with sh \<open>\<not> sc_eof s\<close> have "sc_inv (fill (grow (shift s))) \<and> rounds (fill (grow (shift s))) < rounds (grow (shift s))"
        by (intro fill_inv) auto
      with g sh Suc.prems(2) show ?thesis by (intro Suc.IH) auto
    qed
    with None show ?thesis by (auto simp: Let_def)
  qed
qed

lemma kept_lines_returns: "\<exists>r. scan_all (2 * length i + 2) (new_scanner i) = Some r"
  by (rule scan_all_returns) (simp_all add: rounds_def new_scanner_def sc_inv_def)

text \<open>A scanner that holds the whole input in its first array, and the lines it still has to deliver.\<close>

definition loaded :: "string \<Rightarrow> nat \<Rightarrow> scanner \<Rightarrow> bool" where
  "loaded d p s \<longleftrightarrow>
     sc_retired s = [[]] \<and> length (sc_buf s) = startBufSize \<and> take (length d) (sc_buf s) = d \<and>
     length d < startBufSize \<and> sc_start s = p \<and> sc_end s = length d \<and> p \<le> length d \<and> sc_in s = [] \<and> \<not> sc_eof s"

lemma window_loaded: "loaded d p s \<Longrightarrow> window s = drop p d"
  by (auto simp: loaded_def window_def take_drop dest: arg_cong [of _ _ "drop p"])

lemma first_round:
  assumes "length d < startBufSize" and "d \<noteq> []"
  shows "\<exists>s. loaded d 0 s \<and> scan_all (Suc n) (new_scanner d) = scan_all n s"
proof -
  let ?s = "fill (grow (shift (new_scanner d)))"
  have "loaded d 0 ?s"
    using assms
    by (simp add: loaded_def new_scanner_def shift_def grow_def fill_def window_def new_size_def Let_def
        startBufSize_def MaxScanTokenSize_def min_def)
  moreover have "scan_all (Suc n) (new_scanner d) = scan_all n ?s"
    by (simp add: new_scanner_def next_token_def shift_def MaxScanTokenSize_def)
  ultimately show ?thesis by blast
qed

lemma line_round:
  assumes s: "loaded d p s" and d: "drop p d = line @ newline # rest" and line: "newline \<notin> set line"
  shows "\<exists>s'. loaded d (p + Suc (length line)) s' \<and> sc_buf s' = sc_buf s \<and>
    scan_all (Suc n) s = map_option (\<lambda>(ts, r). ((1, p, length (dropCR line)) # ts, r)) (scan_all n s')"
proof -
  have tw: "takeWhile (\<lambda>c. c \<noteq> newline) (drop p d) = line"
    using line unfolding d by (subst takeWhile_append2) auto
  have "p < length d" using d by (cases "p < length d") auto
  then have tok: "next_token s = Some (Suc (length line), length (dropCR line))"
    using s tw d by (simp add: next_token_def window_loaded [OF s] ScanLines_def) (simp add: loaded_def)
  have "length line + Suc (length rest) = length d - p" using arg_cong [OF d, of length] by simp
  then have "loaded d (p + Suc (length line)) (s\<lparr>sc_start := p + Suc (length line)\<rparr>)"
    using s by (auto simp: loaded_def)
  then show ?thesis using tok s by (intro exI conjI) (auto simp: loaded_def)
qed

text \<open>The lines of a text whose last line is terminated, with their positions.\<close>

fun positions :: "nat \<Rightarrow> string list \<Rightarrow> token list" where
  "positions p [] = []"
| "positions p (l # ls) = (1, p, length (dropCR l)) # positions (p + Suc (length l)) ls"

definition unlines :: "string list \<Rightarrow> string" where
  "unlines ls = concat (map (\<lambda>l. l @ [newline]) ls)"

lemma unlines_simps [simp]: "unlines [] = []" "unlines (l # ls) = l @ newline # unlines ls"
  by (simp_all add: unlines_def)

lemma scan_terminated:
  assumes "loaded d p s" and "drop p d = unlines ls @ last_line" and "\<forall>l \<in> set ls. newline \<notin> set l"
  shows "\<exists>s'. loaded d (p + length (unlines ls)) s' \<and> sc_buf s' = sc_buf s \<and>
    scan_all (length ls + n) s = map_option (\<lambda>(ts, r). (positions p ls @ ts, r)) (scan_all n s')"
  using assms
proof (induction ls arbitrary: p s)
  case Nil
  then show ?case by (intro exI [of _ s]) (simp add: option.map_ident prod.case_distrib)
next
  case (Cons l ls)
  from Cons.prems obtain s1 where s1: "loaded d (p + Suc (length l)) s1" "sc_buf s1 = sc_buf s"
    "scan_all (Suc (length ls + n)) s =
     map_option (\<lambda>(ts, r). ((1, p, length (dropCR l)) # ts, r)) (scan_all (length ls + n) s1)"
    using line_round [of d p s l "unlines ls @ last_line" "length ls + n"] by auto
  have "drop (p + Suc (length l)) d = unlines ls @ last_line"
    using arg_cong [OF Cons.prems(2), of "drop (Suc (length l))"] by (simp add: add.commute)
  with Cons.IH [OF s1(1)] Cons.prems(3) obtain s2 where
    "loaded d (p + Suc (length l) + length (unlines ls)) s2" "sc_buf s2 = sc_buf s1"
    "scan_all (length ls + n) s1 =
     map_option (\<lambda>(ts, r). (positions (p + Suc (length l)) ls @ ts, r)) (scan_all n s2)"
    by auto
  with s1 show ?case
    by (intro exI [of _ s2]) (auto simp: option.map_comp comp_def case_prod_beta algebra_simps)
qed

lemma dropCR_prefix [simp]: "take (length (dropCR l)) (l @ x) = dropCR l"
  by (auto simp: dropCR_def butlast_conv_take)

lemma dropCR_prefix' [simp]: "take (length (dropCR l)) l = dropCR l"
  using dropCR_prefix [of l "[]"] by simp

lemma dropCR_length [simp]: "length (dropCR l) \<le> length l"
  by (simp add: dropCR_def)

lemma end_round:
  assumes "loaded d (length d) s"
  shows "\<exists>s'. scan_all (Suc (Suc n)) s = Some ([], s', False) \<and> sc_retired s' = [[]] \<and> sc_buf s' = sc_buf s \<and> sc_in s' = []"
  using assms
  by (auto simp: loaded_def next_token_def shift_def grow_def fill_def window_def ScanLines_def Let_def
      MaxScanTokenSize_def startBufSize_def)

lemma resolve_positions:
  assumes "drop p d = unlines ls @ x" and "take (length d) b = d" and "sc_retired s = [[]]" and "sc_buf s = b"
  shows "map (resolve s) (positions p ls) = map dropCR ls"
  using assms(1)
proof (induction ls arbitrary: p)
  case (Cons l ls)
  have "b = d @ drop (length d) b" using assms(2) by (metis append_take_drop_id)
  moreover have "p \<le> length d" using Cons.prems by (cases "p \<le> length d") auto
  ultimately have "drop p b = unlines (l # ls) @ x @ drop (length d) b"
    using Cons.prems by (metis append_assoc drop_append diff_is_0_eq' drop0)
  then have "resolve s (1, p, length (dropCR l)) = dropCR l"
    using assms(3,4) by (simp add: resolve_def)
  moreover have "drop (p + Suc (length l)) d = unlines ls @ x"
    using arg_cong [OF Cons.prems, of "drop (Suc (length l))"] by (simp add: add.commute)
  ultimately show ?case using Cons.IH by simp
qed simp

lemma kept_empty: "kept_lines [] = ([], [])"
  by (simp add: kept_lines_def numeral_2_eq_2 new_scanner_def next_token_def shift_def grow_def fill_def window_def
      ScanLines_def Let_def MaxScanTokenSize_def)

lemma length_lines: "length ls \<le> length (unlines ls)"
  by (induction ls) auto

lemma kept_terminated:
  assumes "\<forall>l \<in> set ls. newline \<notin> set l" and "length (unlines ls) < startBufSize"
  shows "kept_lines (unlines ls) = (map dropCR ls, [])"
proof (cases "ls = []")
  case False
  let ?d = "unlines ls"
  have "?d \<noteq> []" using False by (cases ls) auto
  have "0 < length ?d" using \<open>?d \<noteq> []\<close> by simp
  then obtain n where n: "2 * length ?d + 2 = Suc (length ls + Suc (Suc n))"
    using length_lines [of ls] that [of "2 * length ?d - length ls - 1"] by linarith
  obtain s1 where s1: "loaded ?d 0 s1" "scan_all (2 * length ?d + 2) (new_scanner ?d) = scan_all (length ls + Suc (Suc n)) s1"
    using first_round [OF assms(2) \<open>?d \<noteq> []\<close>] unfolding n by blast
  obtain s2 where s2: "loaded ?d (length ?d) s2"
    "scan_all (length ls + Suc (Suc n)) s1 = map_option (\<lambda>(ts, r). (positions 0 ls @ ts, r)) (scan_all (Suc (Suc n)) s2)"
    using scan_terminated [OF s1(1), of ls "[]" "Suc (Suc n)"] assms(1) by auto
  obtain s3 where s3: "scan_all (Suc (Suc n)) s2 = Some ([], s3, False)" "sc_retired s3 = [[]]" "sc_buf s3 = sc_buf s2" "sc_in s3 = []"
    using end_round [OF s2(1)] by blast
  have "map (resolve s3) (positions 0 ls) = map dropCR ls"
    by (rule resolve_positions [of 0 ?d ls "[]", OF _ _ s3(2,3)]) (use s2(1) in \<open>auto simp: loaded_def\<close>)
  then show ?thesis using s1(2) s2(2) s3 by (simp add: kept_lines_def)
qed (simp add: kept_empty)

text \<open>An unterminated last line past the middle of the array is moved over the first lines.\<close>

lemma last_round:
  assumes s: "loaded (c @ l) (length c) s" and l: "l \<noteq> []" "newline \<notin> set l" and c: "length c > startBufSize div 2"
  shows "\<exists>s'. scan_all (Suc (Suc (Suc n))) s = Some ([(1, 0, length (dropCR l))], s', False) \<and>
    sc_retired s' = [[]] \<and> sc_buf s' = l @ drop (length l) (sc_buf s) \<and> sc_in s' = []"
proof -
  let ?b = "l @ drop (length l) (sc_buf s)"
  let ?s1 = "s\<lparr>sc_buf := ?b, sc_start := 0, sc_end := length l, sc_eof := True\<rparr>"
  have w: "window s = l" using window_loaded [OF s] by simp
  have len: "length (takeWhile (\<lambda>x. x \<noteq> newline) l) = length l"
    using l(2) by (induction l) auto
  have "next_token s = None" using s w len by (simp add: next_token_def ScanLines_def loaded_def Let_def)
  moreover have "fill (grow (shift s)) = ?s1" "\<not> sc_end (shift s) = length (sc_buf (shift s))"
    using s w c by (auto simp: loaded_def shift_def grow_def fill_def)
  ultimately have r1: "scan_all (Suc (Suc (Suc n))) s = scan_all (Suc (Suc n)) ?s1"
    using s by (simp add: loaded_def Let_def)
  have "length l \<le> length (sc_buf s)" using s by (simp add: loaded_def)
  then have w1: "window ?s1 = l" by (simp add: window_def)
  have t1: "next_token ?s1 = Some (length l, length (dropCR l))"
    using l len by (simp add: next_token_def w1 ScanLines_def Let_def)
  let ?s2 = "?s1\<lparr>sc_start := length l\<rparr>"
  have "next_token ?s2 = None" by (simp add: next_token_def window_def ScanLines_def)
  then have "scan_all (Suc n) ?s2 = Some ([], ?s2, False)" by simp
  with r1 t1 s show ?thesis by (simp add: loaded_def)
qed

lemma kept_unterminated:
  assumes "\<forall>x \<in> set (k # ks). newline \<notin> set x" and "l \<noteq> []" "newline \<notin> set l"
    and "length (unlines (k # ks)) > startBufSize div 2" and "length (unlines (k # ks) @ l) < startBufSize"
    and "length k \<le> length l"
  shows "hd (fst (kept_lines (unlines (k # ks) @ l))) = take (length (dropCR k)) l \<and>
    fst (kept_lines (unlines (k # ks) @ l)) \<noteq> []"
proof -
  let ?c = "unlines (k # ks)" let ?d = "?c @ l"
  have "length (k # ks) \<le> length ?c" by (rule length_lines)
  then obtain n where n: "2 * length ?d + 2 = Suc (length (k # ks) + Suc (Suc (Suc n)))"
    using that [of "2 * length ?d - length (k # ks) - 2"] assms(2) by (cases l) auto
  obtain s1 where s1: "loaded ?d 0 s1"
    "scan_all (2 * length ?d + 2) (new_scanner ?d) = scan_all (length (k # ks) + Suc (Suc (Suc n))) s1"
    using first_round [OF assms(5)] assms(2) unfolding n by blast
  obtain s2 where s2: "loaded ?d (length ?c) s2" "sc_buf s2 = sc_buf s1"
    "scan_all (length (k # ks) + Suc (Suc (Suc n))) s1 =
     map_option (\<lambda>(ts, r). (positions 0 (k # ks) @ ts, r)) (scan_all (Suc (Suc (Suc n))) s2)"
    using scan_terminated [OF s1(1), of "k # ks" l "Suc (Suc (Suc n))"] assms(1) by auto
  obtain s3 where s3: "scan_all (Suc (Suc (Suc n))) s2 = Some ([(1, 0, length (dropCR l))], s3, False)"
    "sc_retired s3 = [[]]" "sc_buf s3 = l @ drop (length l) (sc_buf s2)"
    using last_round [OF s2(1) assms(2,3,4)] by blast
  have "resolve s3 (1, 0, length (dropCR k)) = take (length (dropCR k)) l"
    using s3(2,3) assms(6) le_trans [OF dropCR_length assms(6)] by (simp add: resolve_def)
  then show ?thesis using s1(2) s2(3) s3(1) by (simp add: kept_lines_def)
qed

text \<open>An input without a line that is too long is read to its end.\<close>

definition short_lines :: "string \<Rightarrow> bool" where
  "short_lines x \<longleftrightarrow> list_all (\<lambda>l. length l < MaxScanTokenSize) (split_char newline x)"

lemma split_char_head: "c \<notin> set l \<Longrightarrow> \<exists>y ys. split_char c (l @ b) = (l @ y) # ys"
proof (induction l)
  case Nil
  show ?case by (cases "split_char c b") auto
next
  case (Cons x l)
  then obtain y ys where "split_char c (l @ b) = (l @ y) # ys" by auto
  with Cons.prems show ?case by auto
qed

lemma short_head: "short_lines (l @ b) \<Longrightarrow> newline \<notin> set l \<Longrightarrow> length l < MaxScanTokenSize"
  using split_char_head [of newline l b] by (auto simp: short_lines_def)

lemma short_tail: "short_lines (l @ newline # r) \<Longrightarrow> newline \<notin> set l \<Longrightarrow> short_lines r"
  by (simp add: short_lines_def split_char_append)

lemma short_nil [simp]: "short_lines []"
  by (simp add: short_lines_def MaxScanTokenSize_def)

lemma ScanLines_cases:
  assumes "ScanLines w e = Some (adv, len)"
  obtains l r where "w = l @ newline # r" "newline \<notin> set l" "adv = Suc (length l)"
  | "e" "newline \<notin> set w" "adv = length w"
proof -
  let ?l = "takeWhile (\<lambda>c. c \<noteq> newline) w"
  have nl: "newline \<notin> set ?l" by (auto dest: set_takeWhileD)
  show ?thesis
  proof (cases "length ?l < length w")
    case True
    then have "dropWhile (\<lambda>c. c \<noteq> newline) w \<noteq> []"
      using takeWhile_dropWhile_id [of "\<lambda>c. c \<noteq> newline" w] by (metis append_Nil2 less_irrefl)
    then obtain x r where x: "dropWhile (\<lambda>c. c \<noteq> newline) w = x # r" "x = newline"
      using hd_dropWhile [of "\<lambda>c. c \<noteq> newline" w] by (cases "dropWhile (\<lambda>c. c \<noteq> newline) w") auto
    then have "w = ?l @ newline # r" by (metis takeWhile_dropWhile_id)
    moreover have "adv = Suc (length ?l)" using assms True by (auto simp: ScanLines_def Let_def split: if_splits)
    ultimately show ?thesis using that(1) nl by blast
  next
    case False
    then have "?l = w" using takeWhile_dropWhile_id [of "\<lambda>c. c \<noteq> newline" w]
      by (metis append_Nil2 length_append length_0_conv length_takeWhile_le linorder_not_less add_diff_cancel_left' diff_self_eq_0 le_antisym)
    with assms False nl show ?thesis using that(2) by (auto simp: ScanLines_def Let_def split: if_splits)
  qed
qed

lemma ScanLines_None: "ScanLines w False = None \<Longrightarrow> newline \<notin> set w"
proof (induction w)
  case (Cons x w)
  then show ?case by (auto simp: ScanLines_def Let_def split: if_splits)
qed simp

definition sc_good :: "scanner \<Rightarrow> bool" where
  "sc_good s \<longleftrightarrow> sc_inv s \<and> short_lines (window s @ sc_in s) \<and> (sc_eof s \<longrightarrow> sc_in s = [])"

lemma window_shift: "sc_inv s \<Longrightarrow> window (shift s) = window s \<and> sc_in (shift s) = sc_in s"
  by (auto simp: shift_def window_def sc_inv_def)

lemma window_grow: "sc_inv s \<Longrightarrow> window (grow s) = window s \<and> sc_in (grow s) = sc_in s"
  by (auto simp: grow_def window_def sc_inv_def)

lemma take_all_append: "take (length a) (a @ b) = a"
  by simp

lemma window_fill:
  assumes "sc_inv s"
  shows "window (fill s) @ sc_in (fill s) = window s @ sc_in s \<and> (sc_eof (fill s) \<longrightarrow> sc_eof s \<or> sc_in (fill s) = [])"
proof (cases "sc_in s = []")
  case False
  let ?n = "min (length (sc_buf s) - sc_end s) (length (sc_in s))"
  let ?b = "sc_buf s" let ?st = "sc_start s" let ?en = "sc_end s"
  have le: "?st \<le> ?en" "?en \<le> length ?b" using assms by (simp_all add: sc_inv_def)
  have n: "length (take ?n (sc_in s)) = ?n" by simp
  have "window (fill s) = take (?en + ?n - ?st) (drop ?st (take ?en ?b @ take ?n (sc_in s) @ drop (?en + ?n) ?b))"
    using False by (simp add: fill_def window_def Let_def)
  also have "drop ?st (take ?en ?b @ take ?n (sc_in s) @ drop (?en + ?n) ?b) =
      drop ?st (take ?en ?b) @ take ?n (sc_in s) @ drop (?en + ?n) ?b"
    using le by simp
  also have "?en + ?n - ?st = length (drop ?st (take ?en ?b) @ take ?n (sc_in s))"
    using le n by simp
  also have "take \<dots> (drop ?st (take ?en ?b) @ take ?n (sc_in s) @ drop (?en + ?n) ?b) =
      drop ?st (take ?en ?b) @ take ?n (sc_in s)"
    unfolding append_assoc [symmetric] by (rule take_all_append)
  also have "drop ?st (take ?en ?b) = window s" by (simp add: window_def drop_take)
  finally have "window (fill s) = window s @ take ?n (sc_in s)" .
  then show ?thesis using False by (simp add: fill_def Let_def)
qed (auto simp: fill_def window_def)

lemma token_good:
  assumes "sc_good s" and "next_token s = Some (adv, len)"
  shows "sc_good (s\<lparr>sc_start := sc_start s + adv\<rparr>)"
proof -
  let ?s = "s\<lparr>sc_start := sc_start s + adv\<rparr>"
  have inv: "sc_inv ?s" using next_token_inv assms by (simp add: sc_good_def)
  have w: "window ?s = drop adv (window s)"
    by (simp add: window_def drop_take add.commute)
  have "ScanLines (window s) (sc_eof s) = Some (adv, len)" using assms(2) by (simp add: next_token_def split: if_splits)
  then have "short_lines (drop adv (window s) @ sc_in s)"
  proof (cases rule: ScanLines_cases)
    case (1 l r)
    with assms(1) have "short_lines (l @ newline # (r @ sc_in s))" by (simp add: sc_good_def)
    with 1 show ?thesis using short_tail by fastforce
  next
    case 2
    with assms(1) show ?thesis by (simp add: sc_good_def)
  qed
  with inv w assms(1) show ?thesis by (simp add: sc_good_def)
qed

lemma full_window:
  assumes "sc_good s" and "next_token s = None" and "\<not> sc_eof s"
  shows "\<not> (sc_end (shift s) = length (sc_buf (shift s)) \<and> length (sc_buf (shift s)) \<ge> MaxScanTokenSize)"
proof
  assume full: "sc_end (shift s) = length (sc_buf (shift s)) \<and> length (sc_buf (shift s)) \<ge> MaxScanTokenSize"
  have inv: "sc_inv s" using assms(1) by (simp add: sc_good_def)
  from shift_inv [OF inv] full have "length (window (shift s)) \<ge> MaxScanTokenSize"
    by (simp add: length_window)
  then have len: "length (window s) \<ge> MaxScanTokenSize" using window_shift [OF inv] by simp
  have "newline \<notin> set (window s)"
    using assms(2,3) len length_window [OF inv]
    by (intro ScanLines_None) (auto simp: next_token_def MaxScanTokenSize_def split: if_splits)
  then show False using short_head [of "window s"] assms(1) len by (auto simp: sc_good_def)
qed

lemma round_good:
  assumes "sc_good s" and "next_token s = None" and "\<not> sc_eof s"
  shows "sc_good (fill (grow (shift s)))"
proof -
  have inv: "sc_inv s" using assms(1) by (simp add: sc_good_def)
  note sh = shift_inv [OF inv]
  have g: "sc_inv (grow (shift s)) \<and> sc_eof (grow (shift s)) = sc_eof (shift s) \<and>
      sc_end (grow (shift s)) < length (sc_buf (grow (shift s)))"
    using sh full_window [OF assms] grow_inv [of "shift s"] by auto
  have f: "sc_inv (fill (grow (shift s)))" using g sh assms(3) by (intro conjunct1 [OF fill_inv]) auto
  have "window (fill (grow (shift s))) @ sc_in (fill (grow (shift s))) = window s @ sc_in s"
    using window_fill g window_grow sh window_shift [OF inv] by auto
  moreover have "sc_eof (fill (grow (shift s))) \<longrightarrow> sc_in (fill (grow (shift s))) = []"
    using window_fill [of "grow (shift s)"] g sh assms(3) by auto
  ultimately show ?thesis using f assms(1) by (simp add: sc_good_def)
qed

lemma scan_to_end: "sc_good s \<Longrightarrow> scan_all n s = Some (ts, s', e) \<Longrightarrow> sc_in s' = [] \<and> \<not> e"
proof (induction n arbitrary: s ts)
  case (Suc n)
  show ?case
  proof (cases "next_token s")
    case (Some t)
    obtain adv len where t: "t = (adv, len)" by fastforce
    from Suc.prems(2) Some t obtain ts' where "scan_all n (s\<lparr>sc_start := sc_start s + adv\<rparr>) = Some (ts', s', e)"
      by auto
    with Suc.IH token_good [OF Suc.prems(1) Some [unfolded t]] show ?thesis by blast
  next
    case None
    show ?thesis
    proof (cases "sc_eof s")
      case True
      with None Suc.prems show ?thesis by (auto simp: sc_good_def)
    next
      case False
      with None Suc.prems(2) full_window [OF Suc.prems(1) None False]
      have "scan_all n (fill (grow (shift s))) = Some (ts, s', e)"
        by (simp add: Let_def split: if_splits)
      with Suc.IH round_good [OF Suc.prems(1) None False] show ?thesis by blast
    qed
  qed
qed simp

lemma kept_lines_drains:
  assumes "short_lines i"
  shows "snd (kept_lines i) = []"
proof -
  obtain ts s e where r: "scan_all (2 * length i + 2) (new_scanner i) = Some (ts, s, e)"
    using kept_lines_returns [of i] by (metis prod_cases3)
  have "sc_good (new_scanner i)"
    using assms by (simp add: sc_good_def) (simp add: new_scanner_def window_def)
  with scan_to_end [OF _ r] r show ?thesis by (simp add: kept_lines_def)
qed

lemma close_drains: "short_lines (bb_buf b) \<Longrightarrow> bb_Bytes (bb_Close b) = []"
  using kept_lines_drains by (simp add: bb_Bytes_def bb_Close_def byteLines_def split: prod.split) fastforce

end
