(* ===== verification/Incus_Client.thy ===== *)
theory Incus_Client
  imports Shell_Command Cache Scanner
begin

text \<open>
  The Incus client: project selection (\<open>src/pkg/incus/incus.go\<close>), commands in an instance
  (\<open>exec.go\<close>), files of an instance (\<open>file.go\<close>), users of an instance (\<open>user.go\<close>), instances and
  their states through the caches (\<open>instance.go\<close>), and the distribution of an instance
  (\<open>system-package.go\<close>). The Incus API is a parameter: every call gets the project that the connection
  is scoped to. The caches are shared by all clients; a client's own state is its project. The queue
  that serialises the calls is modelled in the theory \<open>Work_Queue\<close>; here a call returns its own result.
\<close>

section \<open>Model\<close>

subsection \<open>Interface to Incus\<close>

record InstanceExec =
  ie_Instance :: string
  ie_Cmd :: string
  ie_Env :: "(string \<times> string) list"
  ie_IsPty :: bool
  ie_Width :: int
  ie_Height :: int
  ie_User :: int
  ie_Group :: int
  ie_Cwd :: string
  ie_has_Stderr :: bool

record InstanceExecPost =
  xp_Command :: "string list"
  xp_WaitForWS :: bool
  xp_Interactive :: bool
  xp_Environment :: "(string \<times> string) list"
  xp_Width :: int
  xp_Height :: int
  xp_User :: "32 word"
  xp_Group :: "32 word"
  xp_Cwd :: string

text \<open>A finished operation: exit status, standard output and standard error.\<close>

record exec_output =
  out_return :: int
  out_stdout :: string
  out_stderr :: string

text \<open>
  What is used of an instance and of its state: the networks with their addresses, in the order in which
  the code happens to iterate over them.
\<close>

record InstanceFull =
  in_Status :: string
  in_Type :: string
  in_Ephemeral :: bool
  in_Architecture :: string

type_synonym networks = "(string \<times> string list) list"

record api =
  api_GetProject :: "string \<Rightarrow> string option"
  api_Exec :: "string \<Rightarrow> string \<Rightarrow> InstanceExecPost \<Rightarrow> exec_output option"
  api_GetInstanceFile :: "string \<Rightarrow> string \<Rightarrow> string \<Rightarrow> (string \<times> string) option"
  api_GetInstanceFull :: "string \<Rightarrow> string \<Rightarrow> InstanceFull option"
  api_GetInstanceState :: "string \<Rightarrow> string \<Rightarrow> networks option"

text \<open>A call returns a value, fails with an error, or panics.\<close>

datatype 'a call = Return 'a | Fail | Crash

text \<open>The caches shared by all clients. The callbacks of the caches are never set.\<close>

record incus_caches =
  instanceUserCache :: "(InstanceUser, unit) cache"
  instanceCache :: "(InstanceFull, unit) cache"
  instanceStateCache :: "(networks, unit) cache"
  fileExistsCache :: "(bool, unit) cache"

definition minute :: int where
  "minute = 60 * 1000000000"

definition init_caches :: incus_caches where
  "init_caches =
     \<lparr>instanceUserCache = cache_New minute (2 * minute), instanceCache = cache_New minute (2 * minute),
      instanceStateCache = cache_New minute (2 * minute), fileExistsCache = cache_New (20 * minute) (30 * minute)\<rparr>"

subsection \<open>Projects\<close>

text \<open>\<open>UseProject\<close>: the project the client is in afterwards, \<^const>\<open>None\<close> for an error.\<close>

definition use_project :: "(string \<Rightarrow> string option) \<Rightarrow> string \<Rightarrow> string \<Rightarrow> string option" where
  "use_project get project cur =
     (let project = (if project = [] then ''default'' else project)
      in if project = cur then Some cur else get project)"

subsection \<open>Commands\<close>

definition BuildExecRequest :: "InstanceExec \<Rightarrow> InstanceExecPost" where
  "BuildExecRequest e =
     \<lparr>xp_Command = exec_Command (ie_Cmd e), xp_WaitForWS = True, xp_Interactive = ie_IsPty e,
      xp_Environment = ie_Env e, xp_Width = ie_Width e, xp_Height = ie_Height e,
      xp_User = word_of_int (ie_User e), xp_Group = word_of_int (ie_Group e), xp_Cwd = ie_Cwd e\<rparr>"

text \<open>
  \<open>Exec\<close>: the exit status, whether there is an error, and what went to the standard output. Without a
  writer for the standard error the first write to it panics.
\<close>

definition Exec :: "api \<Rightarrow> string \<Rightarrow> InstanceExec \<Rightarrow> (int \<times> bool \<times> string) call" where
  "Exec a cur e =
     (case api_Exec a cur (ie_Instance e) (BuildExecRequest e) of
        None \<Rightarrow> Return (-1, True, [])
      | Some r \<Rightarrow>
          if out_stderr r \<noteq> [] \<and> \<not> ie_has_Stderr e then Crash
          else Return (out_return r, out_stderr r \<noteq> [], out_stdout r))"

definition simple_exec :: "string \<Rightarrow> string \<Rightarrow> bool \<Rightarrow> InstanceExec" where
  "simple_exec inst cmd has_stderr =
     \<lparr>ie_Instance = inst, ie_Cmd = cmd, ie_Env = [], ie_IsPty = False, ie_Width = 0, ie_Height = 0,
      ie_User = 0, ie_Group = 0, ie_Cwd = [], ie_has_Stderr = has_stderr\<rparr>"

subsection \<open>Users\<close>

text \<open>The first line of \<open>getent\<close>; a line with fewer than seven fields is an index out of range.\<close>

definition parse_passwd :: "string \<Rightarrow> string \<Rightarrow> string \<Rightarrow> InstanceUser call" where
  "parse_passwd project inst line =
     (let ent = split_char (CHR '':'') line
      in if length ent < 7 then Crash
         else Return \<lparr>iu_Project = project, iu_Instance = inst, iu_User = ent ! 0, iu_Uid = atoi_value (ent ! 2),
                      iu_Gid = atoi_value (ent ! 3), iu_Dir = ent ! 5, iu_Shell = ent ! 6, iu_Ent = line\<rparr>)"

definition GetInstanceUser ::
  "api \<Rightarrow> string \<Rightarrow> string \<Rightarrow> string \<Rightarrow> string \<Rightarrow> string \<times> InstanceUser call" where
  "GetInstanceUser a project inst user cur =
     (case use_project (api_GetProject a) project cur of
        None \<Rightarrow> (cur, Fail)
      | Some cur \<Rightarrow>
          (cur,
           case Exec a cur (simple_exec inst (''getent passwd '' @ user) True) of
             Return (ret, err, out) \<Rightarrow>
               if err \<or> ret \<noteq> 0 then Fail
               else (case fst (ob_Lines (ob_Write out NewOutputBuffer)) of
                       [] \<Rightarrow> Fail
                     | line # _ \<Rightarrow> parse_passwd project inst line)
           | Fail \<Rightarrow> Fail
           | Crash \<Rightarrow> Crash))"

definition instanceUserKey :: "string \<Rightarrow> string \<Rightarrow> string \<Rightarrow> string" where
  "instanceUserKey project inst user = project @ ''/'' @ inst @ ''/'' @ user"

definition GetCachedInstanceUser ::
  "api \<Rightarrow> int \<Rightarrow> string \<Rightarrow> string \<Rightarrow> string \<Rightarrow> incus_caches \<Rightarrow> string \<Rightarrow> incus_caches \<times> string \<times> InstanceUser call" where
  "GetCachedInstanceUser a now project inst user cs cur =
     (let cacheKey = instanceUserKey project inst user
      in case cache_Get now cacheKey (instanceUserCache cs) of
           Some iu \<Rightarrow> (cs, cur, Return iu)
         | None \<Rightarrow>
             (case GetInstanceUser a project inst user cur of
                (cur, Return iu) \<Rightarrow>
                  (cs\<lparr>instanceUserCache := SetDefault now cacheKey iu (instanceUserCache cs)\<rparr>, cur, Return iu)
              | (cur, r) \<Rightarrow> (cs, cur, r)))"

definition UncacheInstanceUser :: "string \<Rightarrow> string \<Rightarrow> string \<Rightarrow> incus_caches \<Rightarrow> incus_caches" where
  "UncacheInstanceUser project inst user cs =
     cs\<lparr>instanceUserCache := cache_Delete (instanceUserKey project inst user) (instanceUserCache cs)\<rparr>"

subsection \<open>Instances\<close>

text \<open>Here the query goes to whatever project the client is in.\<close>

definition GetCachedInstance ::
  "api \<Rightarrow> int \<Rightarrow> string \<Rightarrow> string \<Rightarrow> incus_caches \<Rightarrow> string \<Rightarrow> incus_caches \<times> InstanceFull call" where
  "GetCachedInstance a now project inst cs cur =
     (let cacheName = project @ ''/'' @ inst
      in case cache_Get now cacheName (instanceCache cs) of
           Some i \<Rightarrow> (cs, Return i)
         | None \<Rightarrow>
             (case api_GetInstanceFull a cur inst of
                Some i \<Rightarrow> (cs\<lparr>instanceCache := SetDefault now cacheName i (instanceCache cs)\<rparr>, Return i)
              | None \<Rightarrow> (cs, Fail)))"

definition GetCachedInstanceState ::
  "api \<Rightarrow> int \<Rightarrow> string \<Rightarrow> string \<Rightarrow> incus_caches \<Rightarrow> string \<Rightarrow> incus_caches \<times> string \<times> networks call" where
  "GetCachedInstanceState a now project inst cs cur =
     (let cacheName = project @ ''/'' @ inst
      in case cache_Get now cacheName (instanceStateCache cs) of
           Some i \<Rightarrow> (cs, cur, Return i)
         | None \<Rightarrow>
             (case use_project (api_GetProject a) project cur of
                None \<Rightarrow> (cs, cur, Fail)
              | Some cur \<Rightarrow>
                  (case api_GetInstanceState a cur inst of
                     Some i \<Rightarrow> (cs\<lparr>instanceStateCache := SetDefault now cacheName i (instanceStateCache cs)\<rparr>, cur, Return i)
                   | None \<Rightarrow> (cs, cur, Fail))))"

subsection \<open>Files\<close>

record InstanceFile =
  if_Project :: string
  if_Instance :: string
  if_Path :: string
  if_Size :: nat
  if_Content :: BytesBuffer

text \<open>
  \<open>DownloadFile\<close> from the project the client is in; the project argument only labels the result. The
  deferred \<open>Close\<close> of the buffer runs after the size was taken.
\<close>

definition DownloadFile :: "api \<Rightarrow> string \<Rightarrow> string \<Rightarrow> string \<Rightarrow> string \<Rightarrow> InstanceFile option" where
  "DownloadFile a project inst path cur =
     (case api_GetInstanceFile a cur inst path of
        None \<Rightarrow> None
      | Some (kind, content) \<Rightarrow>
          if kind \<noteq> ''file'' then None
          else let buf = bb_Write content NewBytesBuffer
               in Some \<lparr>if_Project = project, if_Instance = inst, if_Path = path,
                        if_Size = length (bb_Bytes buf), if_Content = bb_Close buf\<rparr>)"

definition FileHash :: "string \<Rightarrow> string \<Rightarrow> string \<Rightarrow> string \<Rightarrow> string" where
  "FileHash project inst path md5sum = project @ ''/'' @ inst @ ''/'' @ path @ '':'' @ md5sum"

record FileExistsParams =
  fe_Project :: string
  fe_Instance :: string
  fe_Path :: string
  fe_Md5sum :: string
  fe_ShouldCache :: bool

text \<open>The comparison of the checksum: the first word of the first line of \<open>md5sum\<close>.\<close>

definition md5_matches :: "string \<Rightarrow> string \<Rightarrow> bool" where
  "md5_matches md5sum out =
     (case fst (ob_Lines (ob_Write out NewOutputBuffer)) of
        [] \<Rightarrow> False
      | line # _ \<Rightarrow>
          (let m = split_char (CHR '' '') line in length m \<ge> 2 \<and> md5sum = m ! 0))"

text \<open>The check itself; both commands write to the same buffer.\<close>

definition file_check :: "api \<Rightarrow> string \<Rightarrow> FileExistsParams \<Rightarrow> bool call" where
  "file_check a cur p =
     (case Exec a cur (simple_exec (fe_Instance p) (''test -f '' @ fe_Path p) True) of
        Return (ret, _, out) \<Rightarrow>
          if ret \<noteq> 0 then Return False
          else if fe_Md5sum p = [] then Return True
          else (case Exec a cur (simple_exec (fe_Instance p) (''md5sum '' @ fe_Path p) True) of
                  Return (ret, _, out') \<Rightarrow>
                    Return (ret = 0 \<and> md5_matches (fe_Md5sum p) (out @ out'))
                | Fail \<Rightarrow> Fail
                | Crash \<Rightarrow> Crash)
      | Fail \<Rightarrow> Fail
      | Crash \<Rightarrow> Crash)"

definition FileExists ::
  "api \<Rightarrow> int \<Rightarrow> FileExistsParams \<Rightarrow> incus_caches \<Rightarrow> string \<Rightarrow> incus_caches \<times> bool call" where
  "FileExists a now p cs cur =
     (let fileHash = FileHash (fe_Project p) (fe_Instance p) (fe_Path p) (fe_Md5sum p)
      in case (if fe_ShouldCache p then cache_Get now fileHash (fileExistsCache cs) else None) of
           Some exists \<Rightarrow> (cs, Return exists)
         | None \<Rightarrow>
             (case file_check a cur p of
                Return True \<Rightarrow>
                  (if fe_ShouldCache p
                   then cs\<lparr>fileExistsCache := SetDefault now fileHash True (fileExistsCache cs)\<rparr> else cs, Return True)
              | r \<Rightarrow> (cs, r)))"

text \<open>\<open>CommandExists\<close> passes no writer for the standard error.\<close>

definition CommandExists ::
  "api \<Rightarrow> int \<Rightarrow> string \<Rightarrow> string \<Rightarrow> string \<Rightarrow> bool \<Rightarrow> incus_caches \<Rightarrow> string \<Rightarrow> incus_caches \<times> bool call" where
  "CommandExists a now project inst path should_cache cs cur =
     (let fileHash = FileHash project inst path []
      in case (if should_cache then cache_Get now fileHash (fileExistsCache cs) else None) of
           Some exists \<Rightarrow> (cs, Return exists)
         | None \<Rightarrow>
             (case Exec a cur (simple_exec inst (''sh -c \"command -v '' @ path @ ''\"'') False) of
                Return (ret, _, _) \<Rightarrow>
                  if ret \<noteq> 0 then (cs, Return False)
                  else (if should_cache
                        then cs\<lparr>fileExistsCache := SetDefault now fileHash True (fileExistsCache cs)\<rparr> else cs, Return True)
              | Fail \<Rightarrow> (cs, Fail)
              | Crash \<Rightarrow> (cs, Crash)))"

subsection \<open>Distribution\<close>

text \<open>\<open>strings.Trim\<close> for one byte.\<close>

definition trim_char :: "char \<Rightarrow> string \<Rightarrow> string" where
  "trim_char c s = rev (dropWhile (\<lambda>x. x = c) (rev (dropWhile (\<lambda>x. x = c) s)))"

text \<open>The loop over the lines of the file: a line without an equals sign ends it.\<close>

fun os_release :: "string list \<Rightarrow> (string, string) mapping \<Rightarrow> (string, string) mapping" where
  "os_release [] info = info"
| "os_release (l # ls) info =
     (let line = trim_space l
      in if has_prefix line ''#'' \<or> line = [] then os_release ls info
         else (case cut_char (CHR ''='') line of
                 None \<Rightarrow> info
               | Some (k, v) \<Rightarrow> os_release ls (Mapping.update (trim_space k) (trim_char (CHR 0x22) v) info)))"

definition GetOSInfo :: "api \<Rightarrow> string \<Rightarrow> string \<Rightarrow> string \<Rightarrow> (string, string) mapping" where
  "GetOSInfo a project inst cur =
     (case (case DownloadFile a project inst ''/usr/lib/os-release'' cur of
              Some f \<Rightarrow> Some f
            | None \<Rightarrow> DownloadFile a project inst ''/etc/os-release'' cur) of
        None \<Rightarrow> Mapping.empty
      | Some f \<Rightarrow> os_release (bb_Lines (if_Content f)) Mapping.empty)"

text \<open>The zero value for a missing key.\<close>

definition info_get :: "(string, string) mapping \<Rightarrow> string \<Rightarrow> string" where
  "info_get info k = (case Mapping.lookup info k of Some v \<Rightarrow> v | None \<Rightarrow> [])"

fun like_family :: "string list \<Rightarrow> string option" where
  "like_family [] = None"
| "like_family (e # es) =
     (if e = ''fedora'' then Some ''rhel''
      else if e = ''debian'' then Some ''debian''
      else if e = ''rhel'' then Some ''rhel''
      else like_family es)"

definition os_family :: "(string, string) mapping \<Rightarrow> string option" where
  "os_family info =
     (let i = info_get info ''ID''
      in if i \<in> set [''centos'', ''rhel'', ''fedora''] then Some ''rhel''
         else if i \<in> set [''debian'', ''ubuntu''] then Some ''debian''
         else if i = ''alpine'' then Some ''alpine''
         else if info_get info ''ID_LIKE'' \<noteq> [] then like_family (split_char (CHR '' '') (info_get info ''ID_LIKE''))
         else None)"

definition DetectOS :: "api \<Rightarrow> string \<Rightarrow> string \<Rightarrow> string \<Rightarrow> string option" where
  "DetectOS a project inst cur = os_family (GetOSInfo a project inst cur)"

definition GuessOSName :: "api \<Rightarrow> string \<Rightarrow> string \<Rightarrow> string \<Rightarrow> string option" where
  "GuessOSName a project inst cur =
     (let info = GetOSInfo a project inst cur
      in case Mapping.lookup info ''NAME'' of
           Some name \<Rightarrow> Some name
         | None \<Rightarrow>
             (case Mapping.lookup info ''ID'' of
                Some i \<Rightarrow> Some i
              | None \<Rightarrow>
                  (case Mapping.lookup info ''ID_LIKE'' of
                     Some l \<Rightarrow> map_option fst (cut_char (CHR '' '') l)
                   | None \<Rightarrow> None)))"

definition GetOS :: "api \<Rightarrow> string \<Rightarrow> string \<Rightarrow> string \<Rightarrow> string option" where
  "GetOS a project inst cur = map_option (\<lambda>name. filter (\<lambda>c. c \<noteq> CHR '' '') name) (GuessOSName a project inst cur)"

definition GetOSSlug :: "api \<Rightarrow> string \<Rightarrow> string \<Rightarrow> string \<Rightarrow> string option" where
  "GetOSSlug a project inst cur = map_option to_lower (GetOS a project inst cur)"

definition install_command :: "string \<Rightarrow> string list \<Rightarrow> string option" where
  "install_command os packages =
     (let pkgs = join '' '' packages
      in if os = ''rhel'' then Some (''/bin/sh -c '' @ [CHR 0x27] @ ''dnf install -y '' @ pkgs @ [CHR 0x27])
         else if os = ''debian''
         then Some (''/bin/sh -c '' @ [CHR 0x27] @ ''apt-get update && apt-get install -y '' @ pkgs @ '' 2>/dev/null'' @ [CHR 0x27])
         else if os = ''alpine'' then Some (''/bin/sh -c '' @ [CHR 0x27] @ ''apk add --no-cache '' @ pkgs @ [CHR 0x27])
         else None)"

definition InstallPackages :: "api \<Rightarrow> string \<Rightarrow> string \<Rightarrow> string list \<Rightarrow> string \<Rightarrow> unit call" where
  "InstallPackages a project inst packages cur =
     (case DetectOS a project inst cur of
        None \<Rightarrow> Fail
      | Some os \<Rightarrow>
          (case install_command os packages of
             None \<Rightarrow> Fail
           | Some cmd \<Rightarrow>
               (case Exec a cur (simple_exec inst cmd True) of
                  Return (ret, err, _) \<Rightarrow> if err \<or> ret \<noteq> 0 then Fail else Return ()
                | Fail \<Rightarrow> Fail
                | Crash \<Rightarrow> Crash)))"

end
