(* ===== verification/Instance_Create.thy ===== *)
theory Instance_Create
  imports Create_Config Login_User Incus_Client
begin

text \<open>
  Creating an instance: from the options of a login string and the loaded configuration to the
  parameters (\<open>shellHandler\<close> of \<open>src/server/shell.go\<close>), from the body of a web request to the
  parameters (\<open>src/server/web-api.go\<close>), and from the parameters to the request that
  \<open>CreateInstance\<close> of \<open>src/pkg/incus/instance.go\<close> sends, with \<open>mergeConfig\<close>,
  \<open>mergeDevices\<close> and the project selection of the client (\<open>src/pkg/incus/incus.go\<close>).

  The Incus server is not part of the repository: it is the record \<open>server\<close> of the API calls the
  code makes, functions of an arbitrary server state; an error is \<^const>\<open>None\<close>. The maps are
  values here: \<open>CreateInstance\<close> writes into the map it is given, which is the result component
  of \<open>build_config\<close>.
\<close>

section \<open>Model\<close>

record CreateInstanceParams =
  cp_Name :: string
  cp_Project :: string
  cp_Image :: string
  cp_ImageRemote :: string
  cp_Memory :: int
  cp_CPU :: int
  cp_Disk :: int
  cp_Ephemeral :: bool
  cp_Nesting :: bool
  cp_Privileged :: bool
  cp_VM :: bool
  cp_InitOnly :: bool
  cp_Config :: strmap
  cp_Devices :: devmap

record InstancesPost =
  ip_Name :: string
  ip_Type :: string
  ip_Alias :: string
  ip_Config :: strmap
  ip_Devices :: "(string, strmap) mapping"
  ip_Ephemeral :: bool

subsection \<open>Parameters from a login and from a web request\<close>

text \<open>An option of the login string, when given, replaces the configured value.\<close>

definition login_params :: "LoginUser \<Rightarrow> CreateConfig \<Rightarrow> store \<Rightarrow> CreateInstanceParams" where
  "login_params lu cc h =
     (let u = lu_core lu; o' = lu_CreateConfig u;
          (h, cfg) = cc_Config cc h; (h, dev) = cc_Devices cc h
      in \<lparr>cp_Name = lu_Instance u, cp_Project = lu_Project u,
          cp_Image = (case lcc_Image o' of Some i \<Rightarrow> i | None \<Rightarrow> cc_Image cc),
          cp_ImageRemote = [],
          cp_Memory = (case lcc_Memory o' of Some n \<Rightarrow> n | None \<Rightarrow> cc_Memory cc),
          cp_CPU = (case lcc_CPU o' of Some n \<Rightarrow> n | None \<Rightarrow> cc_CPU cc),
          cp_Disk = (case lcc_Disk o' of Some n \<Rightarrow> n | None \<Rightarrow> cc_Disk cc),
          cp_Ephemeral = (case lcc_Ephemeral o' of Some b \<Rightarrow> b | None \<Rightarrow> cc_Ephemeral cc),
          cp_Nesting = (case lcc_Nesting o' of Some b \<Rightarrow> b | None \<Rightarrow> False),
          cp_Privileged = (case lcc_Privileged o' of Some b \<Rightarrow> b | None \<Rightarrow> False),
          cp_VM = (case lcc_VM o' of Some b \<Rightarrow> b | None \<Rightarrow> cc_VM cc),
          cp_InitOnly = False, cp_Config = cfgs h ! cfg, cp_Devices = devs h ! dev\<rparr>)"

record CreateInstanceRequest =
  rq_Name :: string
  rq_Project :: string
  rq_Image :: string
  rq_Memory :: int
  rq_CPU :: int
  rq_Disk :: int
  rq_Ephemeral :: bool
  rq_InitOnly :: bool
  rq_Config :: strmap
  rq_Devices :: devmap
  rq_Profile :: string

text \<open>\<^const>\<open>None\<close>: a required field is missing and the handler answers with a bad-request status.\<close>

definition web_params :: "CreateInstanceRequest \<Rightarrow> CreateInstanceParams option" where
  "web_params req =
     (if rq_Name req = [] \<or> rq_Project req = [] \<or> rq_Image req = [] then None
      else (let (remote, img) = (case cut_char (CHR '':'') (rq_Image req) of
                                     Some (r, i) \<Rightarrow> (r, i) | None \<Rightarrow> ([], rq_Image req))
            in Some \<lparr>cp_Name = rq_Name req, cp_Project = rq_Project req, cp_Image = img,
                     cp_ImageRemote = remote, cp_Memory = rq_Memory req, cp_CPU = rq_CPU req,
                     cp_Disk = rq_Disk req, cp_Ephemeral = rq_Ephemeral req, cp_Nesting = False,
                     cp_Privileged = False, cp_VM = False, cp_InitOnly = rq_InitOnly req,
                     cp_Config = rq_Config req, cp_Devices = rq_Devices req\<rparr>))"

subsection \<open>The request\<close>

definition mergeConfig :: "strmap \<Rightarrow> strmap \<Rightarrow> strmap" where
  "mergeConfig c1 c2 = override (override Mapping.empty c1) c2"

text \<open>Ranging over a nil map does nothing, so a nil device becomes an empty one.\<close>

definition device_entries :: "strmap option \<Rightarrow> strmap" where
  "device_entries d = (case d of Some m \<Rightarrow> m | None \<Rightarrow> Mapping.empty)"

definition mergeDevices :: "devmap \<Rightarrow> devmap \<Rightarrow> (string, strmap) mapping" where
  "mergeDevices d1 d2 =
     Mapping.combine override (Mapping.map_values (\<lambda>_. device_entries) d1)
       (Mapping.map_values (\<lambda>_. device_entries) d2)"

definition build_config :: "CreateInstanceParams \<Rightarrow> strmap" where
  "build_config p =
     (let config = cp_Config p;
          config = (if \<not> cp_VM p \<and> cp_Privileged p
                    then Mapping.update ''security.privileged'' ''true'' config else config);
          config = (if \<not> cp_VM p \<and> cp_Nesting p
                    then Mapping.update ''security.syscalls.intercept.setxattr'' ''true''
                           (Mapping.update ''security.syscalls.intercept.mknod'' ''true''
                              (Mapping.update ''security.nesting'' ''true'' config)) else config);
          config = (if cp_Memory p > 0
                    then Mapping.update ''limits.memory'' (itoa (cp_Memory p) @ ''GiB'') config else config)
      in if cp_CPU p > 0 then Mapping.update ''limits.cpu'' (itoa (cp_CPU p)) config else config)"

definition build_devices :: "devmap \<Rightarrow> CreateInstanceParams \<Rightarrow> (string, strmap) mapping" where
  "build_devices profile p =
     (let devices = mergeDevices profile (cp_Devices p)
      in case Mapping.lookup devices ''root'' of
           None \<Rightarrow> devices
         | Some root \<Rightarrow>
             Mapping.update ''root''
               (if cp_Disk p > 0 then Mapping.update ''size'' (itoa (cp_Disk p) @ ''GiB'') root else root)
               devices)"

definition build_request :: "devmap \<Rightarrow> CreateInstanceParams \<Rightarrow> InstancesPost" where
  "build_request profile p =
     \<lparr>ip_Name = cp_Name p, ip_Type = (if cp_VM p then ''virtual-machine'' else ''container''),
      ip_Alias = cp_Image p, ip_Config = build_config p, ip_Devices = build_devices profile p,
      ip_Ephemeral = cp_Ephemeral p\<rparr>"

subsection \<open>The client\<close>

text \<open>The API calls; the first argument of most is the project the connection is scoped to.\<close>

record ('s, 'i) server =
  sv_GetProject :: "string \<Rightarrow> 's \<Rightarrow> string option"
  sv_GetInstance :: "string \<Rightarrow> string \<Rightarrow> 's \<Rightarrow> string + 'i"
  sv_GetProfile :: "string \<Rightarrow> string \<Rightarrow> 's \<Rightarrow> devmap option"
  sv_GetImage :: "string \<Rightarrow> bool \<Rightarrow> string \<Rightarrow> 's \<Rightarrow> string option"
  sv_CreateInstanceFromImage :: "string \<Rightarrow> string \<Rightarrow> InstancesPost \<Rightarrow> 's \<Rightarrow> 's option"
  sv_Start :: "string \<Rightarrow> string \<Rightarrow> 's \<Rightarrow> 's option"

datatype create_error =
    InstanceExistsError
  | ProjectError
  | ProfileError
  | ImageError
  | CreateError
  | StartError
  | InstanceError

text \<open>The client's own state is the project its connection is scoped to.\<close>

definition UseProject :: "('s, 'i) server \<Rightarrow> string \<Rightarrow> 's \<Rightarrow> string \<Rightarrow> string option" where
  "UseProject sv project s cur =
     use_project (\<lambda>p. sv_GetProject sv p s) project cur"

definition GetInstance ::
  "('s, 'i) server \<Rightarrow> string \<Rightarrow> string \<Rightarrow> 's \<Rightarrow> string \<Rightarrow> string \<times> (string + 'i)" where
  "GetInstance sv project name s cur =
     (case UseProject sv project s cur of
        None \<Rightarrow> (cur, Inl ''project error'')
      | Some cur \<Rightarrow> (cur, sv_GetInstance sv cur name s))"

text \<open>Here an error whose text contains \<open>not found\<close> means that there is no such instance.\<close>

definition InstanceExists ::
  "('s, 'i) server \<Rightarrow> string \<Rightarrow> string \<Rightarrow> 's \<Rightarrow> string \<Rightarrow> string \<times> (string + bool)" where
  "InstanceExists sv name project s cur =
     (case UseProject sv project s cur of
        None \<Rightarrow> (cur, Inl ''project error'')
      | Some cur \<Rightarrow>
          (cur, case sv_GetInstance sv cur name s of
                  Inr _ \<Rightarrow> Inr True
                | Inl e \<Rightarrow> if contains_str e ''not found'' then Inr False else Inl e))"

text \<open>
  \<open>CreateInstance\<close>: the new server state, the project the client ends in, and the instance or the
  error of the step that failed. The first call passes name and project in the order of the source.
\<close>

definition CreateInstance ::
  "('s, 'i) server \<Rightarrow> CreateInstanceParams \<Rightarrow> 's \<Rightarrow> string \<Rightarrow> 's \<times> string \<times> (create_error + 'i)" where
  "CreateInstance sv p s cur =
     (case GetInstance sv (cp_Name p) (cp_Project p) s cur of
        (cur, Inr _) \<Rightarrow> (s, cur, Inl InstanceExistsError)
      | (cur, Inl _) \<Rightarrow>
          (case UseProject sv (cp_Project p) s cur of
             None \<Rightarrow> (s, cur, Inl ProjectError)
           | Some cur \<Rightarrow>
               (case sv_GetProfile sv cur ''default'' s of
                  None \<Rightarrow> (s, cur, Inl ProfileError)
                | Some profile \<Rightarrow>
                    (case sv_GetImage sv cur (cp_ImageRemote p = ''local'') (cp_Image p) s of
                       None \<Rightarrow> (s, cur, Inl ImageError)
                     | Some img \<Rightarrow>
                         (case sv_CreateInstanceFromImage sv cur img (build_request profile p) s of
                            None \<Rightarrow> (s, cur, Inl CreateError)
                          | Some s' \<Rightarrow>
                              (case (if cp_InitOnly p then Some s' else sv_Start sv cur (cp_Name p) s') of
                                 None \<Rightarrow> (s', cur, Inl StartError)
                               | Some s'' \<Rightarrow>
                                   (case GetInstance sv (cp_Project p) (cp_Name p) s'' cur of
                                      (cur, Inr i) \<Rightarrow> (s'', cur, Inr i)
                                    | (cur, Inl _) \<Rightarrow> (s'', cur, Inl InstanceError))))))))"

text \<open>
  \<open>createInstanceHandler\<close> of the web API: the body as decoded (\<^const>\<open>None\<close>: it does not decode),
  whether the connection succeeds, and the status it answers with. A new client is in no project yet.
\<close>

definition createInstanceHandler ::
  "('s, 'i) server \<Rightarrow> CreateInstanceRequest option \<Rightarrow> bool \<Rightarrow> 's \<Rightarrow> 's \<times> nat" where
  "createInstanceHandler sv body connected s =
     (case Option.bind body web_params of
        None \<Rightarrow> (s, 400)
      | Some p \<Rightarrow>
          if \<not> connected then (s, 500)
          else (case InstanceExists sv (cp_Name p) (cp_Project p) s [] of
                  (cur, Inl _) \<Rightarrow> (s, 500)
                | (cur, Inr True) \<Rightarrow> (s, 409)
                | (cur, Inr False) \<Rightarrow>
                    (case CreateInstance sv p s cur of
                       (s', _, Inl _) \<Rightarrow> (s', 500)
                     | (s', _, Inr _) \<Rightarrow> (s', 201))))"

section \<open>Properties\<close>

lemma lookup_build_config_limits:
  "cp_Memory p > 0 \<Longrightarrow> Mapping.lookup (build_config p) ''limits.memory'' = Some (itoa (cp_Memory p) @ ''GiB'')"
  "cp_CPU p > 0 \<Longrightarrow> Mapping.lookup (build_config p) ''limits.cpu'' = Some (itoa (cp_CPU p))"
  by (simp_all add: build_config_def Let_def lookup_update')

lemma lookup_build_config_security:
  "\<not> cp_VM p \<Longrightarrow> cp_Privileged p \<Longrightarrow> Mapping.lookup (build_config p) ''security.privileged'' = Some ''true''"
  "\<not> cp_VM p \<Longrightarrow> cp_Nesting p \<Longrightarrow> Mapping.lookup (build_config p) ''security.nesting'' = Some ''true''"
  "cp_VM p \<or> \<not> cp_Privileged p \<Longrightarrow>
   Mapping.lookup (build_config p) ''security.privileged'' = Mapping.lookup (cp_Config p) ''security.privileged''"
  by (auto simp: build_config_def Let_def lookup_update')

lemma lookup_root_size:
  assumes "cp_Disk p > 0" and "Mapping.lookup (mergeDevices profile (cp_Devices p)) ''root'' = Some root"
  shows "Mapping.lookup (build_devices profile p) ''root'' =
         Some (Mapping.update ''size'' (itoa (cp_Disk p) @ ''GiB'') root)"
  using assms by (simp add: build_devices_def Let_def)

lemma login_params_simps [simp]:
  "cp_Name (login_params lu cc h) = lu_Instance (lu_core lu)"
  "cp_Project (login_params lu cc h) = lu_Project (lu_core lu)"
  "cp_Image (login_params lu cc h) = (case lcc_Image (lu_CreateConfig (lu_core lu)) of Some i \<Rightarrow> i | None \<Rightarrow> cc_Image cc)"
  "cp_Memory (login_params lu cc h) = (case lcc_Memory (lu_CreateConfig (lu_core lu)) of Some n \<Rightarrow> n | None \<Rightarrow> cc_Memory cc)"
  "cp_CPU (login_params lu cc h) = (case lcc_CPU (lu_CreateConfig (lu_core lu)) of Some n \<Rightarrow> n | None \<Rightarrow> cc_CPU cc)"
  "cp_Ephemeral (login_params lu cc h) =
     (case lcc_Ephemeral (lu_CreateConfig (lu_core lu)) of Some b \<Rightarrow> b | None \<Rightarrow> cc_Ephemeral cc)"
  "cp_VM (login_params lu cc h) = (case lcc_VM (lu_CreateConfig (lu_core lu)) of Some b \<Rightarrow> b | None \<Rightarrow> cc_VM cc)"
  "cp_Privileged (login_params lu cc h) = (lcc_Privileged (lu_CreateConfig (lu_core lu)) = Some True)"
  by (auto simp: login_params_def Let_def case_prod_unfold split: option.split)

text \<open>
  From the text of a creation login to the request sent to Incus: the instance has the name, the
  project, the image, the memory and CPU limits (in GiB and in number) and the ephemeral flag that
  the text asks for, whatever the configuration file says; a container is privileged exactly as
  asked or configured; where the text says nothing, the configured value is used.
\<close>

theorem creation_login_request:
  assumes "printable_create env c" and "lu_CreateConfig c = opts"
  shows "let p = login_params (parseLoginUser env (createString c)) conf h; req = build_request profile p
    in ip_Name req = lu_Instance c \<and> cp_Project p = lu_Project c \<and>
       ip_Alias req = (case lcc_Image opts of Some i \<Rightarrow> i | None \<Rightarrow> cc_Image conf) \<and>
       ip_Ephemeral req = (case lcc_Ephemeral opts of Some b \<Rightarrow> b | None \<Rightarrow> cc_Ephemeral conf) \<and>
       (\<forall>n > 0. lcc_Memory opts = Some n \<longrightarrow>
          Mapping.lookup (ip_Config req) ''limits.memory'' = Some (itoa n @ ''GiB'')) \<and>
       (\<forall>n > 0. lcc_CPU opts = Some n \<longrightarrow> Mapping.lookup (ip_Config req) ''limits.cpu'' = Some (itoa n)) \<and>
       (lcc_VM opts = None \<and> \<not> cc_VM conf \<and> lcc_Privileged opts = Some True \<longrightarrow>
          Mapping.lookup (ip_Config req) ''security.privileged'' = Some ''true'') \<and>
       (lcc_Privileged opts = None \<longrightarrow>
          Mapping.lookup (ip_Config req) ''security.privileged'' =
          Mapping.lookup (cp_Config p) ''security.privileged'')"
  using assms(2)
  by (simp add: parse_printed_create [OF assms(1)] build_request_def Let_def lookup_build_config_limits
      lookup_build_config_security)

theorem creation_login_request_witness:
  "Mapping.lookup (ip_Config (build_request Mapping.empty
     (login_params (parseLoginUser \<lparr>getuid = 0, lookup_id = \<lambda>_. None\<rparr> ''+web.prod+a/b+m4'') sample_config sample_store)))
     ''limits.memory'' = Some ''4GiB''"
proof -
  let ?env = "\<lparr>getuid = 0, lookup_id = \<lambda>_. None\<rparr>"
  let ?cc = "empty_LoginCreateConfig\<lparr>lcc_Image := Some ''a/b'', lcc_Memory := Some 4\<rparr>"
  let ?c = "(default_core ?env [])\<lparr>lu_Instance := ''web'', lu_Project := ''prod'', lu_CreateInstance := True,
              lu_CreateConfig := ?cc\<rparr>"
  have "printable_create ?env ?c"
    by (simp add: printable_create_def plain_def wf_create_def in_int64_def default_core_def empty_core_def
        empty_LoginCreateConfig_def del: plain_notin)
  from creation_login_request [OF this refl, of sample_config sample_store Mapping.empty]
  have "Mapping.lookup (ip_Config (build_request Mapping.empty
      (login_params (parseLoginUser ?env (createString ?c)) sample_config sample_store))) ''limits.memory'' =
      Some (itoa 4 @ ''GiB'')"
    by (simp add: Let_def empty_LoginCreateConfig_def)
  moreover have "createString ?c = ''+web.prod+a/b+m4''" by code_simp
  moreover have "itoa 4 = ''4''" by code_simp
  ultimately show ?thesis by simp
qed

text \<open>
  \<open>mergeDevices\<close> has exactly the devices of either side, and each option of a device has the value
  of the second side where that sets it and of the first side otherwise.
\<close>

theorem merge_devices_lookup:
  "(Mapping.lookup (mergeDevices d1 d2) k = None \<longleftrightarrow>
      Mapping.lookup d1 k = None \<and> Mapping.lookup d2 k = None) \<and>
   Mapping.lookup (case Mapping.lookup (mergeDevices d1 d2) k of Some m \<Rightarrow> m | None \<Rightarrow> Mapping.empty) x =
     (case Option.bind (Mapping.lookup d2 k) (\<lambda>d. Mapping.lookup (device_entries d) x) of
        Some v \<Rightarrow> Some v
      | None \<Rightarrow> Option.bind (Mapping.lookup d1 k) (\<lambda>d. Mapping.lookup (device_entries d) x))"
  by (auto simp: mergeDevices_def lookup_combine lookup_map_values combine_options_def lookup_override
      split: option.split)

text \<open>
  The check of \<open>CreateInstance\<close> for an existing instance swaps project and name: when no project
  is called like the new instance, the check never reports an existing instance, even if one with this
  name exists in the project.
\<close>

theorem create_check_swapped:
  assumes "cp_Name p \<noteq> []" and "cp_Name p \<noteq> cur" and "sv_GetProject sv (cp_Name p) s = None"
  shows "snd (snd (CreateInstance sv p s cur)) \<noteq> Inl InstanceExistsError"
proof -
  have "GetInstance sv (cp_Name p) (cp_Project p) s cur = (cur, Inl ''project error'')"
    using assms by (simp add: GetInstance_def UseProject_def use_project_def)
  then show ?thesis
    by (simp add: CreateInstance_def split: option.split prod.split sum.split)
qed

text \<open>A server that knows the project \<open>default\<close> and keeps a list of the instances it was asked for.\<close>

definition list_server :: "((string \<times> string) list, string) server" where
  "list_server =
     \<lparr>sv_GetProject = (\<lambda>p s. if p = ''default'' then Some p else None),
      sv_GetInstance = (\<lambda>p n s. if List.member s (p, n) then Inr n else Inl ''Instance not found''),
      sv_GetProfile = (\<lambda>p n s. Some Mapping.empty), sv_GetImage = (\<lambda>p l a s. Some a),
      sv_CreateInstanceFromImage = (\<lambda>p i r s. Some ((p, ip_Name r) # s)), sv_Start = (\<lambda>p n s. Some s)\<rparr>"

definition sample_params :: CreateInstanceParams where
  "sample_params =
     \<lparr>cp_Name = ''web'', cp_Project = ''default'', cp_Image = ''a/b'', cp_ImageRemote = [], cp_Memory = 1,
      cp_CPU = 0, cp_Disk = 0, cp_Ephemeral = False, cp_Nesting = False, cp_Privileged = False, cp_VM = False,
      cp_InitOnly = False, cp_Config = Mapping.empty, cp_Devices = Mapping.empty\<rparr>"

theorem create_check_swapped_witness:
  "snd (snd (CreateInstance list_server sample_params [(''default'', ''web'')] [])) \<noteq> Inl InstanceExistsError"
  by (rule create_check_swapped) (simp_all add: sample_params_def list_server_def)

text \<open>
  When \<open>CreateInstance\<close> succeeds, the request built from the parameters was sent, to the requested
  project (or \<open>default\<close> when none was given), before a start that is skipped only on demand; and
  when it fails before that call, the server is unchanged.
\<close>

theorem create_in_project:
  assumes names: "\<And>x y. sv_GetProject sv x s = Some y \<Longrightarrow> y = x"
    and run: "CreateInstance sv p s cur = (s', cur', res)"
  shows "(case res of
     Inr i \<Rightarrow>
       \<exists>profile img s1.
         sv_CreateInstanceFromImage sv (if cp_Project p = [] then ''default'' else cp_Project p) img
           (build_request profile p) s = Some s1 \<and>
         (if cp_InitOnly p then s' = s1
          else sv_Start sv (if cp_Project p = [] then ''default'' else cp_Project p) (cp_Name p) s1 = Some s')
   | Inl e \<Rightarrow> e \<in> {StartError, InstanceError} \<or> s' = s)"
proof -
  have use: "UseProject sv x s c = Some y \<Longrightarrow> y = (if x = [] then ''default'' else x)" for x c y
    using names by (auto simp: UseProject_def use_project_def Let_def split: if_splits)
  show ?thesis
    using run
    by (auto simp: CreateInstance_def dest!: use split: option.splits prod.splits sum.splits if_splits) blast+
qed

theorem create_in_project_witness:
  "\<exists>profile img s1.
     sv_CreateInstanceFromImage list_server ''default'' img (build_request profile sample_params) [] = Some s1 \<and>
     sv_Start list_server ''default'' ''web'' s1 = Some [(''default'', ''web'')]"
proof -
  have run: "CreateInstance list_server sample_params [] [] = ([(''default'', ''web'')], ''default'', Inr ''web'')"
    by (simp add: CreateInstance_def GetInstance_def UseProject_def use_project_def list_server_def sample_params_def build_request_def)
  have names: "sv_GetProject list_server x [] = Some y \<Longrightarrow> y = x" for x y
    by (simp add: list_server_def split: if_splits)
  from create_in_project [OF names run] show ?thesis
    by (simp add: sample_params_def)
qed

text \<open>
  The web handler never creates a second instance: when the instance exists in the requested project
  it answers 409, when a required field is missing 400, and in both cases the server is unchanged; 201
  is answered only when the instance did not exist before.
\<close>

theorem web_create_status:
  assumes "sv_GetProject sv (rq_Project req) s = Some (rq_Project req)" and "rq_Project req \<noteq> []"
  shows "((\<exists>i. sv_GetInstance sv (rq_Project req) (rq_Name req) s = Inr i) \<and> rq_Name req \<noteq> [] \<and> rq_Image req \<noteq> [] \<longrightarrow>
            createInstanceHandler sv (Some req) True s = (s, 409)) \<and>
         (rq_Name req = [] \<or> rq_Image req = [] \<longrightarrow> createInstanceHandler sv (Some req) True s = (s, 400)) \<and>
         (snd (createInstanceHandler sv (Some req) True s) = 201 \<longrightarrow>
            (\<exists>e. sv_GetInstance sv (rq_Project req) (rq_Name req) s = Inl e))"
  using assms
  by (auto simp: createInstanceHandler_def web_params_def InstanceExists_def UseProject_def use_project_def Let_def
      split: prod.splits sum.splits if_splits)

theorem web_create_status_witness:
  "createInstanceHandler list_server
     (Some \<lparr>rq_Name = ''web'', rq_Project = ''default'', rq_Image = ''images:a/b'', rq_Memory = 1, rq_CPU = 1,
            rq_Disk = 0, rq_Ephemeral = False, rq_InitOnly = False, rq_Config = Mapping.empty,
            rq_Devices = Mapping.empty, rq_Profile = []\<rparr>) True [(''default'', ''web'')] =
   ([(''default'', ''web'')], 409)"
  by (rule web_create_status [THEN conjunct1, rule_format]) (simp_all add: list_server_def)

end
