(* ===== verification/Ssh_Wire.thy ===== *)
theory Ssh_Wire
  imports Go_Base
begin

text \<open>
  Decoding of request payloads, \<open>src/pkg/ssh/util.go\<close>: big-endian 32-bit numbers and
  length-prefixed strings. The lengths are \<open>uint32\<close> values (\<open>32 word\<close>), so \<open>4 + length\<close>
  wraps around; a slice expression with bounds out of order is a run-time panic, which is a result
  of its own here.

  The theorems: decoding inverts encoding for all strings and sizes, and the length fields for which
  \<open>parseString\<close> panics are exactly the four largest ones.
\<close>

section \<open>Model\<close>

datatype 'a parse = Parsed 'a | Malformed | Panic

fun bind_parse :: "'a parse \<Rightarrow> ('a \<Rightarrow> 'b parse) \<Rightarrow> 'b parse" where
  "bind_parse (Parsed x) f = f x"
| "bind_parse Malformed f = Malformed"
| "bind_parse Panic f = Panic"

record Window =
  Width :: int
  Height :: int

record Pty =
  Term :: string
  pty_Window :: Window

text \<open>\<open>binary.BigEndian.Uint32\<close> on the first four bytes.\<close>

definition be_uint32 :: "string \<Rightarrow> 32 word" where
  "be_uint32 s = fold (\<lambda>c w. w * 256 + of_nat (of_char c)) (take 4 s) 0"

definition parseUint32 :: "string \<Rightarrow> (32 word \<times> string) parse" where
  "parseUint32 s = (if length s < 4 then Malformed else Parsed (be_uint32 s, drop 4 s))"

text \<open>\<open>in[i:j]\<close> for \<open>uint32\<close> bounds: \<^const>\<open>None\<close> where Go panics.\<close>

definition slice :: "string \<Rightarrow> 32 word \<Rightarrow> 32 word \<Rightarrow> string option" where
  "slice s i j =
     (if i \<le> j \<and> unat j \<le> length s then Some (take (unat j - unat i) (drop (unat i) s)) else None)"

definition parseString :: "string \<Rightarrow> (string \<times> string) parse" where
  "parseString s =
     (if length s < 4 then Malformed
      else let len = be_uint32 s
           in if (of_nat (length s) :: 32 word) < 4 + len then Malformed
              else (case slice s 4 (4 + len) of
                      None \<Rightarrow> Panic
                    | Some out \<Rightarrow> Parsed (out, drop (unat (4 + len)) s)))"

definition parsePtyRequest :: "string \<Rightarrow> Pty parse" where
  "parsePtyRequest s =
     bind_parse (parseString s) (\<lambda>(term, s).
     bind_parse (parseUint32 s) (\<lambda>(width, s).
     bind_parse (parseUint32 s) (\<lambda>(height, s).
       Parsed \<lparr>Term = term, pty_Window = \<lparr>Width = uint width, Height = uint height\<rparr>\<rparr>)))"

definition parseWinchRequest :: "string \<Rightarrow> Window parse" where
  "parseWinchRequest s =
     bind_parse (parseUint32 s) (\<lambda>(width, s).
       if width < 1 then Malformed
       else bind_parse (parseUint32 s) (\<lambda>(height, s).
              if height < 1 then Malformed
              else Parsed \<lparr>Width = uint width, Height = uint height\<rparr>))"

section \<open>Encoding, as the client does it\<close>

definition byte :: "nat \<Rightarrow> char" where
  "byte n = char_of n"

definition put_uint32 :: "32 word \<Rightarrow> string" where
  "put_uint32 w =
     [byte (unat w div 2 ^ 24), byte (unat w div 2 ^ 16), byte (unat w div 2 ^ 8), byte (unat w)]"

definition put_string :: "string \<Rightarrow> string" where
  "put_string s = put_uint32 (of_nat (length s)) @ s"

definition put_pty :: "string \<Rightarrow> 32 word \<Rightarrow> 32 word \<Rightarrow> string" where
  "put_pty term width height = put_string term @ put_uint32 width @ put_uint32 height"

section \<open>Lemmas\<close>

lemma base256:
  assumes "n < 2 ^ 32"
  shows "(((n div 2 ^ 24 mod 256) * 256 + n div 2 ^ 16 mod 256) * 256 + n div 2 ^ 8 mod 256) * 256 + n mod 256 = (n :: nat)"
proof -
  have "n div 2 ^ 24 < 256" using assms by (simp add: less_mult_imp_div_less)
  moreover have "n div 2 ^ 24 * 256 + n div 2 ^ 16 mod 256 = n div 2 ^ 16"
    using div_mult_mod_eq [of "n div 2 ^ 16" 256] by (simp add: div_mult2_eq [symmetric])
  moreover have "n div 2 ^ 16 * 256 + n div 2 ^ 8 mod 256 = n div 2 ^ 8"
    using div_mult_mod_eq [of "n div 2 ^ 8" 256] by (simp add: div_mult2_eq [symmetric])
  moreover have "n div 2 ^ 8 * 256 + n mod 256 = n"
    using div_mult_mod_eq [of n 256] by simp
  ultimately show ?thesis by simp
qed

lemma be_put_uint32 [simp]: "be_uint32 (put_uint32 w @ s) = w"
proof -
  let ?n = "unat w"
  have lim: "?n < 2 ^ 32" using unsigned_less [of w, where 'a = nat] by simp
  have "be_uint32 (put_uint32 w @ s) =
    of_nat ((((?n div 2 ^ 24 mod 256) * 256 + ?n div 2 ^ 16 mod 256) * 256 + ?n div 2 ^ 8 mod 256) * 256 + ?n mod 256)"
    by (simp add: be_uint32_def put_uint32_def byte_def)
  also have "\<dots> = w" by (simp only: base256 [OF lim]) simp
  finally show ?thesis .
qed

lemma length_put_uint32 [simp]: "length (put_uint32 w) = 4"
  by (simp add: put_uint32_def)

lemma parse_put_uint32 [simp]: "parseUint32 (put_uint32 w @ s) = Parsed (w, s)"
  by (simp add: parseUint32_def)

lemma unat_add4: "unat w < 2 ^ 32 - 4 \<Longrightarrow> unat (4 + w :: 32 word) = 4 + unat w"
  by (subst unat_plus_if') simp
lemma parse_put_string:
  assumes "length s + length rest + 4 < 2 ^ 32"
  shows "parseString (put_string s @ rest) = Parsed (s, rest)"
proof -
  let ?len = "of_nat (length s) :: 32 word"
  have len: "unat ?len = length s" using assms by (simp add: unat_of_nat)
  have add: "unat (4 + ?len) = 4 + length s" using assms len by (simp add: unat_add4)
  have be: "be_uint32 (put_string s @ rest) = ?len" by (simp add: put_string_def)
  have total: "unat (of_nat (length (put_string s @ rest)) :: 32 word) = 4 + length s + length rest"
  proof -
    have "length (put_string s @ rest) = 4 + length s + length rest" by (simp add: put_string_def)
    then show ?thesis
      using assms by (simp only: unat_of_nat) simp
  qed
  have "\<not> (of_nat (length (put_string s @ rest)) :: 32 word) < 4 + ?len"
    using add total by (simp add: word_less_nat_alt)
  moreover have "slice (put_string s @ rest) 4 (4 + ?len) = Some s"
    using add by (simp add: slice_def word_le_nat_alt put_string_def)
  ultimately show ?thesis
    using add unfolding parseString_def be by (simp add: put_string_def)
qed

section \<open>Properties\<close>

text \<open>
  A pseudo-terminal request with any terminal name and any size, followed by any terminal modes, is
  decoded into exactly that name and size; a window-change request with a positive size is decoded
  into that size, and one with a zero dimension is refused.
\<close>

theorem pty_request_roundtrip:
  assumes "length term + length modes + 12 < 2 ^ 32"
  shows "parsePtyRequest (put_pty term w h @ modes) =
           Parsed \<lparr>Term = term, pty_Window = \<lparr>Width = uint w, Height = uint h\<rparr>\<rparr> \<and>
         parseWinchRequest (put_uint32 w @ put_uint32 h @ modes) =
           (if w = 0 \<or> h = 0 then Malformed else Parsed \<lparr>Width = uint w, Height = uint h\<rparr>)"
proof -
  have zero: "v < 1 \<longleftrightarrow> v = 0" for v :: "32 word" by (simp add: word_less_nat_alt unat_eq_zero)
  have "parseString (put_string term @ put_uint32 w @ put_uint32 h @ modes) =
        Parsed (term, put_uint32 w @ put_uint32 h @ modes)"
    using assms by (intro parse_put_string) simp
  then show ?thesis
    by (simp add: parsePtyRequest_def put_pty_def parseWinchRequest_def zero)
qed

theorem pty_request_roundtrip_witness:
  "parsePtyRequest (put_pty ''xterm'' 80 24 @ [CHR 0x00]) =
   Parsed \<lparr>Term = ''xterm'', pty_Window = \<lparr>Width = 80, Height = 24\<rparr>\<rparr>"
  using pty_request_roundtrip [of "''xterm''" "[CHR 0x00]" 80 24] by simp

text \<open>
  Decoding a string panics exactly for the four length fields from \<open>0xFFFFFFFC\<close> on: there
  \<open>4 + length\<close> wraps around, passes the length check and the slice bounds are out of order.
\<close>

theorem parse_string_panics:
  assumes "length s < 2 ^ 32"
  shows "parseString s = Panic \<longleftrightarrow> 4 \<le> length s \<and> 2 ^ 32 - 4 \<le> unat (be_uint32 s)"
proof (cases "length s < 4")
  case True
  then show ?thesis by (simp add: parseString_def)
next
  case False
  let ?len = "be_uint32 s"
  have total: "unat (of_nat (length s) :: 32 word) = length s"
    using assms by (simp add: unat_of_nat)
  show ?thesis
  proof (cases "unat ?len < 2 ^ 32 - 4")
    case True
    then have add: "unat (4 + ?len) = 4 + unat ?len" by (rule unat_add4)
    then have "(4 :: 32 word) \<le> 4 + ?len" by (simp add: word_le_nat_alt)
    with True False add total show ?thesis
      by (auto simp: parseString_def slice_def Let_def word_less_nat_alt split: option.splits if_splits)
  next
    case wrap: False
    have "unat ?len < 2 ^ 32" using unsigned_less [of ?len, where 'a = nat] by simp
    with wrap have add: "unat (4 + ?len) = unat ?len + 4 - 2 ^ 32"
      by (subst unat_plus_if') simp
    then have small: "unat (4 + ?len) < 4" using \<open>unat ?len < 2 ^ 32\<close> by simp
    then have "\<not> (of_nat (length s) :: 32 word) < 4 + ?len" "\<not> (4 :: 32 word) \<le> 4 + ?len"
      using False total by (simp_all add: word_less_nat_alt word_le_nat_alt)
    with False wrap show ?thesis by (simp add: parseString_def slice_def Let_def)
  qed
qed

theorem parse_string_panics_witness:
  "parseString [CHR 0xFF, CHR 0xFF, CHR 0xFF, CHR 0xFC] = Panic"
proof -
  have "unat (be_uint32 [CHR 0xFF, CHR 0xFF, CHR 0xFF, CHR 0xFC]) = 2 ^ 32 - 4"
    by (simp add: be_uint32_def)
  then show ?thesis
    using parse_string_panics [of "[CHR 0xFF, CHR 0xFF, CHR 0xFF, CHR 0xFC]"] by simp
qed

end
