(* ===== verification/Ssh_Session.thy ===== *)
theory Ssh_Session
  imports Ssh_Wire Shlex
begin

text \<open>
  One session channel of the SSH server, \<open>src/pkg/ssh/session.go\<close>: the request loop
  \<open>handleRequests\<close>, the operations the handler calls (\<open>Exit\<close>, \<open>Signals\<close>, \<open>Break\<close>,
  \<open>Write\<close>, reading window changes) and their interleaving as a step relation. What the code
  sends (replies, the start of the handler goroutine, signals, the exit status) is a list of events.

  \<open>gossh.Unmarshal\<close> is a parameter. The window channel has room for one size, so a send may
  block: the size is then waiting in \<open>se_sending\<close>, and the loop takes no further request before the
  handler has read. A malformed terminal request can make the decoder panic. The goroutine that
  \<open>Signals\<close> starts is taken to deliver to the channel it was started for.
\<close>

section \<open>Model\<close>

record session =
  se_handled :: bool
  se_exited :: bool
  se_pty :: "Pty option"
  se_winch :: "Window list"
  se_sending :: "Window option"
  se_env :: "string list"
  se_rawCmd :: string
  se_subsystem :: string
  se_sigCh :: "nat option"
  se_sigBuf :: "string list"
  se_breakCh :: "nat option"
  se_agent :: bool

definition new_session :: session where
  "new_session =
     \<lparr>se_handled = False, se_exited = False, se_pty = None, se_winch = [], se_sending = None, se_env = [],
      se_rawCmd = [], se_subsystem = [], se_sigCh = None, se_sigBuf = [], se_breakCh = None, se_agent = False\<rparr>"

definition maxSigBufSize :: nat where
  "maxSigBufSize = 128"

text \<open>The callbacks of the server and the decoding library.\<close>

record session_env =
  sv_ptyCb :: "(Pty \<Rightarrow> bool) option"
  sv_sessReqCb :: "(session \<Rightarrow> string \<Rightarrow> bool) option"
  sv_subsystems :: "string \<Rightarrow> bool"
  un_string :: "string \<Rightarrow> string"
  un_pair :: "string \<Rightarrow> string \<times> string"

datatype event =
    Reply bool
  | StartHandler string
  | StartSubsystem string
  | SendSignal nat string
  | SendBreak nat
  | ExitStatus "32 word"
  | CloseChannel

datatype handled = Done session "event list" | Crashed

definition accepts :: "session_env \<Rightarrow> session \<Rightarrow> string \<Rightarrow> bool" where
  "accepts env s kind = (case sv_sessReqCb env of None \<Rightarrow> True | Some cb \<Rightarrow> cb s kind)"

definition handle_exec :: "session_env \<Rightarrow> string \<Rightarrow> string \<Rightarrow> session \<Rightarrow> handled" where
  "handle_exec env kind payload s =
     (if se_handled s then Done s [Reply False]
      else let s = s\<lparr>se_rawCmd := un_string env payload\<rparr>
           in if \<not> accepts env s kind then Done (s\<lparr>se_rawCmd := []\<rparr>) [Reply False]
              else Done (s\<lparr>se_handled := True\<rparr>) [Reply True, StartHandler (se_rawCmd s)])"

definition handle_subsystem :: "session_env \<Rightarrow> string \<Rightarrow> session \<Rightarrow> handled" where
  "handle_subsystem env payload s =
     (if se_handled s then Done s [Reply False]
      else let v = un_string env payload; s = s\<lparr>se_subsystem := v\<rparr>
           in if \<not> accepts env s ''subsystem'' then Done (s\<lparr>se_rawCmd := []\<rparr>) [Reply False]
              else if sv_subsystems env v
              then Done (s\<lparr>se_handled := True\<rparr>) [Reply True, StartSubsystem v]
              else if sv_subsystems env ''default''
              then Done (s\<lparr>se_handled := True\<rparr>) [Reply True, StartSubsystem ''default'']
              else Done s [Reply False])"

definition handle_env :: "session_env \<Rightarrow> string \<Rightarrow> session \<Rightarrow> handled" where
  "handle_env env payload s =
     (if se_handled s then Done s [Reply False]
      else (case un_pair env payload of
              (k, v) \<Rightarrow> Done (s\<lparr>se_env := se_env s @ [k @ ''='' @ v]\<rparr>) [Reply True]))"

definition handle_signal :: "session_env \<Rightarrow> string \<Rightarrow> session \<Rightarrow> handled" where
  "handle_signal env payload s =
     (case se_sigCh s of
        Some c \<Rightarrow> Done s [SendSignal c (un_string env payload)]
      | None \<Rightarrow>
          if length (se_sigBuf s) < maxSigBufSize
          then Done (s\<lparr>se_sigBuf := se_sigBuf s @ [un_string env payload]\<rparr>) []
          else Done s [])"

definition handle_pty :: "session_env \<Rightarrow> string \<Rightarrow> session \<Rightarrow> handled" where
  "handle_pty env payload s =
     (if se_handled s \<or> se_pty s \<noteq> None then Done s [Reply False]
      else (case parsePtyRequest payload of
              Panic \<Rightarrow> Crashed
            | Malformed \<Rightarrow> Done s [Reply False]
            | Parsed p \<Rightarrow>
                if (case sv_ptyCb env of None \<Rightarrow> True | Some cb \<Rightarrow> cb p)
                then Done (s\<lparr>se_pty := Some p, se_winch := [pty_Window p]\<rparr>) [Reply True]
                else Done s [Reply False]))"

definition handle_window_change :: "string \<Rightarrow> session \<Rightarrow> handled" where
  "handle_window_change payload s =
     (case se_pty s of
        None \<Rightarrow> Done s [Reply False]
      | Some p \<Rightarrow>
          (case parseWinchRequest payload of
             Panic \<Rightarrow> Crashed
           | Malformed \<Rightarrow> Done s [Reply False]
           | Parsed w \<Rightarrow>
               let s = s\<lparr>se_pty := Some (p\<lparr>pty_Window := w\<rparr>)\<rparr>
               in if se_winch s \<noteq> [] then Done (s\<lparr>se_sending := Some w\<rparr>) []
                  else Done (s\<lparr>se_winch := [w]\<rparr>) [Reply True]))"

text \<open>The send of a window size that was blocked, once the channel has room: then the request is answered.\<close>

definition resume_window_change :: "session \<Rightarrow> (session \<times> event list) option" where
  "resume_window_change s =
     (case se_sending s of
        Some w \<Rightarrow> if se_winch s = [] then Some (s\<lparr>se_sending := None, se_winch := [w]\<rparr>, [Reply True]) else None
      | None \<Rightarrow> None)"

definition handle_break :: "session \<Rightarrow> handled" where
  "handle_break s =
     (case se_breakCh s of Some c \<Rightarrow> Done s [SendBreak c, Reply True] | None \<Rightarrow> Done s [Reply False])"

text \<open>One iteration of \<open>handleRequests\<close>, on the type and the payload of the request.\<close>

definition handleRequest :: "session_env \<Rightarrow> string \<Rightarrow> string \<Rightarrow> session \<Rightarrow> handled" where
  "handleRequest env kind payload s =
     (if kind = ''shell'' \<or> kind = ''exec'' then handle_exec env kind payload s
      else if kind = ''subsystem'' then handle_subsystem env payload s
      else if kind = ''env'' then handle_env env payload s
      else if kind = ''signal'' then handle_signal env payload s
      else if kind = ''pty-req'' then handle_pty env payload s
      else if kind = ''window-change'' then handle_window_change payload s
      else if kind = ''auth-agent-req@openssh.com'' then Done (s\<lparr>se_agent := True\<rparr>) [Reply True]
      else if kind = ''break'' then handle_break s
      else Done s [Reply False])"

text \<open>
  The operations of the handler. \<open>Exit\<close> fails when called again; when sending the request fails
  (\<open>sent\<close> is false), the error is returned and the channel stays open.
\<close>

definition session_Exit :: "bool \<Rightarrow> int \<Rightarrow> session \<Rightarrow> session \<times> event list \<times> bool" where
  "session_Exit sent exit_code s =
     (if se_exited s then (s, [], False)
      else let s = s\<lparr>se_exited := True\<rparr>
           in if \<not> sent then (s, [], False)
              else (s, [ExitStatus (word_of_int exit_code), CloseChannel], True))"

text \<open>The buffered signals are sent to the new channel; the buffer is not emptied.\<close>

definition Signals :: "nat option \<Rightarrow> session \<Rightarrow> session \<times> event list" where
  "Signals c s =
     (s\<lparr>se_sigCh := c\<rparr>,
      case c of Some n \<Rightarrow> map (SendSignal n) (se_sigBuf s) | None \<Rightarrow> [])"

definition Break_channel :: "nat option \<Rightarrow> session \<Rightarrow> session" where
  "Break_channel c s = s\<lparr>se_breakCh := c\<rparr>"

definition Environ :: "session \<Rightarrow> string list" where
  "Environ s = se_env s"

definition session_Command :: "session \<Rightarrow> string list" where
  "session_Command s = fst (Split (se_rawCmd s) True)"

text \<open>\<open>Write\<close>: the bytes that go to the channel.\<close>

definition write_bytes :: "session \<Rightarrow> string \<Rightarrow> string" where
  "write_bytes s p =
     (if se_pty s \<noteq> None
      then replace_all (replace_all p [CHR 0x0A] [CHR 0x0D, CHR 0x0A])
             [CHR 0x0D, CHR 0x0D, CHR 0x0A] [CHR 0x0D, CHR 0x0A]
      else p)"

text \<open>The count \<open>Write\<close> reports when the channel accepted \<open>n\<close> bytes.\<close>

definition write_count :: "session \<Rightarrow> string \<Rightarrow> nat \<Rightarrow> nat" where
  "write_count s p n = (if se_pty s \<noteq> None \<and> n > length p then length p else n)"

subsection \<open>Interleaving\<close>

text \<open>
  The request loop, and the handler goroutine once it was started: both act on the session at any
  time, and the second component collects the events.
\<close>

inductive sess_step :: "session_env \<Rightarrow> session \<times> event list \<Rightarrow> session \<times> event list \<Rightarrow> bool"
  for env :: session_env where
  request: "se_sending s = None \<Longrightarrow> handleRequest env kind payload s = Done s' es \<Longrightarrow>
    sess_step env (s, tr) (s', tr @ es)"
| resume: "resume_window_change s = Some (s', es) \<Longrightarrow> sess_step env (s, tr) (s', tr @ es)"
| exit: "se_handled s \<Longrightarrow> session_Exit sent c s = (s', es, ok) \<Longrightarrow> sess_step env (s, tr) (s', tr @ es)"
| signals: "se_handled s \<Longrightarrow> Signals c s = (s', es) \<Longrightarrow> sess_step env (s, tr) (s', tr @ es)"
| break_ch: "se_handled s \<Longrightarrow> sess_step env (s, tr) (Break_channel c s, tr)"
| read_winch: "se_handled s \<Longrightarrow> se_winch s = w # ws \<Longrightarrow> sess_step env (s, tr) (s\<lparr>se_winch := ws\<rparr>, tr)"

inductive_cases sess_stepE: "sess_step env st st'"

inductive reachable :: "session_env \<Rightarrow> session \<times> event list \<Rightarrow> bool" for env :: session_env where
  start: "reachable env (new_session, [])"
| step: "reachable env st \<Longrightarrow> sess_step env st st' \<Longrightarrow> reachable env st'"

section \<open>Lemmas\<close>

definition is_start :: "event \<Rightarrow> bool" where
  "is_start e \<longleftrightarrow> (case e of StartHandler _ \<Rightarrow> True | StartSubsystem _ \<Rightarrow> True | _ \<Rightarrow> False)"

definition is_exit :: "event \<Rightarrow> bool" where
  "is_exit e \<longleftrightarrow> (case e of ExitStatus _ \<Rightarrow> True | _ \<Rightarrow> False)"

definition sess_inv :: "session \<times> event list \<Rightarrow> bool" where
  "sess_inv st \<longleftrightarrow>
     (case st of (s, tr) \<Rightarrow>
        length (filter is_start tr) = (if se_handled s then 1 else 0) \<and>
        length (filter is_exit tr) \<le> (if se_exited s then 1 else 0) \<and>
        (se_exited s \<longrightarrow> se_handled s) \<and>
        length (se_sigBuf s) \<le> maxSigBufSize \<and>
        length (se_winch s) \<le> 1 \<and> (se_winch s \<noteq> [] \<or> se_sending s \<noteq> None \<longrightarrow> se_pty s \<noteq> None))"

lemmas handler_defs = handle_exec_def handle_subsystem_def handle_env_def handle_signal_def handle_pty_def
  handle_window_change_def handle_break_def

lemma is_event_simps [simp]:
  "is_start (StartHandler c)" "is_start (StartSubsystem c)" "\<not> is_start (Reply b)" "\<not> is_start (SendSignal n c)"
  "\<not> is_start (SendBreak n)" "\<not> is_start (ExitStatus w)" "\<not> is_start CloseChannel"
  "is_exit (ExitStatus w)" "\<not> is_exit (Reply b)" "\<not> is_exit (StartHandler c)" "\<not> is_exit (StartSubsystem c)"
  "\<not> is_exit (SendSignal n c)" "\<not> is_exit (SendBreak n)" "\<not> is_exit CloseChannel"
  by (simp_all add: is_start_def is_exit_def)

lemma sess_inv_keep:
  assumes "sess_inv (s, tr)" "se_handled s' = se_handled s" "se_exited s' = se_exited s"
    and "length (se_sigBuf s') \<le> maxSigBufSize" "length (se_winch s') \<le> 1"
    and "se_winch s' \<noteq> [] \<or> se_sending s' \<noteq> None \<longrightarrow> se_pty s' \<noteq> None"
    and "filter is_start es = []" "filter is_exit es = []"
  shows "sess_inv (s', tr @ es)"
  using assms by (simp add: sess_inv_def)

lemma sess_inv_start:
  assumes "sess_inv (s, tr)" "\<not> se_handled s" "se_handled s'" "se_exited s' = se_exited s"
    and "se_sigBuf s' = se_sigBuf s" "se_winch s' = se_winch s" "se_sending s' = se_sending s" "se_pty s' = se_pty s"
    and "length (filter is_start es) = 1" "filter is_exit es = []"
  shows "sess_inv (s', tr @ es)"
  using assms by (auto simp: sess_inv_def)

lemma sess_invD:
  assumes "sess_inv (s, tr)"
  shows "length (se_sigBuf s) \<le> maxSigBufSize" "length (se_winch s) \<le> 1"
    and "se_winch s \<noteq> [] \<or> se_sending s \<noteq> None \<longrightarrow> se_pty s \<noteq> None"
  using assms by (simp_all add: sess_inv_def)

lemma sess_inv_same: "sess_inv (s, tr) \<Longrightarrow> filter is_start es = [] \<Longrightarrow> filter is_exit es = [] \<Longrightarrow> sess_inv (s, tr @ es)"
  by (simp add: sess_inv_def)

lemma handle_exec_inv:
  assumes inv: "sess_inv (s, tr)" and run: "handle_exec env kind payload s = Done s' es"
  shows "sess_inv (s', tr @ es)"
proof (cases "se_handled s' = se_handled s")
  case True
  with run show ?thesis
    by (intro sess_inv_keep [OF inv]) (use sess_invD [OF inv] in \<open>auto simp: handle_exec_def Let_def split: if_splits\<close>)
next
  case False
  with run show ?thesis
    by (intro sess_inv_start [OF inv]) (auto simp: handle_exec_def Let_def split: if_splits)
qed

lemma handle_subsystem_inv:
  assumes inv: "sess_inv (s, tr)" and run: "handle_subsystem env payload s = Done s' es"
  shows "sess_inv (s', tr @ es)"
proof (cases "se_handled s' = se_handled s")
  case True
  with run show ?thesis
    by (intro sess_inv_keep [OF inv]) (use sess_invD [OF inv] in \<open>auto simp: handle_subsystem_def Let_def split: if_splits\<close>)
next
  case False
  with run show ?thesis
    by (intro sess_inv_start [OF inv]) (auto simp: handle_subsystem_def Let_def split: if_splits)
qed

lemma handle_env_inv:
  assumes inv: "sess_inv (s, tr)" and run: "handle_env env payload s = Done s' es"
  shows "sess_inv (s', tr @ es)"
  using run sess_invD [OF inv]
  by (intro sess_inv_keep [OF inv]) (auto simp: handle_env_def split: if_splits prod.splits)

lemma handle_signal_inv:
  assumes inv: "sess_inv (s, tr)" and run: "handle_signal env payload s = Done s' es"
  shows "sess_inv (s', tr @ es)"
  using run sess_invD [OF inv]
  by (intro sess_inv_keep [OF inv]) (auto simp: handle_signal_def split: if_splits option.splits)

lemma handle_pty_inv:
  assumes inv: "sess_inv (s, tr)" and run: "handle_pty env payload s = Done s' es"
  shows "sess_inv (s', tr @ es)"
proof -
  from run consider "s' = s" "es = [Reply False]"
    | p where "s' = s\<lparr>se_pty := Some p, se_winch := [pty_Window p]\<rparr>" "es = [Reply True]"
    unfolding handle_pty_def by (cases "parsePtyRequest payload") (auto split: if_split_asm)
  then show ?thesis
  proof cases
    case 1
    with inv show ?thesis by (simp add: sess_inv_same)
  next
    case 2
    then show ?thesis by (intro sess_inv_keep [OF inv]) (simp_all add: sess_invD(1) [OF inv])
  qed
qed

lemma handle_window_change_inv:
  assumes inv: "sess_inv (s, tr)" and run: "handle_window_change payload s = Done s' es"
  shows "sess_inv (s', tr @ es)"
proof -
  from run consider "s' = s" "es = [Reply False]"
    | p w where "s' = s\<lparr>se_pty := Some p, se_winch := [w]\<rparr>" "es = [Reply True]"
    | p w where "s' = s\<lparr>se_pty := Some p, se_sending := Some w\<rparr>" "es = []"
    unfolding handle_window_change_def Let_def
    by (cases "se_pty s"; cases "parseWinchRequest payload") (auto split: if_split_asm)
  then show ?thesis
  proof cases
    case 1
    with inv show ?thesis by (simp add: sess_inv_same)
  next
    case 2
    then show ?thesis by (intro sess_inv_keep [OF inv]) (simp_all add: sess_invD(1) [OF inv])
  next
    case 3
    then show ?thesis by (intro sess_inv_keep [OF inv]) (simp_all add: sess_invD [OF inv, simplified])
  qed
qed

lemma handle_break_inv:
  assumes "sess_inv (s, tr)" and "handle_break s = Done s' es"
  shows "sess_inv (s', tr @ es)"
  using assms unfolding handle_break_def by (cases "se_breakCh s") (auto simp: sess_inv_same)

lemmas handler_inv = handle_exec_inv handle_subsystem_inv handle_env_inv handle_signal_inv handle_pty_inv
  handle_window_change_inv handle_break_inv

lemma handleRequest_inv:
  assumes "sess_inv (s, tr)" and "handleRequest env kind payload s = Done s' es"
  shows "sess_inv (s', tr @ es)"
proof -
  have "sess_inv (s\<lparr>se_agent := True\<rparr>, tr @ [Reply True])" "sess_inv (s, tr @ [Reply False])"
    using assms(1) by (simp_all add: sess_inv_def)
  with assms(2) show ?thesis
    unfolding handleRequest_def by (auto intro: handler_inv [OF assms(1)] split: if_split_asm)
qed

lemma sess_step_inv: "sess_step env st st' \<Longrightarrow> sess_inv st \<Longrightarrow> sess_inv st'"
proof (induction rule: sess_step.induct)
  case (request kind payload s s' es tr)
  from handleRequest_inv [OF request(3,2)] show ?case .
next
  case (resume s s' es tr)
  then show ?case
    by (auto simp: resume_window_change_def sess_inv_def split: if_splits option.splits)
next
  case (exit s sent c s' es ok tr)
  then show ?case
    by (auto simp: session_Exit_def sess_inv_def Let_def split: if_splits)
next
  case (signals s c s' es tr)
  then show ?case
    by (auto simp: Signals_def sess_inv_def filter_map comp_def split: option.splits)
next
  case (break_ch s c tr)
  then show ?case by (simp add: Break_channel_def sess_inv_def)
next
  case (read_winch s w ws tr)
  then show ?case by (auto simp: sess_inv_def)
qed

lemma reachable_inv: "reachable env st \<Longrightarrow> sess_inv st"
proof (induction rule: reachable.induct)
  case start
  show ?case by (simp add: sess_inv_def new_session_def maxSigBufSize_def)
qed (rule sess_step_inv)

section \<open>Properties\<close>

text \<open>
  C25. In every reachable state of a session, whatever the client requests and however the handler's
  calls interleave with the requests: at most one handler was ever started, and one was exactly when
  the session is marked as handled; at most one exit status was ever sent, and only after a handler
  was started; at most 128 signals are buffered; at most one window size is pending, and only with a
  terminal.
\<close>

theorem session_invariant:
  assumes "reachable env (s, tr)"
  shows "length (filter is_start tr) = (if se_handled s then 1 else 0) \<and>
         length (filter is_exit tr) \<le> (if se_exited s then 1 else 0) \<and>
         (se_exited s \<longrightarrow> se_handled s) \<and> length (se_sigBuf s) \<le> 128 \<and>
         length (se_winch s) \<le> 1 \<and> (se_winch s \<noteq> [] \<or> se_sending s \<noteq> None \<longrightarrow> se_pty s \<noteq> None)"
  using reachable_inv [OF assms] by (simp add: sess_inv_def maxSigBufSize_def)

text \<open>A server without callbacks whose decoder returns the payload.\<close>

definition plain_env :: session_env where
  "plain_env =
     \<lparr>sv_ptyCb = None, sv_sessReqCb = None, sv_subsystems = (\<lambda>n. n = ''sftp''), un_string = id,
      un_pair = (\<lambda>p. (p, []))\<rparr>"

lemma exec_step:
  "sess_step plain_env (new_session, [])
     (new_session\<lparr>se_rawCmd := ''id'', se_handled := True\<rparr>, [Reply True, StartHandler ''id''])"
  using sess_step.request [of new_session plain_env "''exec''" "''id''" _ _ "[]"]
  by (simp add: handleRequest_def handle_exec_def accepts_def plain_env_def new_session_def)

theorem session_invariant_witness:
  "length (filter is_start [Reply True, StartHandler ''id'']) = 1 \<and>
   se_handled (new_session\<lparr>se_rawCmd := ''id'', se_handled := True\<rparr>)"
  using session_invariant [OF reachable.step [OF reachable.start exec_step]] by simp

definition frozen :: "session \<Rightarrow> session \<Rightarrow> event list \<Rightarrow> bool" where
  "frozen s s' es \<longleftrightarrow>
     se_handled s' \<and> se_rawCmd s' = se_rawCmd s \<and> se_subsystem s' = se_subsystem s \<and>
     se_env s' = se_env s \<and> (se_pty s' = None \<longleftrightarrow> se_pty s = None) \<and> filter is_start es = []"

lemma frozen_handlers:
  assumes "se_handled s"
  shows "handle_exec env kind payload s = Done s [Reply False]"
    and "handle_subsystem env payload s = Done s [Reply False]"
    and "handle_env env payload s = Done s [Reply False]"
    and "handle_pty env payload s = Done s [Reply False]"
    and "handle_signal env payload s = Done s' es \<Longrightarrow> frozen s s' es"
    and "handle_window_change payload s = Done s' es \<Longrightarrow> frozen s s' es"
    and "handle_break s = Done s' es \<Longrightarrow> frozen s s' es"
    and "frozen s s [Reply False]" and "frozen s (s\<lparr>se_agent := True\<rparr>) [Reply True]"
  using assms
  by (auto simp: handler_defs frozen_def Let_def split: if_splits option.splits parse.splits)

text \<open>
  Once a handler runs, nothing a client requests changes what was agreed before: command,
  subsystem and environment stay fixed, no terminal is added, and no second handler starts.
\<close>

theorem handled_frozen:
  assumes "se_handled s" and "handleRequest env kind payload s = Done s' es"
  shows "se_handled s' \<and> se_rawCmd s' = se_rawCmd s \<and> se_subsystem s' = se_subsystem s \<and>
         se_env s' = se_env s \<and> (se_pty s' = None \<longleftrightarrow> se_pty s = None) \<and> filter is_start es = []"
proof -
  have "frozen s s' es"
    using assms(2) frozen_handlers [OF assms(1)] unfolding handleRequest_def by (metis handled.inject(1))
  then show ?thesis by (simp add: frozen_def)
qed

theorem handled_frozen_witness:
  "se_env (new_session\<lparr>se_handled := True, se_env := [''A=1'']\<rparr>) = [''A=1''] \<and>
   filter is_start [Reply False] = []"
  using handled_frozen [of "new_session\<lparr>se_handled := True, se_env := [''A=1'']\<rparr>" plain_env "''env''" "''B''"
      "new_session\<lparr>se_handled := True, se_env := [''A=1'']\<rparr>" "[Reply False]"]
  by (simp add: handleRequest_def handle_env_def)

text \<open>
  The buffered signals are never taken out of the buffer: a handler that registers a channel twice
  receives every buffered signal a second time.
\<close>

lemma signals_sent_again:
  "snd (Signals (Some c) s) = map (SendSignal c) (se_sigBuf s) \<and>
   snd (Signals (Some d) (fst (Signals None (fst (Signals (Some c) s))))) = map (SendSignal d) (se_sigBuf s)"
  by (simp add: Signals_def)

section \<open>Newlines\<close>

text \<open>The specification of the newline translation: a carriage return before every newline that has none.\<close>

fun crlf :: "char \<Rightarrow> string \<Rightarrow> string" where
  "crlf prev [] = []"
| "crlf prev (c # cs) =
     (if c = CHR 0x0A \<and> prev \<noteq> CHR 0x0D then [CHR 0x0D, CHR 0x0A] else [c]) @ crlf c cs"

lemma replace_newline: "replace_all p [CHR 0x0A] [CHR 0x0D, CHR 0x0A] =
   concat (map (\<lambda>c. if c = CHR 0x0A then [CHR 0x0D, CHR 0x0A] else [c]) p)"
  by (induction p) auto

lemma crlf_prev: "hd cs \<noteq> CHR 0x0A \<or> cs = [] \<Longrightarrow> crlf a cs = crlf b cs"
  by (cases cs) auto

lemma crlf_any: "a \<noteq> CHR 0x0D \<Longrightarrow> b \<noteq> CHR 0x0D \<Longrightarrow> crlf a cs = crlf b cs"
  by (cases cs) auto

lemma replace_expanded:
  "replace_all (concat (map (\<lambda>c. if c = CHR 0x0A then [CHR 0x0D, CHR 0x0A] else [c]) p))
     [CHR 0x0D, CHR 0x0D, CHR 0x0A] [CHR 0x0D, CHR 0x0A] = crlf (CHR '' '') p"
proof (induction "length p" arbitrary: p rule: less_induct)
  case less
  let ?E = "\<lambda>p. concat (map (\<lambda>c. if c = CHR 0x0A then [CHR 0x0D, CHR 0x0A] else [c]) p)"
  show ?case
  proof (cases p)
    case (Cons c cs)
    then have IH: "replace_all (?E cs) [CHR 0x0D, CHR 0x0D, CHR 0x0A] [CHR 0x0D, CHR 0x0A] = crlf (CHR '' '') cs"
      using less by simp
    consider "c = CHR 0x0A" | "c = CHR 0x0D" "cs \<noteq> []" "hd cs = CHR 0x0A"
      | "c = CHR 0x0D" "cs = [] \<or> hd cs \<noteq> CHR 0x0A" | "c \<noteq> CHR 0x0A" "c \<noteq> CHR 0x0D"
      by blast
    then show ?thesis
    proof cases
      case 1
      then show ?thesis using Cons IH crlf_any [of "CHR 0x0A" "CHR '' ''" cs] by simp
    next
      case 2
      then obtain ds where ds: "cs = CHR 0x0A # ds" by (cases cs) auto
      then have "replace_all (?E ds) [CHR 0x0D, CHR 0x0D, CHR 0x0A] [CHR 0x0D, CHR 0x0A] = crlf (CHR '' '') ds"
        using less Cons by simp
      then show ?thesis using Cons ds 2 crlf_any [of "CHR 0x0A" "CHR '' ''" ds] by simp
    next
      case 3
      have "\<not> has_prefix (?E cs) [CHR 0x0D, CHR 0x0A]"
        using 3 by (cases cs; cases "tl cs") auto
      then show ?thesis using Cons IH 3 crlf_prev [of cs "CHR 0x0D" "CHR '' ''"] by auto
    next
      case 4
      then show ?thesis using Cons IH crlf_any [of c "CHR '' ''" cs] by simp
    qed
  qed simp
qed

text \<open>
  With a terminal, \<open>Write\<close> sends exactly the given bytes with a carriage return inserted before
  each newline that has none, so writing already translated text changes nothing; without a terminal
  it sends the bytes unchanged. The count it reports never exceeds the length it was given.
\<close>

theorem write_translates:
  "write_bytes s p = (if se_pty s = None then p else crlf (CHR '' '') p) \<and>
   write_bytes s (write_bytes s p) = write_bytes s p \<and>
   write_count s p (length (write_bytes s p)) = length p"
proof -
  have len: "length p \<le> length (crlf a p)" for a by (induction p arbitrary: a) (auto simp: le_SucI)
  have idem: "crlf a (crlf b p) = crlf b p" if "a = CHR 0x0D \<longleftrightarrow> b = CHR 0x0D" for a b
    using that by (induction p arbitrary: a b) auto
  have eq: "write_bytes s q = (if se_pty s = None then q else crlf (CHR '' '') q)" for q
    by (simp add: write_bytes_def replace_newline replace_expanded)
  show ?thesis
    using len [of "CHR '' ''"] idem [of "CHR '' ''" "CHR '' ''"] by (simp add: eq write_count_def)
qed

end
