(* ===== verification/Ssh_Auth.thy ===== *)
theory Ssh_Auth
  imports Go_Base
begin

text \<open>
  The authentication configuration of the SSH server, \<open>config\<close>, \<open>configureAuthChain\<close> and
  \<open>configureAllAuthMethods\<close> of \<open>src/pkg/ssh/server.go\<close>, the deadlines of a connection
  (\<open>updateDeadline\<close> of \<open>src/pkg/ssh/conn.go\<close>) and the back-off of the accept loop.

  A callback that the code creates is its method and what it returns when the handler accepts: no
  error, or a partial success naming the callbacks for the next step. The protocol library itself is
  not part of the repository: a client gets through a sequence of steps, each offering a method for
  which the current callbacks have an entry; the step leads to success, to the next callbacks or to a
  refusal, as the callback returns.
\<close>

section \<open>Model\<close>

datatype auth_method = Password | Publickey | KeyboardInteractive

fun method_name :: "auth_method \<Rightarrow> string" where
  "method_name Password = ''password''"
| "method_name Publickey = ''publickey''"
| "method_name KeyboardInteractive = ''keyboard-interactive''"

text \<open>The handlers of the server that are set; a handler decides on a credential.\<close>

record 'c handlers =
  PasswordHandler :: "('c \<Rightarrow> bool) option"
  PublicKeyHandler :: "('c \<Rightarrow> bool) option"
  KeyboardInteractiveHandler :: "('c \<Rightarrow> bool) option"

fun handler :: "'c handlers \<Rightarrow> auth_method \<Rightarrow> ('c \<Rightarrow> bool) option" where
  "handler hs Password = PasswordHandler hs"
| "handler hs Publickey = PublicKeyHandler hs"
| "handler hs KeyboardInteractive = KeyboardInteractiveHandler hs"

text \<open>A created callback with its \<open>nextAuth\<close>: \<^const>\<open>None\<close> is the nil error, \<^const>\<open>Some\<close> a partial
  success whose \<open>Next\<close> holds the given callback only.\<close>

datatype callback = Callback auth_method "callback option"

record ServerConfig =
  PasswordCallback :: "callback option"
  PublicKeyCallback :: "callback option"
  KeyboardInteractiveCallback :: "callback option"
  NoClientAuth :: bool

fun callback_for :: "ServerConfig \<Rightarrow> auth_method \<Rightarrow> callback option" where
  "callback_for c Password = PasswordCallback c"
| "callback_for c Publickey = PublicKeyCallback c"
| "callback_for c KeyboardInteractive = KeyboardInteractiveCallback c"

fun set_callback :: "auth_method \<Rightarrow> callback \<Rightarrow> ServerConfig \<Rightarrow> ServerConfig" where
  "set_callback Password cb c = c\<lparr>PasswordCallback := Some cb\<rparr>"
| "set_callback Publickey cb c = c\<lparr>PublicKeyCallback := Some cb\<rparr>"
| "set_callback KeyboardInteractive cb c = c\<lparr>KeyboardInteractiveCallback := Some cb\<rparr>"

definition no_callbacks :: ServerConfig where
  "no_callbacks =
     \<lparr>PasswordCallback = None, PublicKeyCallback = None, KeyboardInteractiveCallback = None,
      NoClientAuth = False\<rparr>"

text \<open>The methods of the list that are known, have a handler and were not seen before.\<close>

definition available :: "'c handlers \<Rightarrow> string \<Rightarrow> auth_method option" where
  "available hs m =
     (if m = ''password'' then (if PasswordHandler hs \<noteq> None then Some Password else None)
      else if m = ''publickey'' then (if PublicKeyHandler hs \<noteq> None then Some Publickey else None)
      else if m = ''keyboard-interactive''
      then (if KeyboardInteractiveHandler hs \<noteq> None then Some KeyboardInteractive else None)
      else None)"

fun validMethods :: "'c handlers \<Rightarrow> string set \<Rightarrow> string list \<Rightarrow> auth_method list" where
  "validMethods hs seen [] = []"
| "validMethods hs seen (m # ms) =
     (if m \<in> seen then validMethods hs seen ms
      else (case available hs m of
              Some a \<Rightarrow> a # validMethods hs (insert m seen) ms
            | None \<Rightarrow> validMethods hs (insert m seen) ms))"

text \<open>
  The loop that builds the chain from the last method to the first: \<open>nxt\<close> is
  \<open>nextPartialSuccess\<close>, and the callback built last (\<open>i = 0\<close>) goes into the configuration.
\<close>

fun build_chain :: "auth_method list \<Rightarrow> callback option \<Rightarrow> ServerConfig \<Rightarrow> ServerConfig" where
  "build_chain [] nxt c = c"
| "build_chain (m # rest) nxt c =
     (let cb = Callback m nxt
      in build_chain rest (Some cb) (if rest = [] then set_callback m cb c else c))"

definition configureAuthChain :: "'c handlers \<Rightarrow> string list \<Rightarrow> ServerConfig \<Rightarrow> ServerConfig" where
  "configureAuthChain hs methods c =
     (let valid = validMethods hs {} methods
      in if valid = [] then c else build_chain (rev valid) None c)"

definition configureAllAuthMethods :: "'c handlers \<Rightarrow> ServerConfig \<Rightarrow> ServerConfig" where
  "configureAllAuthMethods hs c =
     (let c = (if PasswordHandler hs \<noteq> None then c\<lparr>PasswordCallback := Some (Callback Password None)\<rparr> else c);
          c = (if PublicKeyHandler hs \<noteq> None then c\<lparr>PublicKeyCallback := Some (Callback Publickey None)\<rparr> else c)
      in if KeyboardInteractiveHandler hs \<noteq> None
         then c\<lparr>KeyboardInteractiveCallback := Some (Callback KeyboardInteractive None)\<rparr> else c)"

text \<open>The authentication part of \<open>config\<close>, with no \<open>ServerConfigCallback\<close>.\<close>

definition server_config :: "'c handlers \<Rightarrow> string list \<Rightarrow> ServerConfig" where
  "server_config hs methods =
     (let c = no_callbacks\<lparr>NoClientAuth := (PasswordHandler hs = None \<and> PublicKeyHandler hs = None \<and>
                                           KeyboardInteractiveHandler hs = None)\<rparr>
      in if methods \<noteq> [] then configureAuthChain hs methods c else configureAllAuthMethods hs c)"

datatype auth_result = Denied | Authenticated | PartialSuccess callback

text \<open>A created callback, called with a credential.\<close>

definition call_callback :: "'c handlers \<Rightarrow> callback \<Rightarrow> 'c \<Rightarrow> auth_result" where
  "call_callback hs cb cred =
     (case cb of Callback m nxt \<Rightarrow>
        (case handler hs m of
           None \<Rightarrow> Denied
         | Some h \<Rightarrow>
             if h cred then (case nxt of None \<Rightarrow> Authenticated | Some cb' \<Rightarrow> PartialSuccess cb')
             else Denied))"

text \<open>
  The sequences of accepted steps that end in success, from a callback on: each step is the method
  and the credential.
\<close>

fun completes :: "'c handlers \<Rightarrow> callback \<Rightarrow> (auth_method \<times> 'c) list \<Rightarrow> bool" where
  "completes hs (Callback m nxt) [] \<longleftrightarrow> False"
| "completes hs (Callback m nxt) ((m', cred) # steps) \<longleftrightarrow>
     m' = m \<and>
     (case call_callback hs (Callback m nxt) cred of
        Denied \<Rightarrow> False
      | Authenticated \<Rightarrow> steps = []
      | PartialSuccess cb' \<Rightarrow> (case nxt of Some cb \<Rightarrow> completes hs cb steps | None \<Rightarrow> False))"

definition authenticates :: "'c handlers \<Rightarrow> ServerConfig \<Rightarrow> (auth_method \<times> 'c) list \<Rightarrow> bool" where
  "authenticates hs c steps \<longleftrightarrow>
     (case steps of
        [] \<Rightarrow> False
      | (m, _) # _ \<Rightarrow> (case callback_for c m of Some cb \<Rightarrow> completes hs cb steps | None \<Rightarrow> False))"

subsection \<open>Deadlines\<close>

text \<open>A \<open>time.Time\<close> is \<^const>\<open>None\<close> for the zero time; times and durations in nanoseconds.\<close>

definition updateDeadline :: "int \<Rightarrow> int \<Rightarrow> int option \<Rightarrow> int option \<Rightarrow> int option" where
  "updateDeadline now idleTimeout handshakeDeadline maxDeadline =
     (let deadline = maxDeadline;
          deadline = (case handshakeDeadline of
                        None \<Rightarrow> deadline
                      | Some h \<Rightarrow> (case deadline of
                                    None \<Rightarrow> Some h
                                  | Some d \<Rightarrow> if h < d then Some h else Some d))
      in if idleTimeout > 0
         then (case deadline of
                 None \<Rightarrow> Some (now + idleTimeout)
               | Some d \<Rightarrow> if now + idleTimeout < d then Some (now + idleTimeout) else Some d)
         else deadline)"

text \<open>The delay of \<open>Serve\<close> after a temporary accept error, in milliseconds.\<close>

definition next_delay :: "int \<Rightarrow> int" where
  "next_delay d =
     (let d = (if d = 0 then 5 else d * 2) in if d > 1000 then 1000 else d)"

section \<open>Properties\<close>


text \<open>The chain of callbacks for a list of methods.\<close>

fun chain :: "auth_method list \<Rightarrow> callback option \<Rightarrow> callback option" where
  "chain [] nxt = nxt"
| "chain (m # ms) nxt = Some (Callback m (chain ms nxt))"

lemma chain_append: "chain (ms @ ns) nxt = chain ms (chain ns nxt)"
  by (induction ms) auto

lemma build_chain_eq:
  "ms \<noteq> [] \<Longrightarrow> build_chain (rev ms) nxt c = set_callback (hd ms) (Callback (hd ms) (chain (tl ms) nxt)) c"
proof (induction ms arbitrary: nxt c rule: rev_induct)
  case (snoc m ms)
  show ?case
  proof (cases "ms = []")
    case True
    then show ?thesis by (simp add: Let_def)
  next
    case False
    with snoc.IH [of "Some (Callback m nxt)" c] show ?thesis
      by (simp add: Let_def chain_append)
  qed
qed simp

definition accepted :: "'c handlers \<Rightarrow> auth_method \<times> 'c \<Rightarrow> bool" where
  "accepted hs step = (case handler hs (fst step) of Some h \<Rightarrow> h (snd step) | None \<Rightarrow> False)"

lemma completes_chain:
  "completes hs (Callback m (chain ms None)) steps \<longleftrightarrow>
   map fst steps = m # ms \<and> list_all (accepted hs) steps"
proof (induction ms arbitrary: m steps)
  case Nil
  show ?case
  proof (cases steps)
    case (Cons s ss)
    then show ?thesis
      by (cases s; cases "handler hs m") (auto simp: call_callback_def accepted_def)
  qed simp
next
  case (Cons n ms)
  show ?case
  proof (cases steps)
    case (Cons s ss)
    then show ?thesis
      using Cons.IH [of n ss]
      by (cases s; cases "handler hs m") (auto simp: call_callback_def accepted_def)
  qed simp
qed

lemma callback_set: "callback_for (set_callback m cb c) m' = (if m' = m then Some cb else callback_for c m')"
  by (cases m; cases m') auto

lemma callback_none [simp]: "callback_for (no_callbacks\<lparr>NoClientAuth := b\<rparr>) m = None"
  by (cases m) (auto simp: no_callbacks_def)

lemma available_iff: "available hs s = Some m \<longleftrightarrow> s = method_name m \<and> handler hs m \<noteq> None"
  by (cases m) (auto simp: available_def)

lemma available_name: "available hs (method_name m) = (if handler hs m = None then None else Some m)"
  by (cases m) (auto simp: available_def)

lemma validMethods_set:
  "m \<in> set (validMethods hs seen ms) \<longleftrightarrow> method_name m \<in> set ms - seen \<and> handler hs m \<noteq> None"
proof (induction ms arbitrary: seen)
  case (Cons s ms)
  show ?case
  proof (cases "available hs s")
    case None
    then have "s = method_name m \<Longrightarrow> handler hs m = None"
      by (simp add: available_name split: if_splits)
    moreover have "m \<in> set (validMethods hs seen (s # ms)) \<longleftrightarrow>
      (if s \<in> seen then m \<in> set (validMethods hs seen ms)
       else m \<in> set (validMethods hs (insert s seen) ms))"
      using None by simp
    ultimately show ?thesis unfolding Cons.IH by auto
  next
    case (Some a)
    then have "s = method_name a" "handler hs a \<noteq> None" by (simp_all add: available_iff)
    moreover have "method_name m = method_name a \<longleftrightarrow> m = a" by (cases m; cases a) auto
    moreover have "m \<in> set (validMethods hs seen (s # ms)) \<longleftrightarrow>
      (if s \<in> seen then m \<in> set (validMethods hs seen ms)
       else m = a \<or> m \<in> set (validMethods hs (insert s seen) ms))"
      using Some by simp
    ultimately show ?thesis unfolding Cons.IH by auto
  qed
qed simp

lemma validMethods_distinct: "distinct (validMethods hs seen ms)"
proof (induction ms arbitrary: seen)
  case (Cons s ms)
  show ?case
  proof (cases "available hs s")
    case (Some a)
    then have "s = method_name a" by (simp add: available_iff)
    with Some Cons.IH show ?thesis by (simp add: validMethods_set available_name split: if_splits)
  qed (simp add: Cons.IH)
qed simp

lemma chain_authenticates:
  assumes "methods \<noteq> []"
  shows "authenticates hs (server_config hs methods) steps \<longleftrightarrow>
     steps \<noteq> [] \<and> map fst steps = validMethods hs {} methods \<and> list_all (accepted hs) steps"
proof (cases "validMethods hs {} methods")
  case Nil
  with assms show ?thesis
    by (auto simp: server_config_def configureAuthChain_def authenticates_def split: list.split)
next
  case (Cons m ms)
  then have "build_chain (rev (validMethods hs {} methods)) None c = set_callback m (Callback m (chain ms None)) c" for c
    using build_chain_eq [of "validMethods hs {} methods" None c] by simp
  with assms Cons show ?thesis
    by (auto simp: server_config_def configureAuthChain_def authenticates_def callback_set completes_chain
        simp del: completes.simps
        split: list.split)
qed


definition two_factor :: "string handlers" where
  "two_factor =
     \<lparr>PasswordHandler = Some (\<lambda>p. p = ''secret''), PublicKeyHandler = Some (\<lambda>k. k = ''key''),
      KeyboardInteractiveHandler = None\<rparr>"


text \<open>
  Without a list of methods, one accepted credential for any method with a handler is enough and
  nothing else is; authentication is switched off only when no handler is set at all.
\<close>

theorem auth_any_exact:
  "(authenticates hs (server_config hs []) steps \<longleftrightarrow> (\<exists>m cred. steps = [(m, cred)] \<and> accepted hs (m, cred))) \<and>
   (NoClientAuth (server_config hs methods) \<longleftrightarrow> (\<forall>m. handler hs m = None))"
proof
  have cb: "callback_for (server_config hs []) m = (if handler hs m = None then None else Some (Callback m (chain [] None)))" for m
    by (cases m) (simp_all add: server_config_def configureAllAuthMethods_def no_callbacks_def Let_def)
  show "authenticates hs (server_config hs []) steps \<longleftrightarrow> (\<exists>m cred. steps = [(m, cred)] \<and> accepted hs (m, cred))"
    unfolding authenticates_def cb
    by (auto simp: completes_chain accepted_def simp del: chain.simps completes.simps split: list.split)
  have all: "(\<forall>m. handler hs m = None) \<longleftrightarrow>
    PasswordHandler hs = None \<and> PublicKeyHandler hs = None \<and> KeyboardInteractiveHandler hs = None"
    by (metis auth_method.exhaust handler.simps)
  have frame: "NoClientAuth (set_callback m cb c) = NoClientAuth c" for m cb c by (cases m) auto
  have "NoClientAuth (build_chain ms nxt c) = NoClientAuth c" for ms nxt c
    by (induction ms nxt c rule: build_chain.induct) (auto simp: Let_def frame)
  then show "NoClientAuth (server_config hs methods) \<longleftrightarrow> (\<forall>m. handler hs m = None)"
    unfolding all
    by (simp add: server_config_def configureAuthChain_def configureAllAuthMethods_def no_callbacks_def Let_def)
qed

text \<open>The deadline is the earliest of those that are set.\<close>

lemma updateDeadline_min:
  "updateDeadline now idle h m =
   (let ds = (case m of Some d \<Rightarrow> {d} | None \<Rightarrow> {}) \<union> (case h of Some d \<Rightarrow> {d} | None \<Rightarrow> {}) \<union>
             (if idle > 0 then {now + idle} else {})
    in if ds = {} then None else Some (Min ds))"
  by (auto simp: updateDeadline_def Let_def min_def split: option.split)

text \<open>The delay doubles from 5 ms and never exceeds one second.\<close>

lemma next_delay_bounds: "0 \<le> d \<Longrightarrow> 0 < next_delay d \<and> next_delay d \<le> 1000 \<and> min (2 * d) 1000 \<le> next_delay d"
  by (auto simp: next_delay_def Let_def)

end
