(* ===== verification/Shadow.thy ===== *)
theory Shadow
  imports Scanner
begin

text \<open>
  The password database, \<open>src/pkg/util/shadow/shadow.go\<close>, and the two checks of
  \<open>src/server/user.go\<close> that use it. Opening a file of the host, \<open>crypt\<close> and the yescrypt hash are
  parameters.
\<close>

section \<open>Model\<close>

record Entry =
  Username :: string
  Pass :: string
  LastChange :: int
  MinPassAge :: int
  MaxPassAge :: int
  WarnPeriod :: int
  InactivityPeriod :: int
  AcctExpiry :: int
  Flags :: int

datatype shadow_error =
    OpenError
  | MalformedEntry
  | InvalidField nat
  | LineTooLong
  | ErrNoSuchUser
  | NullPassword
  | PasswordAuthDisabled
  | LockedPassword
  | PasswordNotSet
  | ErrWrongPassword
  | CryptError

text \<open>The numeric fields, from the one with the given number on.\<close>

fun parse_fields :: "nat \<Rightarrow> string list \<Rightarrow> shadow_error + int list" where
  "parse_fields i [] = Inr []"
| "parse_fields i (p # ps) =
     (case (if p = [] then Some (-1) else atoi p) of
        None \<Rightarrow> Inl (InvalidField i)
      | Some v \<Rightarrow> (case parse_fields (Suc i) ps of Inl e \<Rightarrow> Inl e | Inr vs \<Rightarrow> Inr (v # vs)))"

definition parseEntry :: "string \<Rightarrow> shadow_error + Entry" where
  "parseEntry line =
     (let parts = split_char (CHR '':'') line
      in if length parts \<noteq> 9 then Inl MalformedEntry
         else (case parse_fields 2 (drop 2 parts) of
                 Inl e \<Rightarrow> Inl e
               | Inr vs \<Rightarrow>
                   Inr \<lparr>Username = parts ! 0, Pass = parts ! 1, LastChange = vs ! 0, MinPassAge = vs ! 1,
                        MaxPassAge = vs ! 2, WarnPeriod = vs ! 3, InactivityPeriod = vs ! 4,
                        AcctExpiry = vs ! 5, Flags = vs ! 6\<rparr>))"

fun read_entries :: "string list \<Rightarrow> Entry list \<times> shadow_error option" where
  "read_entries [] = ([], None)"
| "read_entries (l # ls) =
     (case parseEntry l of
        Inl e \<Rightarrow> ([], Some e)
      | Inr ent \<Rightarrow> (case read_entries ls of (es, err) \<Rightarrow> (ent # es, err)))"

definition shadow_Read :: "(string \<Rightarrow> string option) \<Rightarrow> string \<Rightarrow> Entry list \<times> shadow_error option" where
  "shadow_Read open_file shadowFile =
     (case open_file shadowFile of
        None \<Rightarrow> ([], Some OpenError)
      | Some content \<Rightarrow>
          (case scan_lines content of (ls, long) \<Rightarrow>
             (case read_entries ls of
                (es, Some e) \<Rightarrow> (es, Some e)
              | (es, None) \<Rightarrow> (es, if long then Some LineTooLong else None))))"

record Shadow_db =
  shadowFile :: string
  entries :: "Entry list"

definition ShadowFile :: string where
  "ShadowFile = ''/etc/shadow''"

definition shadow_New :: Shadow_db where
  "shadow_New = \<lparr>shadowFile = ShadowFile, entries = []\<rparr>"

definition NewFromString :: "(string \<Rightarrow> string option) \<Rightarrow> string \<Rightarrow> shadow_error + Shadow_db" where
  "NewFromString open_file shadowContent =
     (case shadow_Read open_file shadowContent of
        (_, Some e) \<Rightarrow> Inl e
      | (es, None) \<Rightarrow> Inr \<lparr>shadowFile = ShadowFile, entries = es\<rparr>)"

definition Shadow_Read :: "(string \<Rightarrow> string option) \<Rightarrow> Shadow_db \<Rightarrow> Shadow_db \<times> shadow_error option" where
  "Shadow_Read open_file s =
     (case shadow_Read open_file (shadowFile s) of (es, err) \<Rightarrow> (s\<lparr>entries := es\<rparr>, err))"

definition ReadFile ::
  "(string \<Rightarrow> string option) \<Rightarrow> string \<Rightarrow> Shadow_db \<Rightarrow> Shadow_db \<times> shadow_error option" where
  "ReadFile open_file file s = Shadow_Read open_file (s\<lparr>shadowFile := file\<rparr>)"

fun lookup_entry :: "string \<Rightarrow> Entry list \<Rightarrow> shadow_error + Entry" where
  "lookup_entry name [] = Inl ErrNoSuchUser"
| "lookup_entry name (e # es) = (if Username e = name then Inr e else lookup_entry name es)"

definition Shadow_Lookup :: "string \<Rightarrow> Shadow_db \<Rightarrow> shadow_error + Entry" where
  "Shadow_Lookup name s = lookup_entry name (entries s)"

definition LookupFile :: "(string \<Rightarrow> string option) \<Rightarrow> string \<Rightarrow> string \<Rightarrow> shadow_error + Entry" where
  "LookupFile open_file name file =
     (case shadow_Read open_file file of
        (_, Some e) \<Rightarrow> Inl e
      | (es, None) \<Rightarrow> lookup_entry name es)"

definition shadow_Lookup :: "(string \<Rightarrow> string option) \<Rightarrow> string \<Rightarrow> shadow_error + Entry" where
  "shadow_Lookup open_file name = LookupFile open_file name ShadowFile"

subsection \<open>Validity and passwords\<close>

text \<open>The clock is in seconds since the epoch.\<close>

definition nowDays :: "nat \<Rightarrow> int" where
  "nowDays now = int (now div 86400)"

definition IsAccountValid :: "nat \<Rightarrow> Entry \<Rightarrow> bool" where
  "IsAccountValid now e \<longleftrightarrow> AcctExpiry e = -1 \<or> nowDays now < AcctExpiry e"

definition IsPasswordValid :: "nat \<Rightarrow> Entry \<Rightarrow> bool" where
  "IsPasswordValid now e \<longleftrightarrow>
     LastChange e = -1 \<or> MaxPassAge e = -1 \<or> InactivityPeriod e = -1 \<or>
     nowDays now < wrap64 (LastChange e + MaxPassAge e + InactivityPeriod e)"

text \<open>The outcome of \<open>crypt.NewFromHash(hash).Verify\<close>; the panic on an unknown hash is recovered.\<close>

datatype crypt_result = CryptOk | ErrKeyMismatch | CryptFailure | CryptPanic

record crypto =
  crypt_verify :: "string \<Rightarrow> string \<Rightarrow> crypt_result"
  yescrypt_Hash :: "string \<Rightarrow> string \<Rightarrow> string option"

definition VerifyYescrypt :: "crypto \<Rightarrow> string \<Rightarrow> string \<Rightarrow> shadow_error option" where
  "VerifyYescrypt cr pass h =
     (case yescrypt_Hash cr pass h of
        None \<Rightarrow> Some CryptError
      | Some hashed \<Rightarrow> if h = hashed then None else Some ErrWrongPassword)"

definition VerifyPassword :: "crypto \<Rightarrow> Entry \<Rightarrow> string \<Rightarrow> shadow_error option" where
  "VerifyPassword cr e pass =
     (case Pass e of
        [] \<Rightarrow> Some NullPassword
      | c # rest \<Rightarrow>
          if c = CHR ''*'' then Some PasswordAuthDisabled
          else if c = CHR ''!'' then Some LockedPassword
          else (case rest of
                  [] \<Rightarrow> Some PasswordNotSet
                | y # _ \<Rightarrow>
                    if y = CHR ''y'' then VerifyYescrypt cr pass (Pass e)
                    else (case crypt_verify cr (Pass e) pass of
                            CryptOk \<Rightarrow> None
                          | ErrKeyMismatch \<Rightarrow> Some ErrWrongPassword
                          | CryptFailure \<Rightarrow> Some CryptError
                          | CryptPanic \<Rightarrow> Some CryptError)))"

definition verify_user :: "crypto \<Rightarrow> string \<Rightarrow> string \<Rightarrow> Shadow_db \<Rightarrow> shadow_error option" where
  "verify_user cr user password s =
     (case Shadow_Lookup user s of Inl e \<Rightarrow> Some e | Inr ent \<Rightarrow> VerifyPassword cr ent password)"

definition checkHostShadowPassword ::
  "(string \<Rightarrow> string option) \<Rightarrow> crypto \<Rightarrow> string \<Rightarrow> string \<Rightarrow> shadow_error option" where
  "checkHostShadowPassword open_file cr user password =
     (case Shadow_Read open_file shadow_New of
        (_, Some e) \<Rightarrow> Some e
      | (s, None) \<Rightarrow> verify_user cr user password s)"

definition checkShadowPassword ::
  "(string \<Rightarrow> string option) \<Rightarrow> crypto \<Rightarrow> string \<Rightarrow> string \<Rightarrow> string \<Rightarrow> shadow_error option" where
  "checkShadowPassword open_file cr user password shadowContent =
     (case NewFromString open_file shadowContent of
        Inl e \<Rightarrow> Some e
      | Inr s \<Rightarrow> verify_user cr user password s)"

section \<open>Properties\<close>

text \<open>An entry as the database has it.\<close>

definition field :: "int \<Rightarrow> string" where
  "field v = (if v = -1 then [] else itoa v)"

definition numbers :: "Entry \<Rightarrow> int list" where
  "numbers e = [LastChange e, MinPassAge e, MaxPassAge e, WarnPeriod e, InactivityPeriod e, AcctExpiry e, Flags e]"

definition print_entry :: "Entry \<Rightarrow> string" where
  "print_entry e = join '':'' (Username e # Pass e # map field (numbers e))"

definition wf_entry :: "Entry \<Rightarrow> bool" where
  "wf_entry e \<longleftrightarrow>
     CHR '':'' \<notin> set (Username e @ Pass e) \<and> newline \<notin> set (Username e @ Pass e) \<and>
     list_all in_int64 (numbers e) \<and> length (print_entry e) < MaxScanTokenSize"

lemma itoa_nonempty: "itoa v \<noteq> []"
  by (simp add: itoa_def)

lemma field_value: "in_int64 v \<Longrightarrow> (if field v = [] then Some (-1) else atoi (field v)) = Some v"
  by (simp add: field_def itoa_nonempty)

lemma parse_fields_print: "list_all in_int64 vs \<Longrightarrow> parse_fields i (map field vs) = Inr vs"
proof (induction vs arbitrary: i)
  case (Cons v vs)
  then have "(if field v = [] then Some (-1) else atoi (field v)) = Some v"
    by (intro field_value) simp
  with Cons show ?case by (simp only: list.map parse_fields.simps option.case) simp
qed simp

lemma field_chars: "c \<in> set (field v) \<Longrightarrow> is_digit c \<or> c = CHR ''-''"
  by (auto simp: field_def dest: itoa_chars split: if_splits)

lemma parse_print_entry:
  assumes "wf_entry e"
  shows "parseEntry (print_entry e) = Inr e"
proof -
  have "\<forall>p \<in> set (Username e # Pass e # map field (numbers e)). CHR '':'' \<notin> set p"
    using assms by (auto simp: wf_entry_def is_digit_def dest: field_chars)
  then have "split_char (CHR '':'') (print_entry e) = Username e # Pass e # map field (numbers e)"
    unfolding print_entry_def by (intro split_join) auto
  moreover have "parse_fields 2 (map field (numbers e)) = Inr (numbers e)"
    using assms by (intro parse_fields_print) (simp add: wf_entry_def)
  ultimately show ?thesis
    by (simp add: parseEntry_def numbers_def numeral_eq_Suc)
qed

lemma read_print: "list_all wf_entry es \<Longrightarrow> read_entries (map print_entry es) = (es, None)"
  by (induction es) (auto simp: parse_print_entry)

lemma raw_unlines: "\<forall>l \<in> set ls. newline \<notin> set l \<Longrightarrow> raw_lines (unlines ls) = ls"
proof -
  assume "\<forall>l \<in> set ls. newline \<notin> set l"
  then have "split_char newline (unlines ls) = ls @ [[]]"
    by (induction ls) (auto simp: split_char_append)
  then show ?thesis by (simp add: raw_lines_def)
qed

lemma until_long_short: "\<forall>l \<in> set ls. length l < MaxScanTokenSize \<Longrightarrow> until_long ls = (map dropCR ls, False)"
  by (induction ls) auto

lemma dropCR_last: "l \<noteq> [] \<Longrightarrow> last l \<noteq> CHR 0x0D \<Longrightarrow> dropCR l = l"
  by (simp add: dropCR_def)

lemma print_entry_end: "print_entry e = a @ CHR '':'' # field (Flags e) \<Longrightarrow> dropCR (print_entry e) = print_entry e"
  using field_chars [of "last (field (Flags e))" "Flags e"]
  by (intro dropCR_last) (auto simp: is_digit_def dest: last_in_set)

lemma dropCR_print: "dropCR (print_entry e) = print_entry e"
proof -
  have "print_entry e = (Username e @ '':'' @ Pass e @ '':'' @ field (LastChange e) @ '':'' @ field (MinPassAge e) @ '':'' @
     field (MaxPassAge e) @ '':'' @ field (WarnPeriod e) @ '':'' @ field (InactivityPeriod e) @ '':'' @ field (AcctExpiry e)) @
     CHR '':'' # field (Flags e)"
    by (simp add: print_entry_def numbers_def)
  then show ?thesis by (rule print_entry_end)
qed

lemma print_entry_newline: "wf_entry e \<Longrightarrow> newline \<notin> set (print_entry e)"
  by (auto simp: print_entry_def numbers_def wf_entry_def is_digit_def dest!: field_chars)

lemma lookup_find:
  "lookup_entry name es = (case List.find (\<lambda>e. Username e = name) es of Some e \<Rightarrow> Inr e | None \<Rightarrow> Inl ErrNoSuchUser)"
  by (induction es) auto

lemma shadow_Read_printed:
  assumes "list_all wf_entry es" and "open_file path = Some (unlines (map print_entry es))"
  shows "shadow_Read open_file path = (es, None)"
proof -
  let ?ls = "map print_entry es"
  have "\<forall>l \<in> set ?ls. newline \<notin> set l" "\<forall>l \<in> set ?ls. length l < MaxScanTokenSize"
    using assms(1) by (auto simp: list_all_iff print_entry_newline wf_entry_def)
  then have "scan_lines (unlines ?ls) = (?ls, False)"
    by (simp add: scan_lines_def raw_unlines until_long_short dropCR_print comp_def)
  then show ?thesis using assms by (simp add: shadow_Read_def read_print)
qed

text \<open>
  Reading back a written database: a file with one line per entry, where names and hashes have no
  colon and no newline and the numbers fit into 64 bits (an empty field stands for -1), is read as
  exactly these entries, and a lookup returns the first entry of the user, or the error that there is
  none.
\<close>

theorem shadow_roundtrip:
  assumes "list_all wf_entry es" and "open_file path = Some (unlines (map print_entry es))"
  shows "shadow_Read open_file path = (es, None) \<and>
         LookupFile open_file name path =
           (case List.find (\<lambda>e. Username e = name) es of Some e \<Rightarrow> Inr e | None \<Rightarrow> Inl ErrNoSuchUser)"
  using shadow_Read_printed [of es open_file path, OF assms] by (simp add: LookupFile_def lookup_find)

definition sample_entry :: Entry where
  "sample_entry =
     \<lparr>Username = ''bob'', Pass = ''$6$salt$hash'', LastChange = 19000, MinPassAge = 0, MaxPassAge = 99999,
      WarnPeriod = 7, InactivityPeriod = -1, AcctExpiry = 100, Flags = -1\<rparr>"

definition sample_host :: "string \<Rightarrow> string option" where
  "sample_host p = (if p = ''/etc/shadow'' then Some (unlines [print_entry sample_entry]) else None)"

lemma wf_sample_entry: "wf_entry sample_entry"
proof -
  have "length (print_entry sample_entry) < MaxScanTokenSize"
    by (simp add: print_entry_def numbers_def field_def sample_entry_def itoa_def MaxScanTokenSize_def show_nat.simps)
  then show ?thesis by (simp add: wf_entry_def numbers_def sample_entry_def in_int64_def)
qed

theorem shadow_roundtrip_witness:
  "LookupFile sample_host ''bob'' ''/etc/shadow'' = Inr sample_entry"
  using shadow_roundtrip [of "[sample_entry]" sample_host "''/etc/shadow''" "''bob''"]
  by (simp add: sample_host_def wf_sample_entry) (simp add: sample_entry_def)

text \<open>
  A password of a host user is accepted exactly when the database can be read, has an entry for the
  user, the hash of the first such entry has at least two characters and does not start with a star or an
  exclamation mark, and the hash function accepts the password: yescrypt when the second character is a
  y, else crypt. Null, disabled and locked passwords are never accepted; the dates of the entry are not
  looked at, so an account that has expired is accepted like any other.
\<close>

theorem host_password_exact:
  "checkHostShadowPassword open_file cr user password = None \<longleftrightarrow>
   (\<exists>e c y rest. LookupFile open_file user ShadowFile = Inr e \<and> Pass e = c # y # rest \<and>
      c \<noteq> CHR ''*'' \<and> c \<noteq> CHR ''!'' \<and>
      (if y = CHR ''y'' then yescrypt_Hash cr password (Pass e) = Some (Pass e)
       else crypt_verify cr (Pass e) password = CryptOk))"
proof -
  have verify: "VerifyPassword cr e password = None \<longleftrightarrow>
     (\<exists>c y rest. Pass e = c # y # rest \<and> c \<noteq> CHR ''*'' \<and> c \<noteq> CHR ''!'' \<and>
       (if y = CHR ''y'' then yescrypt_Hash cr password (Pass e) = Some (Pass e)
        else crypt_verify cr (Pass e) password = CryptOk))" for e
  proof (cases "Pass e")
    case (Cons c rest)
    then show ?thesis
      by (cases rest; cases "crypt_verify cr (Pass e) password")
        (auto simp: VerifyPassword_def VerifyYescrypt_def split: option.split)
  qed (simp add: VerifyPassword_def)
  have "checkHostShadowPassword open_file cr user password = None \<longleftrightarrow>
     (\<exists>e. LookupFile open_file user ShadowFile = Inr e \<and> VerifyPassword cr e password = None)"
    by (auto simp: checkHostShadowPassword_def Shadow_Read_def shadow_New_def LookupFile_def verify_user_def
        Shadow_Lookup_def split: prod.split option.split sum.split)
  then show ?thesis using verify by auto
qed

text \<open>The sample account expired in 1970 and its password is accepted.\<close>

lemma expired_account_accepted:
  "checkHostShadowPassword sample_host \<lparr>crypt_verify = (\<lambda>_ p. if p = ''secret'' then CryptOk else ErrKeyMismatch),
     yescrypt_Hash = (\<lambda>_ _. None)\<rparr> ''bob'' ''secret'' = None \<and> \<not> IsAccountValid 1700000000 sample_entry"
  by (simp add: checkHostShadowPassword_def Shadow_Read_def shadow_New_def verify_user_def Shadow_Lookup_def ShadowFile_def
      shadow_Read_printed [of "[sample_entry]"] wf_sample_entry sample_host_def)
    (simp add: sample_entry_def VerifyPassword_def IsAccountValid_def nowDays_def)

end
