(* ===== verification/Auth.thy ===== *)
theory Auth
  imports Login_User Shadow Incus_Client
begin

text \<open>
  Authentication of SSH connections, \<open>src/server/auth.go\<close> and the parts of \<open>src/server/user.go\<close> it
  calls: public keys of host users, public keys of instance users, passwords, and the validity check of a
  login with its two caches. The operating system, the decoding of an authorized key, the hash
  functions and the Incus API of each remote are parameters. One call of a handler happens at one time.
\<close>

section \<open>Model\<close>

subsection \<open>Data\<close>

record host_user =
  hu_Username :: string
  hu_Uid :: string
  hu_HomeDir :: string

record 'k auth_env =
  ae_os :: os_env
  ae_Remote :: string
  ae_AllowedGroups :: "string list"
  ae_InstanceAuth :: bool
  ae_Lookup :: "string \<Rightarrow> host_user option"
  ae_GroupIds :: "host_user \<Rightarrow> string list option"
  ae_LookupGroupId :: "string \<Rightarrow> string option"
  ae_Open :: "string \<Rightarrow> string option"
  ae_crypto :: crypto
  ae_ParseAuthorizedKey :: "string \<Rightarrow> 'k option"
  ae_Marshal :: "'k \<Rightarrow> string"
  ae_connect :: "string \<Rightarrow> api option"

text \<open>
  The state of one connection (its login user, its client) and what all connections share (the caches).
  The client is its API and the project it is in.
\<close>

record auth_state =
  as_user :: "LoginUser option"
  as_client :: "(api \<times> string) option"
  as_valid :: "(int, unit) cache"
  as_failed :: "(int, unit) cache"
  as_caches :: incus_caches

definition login_caches :: "(int, unit) cache \<times> (int, unit) cache" where
  "login_caches = (cache_New (15 * minute) (20 * minute), cache_New minute (2 * minute))"

text \<open>\<open>LoginUserFromContext\<close>: parsed at the first call, then kept in the context.\<close>

definition LoginUserFromContext :: "'k auth_env \<Rightarrow> string \<Rightarrow> auth_state \<Rightarrow> LoginUser \<times> auth_state" where
  "LoginUserFromContext env user st =
     (case as_user st of
        Some lu \<Rightarrow> (lu, st)
      | None \<Rightarrow>
          (case parseLoginUser (ae_os env) user of
             LoginUser c ex rm \<Rightarrow>
               let lu = LoginUser (if lu_Remote c = [] then c\<lparr>lu_Remote := ae_Remote env\<rparr> else c) ex rm
               in (lu, st\<lparr>as_user := Some lu\<rparr>)))"

text \<open>\<open>NewDefaultIncusClientWithContext\<close>: one client per connection, for the remote of the login.\<close>

definition context_client :: "'k auth_env \<Rightarrow> LoginUser \<Rightarrow> auth_state \<Rightarrow> (api \<times> string) option \<times> auth_state" where
  "context_client env lu st =
     (case as_client st of
        Some c \<Rightarrow> (Some c, st)
      | None \<Rightarrow>
          (case ae_connect env (lu_Remote (lu_core lu)) of
             None \<Rightarrow> (None, st)
           | Some a \<Rightarrow> (Some (a, []), st\<lparr>as_client := Some (a, [])\<rparr>)))"

text \<open>\<open>GetCachedInstanceUser\<close> of the client of the connection, for the login.\<close>

definition context_instance_user ::
  "int \<Rightarrow> LoginUser \<Rightarrow> api \<times> string \<Rightarrow> auth_state \<Rightarrow> InstanceUser call \<times> auth_state" where
  "context_instance_user now lu cl st =
     (case GetCachedInstanceUser (fst cl) now (lu_Project (lu_core lu)) (lu_Instance (lu_core lu))
             (lu_InstanceUser (lu_core lu)) (as_caches st) (snd cl) of
        (cs, cur, r) \<Rightarrow> (r, st\<lparr>as_caches := cs, as_client := Some (fst cl, cur)\<rparr>))"

subsection \<open>Validity of a login\<close>

definition IsValid :: "'k auth_env \<Rightarrow> int \<Rightarrow> LoginUser \<Rightarrow> auth_state \<Rightarrow> bool call \<times> auth_state" where
  "IsValid env now lu st =
     (if IsCommand lu
      then (Return (lu_Command (lu_core lu) \<in> set [''shell'', ''explain'', ''remove'']), st)
      else if cache_Get now (Hash (Some lu)) (as_failed st) \<noteq> None then (Return False, st)
      else if cache_Get now (Hash (Some lu)) (as_valid st) \<noteq> None then (Return True, st)
      else (case context_client env lu st of
              (None, st) \<Rightarrow> (Return False, st)
            | (Some cl, st) \<Rightarrow>
                if lu_CreateInstance (lu_core lu)
                then (Return True,
                      st\<lparr>as_caches := fst (GetCachedInstance (fst cl) now (lu_Project (lu_core lu))
                                             (lu_Instance (lu_core lu)) (as_caches st) (snd cl))\<rparr>)
                else (case context_instance_user now lu cl st of
                        (Crash, st) \<Rightarrow> (Crash, st)
                      | (Fail, st) \<Rightarrow>
                          (Return False, st\<lparr>as_failed := SetDefault now (Hash (Some lu)) now (as_failed st)\<rparr>)
                      | (Return _, st) \<Rightarrow>
                          (Return True,
                           st\<lparr>as_failed := cache_Delete (Hash (Some lu)) (as_failed st),
                              as_valid := SetDefault now (Hash (Some lu)) now (as_valid st)\<rparr>))))"

subsection \<open>Host users\<close>

definition checkHostUser :: "'k auth_env \<Rightarrow> LoginUser \<Rightarrow> host_user option" where
  "checkHostUser env lu =
     (case ae_Lookup env (lu_User (lu_core lu)) of
        None \<Rightarrow> None
      | Some hu \<Rightarrow>
          if hu_Uid hu \<noteq> ''0'' \<and> ae_AllowedGroups env \<noteq> []
          then (case ae_GroupIds env hu of
                  None \<Rightarrow> None
                | Some groups \<Rightarrow>
                    (case groupMatch (ae_AllowedGroups env) groups of
                       None \<Rightarrow> None
                     | Some gid \<Rightarrow> if ae_LookupGroupId env gid = None then None else Some hu))
          else Some hu)"

text \<open>The loop of \<open>getUserAuthKeys\<close> over the paths: the keys so far and whether an open failed.\<close>

fun auth_keys_loop :: "(string \<Rightarrow> string option) \<Rightarrow> string list \<Rightarrow> string list \<Rightarrow> bool \<Rightarrow> string list option" where
  "auth_keys_loop open_file [] keys failed = (if failed then None else Some keys)"
| "auth_keys_loop open_file (path # paths) keys failed =
     (case open_file path of
        None \<Rightarrow> auth_keys_loop open_file paths keys True
      | Some content \<Rightarrow>
          let keys = keys @ fst (kept_lines content)
          in if keys \<noteq> [] then Some keys else auth_keys_loop open_file paths keys failed)"

definition authKeysPaths :: "host_user \<Rightarrow> string list" where
  "authKeysPaths u =
     [Clean (hu_HomeDir u @ ''/.ssh/authorized_keys''), Clean (''/etc/ssh/authorized_keys.d/'' @ hu_Username u)]"

definition getUserAuthKeys :: "'k auth_env \<Rightarrow> host_user \<Rightarrow> string list option" where
  "getUserAuthKeys env u = auth_keys_loop (ae_Open env) (authKeysPaths u) [] False"

subsection \<open>Keys\<close>

definition keysEqual :: "'k auth_env \<Rightarrow> 'k \<Rightarrow> string \<Rightarrow> bool option" where
  "keysEqual env key authKey =
     map_option (\<lambda>pkey. ae_Marshal env pkey = ae_Marshal env key) (ae_ParseAuthorizedKey env authKey)"

text \<open>The loop looks for the first line that decodes to the key; the others, and errors, are skipped.\<close>

definition authKeyCheck ::
  "'k auth_env \<Rightarrow> int \<Rightarrow> 'k \<Rightarrow> LoginUser \<Rightarrow> string list \<Rightarrow> auth_state \<Rightarrow> bool call \<times> auth_state" where
  "authKeyCheck env now key lu keys st =
     (if list_ex (\<lambda>k. keysEqual env key k = Some True) keys
      then (case IsValid env now lu st of
              (Return True, st) \<Rightarrow>
                (Return True,
                 st\<lparr>as_user := Some (LoginUser ((lu_core lu)\<lparr>lu_PublicKey := Some (ae_Marshal env key)\<rparr>)
                                       (lu_ExplainUser lu) (lu_RemoveUser lu))\<rparr>)
            | r \<Rightarrow> r)
      else (Return False, st))"

definition hostAuthHandler :: "'k auth_env \<Rightarrow> int \<Rightarrow> string \<Rightarrow> 'k \<Rightarrow> auth_state \<Rightarrow> bool call \<times> auth_state" where
  "hostAuthHandler env now user key st =
     (case LoginUserFromContext env user st of (lu, st) \<Rightarrow>
        (case checkHostUser env lu of
           None \<Rightarrow> (Return False, st)
         | Some hu \<Rightarrow>
             (case getUserAuthKeys env hu of
                None \<Rightarrow> (Return False, st)
              | Some keys \<Rightarrow> authKeyCheck env now key lu keys st)))"

text \<open>The part of \<open>instanceAuthHandler\<close> after the host check and the validity check.\<close>

definition instance_key_check ::
  "'k auth_env \<Rightarrow> int \<Rightarrow> LoginUser \<Rightarrow> 'k \<Rightarrow> auth_state \<Rightarrow> bool call \<times> auth_state" where
  "instance_key_check env now lu key st =
     (case context_client env lu st of
        (None, st) \<Rightarrow> (Return False, st)
      | (Some cl, st) \<Rightarrow>
          (case context_instance_user now lu cl st of
             (Crash, st) \<Rightarrow> (Crash, st)
           | (Fail, st) \<Rightarrow> (Return False, st)
           | (Return iu, st) \<Rightarrow>
               (case as_client st of
                  None \<Rightarrow> (Return False, st)
                | Some (a, cur) \<Rightarrow>
                    (case DownloadFile a (iu_Project iu) (iu_Instance iu) (iu_Dir iu @ ''/.ssh/authorized_keys'') cur of
                       None \<Rightarrow> (Return False, st)
                     | Some file \<Rightarrow> authKeyCheck env now key lu (bb_Lines (if_Content file)) st))))"

definition instanceAuthHandler ::
  "'k auth_env \<Rightarrow> int \<Rightarrow> string \<Rightarrow> 'k \<Rightarrow> auth_state \<Rightarrow> bool call \<times> auth_state" where
  "instanceAuthHandler env now user key st =
     (case LoginUserFromContext env user st of (lu, st) \<Rightarrow>
        (case hostAuthHandler env now user key st of
           (Return False, st) \<Rightarrow>
             (case IsValid env now lu st of
                (Return True, st) \<Rightarrow>
                  if IsCommand lu then (Return False, st) else instance_key_check env now lu key st
              | r \<Rightarrow> r)
         | r \<Rightarrow> r))"

definition noAuthHandler :: "'k auth_env \<Rightarrow> int \<Rightarrow> string \<Rightarrow> 'k \<Rightarrow> auth_state \<Rightarrow> bool call \<times> auth_state" where
  "noAuthHandler env now user key st =
     (case LoginUserFromContext env user st of (lu, st) \<Rightarrow>
        (case IsValid env now lu st of
           (Return True, st) \<Rightarrow>
             (Return True,
              st\<lparr>as_user := Some (LoginUser ((lu_core lu)\<lparr>lu_PublicKey := Some (ae_Marshal env key)\<rparr>)
                                    (lu_ExplainUser lu) (lu_RemoveUser lu))\<rparr>)
         | r \<Rightarrow> r))"

subsection \<open>Passwords\<close>

definition instance_password_check ::
  "'k auth_env \<Rightarrow> int \<Rightarrow> LoginUser \<Rightarrow> string \<Rightarrow> auth_state \<Rightarrow> bool call \<times> auth_state" where
  "instance_password_check env now lu password st =
     (case context_client env lu st of
        (None, st) \<Rightarrow> (Return False, st)
      | (Some cl, st) \<Rightarrow>
          (case context_instance_user now lu cl st of
             (Crash, st) \<Rightarrow> (Crash, st)
           | (Fail, st) \<Rightarrow> (Return False, st)
           | (Return iu, st) \<Rightarrow>
               (case as_client st of
                  None \<Rightarrow> (Return False, st)
                | Some (a, cur) \<Rightarrow>
                    (case DownloadFile a (iu_Project iu) (iu_Instance iu) ShadowFile cur of
                       None \<Rightarrow> (Return False, st)
                     | Some file \<Rightarrow>
                         (Return (checkShadowPassword (ae_Open env) (ae_crypto env) (lu_InstanceUser (lu_core lu))
                                    password (bb_Bytes (if_Content file)) = None), st)))))"

definition passwordHandler ::
  "'k auth_env \<Rightarrow> int \<Rightarrow> string \<Rightarrow> string \<Rightarrow> auth_state \<Rightarrow> bool call \<times> auth_state" where
  "passwordHandler env now user password st =
     (case LoginUserFromContext env user st of (lu, st) \<Rightarrow>
        (case checkHostUser env lu of
           None \<Rightarrow> (Return False, st)
         | Some hu \<Rightarrow>
             if checkHostShadowPassword (ae_Open env) (ae_crypto env) (hu_Username hu) password = None
             then (Return True, st)
             else if \<not> ae_InstanceAuth env then (Return False, st)
             else (case IsValid env now lu st of
                     (Return True, st) \<Rightarrow> instance_password_check env now lu password st
                   | r \<Rightarrow> r)))"

section \<open>Lemmas\<close>

text \<open>The API that a connection uses is the one it had or one it connected to.\<close>

definition client_from :: "'k auth_env \<Rightarrow> auth_state \<Rightarrow> auth_state \<Rightarrow> bool" where
  "client_from env st st' \<longleftrightarrow>
     (\<forall>a cur. as_client st' = Some (a, cur) \<longrightarrow>
        (\<exists>cur'. as_client st = Some (a, cur')) \<or> (\<exists>remote. ae_connect env remote = Some a))"

lemma client_from_refl [simp]: "client_from env st st"
  by (auto simp: client_from_def)

lemma client_from_trans: "client_from env st st' \<Longrightarrow> client_from env st' st'' \<Longrightarrow> client_from env st st''"
  unfolding client_from_def by metis

lemma client_from_same: "as_client st' = as_client st \<Longrightarrow> client_from env st st'"
  by (auto simp: client_from_def)

lemma context_client_from:
  assumes "context_client env lu st = (c, st')"
  shows "client_from env st st'" and "c = Some cl \<Longrightarrow> as_client st' = Some cl"
  using assms by (auto simp: context_client_def client_from_def split: option.splits)

lemma context_user_from:
  assumes "context_instance_user now lu cl st = (r, st')" and "as_client st = Some cl"
  shows "client_from env st st'" and "\<exists>cur. as_client st' = Some (fst cl, cur)"
  using assms by (cases cl; auto simp: context_instance_user_def client_from_def split: prod.splits)+

lemma IsValid_from: "IsValid env now lu st = (r, st') \<Longrightarrow> client_from env st st'"
proof -
  assume run: "IsValid env now lu st = (r, st')"
  obtain c st1 where c: "context_client env lu st = (c, st1)" by fastforce
  note c1 = context_client_from [OF c]
  show ?thesis
  proof (cases c)
    case None
    with run c c1(1) show ?thesis by (auto simp: IsValid_def split: if_splits)
  next
    case (Some cl)
    obtain r2 st2 where u: "context_instance_user now lu cl st1 = (r2, st2)" by fastforce
    have st2: "client_from env st st2"
      using client_from_trans [OF c1(1) context_user_from(1) [OF u c1(2) [OF Some]]] .
    consider "st' = st" | "as_client st' = as_client st1" | "as_client st' = as_client st2"
      using run c Some u unfolding IsValid_def by (cases r2) (auto split: if_splits)
    then show ?thesis
      using client_from_same client_from_trans c1(1) st2 by cases (auto intro: client_from_trans client_from_same)
  qed
qed

lemma login_from: "LoginUserFromContext env user st = (lu, st') \<Longrightarrow> as_client st' = as_client st"
  by (auto simp: LoginUserFromContext_def Let_def split: option.splits LoginUser.splits)

lemma closed_download:
  assumes "DownloadFile a project inst path cur = Some f"
    and "\<And>kind content. api_GetInstanceFile a cur inst path = Some (kind, content) \<Longrightarrow> short_lines content"
  shows "bb_Bytes (if_Content f) = []"
  using assms
  by (auto simp: DownloadFile_def Let_def bb_Write_def NewBytesBuffer_def close_drains split: option.splits prod.splits if_splits)

lemma empty_name_refused: "open_file [] = None \<Longrightarrow> checkShadowPassword open_file cr user password [] = Some OpenError"
  by (simp add: checkShadowPassword_def NewFromString_def shadow_Read_def)

text \<open>No password database of an instance has a line of 64 KiB or more.\<close>

definition plain_shadow :: "api \<Rightarrow> bool" where
  "plain_shadow a \<longleftrightarrow>
     (\<forall>cur inst kind content. api_GetInstanceFile a cur inst ShadowFile = Some (kind, content) \<longrightarrow> short_lines content)"

definition plain_clients :: "'k auth_env \<Rightarrow> auth_state \<Rightarrow> bool" where
  "plain_clients env st \<longleftrightarrow>
     (\<forall>remote a. ae_connect env remote = Some a \<longrightarrow> plain_shadow a) \<and>
     (\<forall>a cur. as_client st = Some (a, cur) \<longrightarrow> plain_shadow a)"

lemma plain_clients_from: "plain_clients env st \<Longrightarrow> client_from env st st' \<Longrightarrow> plain_clients env st'"
  unfolding plain_clients_def client_from_def by metis

lemma instance_password_refused:
  assumes "ae_Open env [] = None" and "plain_clients env st"
  shows "fst (instance_password_check env now lu password st) \<noteq> Return True"
proof -
  obtain c st1 where c: "context_client env lu st = (c, st1)" by fastforce
  show ?thesis
  proof (cases c)
    case (Some cl)
    obtain r2 st2 where u: "context_instance_user now lu cl st1 = (r2, st2)" by fastforce
    have cl: "as_client st1 = Some cl" using context_client_from(2) [OF c] Some by simp
    then obtain cur where cur: "as_client st2 = Some (fst cl, cur)" using context_user_from(2) [OF u] by blast
    have "plain_clients env st2"
      using plain_clients_from assms(2) context_client_from(1) [OF c] context_user_from(1) [OF u cl] by metis
    then have plain: "plain_shadow (fst cl)" using cur by (auto simp: plain_clients_def)
    have "bb_Bytes (if_Content f) = []" if "DownloadFile (fst cl) p i ShadowFile cur = Some f" for p i f
      using closed_download [OF that] plain by (auto simp: plain_shadow_def)
    with c Some u cur show ?thesis
      by (cases r2) (auto simp: instance_password_check_def empty_name_refused [of "ae_Open env", OF assms(1)] split: option.splits)
  qed (use c in \<open>simp add: instance_password_check_def\<close>)
qed

section \<open>Properties\<close>

text \<open>
  C6. Only a host password lets a client in with a password. When the empty name names no file on the host
  and no line of a password database of an instance has 64 KiB, the password handler accepts exactly
  when the host user of the login exists, is in an allowed group, and has this password on the host: the
  check against the database of the instance, which \<open>InstanceAuth\<close> asks for, never succeeds. (Closing the
  download has already consumed its bytes, so the check looks for a file of the host with an empty name.)
  A login with a host password is accepted whether or not its instance exists.
\<close>

theorem password_host_only:
  assumes "ae_Open env [] = None" and "plain_clients env st"
  shows "fst (passwordHandler env now user password st) = Return True \<longleftrightarrow>
    (\<exists>hu. checkHostUser env (fst (LoginUserFromContext env user st)) = Some hu \<and>
       checkHostShadowPassword (ae_Open env) (ae_crypto env) (hu_Username hu) password = None)"
proof -
  obtain lu st1 where lu: "LoginUserFromContext env user st = (lu, st1)" by fastforce
  have st1: "plain_clients env st1"
    using assms(2) client_from_same [of st1 st, OF login_from [OF lu]] by (rule plain_clients_from)
  obtain r st2 where v: "IsValid env now lu st1 = (r, st2)" by fastforce
  have "fst (instance_password_check env now lu password st2) \<noteq> Return True"
    using instance_password_refused [OF assms(1)] plain_clients_from [OF st1 IsValid_from [OF v]] by blast
  with lu v show ?thesis
    by (cases r) (auto simp: passwordHandler_def split: option.splits bool.splits)
qed
lemma authKeyCheck_accepts:
  assumes "authKeyCheck env now key lu keys st = (Return True, st')"
  shows "list_ex (\<lambda>k. keysEqual env key k = Some True) keys" and "fst (IsValid env now lu st) = Return True"
    and "\<exists>u. as_user st' = Some u \<and> lu_PublicKey (lu_core u) = Some (ae_Marshal env key)"
  using assms by (auto simp: authKeyCheck_def split: if_splits prod.splits call.splits bool.splits)

lemma hostAuth_accepts:
  assumes "hostAuthHandler env now user key st = (Return True, st')"
    and "LoginUserFromContext env user st = (lu, st1)"
  obtains hu keys where "checkHostUser env lu = Some hu" "getUserAuthKeys env hu = Some keys"
    "authKeyCheck env now key lu keys st1 = (Return True, st')"
  using assms by (auto simp: hostAuthHandler_def split: option.splits)

lemma instance_key_accepts:
  assumes "instance_key_check env now lu key st = (Return True, st')"
  obtains a cur0 cur cs cs' iu f st1 where
    "GetCachedInstanceUser a now (lu_Project (lu_core lu)) (lu_Instance (lu_core lu)) (lu_InstanceUser (lu_core lu)) cs cur0 =
       (cs', cur, Return iu)"
    "DownloadFile a (iu_Project iu) (iu_Instance iu) (iu_Dir iu @ ''/.ssh/authorized_keys'') cur = Some f"
    "authKeyCheck env now key lu (bb_Lines (if_Content f)) st1 = (Return True, st')"
proof -
  obtain c st1 where c: "context_client env lu st = (c, st1)" by fastforce
  from assms c obtain cl where cl: "c = Some cl" by (cases c) (auto simp: instance_key_check_def)
  obtain cs' cur r where g: "GetCachedInstanceUser (fst cl) now (lu_Project (lu_core lu)) (lu_Instance (lu_core lu))
      (lu_InstanceUser (lu_core lu)) (as_caches st1) (snd cl) = (cs', cur, r)" by (metis prod_cases3)
  from assms c cl g obtain iu f where "r = Return iu"
    "DownloadFile (fst cl) (iu_Project iu) (iu_Instance iu) (iu_Dir iu @ ''/.ssh/authorized_keys'') cur = Some f"
    "authKeyCheck env now key lu (bb_Lines (if_Content f)) (st1\<lparr>as_caches := cs', as_client := Some (fst cl, cur)\<rparr>) = (Return True, st')"
    by (cases r) (auto simp: instance_key_check_def context_instance_user_def split: option.splits)
  with g that show thesis by blast
qed

lemma login_again: "LoginUserFromContext env user st = (lu, st1) \<Longrightarrow> LoginUserFromContext env user st1 = (lu, st1)"
  by (auto simp: LoginUserFromContext_def Let_def split: option.splits LoginUser.splits)

text \<open>
  C16. The list of an instance user may come from another project. On a new connection for a login that
  is known as valid and whose instance user is cached, no call selects the project of the login: the
  list is read from the instance of that name in the project in which a connection starts, and the key
  is accepted or refused according to that list alone.
\<close>

theorem key_list_wrong_project:
  assumes "as_user st = Some lu" and "as_client st = None" and "\<not> IsCommand lu"
    and "checkHostUser env lu = None"
    and "cache_Get now (Hash (Some lu)) (as_failed st) = None"
    and "cache_Get now (Hash (Some lu)) (as_valid st) = Some t"
    and "cache_Get now (instanceUserKey (lu_Project (lu_core lu)) (lu_Instance (lu_core lu)) (lu_InstanceUser (lu_core lu)))
           (instanceUserCache (as_caches st)) = Some iu"
    and "ae_connect env (lu_Remote (lu_core lu)) = Some a"
    and "api_GetInstanceFile a [] (iu_Instance iu) (iu_Dir iu @ ''/.ssh/authorized_keys'') = Some (''file'', content)"
  shows "fst (instanceAuthHandler env now user key st) =
         Return (list_ex (\<lambda>k. keysEqual env key k = Some True) (fst (kept_lines content)))"
proof -
  have lu: "LoginUserFromContext env user st = (lu, st)" using assms(1) by (simp add: LoginUserFromContext_def)
  have valid: "IsValid env now lu s = (Return True, s)" if "as_failed s = as_failed st" "as_valid s = as_valid st" for s
    using assms(3,5,6) that by (simp add: IsValid_def)
  have host: "hostAuthHandler env now user key st = (Return False, st)"
    using lu assms(4) by (simp add: hostAuthHandler_def)
  let ?st1 = "st\<lparr>as_client := Some (a, [])\<rparr>"
  have c: "context_client env lu st = (Some (a, []), ?st1)" using assms(2,8) by (simp add: context_client_def)
  have u: "context_instance_user now lu (a, []) ?st1 = (Return iu, ?st1)"
    using assms(7) by (simp add: context_instance_user_def GetCachedInstanceUser_def Let_def)
  obtain f where f: "DownloadFile a (iu_Project iu) (iu_Instance iu) (iu_Dir iu @ ''/.ssh/authorized_keys'') [] = Some f"
    and l: "bb_Lines (if_Content f) = fst (kept_lines content)"
    using assms(9)
    by (auto simp: DownloadFile_def Let_def bb_Write_def NewBytesBuffer_def bb_Close_def byteLines_def bb_Lines_def split: prod.split)
  have "fst (authKeyCheck env now key lu (fst (kept_lines content)) ?st1) =
        Return (list_ex (\<lambda>k. keysEqual env key k = Some True) (fst (kept_lines content)))"
    by (simp add: authKeyCheck_def valid)
  then show ?thesis
    using lu host valid [of st] assms(3) c u f l by (simp add: instanceAuthHandler_def instance_key_check_def)
qed

lemma get_after_set:
  assumes "defaultExpiration c = d" "d > 0" "in_int64 (now + d)" "0 < now" "now \<le> t" "t \<le> now + d"
  shows "cache_Get t k (SetDefault now k x c) = Some x"
  using assms by (simp add: SetDefault_def cache_Set_def cache_Get_def Let_def)

lemma get_after_delete: "onEvicted c = None \<Longrightarrow> cache_Get t k (cache_Delete k c) = None"
  by (simp add: cache_Delete_def delete_item_def cache_Get_def Let_def split: option.split)

lemma IsValid_keeps:
  assumes "context_client env lu st = (c, st1)"
  shows "as_failed st1 = as_failed st" "as_valid st1 = as_valid st"
  using assms by (auto simp: context_client_def split: option.splits)

lemma context_user_keeps:
  assumes "context_instance_user now lu cl st = (r, st1)"
  shows "as_failed st1 = as_failed st" "as_valid st1 = as_valid st"
  using assms by (auto simp: context_instance_user_def split: prod.splits)

text \<open>
  The verdict on a login is kept. After the validity check has asked the instance about a login
  (neither cache had it), a positive verdict is repeated for fifteen minutes and a negative one for one
  minute, for every connection and whatever the instance would answer then: the check does not ask
  again.
\<close>

theorem verdict_kept:
  assumes "\<not> IsCommand lu" and "\<not> lu_CreateInstance (lu_core lu)"
    and "cache_Get now (Hash (Some lu)) (as_failed st) = None" and "cache_Get now (Hash (Some lu)) (as_valid st) = None"
    and "context_client env lu st = (Some cl, st0)"
    and "IsValid env now lu st = (Return b, st')"
    and "defaultExpiration (as_valid st) = 15 * minute" and "defaultExpiration (as_failed st) = minute"
    and "onEvicted (as_failed st) = None" and "0 < now" and "in_int64 (now + 15 * minute)"
    and "now \<le> t" and "t \<le> now + (if b then 15 * minute else minute)"
  shows "IsValid env' t lu (st'\<lparr>as_user := u, as_client := c\<rparr>) = (Return b, st'\<lparr>as_user := u, as_client := c\<rparr>)"
proof -
  obtain r st1 where r: "context_instance_user now lu cl st0 = (r, st1)" by fastforce
  note k0 = IsValid_keeps [OF assms(5)] and k1 = context_user_keeps [OF r]
  have m: "(0::int) < minute" by (simp add: minute_def)
  show ?thesis
  proof (cases b)
    case True
    with assms(1-6) r obtain iu where "r = Return iu"
      "st' = st1\<lparr>as_failed := cache_Delete (Hash (Some lu)) (as_failed st1),
                 as_valid := SetDefault now (Hash (Some lu)) now (as_valid st1)\<rparr>"
      unfolding IsValid_def by (cases r) auto
    then show ?thesis
      using True assms m k0 k1 get_after_set [of "as_valid st1" "15 * minute" now t] get_after_delete [of "as_failed st1"]
      by (simp add: IsValid_def)
  next
    case False
    with assms(1-6) r have st': "st' = st1\<lparr>as_failed := SetDefault now (Hash (Some lu)) now (as_failed st1)\<rparr>"
      unfolding IsValid_def by (cases r) auto
    have "in_int64 (now + minute)" using assms(10,11) m by (simp add: in_int64_def)
    then show ?thesis
      using False st' assms m k0 k1 get_after_set [of "as_failed st1" minute now t]
      by (simp add: IsValid_def)
  qed
qed

text \<open>
  The keys of a host user, as they are kept. A list below 4 KiB whose last line is terminated is
  read as its lines. When the last line is not terminated and starts in the second half of the 4 KiB,
  the first key, if it is not longer, is overwritten: what is kept is the beginning of the last line.
\<close>

theorem authorized_keys_kept:
  assumes "list_all (\<lambda>l. newline \<notin> set l) (k # ks)" and "newline \<notin> set l"
    and "length (unlines (k # ks) @ l) < 4096"
    and "ae_Open env (Clean (hu_HomeDir u @ ''/.ssh/authorized_keys'')) = Some (unlines (k # ks) @ l)"
  shows "(l = [] \<longrightarrow> getUserAuthKeys env u = Some (map dropCR (k # ks))) \<and>
         (l \<noteq> [] \<and> length (unlines (k # ks)) > 2048 \<and> length k \<le> length l \<longrightarrow>
            (\<exists>ks'. getUserAuthKeys env u = Some (take (length (dropCR k)) l # ks')))"
proof -
  have nl: "\<forall>x \<in> set (k # ks). newline \<notin> set x" using assms(1) by (simp add: list_all_iff)
  have keys: "getUserAuthKeys env u = (if fst (kept_lines (unlines (k # ks) @ l)) = []
      then auth_keys_loop (ae_Open env) [Clean (''/etc/ssh/authorized_keys.d/'' @ hu_Username u)] [] False
      else Some (fst (kept_lines (unlines (k # ks) @ l))))"
    using assms(4) by (simp add: getUserAuthKeys_def authKeysPaths_def)
  have "getUserAuthKeys env u = Some (map dropCR (k # ks))" if "l = []"
    using kept_terminated [OF nl] assms(3) that keys by (simp add: startBufSize_def)
  moreover have "\<exists>ks'. getUserAuthKeys env u = Some (take (length (dropCR k)) l # ks')"
    if "l \<noteq> []" "length (unlines (k # ks)) > 2048" "length k \<le> length l"
  proof -
    have "hd (fst (kept_lines (unlines (k # ks) @ l))) = take (length (dropCR k)) l \<and>
          fst (kept_lines (unlines (k # ks) @ l)) \<noteq> []"
      using kept_unterminated [OF nl that(1) assms(2)] that assms(3) by (simp add: startBufSize_def)
    then show ?thesis using keys by (cases "fst (kept_lines (unlines (k # ks) @ l))") auto
  qed
  ultimately show ?thesis by blast
qed
section \<open>Witnesses\<close>

text \<open>A host with one user and one list of keys, and an Incus server with one instance per project.\<close>

definition demo_host :: "string \<Rightarrow> string option" where
  "demo_host p =
     (if p = ''/etc/shadow'' then Some (unlines [print_entry sample_entry])
      else if p = ''/home/bob/.ssh/authorized_keys'' then Some (unlines [''key''])
      else None)"

definition demo_api :: api where
  "demo_api =
     \<lparr>api_GetProject = Some,
      api_Exec = (\<lambda>cur inst req. Some \<lparr>out_return = 0, out_stdout = ''root:x:0:0::/root:/bin/sh'' @ [newline], out_stderr = []\<rparr>),
      api_GetInstanceFile = (\<lambda>cur inst path. if cur = [] \<and> path = ''/root/.ssh/authorized_keys'' then Some (''file'', unlines [''key'']) else None),
      api_GetInstanceFull = (\<lambda>cur inst. None), api_GetInstanceState = (\<lambda>cur inst. None)\<rparr>"

definition demo_env :: "string auth_env" where
  "demo_env =
     \<lparr>ae_os = \<lparr>getuid = 0, lookup_id = (\<lambda>_. None)\<rparr>, ae_Remote = [], ae_AllowedGroups = [], ae_InstanceAuth = True,
      ae_Lookup = (\<lambda>u. if u = ''bob'' then Some \<lparr>hu_Username = ''bob'', hu_Uid = ''1000'', hu_HomeDir = ''/home/bob''\<rparr> else None),
      ae_GroupIds = (\<lambda>_. Some []), ae_LookupGroupId = Some, ae_Open = demo_host,
      ae_crypto = \<lparr>crypt_verify = (\<lambda>_ p. if p = ''secret'' then CryptOk else ErrKeyMismatch), yescrypt_Hash = (\<lambda>_ _. None)\<rparr>,
      ae_ParseAuthorizedKey = Some, ae_Marshal = id, ae_connect = (\<lambda>_. Some demo_api)\<rparr>"

definition demo_login :: "string \<Rightarrow> string \<Rightarrow> LoginUser" where
  "demo_login user cmd =
     LoginUser (empty_core\<lparr>lu_User := user, lu_Instance := ''web'', lu_Project := ''prod'', lu_InstanceUser := ''root'',
                           lu_Command := cmd\<rparr>) None None"

definition demo_state :: "LoginUser \<Rightarrow> auth_state" where
  "demo_state lu =
     \<lparr>as_user = Some lu, as_client = None, as_valid = fst login_caches, as_failed = snd login_caches,
      as_caches = init_caches\<rparr>"

definition demo_iu :: InstanceUser where
  "demo_iu =
     \<lparr>iu_Project = ''prod'', iu_Instance = ''web'', iu_User = ''root'', iu_Uid = 0, iu_Gid = 0, iu_Dir = ''/root'',
      iu_Shell = ''/bin/sh'', iu_Ent = []\<rparr>"

lemma demo_lookup: "LoginUserFromContext demo_env user (demo_state lu) = (lu, demo_state lu)"
  by (simp add: LoginUserFromContext_def demo_state_def)

lemma demo_host_user:
  "checkHostUser demo_env (demo_login ''bob'' cmd) =
   Some \<lparr>hu_Username = ''bob'', hu_Uid = ''1000'', hu_HomeDir = ''/home/bob''\<rparr>"
  by (simp add: checkHostUser_def demo_env_def demo_login_def)

lemma new_cache_empty: "cache_Get t k (cache_New d i) = None"
  by (simp add: cache_New_def newCacheWithJanitor_def newCache_def runJanitor_def cache_Get_def Let_def lookup_empty)

lemma new_cache_expiration: "d \<noteq> 0 \<Longrightarrow> defaultExpiration (cache_New d i) = d" "onEvicted (cache_New d i) = None"
  by (simp_all add: cache_New_def newCacheWithJanitor_def newCache_def runJanitor_def Let_def)

lemma demo_password: "checkHostShadowPassword demo_host (ae_crypto demo_env) ''bob'' ''secret'' = None"
  by (simp add: checkHostShadowPassword_def Shadow_Read_def shadow_New_def verify_user_def Shadow_Lookup_def ShadowFile_def
      shadow_Read_printed [of "[sample_entry]"] wf_sample_entry demo_host_def)
    (simp add: sample_entry_def VerifyPassword_def demo_env_def)

theorem password_host_only_witness:
  "fst (passwordHandler demo_env 1 [] ''secret'' (demo_state (demo_login ''bob'' []))) = Return True"
proof -
  have "ae_Open demo_env [] = None" by (simp add: demo_env_def demo_host_def)
  moreover have "plain_clients demo_env (demo_state (demo_login ''bob'' []))"
    by (simp add: plain_clients_def plain_shadow_def demo_env_def demo_api_def demo_state_def ShadowFile_def)
  ultimately show ?thesis
    using password_host_only [of demo_env "demo_state (demo_login ''bob'' [])" 1 "[]" "''secret''"] demo_password
    by (simp add: demo_lookup demo_host_user) (simp add: demo_env_def)
qed

lemma demo_path: "Clean ''/home/bob/.ssh/authorized_keys'' = ''/home/bob/.ssh/authorized_keys''"
  by code_simp

lemma demo_keys: "kept_lines (unlines [''key'']) = ([''key''], [])"
  using kept_terminated [of "[''key'']"] by (simp add: startBufSize_def dropCR_def)

lemma demo_user_keys:
  "getUserAuthKeys demo_env \<lparr>hu_Username = ''bob'', hu_Uid = ''1000'', hu_HomeDir = ''/home/bob''\<rparr> = Some [''key'']"
  by (simp add: getUserAuthKeys_def authKeysPaths_def demo_path demo_keys [simplified])
    (simp add: demo_env_def demo_host_def demo_keys [simplified])


theorem key_list_wrong_project_witness:
  "api_GetInstanceFile demo_api ''prod'' ''web'' ''/root/.ssh/authorized_keys'' = None \<and>
   fst (instanceAuthHandler demo_env 1 [] ''key''
     ((demo_state (demo_login ''eve'' []))
        \<lparr>as_valid := SetDefault 1 (Hash (Some (demo_login ''eve'' []))) 1 (fst login_caches),
         as_caches := init_caches\<lparr>instanceUserCache := SetDefault 1 ''prod/web/root'' demo_iu (instanceUserCache init_caches)\<rparr>\<rparr>))
   = Return True"
proof -
  let ?lu = "demo_login ''eve'' []"
  let ?st = "(demo_state ?lu)\<lparr>as_valid := SetDefault 1 (Hash (Some ?lu)) 1 (fst login_caches),
         as_caches := init_caches\<lparr>instanceUserCache := SetDefault 1 ''prod/web/root'' demo_iu (instanceUserCache init_caches)\<rparr>\<rparr>"
  have eq: "keysEqual demo_env ''key'' ''key'' = Some True" by (simp add: keysEqual_def demo_env_def)
  have v: "cache_Get 1 (Hash (Some ?lu)) (as_valid ?st) = Some 1"
    by simp (rule get_after_set [of _ "15 * minute"], simp_all add: login_caches_def new_cache_expiration minute_def in_int64_def)
  have iu: "cache_Get 1 ''prod/web/root'' (instanceUserCache (as_caches ?st)) = Some demo_iu"
    by simp (rule get_after_set [of _ minute], simp_all add: init_caches_def new_cache_expiration minute_def in_int64_def)
  have key: "instanceUserKey (lu_Project (lu_core ?lu)) (lu_Instance (lu_core ?lu)) (lu_InstanceUser (lu_core ?lu)) = ''prod/web/root''"
    by (simp add: instanceUserKey_def demo_login_def)
  have "fst (instanceAuthHandler demo_env 1 [] ''key'' ?st) =
    Return (list_ex (\<lambda>k. keysEqual demo_env ''key'' k = Some True) (fst (kept_lines (unlines [''key'']))))"
    by (rule key_list_wrong_project [of ?st ?lu demo_env 1 1 demo_iu demo_api])
      (simp_all only: v iu key, simp_all add: new_cache_empty demo_state_def demo_login_def IsCommand_def empty_core_def
        checkHostUser_def demo_env_def demo_api_def demo_iu_def login_caches_def)
  then show ?thesis by (simp only: demo_keys) (simp add: eq demo_api_def)
qed

lemma demo_exec: "fst (ob_Lines (ob_Write (''root:x:0:0::/root:/bin/sh'' @ [newline]) NewOutputBuffer)) = [''root:x:0:0::/root:/bin/sh'']"
proof -
  have "scan_lines (unlines [''root:x:0:0::/root:/bin/sh'']) = ([''root:x:0:0::/root:/bin/sh''], False)"
    by (simp only: scan_lines_def raw_unlines [of "[''root:x:0:0::/root:/bin/sh'']", simplified] unlines_simps)
      (simp add: raw_lines_def dropCR_def MaxScanTokenSize_def)
  then show ?thesis by (simp add: ob_Lines_def ob_Write_def NewOutputBuffer_def Let_def)
qed

theorem verdict_kept_witness:
  "\<exists>st'. IsValid demo_env 1 (demo_login ''bob'' []) (demo_state (demo_login ''bob'' [])) = (Return True, st') \<and>
     IsValid (demo_env\<lparr>ae_connect := (\<lambda>_. None)\<rparr>) (14 * minute) (demo_login ''bob'' []) (st'\<lparr>as_user := None, as_client := None\<rparr>) =
       (Return True, st'\<lparr>as_user := None, as_client := None\<rparr>)"
proof -
  let ?lu = "demo_login ''bob'' []" let ?st = "demo_state ?lu"
  have cl: "context_client demo_env ?lu ?st = (Some (demo_api, []), ?st\<lparr>as_client := Some (demo_api, [])\<rparr>)"
    by (simp add: context_client_def demo_state_def demo_env_def)
  have none: "cache_Get 1 k (as_failed ?st) = None" "cache_Get 1 k (as_valid ?st) = None"
    "cache_Get 1 k (instanceUserCache (as_caches ?st)) = None" for k
    by (simp_all add: demo_state_def login_caches_def init_caches_def new_cache_empty)
  have u: "\<exists>iu. GetInstanceUser demo_api ''prod'' ''web'' ''root'' [] = (''prod'', Return iu)"
    using demo_exec by (simp add: GetInstanceUser_def use_project_def demo_api_def Exec_def simple_exec_def parse_passwd_def)
  have nc: "\<not> IsCommand ?lu" "\<not> lu_CreateInstance (lu_core ?lu)" by (simp_all add: IsCommand_def demo_login_def empty_core_def)
  obtain st' where st': "IsValid demo_env 1 ?lu ?st = (Return True, st')"
    using u cl none nc
    by (auto simp: IsValid_def context_instance_user_def GetCachedInstanceUser_def demo_login_def demo_state_def)
  moreover have "IsValid (demo_env\<lparr>ae_connect := (\<lambda>_. None)\<rparr>) (14 * minute) ?lu (st'\<lparr>as_user := None, as_client := None\<rparr>) =
       (Return True, st'\<lparr>as_user := None, as_client := None\<rparr>)"
    by (rule verdict_kept [OF nc none(1,2) cl st'])
      (simp_all add: demo_state_def login_caches_def new_cache_expiration minute_def in_int64_def)
  ultimately show ?thesis by blast
qed

theorem authorized_keys_kept_witness:
  "getUserAuthKeys demo_env \<lparr>hu_Username = ''bob'', hu_Uid = ''1000'', hu_HomeDir = ''/home/bob''\<rparr> = Some [''key'']"
  using authorized_keys_kept [of "''key''" "[]" "[]" demo_env "\<lparr>hu_Username = ''bob'', hu_Uid = ''1000'', hu_HomeDir = ''/home/bob''\<rparr>"]
    demo_path
  by (simp add: demo_env_def demo_host_def dropCR_def)

end
