(* ===== verification/Proxy_Device.thy ===== *)
theory Proxy_Device
  imports Incus_Client
begin

text \<open>
  Proxy devices of instances, \<open>src/pkg/incus/proxy-device.go\<close>, the removal of devices that are left
  over, \<open>DeleteInstanceDevice\<close> of \<open>instance.go\<close> and \<open>cleanLeftoverProxyDevices\<close> of
  \<open>src/server/device-registry.go\<close>, and the registry of devices, \<open>src/pkg/util/devicereg/devicereg.go\<close>.

  The Incus server is a parameter, a record of functions on its state, and so is the host (addresses,
  free ports, the clock). The operations run one after the other in a queue, which is modelled in the
  theory \<open>Work_Queue\<close>.
\<close>

section \<open>Model\<close>

subsection \<open>The client and the server\<close>

text \<open>
  A client remembers the project it selected last and holds a connection that is scoped to a project.
  \<open>Connect\<close> replaces the connection by a new one, which is in the default project, and leaves the
  remembered project as it is.
\<close>

record client =
  cl_project :: string
  cl_scope :: string

type_synonym device = "(string, string) mapping"
type_synonym devices = "(string, device) mapping"

text \<open>
  The calls of the API, in the project of the connection: an instance is its name, its devices and its
  entity tag; an update and the wait for its operation are one call.
\<close>

record 's device_api =
  da_Connect :: "'s \<Rightarrow> bool"
  da_GetProject :: "string \<Rightarrow> 's \<Rightarrow> string option"
  da_GetInstance :: "string \<Rightarrow> string \<Rightarrow> 's \<Rightarrow> (string \<times> devices \<times> string) option"
  da_UpdateInstance :: "string \<Rightarrow> string \<Rightarrow> devices \<Rightarrow> string \<Rightarrow> 's \<Rightarrow> 's option"
  da_Exec :: "string \<Rightarrow> string \<Rightarrow> InstanceExecPost \<Rightarrow> 's \<Rightarrow> 's \<times> exec_output option"
  da_GetInstancesAllProjects :: "'s \<Rightarrow> (string \<times> string list) list option"

definition client_Connect :: "'s device_api \<Rightarrow> client \<Rightarrow> 's \<Rightarrow> client option" where
  "client_Connect da cl s = (if da_Connect da s then Some (cl\<lparr>cl_scope := ''default''\<rparr>) else None)"

definition client_UseProject :: "'s device_api \<Rightarrow> string \<Rightarrow> client \<Rightarrow> 's \<Rightarrow> client option" where
  "client_UseProject da project cl s =
     (let project = (if project = [] then ''default'' else project)
      in if project = cl_project cl then Some cl
         else (case da_GetProject da project s of
                 None \<Rightarrow> None
               | Some p \<Rightarrow> Some \<lparr>cl_project = p, cl_scope = p\<rparr>))"

text \<open>A command for which only its exit status and whether there was an error count.\<close>

definition client_Exec :: "'s device_api \<Rightarrow> client \<Rightarrow> InstanceExec \<Rightarrow> 's \<Rightarrow> 's \<times> int \<times> bool" where
  "client_Exec da cl e s =
     (case da_Exec da (cl_scope cl) (ie_Instance e) (BuildExecRequest e) s of
        (s, None) \<Rightarrow> (s, -1, True)
      | (s, Some r) \<Rightarrow> (s, out_return r, out_stderr r \<noteq> []))"

subsection \<open>Devices\<close>

definition ProxyDeviceSocket :: string where "ProxyDeviceSocket = ''socket''"
definition ProxyDevicePort :: string where "ProxyDevicePort = ''port''"
definition ProxyDevicePrefix :: string where "ProxyDevicePrefix = ''proxy''"

record ProxyDevice =
  pd_Project :: string
  pd_Instance :: string
  pd_Source :: string
  pd_Uid :: int
  pd_Gid :: int
  pd_Mode :: string
  pd_deviceName :: string
  pd_target :: string
  pd_typ :: string
  pd_listener :: "nat option"

definition NewProxyDevice :: "string \<Rightarrow> string \<Rightarrow> string \<Rightarrow> int \<Rightarrow> int \<Rightarrow> string \<Rightarrow> ProxyDevice" where
  "NewProxyDevice project inst source uid gid mode =
     \<lparr>pd_Project = project, pd_Instance = inst, pd_Source = source, pd_Uid = uid, pd_Gid = gid, pd_Mode = mode,
      pd_deviceName = [], pd_target = [], pd_typ = [], pd_listener = None\<rparr>"

definition pd_ID :: "ProxyDevice \<Rightarrow> string" where
  "pd_ID p = pd_Project p @ ''/'' @ pd_Instance p @ ''/'' @ pd_deviceName p"

definition pd_String :: "ProxyDevice \<Rightarrow> string" where
  "pd_String p = pd_Source p @ '' => '' @ pd_target p"

datatype proxy_error =
    BadSource
  | NoPort
  | NotConnected
  | NoProject
  | EmptyInstance
  | NoInstance
  | DeviceExists
  | NoDevice
  | NotUpdated
  | CommandFailed

text \<open>The host: literal addresses, name lookup, free ports, listening, and the clock with random letters.\<close>

record proxy_host =
  ph_IsIPAddress :: "string \<Rightarrow> bool"
  ph_LookupHost :: "string \<Rightarrow> string list option"
  ph_GetFreePort :: "nat option"
  ph_Listen :: "nat option"
  ph_stamp :: string

definition JoinHostPort :: "string \<Rightarrow> string \<Rightarrow> string" where
  "JoinHostPort host port =
     (if CHR '':'' \<in> set host then ''['' @ host @ '']:'' @ port else host @ '':'' @ port)"

definition fixSource :: "proxy_host \<Rightarrow> string \<Rightarrow> string option" where
  "fixSource h source =
     (let source = (if CHR '':'' \<in> set source then source else ''127.0.0.1:'' @ source)
      in case split_host_port source of
           None \<Rightarrow> None
         | Some (addr, port) \<Rightarrow>
             if ph_IsIPAddress h addr then Some (JoinHostPort addr port)
             else (case ph_LookupHost h addr of
                     None \<Rightarrow> None
                   | Some [] \<Rightarrow> None
                   | Some (ip # _) \<Rightarrow> Some (JoinHostPort ip port)))"

text \<open>The common end of the three operations that add a device: query, check, update.\<close>

definition add_device ::
  "'s device_api \<Rightarrow> string \<Rightarrow> string \<Rightarrow> string \<Rightarrow> device \<Rightarrow> 's \<Rightarrow> proxy_error + 's" where
  "add_device da scope inst name dev s =
     (case da_GetInstance da scope inst s of
        None \<Rightarrow> Inl NoInstance
      | Some (iname, devs, etag) \<Rightarrow>
          if Mapping.lookup devs name \<noteq> None then Inl DeviceExists
          else (case da_UpdateInstance da scope iname (Mapping.update name dev devs) etag s of
                  None \<Rightarrow> Inl NotUpdated
                | Some s \<Rightarrow> Inr s))"

text \<open>The common middle of the operations that remove one; the device it had is returned.\<close>

definition remove_device ::
  "'s device_api \<Rightarrow> string \<Rightarrow> string \<Rightarrow> string \<Rightarrow> 's \<Rightarrow> proxy_error + string \<times> device \<times> 's" where
  "remove_device da scope inst name s =
     (case da_GetInstance da scope inst s of
        None \<Rightarrow> Inl NoInstance
      | Some (iname, devs, etag) \<Rightarrow>
          (case Mapping.lookup devs name of
             None \<Rightarrow> Inl NoDevice
           | Some dev \<Rightarrow>
               (case da_UpdateInstance da scope iname (Mapping.delete name devs) etag s of
                  None \<Rightarrow> Inl NotUpdated
                | Some s \<Rightarrow> Inr (iname, dev, s))))"

text \<open>The entries of the three kinds of devices.\<close>

definition socket_entry :: "ProxyDevice \<Rightarrow> device" where
  "socket_entry p = Mapping.of_alist
     [(''type'', ''proxy''), (''connect'', ''unix:'' @ pd_Source p), (''listen'', ''unix:'' @ pd_target p),
      (''bind'', ''instance''), (''mode'', pd_Mode p), (''uid'', itoa (pd_Uid p)), (''gid'', itoa (pd_Gid p))]"

definition port_entry :: "ProxyDevice \<Rightarrow> device" where
  "port_entry p = Mapping.of_alist
     [(''type'', ''proxy''), (''connect'', ''tcp:'' @ pd_Source p), (''listen'', ''tcp:'' @ pd_target p), (''bind'', ''host'')]"

definition reverse_entry :: "ProxyDevice \<Rightarrow> device" where
  "reverse_entry p = Mapping.of_alist
     [(''type'', ''proxy''), (''connect'', ''tcp:'' @ pd_target p), (''listen'', ''tcp:'' @ pd_Source p), (''bind'', ''instance'')]"

text \<open>The result of adding: the target or an error, with the device, the client and the server after it.\<close>

type_synonym 's added = "(proxy_error + string) \<times> ProxyDevice \<times> client \<times> 's"

definition added_result :: "ProxyDevice \<Rightarrow> client \<Rightarrow> 's \<Rightarrow> proxy_error + 's \<Rightarrow> 's added" where
  "added_result p cl s r = (case r of Inl e \<Rightarrow> (Inl e, p, cl, s) | Inr s' \<Rightarrow> (Inr (pd_target p), p, cl, s'))"

text \<open>\<open>AddSocket\<close> asks the connection as it is: no project is selected.\<close>

definition AddSocket :: "'s device_api \<Rightarrow> proxy_host \<Rightarrow> ProxyDevice \<Rightarrow> client \<Rightarrow> 's \<Rightarrow> 's added" where
  "AddSocket da h p cl s =
     (let p = p\<lparr>pd_typ := ProxyDeviceSocket, pd_deviceName := ProxyDevicePrefix @ ''-socket-'' @ ph_stamp h\<rparr>;
          p = p\<lparr>pd_target := path_Join [''/tmp'', pd_deviceName p @ ''.sock'']\<rparr>
      in added_result p cl s (add_device da (cl_scope cl) (pd_Instance p) (pd_deviceName p) (socket_entry p) s))"

definition AddPort :: "'s device_api \<Rightarrow> proxy_host \<Rightarrow> ProxyDevice \<Rightarrow> client \<Rightarrow> 's \<Rightarrow> 's added" where
  "AddPort da h p cl s =
     (let p = p\<lparr>pd_typ := ProxyDevicePort\<rparr>
      in case fixSource h (pd_Source p) of
           None \<Rightarrow> (Inl BadSource, p, cl, s)
         | Some source \<Rightarrow>
             (let p = p\<lparr>pd_Source := source\<rparr>
              in case ph_GetFreePort h of
                   None \<Rightarrow> (Inl NoPort, p, cl, s)
                 | Some port \<Rightarrow>
                     (let p = p\<lparr>pd_deviceName := ProxyDevicePrefix @ ''-port-'' @ show_nat port,
                                pd_target := ''127.0.0.1:'' @ show_nat port\<rparr>
                      in case client_UseProject da (pd_Project p) cl s of
                           None \<Rightarrow> (Inl NoProject, p, cl, s)
                         | Some cl \<Rightarrow>
                             added_result p cl s
                               (add_device da (cl_scope cl) (pd_Instance p) (pd_deviceName p) (port_entry p) s))))"

definition AddReversePort :: "'s device_api \<Rightarrow> proxy_host \<Rightarrow> ProxyDevice \<Rightarrow> client \<Rightarrow> 's \<Rightarrow> 's added" where
  "AddReversePort da h p cl s =
     (let p = p\<lparr>pd_typ := ProxyDevicePort\<rparr>
      in case fixSource h (pd_Source p) of
           None \<Rightarrow> (Inl BadSource, p, cl, s)
         | Some source \<Rightarrow>
             (let p = p\<lparr>pd_Source := source\<rparr>
              in case ph_Listen h of
                   None \<Rightarrow> (Inl NoPort, p, cl, s)
                 | Some port \<Rightarrow>
                     (let p = p\<lparr>pd_listener := Some port,
                                pd_deviceName := ProxyDevicePrefix @ ''-reverse-port-'' @ show_nat port,
                                pd_target := ''127.0.0.1:'' @ show_nat port\<rparr>
                      in case client_UseProject da (pd_Project p) cl s of
                           None \<Rightarrow> (Inl NoProject, p, cl, s)
                         | Some cl \<Rightarrow>
                             added_result p cl s
                               (add_device da (cl_scope cl) (pd_Instance p) (pd_deviceName p) (reverse_entry p) s))))"

text \<open>
  The result of a removal: the error if any, the client and the server after it, the directories removed
  on the host and the listeners that were closed.
\<close>

record 's removed =
  rm_error :: "proxy_error option"
  rm_client :: client
  rm_state :: 's
  rm_dirs :: "string list"
  rm_closed :: "nat list"

definition RemoveSocket :: "'s device_api \<Rightarrow> ProxyDevice \<Rightarrow> client \<Rightarrow> 's \<Rightarrow> 's removed" where
  "RemoveSocket da p cl s =
     (case client_Connect da cl s of
        None \<Rightarrow> \<lparr>rm_error = Some NotConnected, rm_client = cl, rm_state = s, rm_dirs = [], rm_closed = []\<rparr>
      | Some cl \<Rightarrow>
          (case remove_device da (cl_scope cl) (pd_Instance p) (pd_deviceName p) s of
             Inl e \<Rightarrow> \<lparr>rm_error = Some e, rm_client = cl, rm_state = s, rm_dirs = [], rm_closed = []\<rparr>
           | Inr (iname, dev, s) \<Rightarrow>
               (let source = trim_prefix (info_get dev ''connect'') ''unix:'';
                    target = trim_prefix (info_get dev ''listen'') ''unix:''
                in case client_Exec da cl (simple_exec iname (''rm -f '' @ target) True) s of
                     (s, ret, err) \<Rightarrow>
                       \<lparr>rm_error = (if ret \<noteq> 0 \<and> err then Some CommandFailed else None), rm_client = cl, rm_state = s,
                        rm_dirs = [path_Dir source], rm_closed = []\<rparr>)))"

definition RemovePort :: "'s device_api \<Rightarrow> ProxyDevice \<Rightarrow> client \<Rightarrow> 's \<Rightarrow> 's removed" where
  "RemovePort da p cl s =
     (case client_Connect da cl s of
        None \<Rightarrow> \<lparr>rm_error = Some NotConnected, rm_client = cl, rm_state = s, rm_dirs = [], rm_closed = []\<rparr>
      | Some cl \<Rightarrow>
          (let closed = (case pd_listener p of None \<Rightarrow> [] | Some l \<Rightarrow> [l])
           in if pd_Instance p = []
              then \<lparr>rm_error = Some EmptyInstance, rm_client = cl, rm_state = s, rm_dirs = [], rm_closed = closed\<rparr>
              else (case client_UseProject da (pd_Project p) cl s of
                      None \<Rightarrow> \<lparr>rm_error = Some NoProject, rm_client = cl, rm_state = s, rm_dirs = [], rm_closed = closed\<rparr>
                    | Some cl \<Rightarrow>
                        (case remove_device da (cl_scope cl) (pd_Instance p) (pd_deviceName p) s of
                           Inl e \<Rightarrow> \<lparr>rm_error = Some e, rm_client = cl, rm_state = s, rm_dirs = [], rm_closed = closed\<rparr>
                         | Inr (_, _, s) \<Rightarrow> \<lparr>rm_error = None, rm_client = cl, rm_state = s, rm_dirs = [], rm_closed = closed\<rparr>))))"

definition pd_Shutdown :: "'s device_api \<Rightarrow> ProxyDevice \<Rightarrow> client \<Rightarrow> 's \<Rightarrow> 's removed" where
  "pd_Shutdown da p cl s =
     (if pd_typ p = ProxyDeviceSocket then RemoveSocket da p cl s
      else if pd_typ p = ProxyDevicePort then RemovePort da p cl s
      else \<lparr>rm_error = None, rm_client = cl, rm_state = s, rm_dirs = [], rm_closed = []\<rparr>)"

subsection \<open>Devices left over\<close>

definition DeleteInstanceDevice ::
  "'s device_api \<Rightarrow> client \<Rightarrow> string \<Rightarrow> string \<Rightarrow> 's \<Rightarrow> proxy_error option \<times> 's \<times> string list" where
  "DeleteInstanceDevice da cl inst name s =
     (if \<not> has_prefix name ProxyDevicePrefix then (None, s, [])
      else (case remove_device da (cl_scope cl) inst name s of
              Inl e \<Rightarrow> (Some e, s, [])
            | Inr (iname, dev, s) \<Rightarrow>
                (let dirs = (case cut_prefix (info_get dev ''connect'') ''unix:'' of
                               Some source \<Rightarrow> [path_Dir source] | None \<Rightarrow> [])
                 in case cut_prefix (info_get dev ''listen'') ''unix:'' of
                      None \<Rightarrow> (None, s, dirs)
                    | Some target \<Rightarrow>
                        (case client_Exec da cl (simple_exec iname (''rm -f '' @ target) True) s of
                           (s, ret, err) \<Rightarrow> (if ret \<noteq> 0 \<and> err then Some CommandFailed else None, s, dirs)))))"

text \<open>An error is logged and the loops go on.\<close>

fun clean_devices :: "'s device_api \<Rightarrow> client \<Rightarrow> string \<Rightarrow> string list \<Rightarrow> 's \<Rightarrow> 's \<times> string list" where
  "clean_devices da cl inst [] s = (s, [])"
| "clean_devices da cl inst (d # ds) s =
     (if has_prefix d ProxyDevicePrefix
      then (case DeleteInstanceDevice da cl inst d s of
              (_, s, dirs) \<Rightarrow> (case clean_devices da cl inst ds s of (s, dirs') \<Rightarrow> (s, dirs @ dirs')))
      else clean_devices da cl inst ds s)"

fun clean_instances :: "'s device_api \<Rightarrow> client \<Rightarrow> (string \<times> string list) list \<Rightarrow> 's \<Rightarrow> 's \<times> string list" where
  "clean_instances da cl [] s = (s, [])"
| "clean_instances da cl ((inst, ds) # is) s =
     (case clean_devices da cl inst ds s of
        (s, dirs) \<Rightarrow> (case clean_instances da cl is s of (s, dirs') \<Rightarrow> (s, dirs @ dirs')))"

definition cleanLeftoverProxyDevices :: "'s device_api \<Rightarrow> 's \<Rightarrow> ('s \<times> string list) option" where
  "cleanLeftoverProxyDevices da s =
     (case client_Connect da \<lparr>cl_project = [], cl_scope = []\<rparr> s of
        None \<Rightarrow> None
      | Some cl \<Rightarrow> map_option (\<lambda>is. clean_instances da cl is s) (da_GetInstancesAllProjects da s))"

subsection \<open>The registry\<close>

type_synonym 'd registry = "(string, 'd) mapping"

definition AddDevice :: "('d \<Rightarrow> string) \<Rightarrow> 'd \<Rightarrow> 'd registry \<Rightarrow> 'd registry" where
  "AddDevice device_id d r = Mapping.update (device_id d) d r"

definition RemoveDevice :: "('d \<Rightarrow> string) \<Rightarrow> 'd \<Rightarrow> 'd registry \<Rightarrow> 'd registry \<times> bool" where
  "RemoveDevice device_id d r =
     (case Mapping.lookup r (device_id d) of
        Some _ \<Rightarrow> (Mapping.delete (device_id d) r, True)
      | None \<Rightarrow> (r, False))"

definition registry_Count :: "'d registry \<Rightarrow> nat" where
  "registry_Count r = Mapping.size r"

text \<open>
  The loop of \<open>ShutdownAllDevices\<close> over the identifiers that were copied: whether the context is done and
  what the registry holds may differ from one round to the next. The devices are returned in the order in
  which they are shut down, with whether the context ended the loop.
\<close>

fun shutdown_loop :: "(nat \<Rightarrow> bool) \<Rightarrow> (nat \<Rightarrow> 'd registry) \<Rightarrow> nat \<Rightarrow> string list \<Rightarrow> 'd list \<times> bool" where
  "shutdown_loop ctx_done reg i [] = ([], False)"
| "shutdown_loop ctx_done reg i (x # xs) =
     (if ctx_done i then ([], True)
      else (case shutdown_loop ctx_done reg (Suc i) xs of
              (ds, e) \<Rightarrow> (case Mapping.lookup (reg i) x of Some d \<Rightarrow> (d # ds, e) | None \<Rightarrow> (ds, e))))"

text \<open>The copy of the identifiers is in some order.\<close>

definition ShutdownAllDevices ::
  "(string set \<Rightarrow> string list) \<Rightarrow> (nat \<Rightarrow> bool) \<Rightarrow> (nat \<Rightarrow> 'd registry) \<Rightarrow> 'd registry \<Rightarrow> 'd list \<times> bool" where
  "ShutdownAllDevices order ctx_done reg r = shutdown_loop ctx_done reg 0 (order (Mapping.keys r))"

section \<open>What Incus promises\<close>

text \<open>
  A project query answers with the project of that name; an instance has the name it is asked by; an
  update that is accepted sets the devices of that instance and of no other; a command in an instance
  does not change the devices of instances.
\<close>

definition instance_store :: "'s device_api \<Rightarrow> bool" where
  "instance_store da \<longleftrightarrow>
     (\<forall>p s q. da_GetProject da p s = Some q \<longrightarrow> q = p) \<and>
     (\<forall>p n s i d e. da_GetInstance da p n s = Some (i, d, e) \<longrightarrow> i = n) \<and>
     (\<forall>p n d e s s'. da_UpdateInstance da p n d e s = Some s' \<longrightarrow>
        (\<exists>e'. da_GetInstance da p n s' = Some (n, d, e')) \<and>
        (\<forall>p' n'. (p', n') \<noteq> (p, n) \<longrightarrow> da_GetInstance da p' n' s' = da_GetInstance da p' n' s)) \<and>
     (\<forall>p i x s p' n'. da_GetInstance da p' n' (fst (da_Exec da p i x s)) = da_GetInstance da p' n' s)"

lemma instance_storeD:
  assumes "instance_store da"
  shows "da_GetProject da p s = Some q \<Longrightarrow> q = p"
    and "da_GetInstance da p n s = Some (i, d, e) \<Longrightarrow> i = n"
    and "da_UpdateInstance da p n d e s = Some s' \<Longrightarrow> \<exists>e'. da_GetInstance da p n s' = Some (n, d, e')"
    and "da_UpdateInstance da p n d e s = Some s' \<Longrightarrow> (p', n') \<noteq> (p, n) \<Longrightarrow> da_GetInstance da p' n' s' = da_GetInstance da p' n' s"
    and "da_Exec da p i x s = (s', out) \<Longrightarrow> da_GetInstance da p' n' s' = da_GetInstance da p' n' s"
proof -
  note a = assms [unfolded instance_store_def]
  show "da_GetProject da p s = Some q \<Longrightarrow> q = p" using a by simp
  show "da_GetInstance da p n s = Some (i, d, e) \<Longrightarrow> i = n" using a by metis
  show "da_UpdateInstance da p n d e s = Some s' \<Longrightarrow> \<exists>e'. da_GetInstance da p n s' = Some (n, d, e')" using a by blast
  show "da_UpdateInstance da p n d e s = Some s' \<Longrightarrow> (p', n') \<noteq> (p, n) \<Longrightarrow> da_GetInstance da p' n' s' = da_GetInstance da p' n' s"
    using a by blast
  show "da_Exec da p i x s = (s', out) \<Longrightarrow> da_GetInstance da p' n' s' = da_GetInstance da p' n' s" using a by (metis fst_conv)
qed

text \<open>A client as \<open>UseProject\<close> leaves it: the connection is in the remembered project.\<close>

definition wf_client :: "client \<Rightarrow> bool" where
  "wf_client cl \<longleftrightarrow> (if cl_project cl = [] then cl_scope cl = ''default'' else cl_scope cl = cl_project cl)"

section \<open>Lemmas\<close>

lemma delete_update_fresh: "Mapping.lookup m k = None \<Longrightarrow> Mapping.delete k (Mapping.update k v m) = m"
  by (rule mapping_eqI) (metis lookup_delete lookup_delete_neq lookup_update_neq)

lemma UseProject_scope:
  assumes "instance_store da" "wf_client cl" "client_UseProject da project cl s = Some cl'"
  shows "wf_client cl' \<and> cl_scope cl' = (if project = [] then ''default'' else project) \<and> cl_project cl' = cl_scope cl'"
  using assms instance_storeD(1) [OF assms(1)]
  by (fastforce simp: client_UseProject_def wf_client_def Let_def split: if_splits option.splits)

lemma add_device_effect:
  assumes "instance_store da" "add_device da scope inst name dev s = Inr s'"
  shows "\<exists>devs e e'. da_GetInstance da scope inst s = Some (inst, devs, e) \<and> Mapping.lookup devs name = None \<and>
    da_GetInstance da scope inst s' = Some (inst, Mapping.update name dev devs, e')"
  using assms instance_storeD(2,3) [OF assms(1)]
  by (fastforce simp: add_device_def split: option.splits if_splits prod.splits)

lemma remove_device_effect:
  assumes "instance_store da" "remove_device da scope inst name s = Inr (iname, dev, s')"
  shows "iname = inst \<and> (\<exists>devs e e'. da_GetInstance da scope inst s = Some (inst, devs, e) \<and>
    da_GetInstance da scope inst s' = Some (inst, Mapping.delete name devs, e')) \<and>
    (\<forall>p n. (p, n) \<noteq> (scope, inst) \<longrightarrow> da_GetInstance da p n s' = da_GetInstance da p n s)"
proof -
  obtain i devs etag where g: "da_GetInstance da scope inst s = Some (i, devs, etag)"
    and u: "da_UpdateInstance da scope i (Mapping.delete name devs) etag s = Some s'" and "iname = i"
    using assms(2) by (auto simp: remove_device_def split: option.splits)
  moreover have "i = inst" using instance_storeD(2) [OF assms(1) g] .
  ultimately show ?thesis
    using instance_storeD(3,4) [OF assms(1), of scope inst "Mapping.delete name devs" etag s s'] by auto
qed

text \<open>The three operations that add a device.\<close>

lemma added_device:
  assumes "instance_store da" "wf_client cl"
    and "add \<in> {AddSocket, AddPort, AddReversePort}" "add da h p cl s = (Inr target, p', cl', s')"
  shows "wf_client cl' \<and> pd_Instance p' = pd_Instance p \<and> pd_Project p' = pd_Project p \<and>
    (pd_typ p' = ProxyDeviceSocket \<and> cl' = cl \<or>
     pd_typ p' = ProxyDevicePort \<and> cl_project cl' = cl_scope cl' \<and>
       cl_scope cl' = (if pd_Project p = [] then ''default'' else pd_Project p)) \<and>
    (\<exists>devs dev e e'. da_GetInstance da (cl_scope cl') (pd_Instance p) s = Some (pd_Instance p, devs, e) \<and>
       Mapping.lookup devs (pd_deviceName p') = None \<and>
       da_GetInstance da (cl_scope cl') (pd_Instance p) s' =
         Some (pd_Instance p, Mapping.update (pd_deviceName p') dev devs, e'))"
proof -
  have *: "added_result q cl1 s r = (Inr target, p', cl', s') \<longleftrightarrow> r = Inr s' \<and> target = pd_target q \<and> p' = q \<and> cl' = cl1" for q cl1 r
    by (auto simp: added_result_def split: sum.splits)
  consider (Socket) "add = AddSocket" | (Port) "add = AddPort" | (Reverse) "add = AddReversePort" using assms(3) by blast
  then show ?thesis
  proof cases
    case Socket
    with assms(4) have "add_device da (cl_scope cl) (pd_Instance p) (pd_deviceName p') (socket_entry p') s = Inr s'"
      and "pd_typ p' = ProxyDeviceSocket \<and> cl' = cl \<and> pd_Instance p' = pd_Instance p \<and> pd_Project p' = pd_Project p"
      by (auto simp: AddSocket_def Let_def *)
    with assms(2) add_device_effect [OF assms(1), of "cl_scope cl" "pd_Instance p" "pd_deviceName p'" "socket_entry p'" s s']
    show ?thesis by auto
  next
    case Port
    with assms(4) have "add_device da (cl_scope cl') (pd_Instance p) (pd_deviceName p') (port_entry p') s = Inr s'"
      and "client_UseProject da (pd_Project p) cl s = Some cl'"
      and "pd_typ p' = ProxyDevicePort \<and> pd_Instance p' = pd_Instance p \<and> pd_Project p' = pd_Project p"
      by (auto simp: AddPort_def Let_def * split: option.splits)
    with add_device_effect [OF assms(1), of "cl_scope cl'" "pd_Instance p" "pd_deviceName p'" "port_entry p'" s s']
      UseProject_scope [OF assms(1,2), of "pd_Project p" s cl']
    show ?thesis by auto
  next
    case Reverse
    with assms(4) have "add_device da (cl_scope cl') (pd_Instance p) (pd_deviceName p') (reverse_entry p') s = Inr s'"
      and "client_UseProject da (pd_Project p) cl s = Some cl'"
      and "pd_typ p' = ProxyDevicePort \<and> pd_Instance p' = pd_Instance p \<and> pd_Project p' = pd_Project p"
      by (auto simp: AddReversePort_def Let_def * split: option.splits)
    with add_device_effect [OF assms(1), of "cl_scope cl'" "pd_Instance p" "pd_deviceName p'" "reverse_entry p'" s s']
      UseProject_scope [OF assms(1,2), of "pd_Project p" s cl']
    show ?thesis by auto
  qed
qed

lemma shutdown_device:
  assumes "instance_store da" "pd_typ p \<in> {ProxyDeviceSocket, ProxyDevicePort}" "pd_Instance p \<noteq> []"
    and "pd_typ p = ProxyDevicePort \<Longrightarrow> cl_project cl = (if pd_Project p = [] then ''default'' else pd_Project p)"
  shows "rm_error (pd_Shutdown da p cl s) = Some NotConnected \<and> rm_state (pd_Shutdown da p cl s) = s \<or>
    (case remove_device da ''default'' (pd_Instance p) (pd_deviceName p) s of
       Inl e \<Rightarrow> rm_error (pd_Shutdown da p cl s) = Some e \<and> rm_state (pd_Shutdown da p cl s) = s
     | Inr (i, dev, s') \<Rightarrow> rm_error (pd_Shutdown da p cl s) \<in> {None, Some CommandFailed} \<and>
         (\<forall>q n. da_GetInstance da q n (rm_state (pd_Shutdown da p cl s)) = da_GetInstance da q n s'))"
proof (cases "pd_typ p = ProxyDeviceSocket")
  case True
  then show ?thesis
    by (auto simp: pd_Shutdown_def RemoveSocket_def client_Connect_def client_Exec_def Let_def instance_storeD(5) [OF assms(1)]
        split: sum.splits prod.splits option.splits)
next
  case False
  with assms have "pd_typ p = ProxyDevicePort" "cl_project cl = (if pd_Project p = [] then ''default'' else pd_Project p)" by auto
  with False assms(3) show ?thesis
    by (auto simp: pd_Shutdown_def RemovePort_def client_Connect_def client_UseProject_def Let_def split: sum.splits prod.splits)
qed

text \<open>\<open>Shutdown\<close> of a device that was added looks in the default project.\<close>

lemma added_shutdown:
  assumes "instance_store da" "wf_client cl" "pd_Instance p \<noteq> []"
    and "add \<in> {AddSocket, AddPort, AddReversePort}" "add da h p cl s = (Inr target, p', cl', s')"
    and "r = pd_Shutdown da p' cl' s'"
  shows "rm_error r = Some NotConnected \<and> rm_state r = s' \<or>
    (case remove_device da ''default'' (pd_Instance p) (pd_deviceName p') s' of
       Inl e \<Rightarrow> rm_error r = Some e \<and> rm_state r = s'
     | Inr (i, dev, s2) \<Rightarrow> rm_error r \<in> {None, Some CommandFailed} \<and>
         (\<forall>q n. da_GetInstance da q n (rm_state r) = da_GetInstance da q n s2))"
proof -
  note added = added_device [OF assms(1,2,4,5)]
  have "ProxyDeviceSocket \<noteq> ProxyDevicePort" by (simp add: ProxyDeviceSocket_def ProxyDevicePort_def)
  then have c: "pd_typ p' \<in> {ProxyDeviceSocket, ProxyDevicePort}" "pd_Instance p' \<noteq> []"
    "pd_typ p' = ProxyDevicePort \<Longrightarrow> cl_project cl' = (if pd_Project p' = [] then ''default'' else pd_Project p')"
    using added assms(3) by auto
  have i: "pd_Instance p' = pd_Instance p" using added by blast
  show ?thesis unfolding assms(6) by (rule shutdown_device [OF assms(1) c, of s', unfolded i])
qed

section \<open>Properties\<close>


text \<open>
  A device that was added in another project stays: \<open>Shutdown\<close> connects anew, which puts the
  connection into the default project, and the project that is still remembered keeps \<open>UseProject\<close> from
  selecting it again. The device is then looked for in the default project, and the instance that has it
  is not touched.
\<close>

theorem proxy_device_leaks:
  assumes "instance_store da" "wf_client cl" "pd_Instance p \<noteq> []"
    and "add \<in> {AddSocket, AddPort, AddReversePort}" "add da h p cl s = (Inr target, p', cl', s')"
    and "cl_scope cl' \<noteq> ''default''"
  shows "\<exists>devs e dev. da_GetInstance da (cl_scope cl') (pd_Instance p) (rm_state (pd_Shutdown da p' cl' s')) =
      Some (pd_Instance p, devs, e) \<and> Mapping.lookup devs (pd_deviceName p') = Some dev"
proof -
  note added = added_device [OF assms(1,2,4,5)]
  let ?get = "da_GetInstance da (cl_scope cl') (pd_Instance p)"
  have "?get (rm_state (pd_Shutdown da p' cl' s')) = ?get s'"
  proof (cases "remove_device da ''default'' (pd_Instance p) (pd_deviceName p') s'")
    case (Inl x)
    then show ?thesis using added_shutdown [OF assms(1-5) refl] by auto
  next
    case (Inr r)
    obtain j d s2 where r: "r = (j, d, s2)" by (cases r)
    with remove_device_effect [OF assms(1), of "''default''" "pd_Instance p" "pd_deviceName p'" s' j d s2] Inr assms(6)
    have "?get s2 = ?get s'" by auto
    with added_shutdown [OF assms(1-5) refl] Inr r show ?thesis by auto
  qed
  with added show ?thesis by auto
qed

text \<open>A server that holds the devices in a map, for concrete runs.\<close>

definition memory_store :: "(string \<times> string \<Rightarrow> devices option) device_api" where
  "memory_store =
     \<lparr>da_Connect = (\<lambda>_. True), da_GetProject = (\<lambda>p _. Some p),
      da_GetInstance = (\<lambda>p n s. map_option (\<lambda>d. (n, d, [])) (s (p, n))),
      da_UpdateInstance = (\<lambda>p n d e s. if s (p, n) = None then None else Some (s((p, n) \<mapsto> d))),
      da_Exec = (\<lambda>p i x s. (s, Some \<lparr>out_return = 0, out_stdout = [], out_stderr = []\<rparr>)),
      da_GetInstancesAllProjects = (\<lambda>s. Some [(''web'', [''eth0'', ''proxy-port-1''])])\<rparr>"

lemma memory_store_ok: "instance_store memory_store"
  by (auto simp: instance_store_def memory_store_def split: if_splits)

definition bare_instance :: "string \<Rightarrow> string \<times> string \<Rightarrow> devices option" where
  "bare_instance project = (\<lambda>k. if k = (project, ''web'') then Some Mapping.empty else None)"

definition plain_host :: proxy_host where
  "plain_host = \<lparr>ph_IsIPAddress = (\<lambda>_. True), ph_LookupHost = (\<lambda>_. None), ph_GetFreePort = Some 9, ph_Listen = Some 8, ph_stamp = ''a''\<rparr>"

lemma bare_port_added:
  assumes "project \<noteq> []"
  shows "\<exists>p' s'. AddPort memory_store plain_host (NewProxyDevice project ''web'' ''1.2.3.4:80'' 0 0 [])
      \<lparr>cl_project = project, cl_scope = project\<rparr> (bare_instance project) =
    (Inr ''127.0.0.1:9'', p', \<lparr>cl_project = project, cl_scope = project\<rparr>, s')"
proof -
  have "fixSource plain_host ''1.2.3.4:80'' = Some ''1.2.3.4:80''" by code_simp
  moreover have "show_nat 9 = ''9''" by code_simp
  moreover have "ph_GetFreePort plain_host = Some 9" by (simp add: plain_host_def)
  ultimately show ?thesis using assms
    by (simp add: AddPort_def Let_def NewProxyDevice_def client_UseProject_def added_result_def add_device_def
        memory_store_def bare_instance_def)
qed


theorem proxy_device_leaks_witness:
  "\<exists>t p' cl' s'. AddPort memory_store plain_host (NewProxyDevice ''lab'' ''web'' ''1.2.3.4:80'' 0 0 [])
      \<lparr>cl_project = ''lab'', cl_scope = ''lab''\<rparr> (bare_instance ''lab'') = (Inr t, p', cl', s') \<and>
    (\<exists>devs e dev. da_GetInstance memory_store ''lab'' ''web'' (rm_state (pd_Shutdown memory_store p' cl' s')) = Some (''web'', devs, e) \<and>
      Mapping.lookup devs (pd_deviceName p') = Some dev)"
proof -
  let ?p = "NewProxyDevice ''lab'' ''web'' ''1.2.3.4:80'' 0 0 []" and ?cl = "\<lparr>cl_project = ''lab'', cl_scope = ''lab''\<rparr>"
  obtain p' s' where a: "AddPort memory_store plain_host ?p ?cl (bare_instance ''lab'') = (Inr ''127.0.0.1:9'', p', ?cl, s')"
    using bare_port_added [of "''lab''"] by auto
  have "wf_client ?cl" "pd_Instance ?p \<noteq> []" "AddPort \<in> {AddSocket, AddPort, AddReversePort}" "cl_scope ?cl \<noteq> ''default''"
    by (simp_all add: wf_client_def NewProxyDevice_def)
  from proxy_device_leaks [OF memory_store_ok this(1-3) a this(4)] a show ?thesis by (auto simp: NewProxyDevice_def)
qed

text \<open>The devices of an instance; what the cleanup may do to them; that it is done with a device.\<close>

definition devices_of :: "'s device_api \<Rightarrow> string \<Rightarrow> string \<Rightarrow> 's \<Rightarrow> devices option" where
  "devices_of da p n s = map_option (\<lambda>(i, d, e). d) (da_GetInstance da p n s)"

fun fewer :: "devices option \<Rightarrow> devices option \<Rightarrow> bool" where
  "fewer None b \<longleftrightarrow> b = None"
| "fewer (Some d) b \<longleftrightarrow>
     (\<exists>d'. b = Some d' \<and>
       (\<forall>k. Mapping.lookup d' k = Mapping.lookup d k \<or> has_prefix k ProxyDevicePrefix \<and> Mapping.lookup d' k = None))"

definition trimmed :: "'s device_api \<Rightarrow> 's \<Rightarrow> 's \<Rightarrow> bool" where
  "trimmed da s s' \<longleftrightarrow>
     (\<forall>n. fewer (devices_of da ''default'' n s) (devices_of da ''default'' n s')) \<and>
     (\<forall>p n. p \<noteq> ''default'' \<longrightarrow> devices_of da p n s' = devices_of da p n s)"

fun lacks :: "string \<Rightarrow> devices option \<Rightarrow> bool" where
  "lacks k None \<longleftrightarrow> True"
| "lacks k (Some d) \<longleftrightarrow> Mapping.lookup d k = None"

lemma fewer_refl [simp]: "fewer a a"
  by (cases a) auto

lemma fewer_trans: "fewer a b \<Longrightarrow> fewer b c \<Longrightarrow> fewer a c"
  by (cases a; cases b) (simp_all, metis)

lemma fewer_lacks: "fewer a b \<Longrightarrow> lacks k a \<Longrightarrow> lacks k b"
  by (cases a) (auto, metis)

lemma fewer_delete: "has_prefix k ProxyDevicePrefix \<Longrightarrow> fewer (Some d) (Some (Mapping.delete k d))"
  by (simp, metis lookup_delete lookup_delete_neq)

lemma trimmed_refl [simp]: "trimmed da s s"
  by (simp add: trimmed_def)

lemma trimmed_trans: "trimmed da s s' \<Longrightarrow> trimmed da s' s'' \<Longrightarrow> trimmed da s s''"
  unfolding trimmed_def using fewer_trans [of "devices_of da ''default'' n s" "devices_of da ''default'' n s'" "devices_of da ''default'' n s''" for n]
  by simp

lemma trimmed_lacks: "trimmed da s s' \<Longrightarrow> lacks k (devices_of da ''default'' n s) \<Longrightarrow> lacks k (devices_of da ''default'' n s')"
  using fewer_lacks [of "devices_of da ''default'' n s" "devices_of da ''default'' n s'" k] by (simp add: trimmed_def)

text \<open>An update of an instance whose tag was just read is accepted.\<close>

definition updates_accepted :: "'s device_api \<Rightarrow> bool" where
  "updates_accepted da \<longleftrightarrow>
     (\<forall>p n i d e d' s. da_GetInstance da p n s = Some (i, d, e) \<longrightarrow> da_UpdateInstance da p i d' e s \<noteq> None)"

lemma remove_device_trimmed:
  assumes "instance_store da" "remove_device da ''default'' inst name s = Inr (i, dev, s')" "has_prefix name ProxyDevicePrefix"
  shows "trimmed da s s'" "lacks name (devices_of da ''default'' inst s')"
proof -
  obtain devs where g: "devices_of da ''default'' inst s = Some devs" "devices_of da ''default'' inst s' = Some (Mapping.delete name devs)"
    and o: "\<And>p n. (p, n) \<noteq> (''default'', inst) \<Longrightarrow> devices_of da p n s' = devices_of da p n s"
    using remove_device_effect [OF assms(1,2)] by (auto simp: devices_of_def)
  have "fewer (devices_of da ''default'' n s) (devices_of da ''default'' n s')" for n
    using o [of "''default''" n] g fewer_delete [OF assms(3), of devs] by (cases "n = inst") simp_all
  then show "trimmed da s s'" using o by (simp add: trimmed_def)
  show "lacks name (devices_of da ''default'' inst s')" using g(2) by simp
qed

lemma removed_lacks:
  assumes "updates_accepted da" "remove_device da ''default'' inst name s = Inl e"
  shows "lacks name (devices_of da ''default'' inst s)"
proof (cases "da_GetInstance da ''default'' inst s")
  case (Some x)
  obtain i devs etag where x: "x = (i, devs, etag)" by (cases x)
  have "da_UpdateInstance da ''default'' i (Mapping.delete name devs) etag s \<noteq> None"
    using assms(1) Some x unfolding updates_accepted_def by blast
  with assms(2) Some x show ?thesis by (auto simp: remove_device_def devices_of_def split: option.splits)
qed (simp add: devices_of_def)

lemma delete_result:
  assumes "instance_store da" "cl_scope cl = ''default''" "has_prefix name ProxyDevicePrefix"
    and "DeleteInstanceDevice da cl inst name s = (r, s', dirs)"
  shows "case remove_device da ''default'' inst name s of
      Inl e \<Rightarrow> s' = s | Inr (i, dev, s1) \<Rightarrow> \<forall>p n. devices_of da p n s' = devices_of da p n s1"
  using assms(2-4) instance_storeD(5) [OF assms(1)]
  by (auto simp: DeleteInstanceDevice_def client_Exec_def Let_def devices_of_def split: sum.splits option.splits prod.splits)

lemma delete_trimmed:
  assumes "instance_store da" "cl_scope cl = ''default''" "has_prefix name ProxyDevicePrefix"
    and "DeleteInstanceDevice da cl inst name s = (r, s', dirs)"
  shows "trimmed da s s'" and "updates_accepted da \<Longrightarrow> lacks name (devices_of da ''default'' inst s')"
proof -
  note res = delete_result [OF assms]
  show "trimmed da s s'"
    using res remove_device_trimmed(1) [OF assms(1) _ assms(3), of inst s]
    by (cases "remove_device da ''default'' inst name s") (auto simp: trimmed_def)
  show "updates_accepted da \<Longrightarrow> lacks name (devices_of da ''default'' inst s')"
    using res remove_device_trimmed(2) [OF assms(1) _ assms(3), of inst s] removed_lacks [of da inst name s]
    by (cases "remove_device da ''default'' inst name s") auto
qed

lemma clean_devices_trimmed:
  assumes "instance_store da" "cl_scope cl = ''default''"
  shows "clean_devices da cl inst ds s = (s', dirs) \<Longrightarrow> trimmed da s s' \<and>
    (updates_accepted da \<longrightarrow> (\<forall>k \<in> set ds. has_prefix k ProxyDevicePrefix \<longrightarrow> lacks k (devices_of da ''default'' inst s')))"
proof (induction ds arbitrary: s dirs)
  case (Cons d ds)
  show ?case
  proof (cases "has_prefix d ProxyDevicePrefix")
    case True
    obtain r s1 dirs1 where d: "DeleteInstanceDevice da cl inst d s = (r, s1, dirs1)" by (cases "DeleteInstanceDevice da cl inst d s")
    then obtain dirs2 where c: "clean_devices da cl inst ds s1 = (s', dirs2)"
      using Cons.prems True by (auto split: prod.splits)
    have t: "trimmed da s1 s'" using Cons.IH [OF c] by blast
    show ?thesis
      using Cons.IH [OF c] delete_trimmed [OF assms True d] trimmed_trans [of da s s1 s'] trimmed_lacks [OF t] by simp
  next
    case False
    with Cons show ?thesis by auto
  qed
qed simp

lemma clean_instances_trimmed:
  assumes "instance_store da" "cl_scope cl = ''default''"
  shows "clean_instances da cl is s = (s', dirs) \<Longrightarrow> trimmed da s s' \<and>
    (updates_accepted da \<longrightarrow> (\<forall>(n, ds) \<in> set is. \<forall>k \<in> set ds. has_prefix k ProxyDevicePrefix \<longrightarrow> lacks k (devices_of da ''default'' n s')))"
proof (induction "is" arbitrary: s dirs)
  case (Cons x xs)
  obtain n ds where x: "x = (n, ds)" by (cases x)
  obtain s1 dirs1 where d: "clean_devices da cl n ds s = (s1, dirs1)" by (cases "clean_devices da cl n ds s")
  then obtain dirs2 where c: "clean_instances da cl xs s1 = (s', dirs2)"
    using Cons.prems x by (auto split: prod.splits)
  have t: "trimmed da s1 s'" using Cons.IH [OF c] by blast
  show ?case
    using Cons.IH [OF c] clean_devices_trimmed [OF assms d] trimmed_trans [of da s s1 s'] trimmed_lacks [OF t] x by auto
qed simp

text \<open>
  The cleanup at the start removes the devices that a former run has left: when updates are accepted
  and the list of instances names their devices, no instance of the default project keeps a device whose
  name starts with the prefix. It removes nothing else there, and nothing in any other project: what was
  left over in other projects stays.
\<close>

theorem leftover_cleanup:
  assumes "instance_store da" "cleanLeftoverProxyDevices da s = Some (s', dirs)"
  shows "(\<forall>n. fewer (devices_of da ''default'' n s) (devices_of da ''default'' n s')) \<and>
    (\<forall>p n. p \<noteq> ''default'' \<longrightarrow> devices_of da p n s' = devices_of da p n s) \<and>
    (updates_accepted da \<longrightarrow>
      (\<forall>is n ds k. da_GetInstancesAllProjects da s = Some is \<longrightarrow> (n, ds) \<in> set is \<longrightarrow> k \<in> set ds \<longrightarrow>
        has_prefix k ProxyDevicePrefix \<longrightarrow> lacks k (devices_of da ''default'' n s')))"
proof -
  define cl where "cl = \<lparr>cl_project = [], cl_scope = ''default''\<rparr>"
  then have cl: "cl_scope cl = ''default''" by simp
  obtain xs where c: "da_GetInstancesAllProjects da s = Some xs" and run: "clean_instances da cl xs s = (s', dirs)"
    using assms(2) unfolding cl_def by (auto simp: cleanLeftoverProxyDevices_def client_Connect_def split: option.splits if_splits)
  show ?thesis using clean_instances_trimmed [OF assms(1) cl run] c by (fastforce simp: trimmed_def)
qed

theorem leftover_cleanup_witness:
  "\<exists>s' dirs. cleanLeftoverProxyDevices memory_store (bare_instance ''default'') = Some (s', dirs) \<and>
    lacks ''proxy-port-1'' (devices_of memory_store ''default'' ''web'' s')"
proof -
  have acc: "updates_accepted memory_store" by (auto simp: updates_accepted_def memory_store_def)
  obtain s' dirs where r: "cleanLeftoverProxyDevices memory_store (bare_instance ''default'') = Some (s', dirs)"
    by (cases "cleanLeftoverProxyDevices memory_store (bare_instance ''default'')")
      (auto simp: cleanLeftoverProxyDevices_def client_Connect_def memory_store_def split: prod.splits)
  have "da_GetInstancesAllProjects memory_store (bare_instance ''default'') = Some [(''web'', [''eth0'', ''proxy-port-1''])]"
    by (simp add: memory_store_def)
  moreover have "has_prefix ''proxy-port-1'' ProxyDevicePrefix" by code_simp
  ultimately show ?thesis using leftover_cleanup [OF memory_store_ok r] acc r by auto
qed

text \<open>
  \<open>ShutdownAllDevices\<close> with a context that is not done shuts down every device of the registry
  exactly once, in whatever order the identifiers are copied, when no device is added or removed meanwhile.
\<close>

theorem shutdown_all_devices:
  assumes "distinct (order (Mapping.keys r))" "set (order (Mapping.keys r)) = Mapping.keys r"
  shows "ShutdownAllDevices order (\<lambda>_. False) (\<lambda>_. r) r = (map (\<lambda>k. the (Mapping.lookup r k)) (order (Mapping.keys r)), False)"
proof -
  have "shutdown_loop (\<lambda>_. False) (\<lambda>_. r) i ks = (map (\<lambda>k. the (Mapping.lookup r k)) ks, False)"
    if "set ks \<subseteq> Mapping.keys r" for i ks
    using that by (induction ks arbitrary: i) (auto simp: keys_dom_lookup)
  then show ?thesis using assms by (simp add: ShutdownAllDevices_def)
qed

end
