(* ===== verification/Instance_Services.thy ===== *)
theory Instance_Services
  imports Auth Proxy_Device
begin

text \<open>
  Services that run a helper inside an instance: the SFTP subsystem (\<open>src/server/sftp.go\<close> with the
  helper \<open>src/cmd/sftp-server\<close>) and forwarded connections (\<open>directTCPIPStdioHandler\<close> of
  \<open>src/server/port-forward.go\<close> with the helper \<open>src/cmd/stdio-proxy\<close>), and the embedded helper
  binaries (\<open>src/server/binaryhelper\<close>). A handler is a function from the state of the connection to the
  list of what it does and the state after it; logging is left out.
\<close>

section \<open>Model\<close>

subsection \<open>Helper binaries\<close>

record EmbeddedBinary =
  eb_name :: string
  eb_arm64 :: string
  eb_amd64 :: string

text \<open>\<^const>\<open>None\<close> is a panic while the program starts.\<close>

definition NewEmbeddedBinary :: "string \<Rightarrow> string \<Rightarrow> string \<Rightarrow> EmbeddedBinary option" where
  "NewEmbeddedBinary name arm64Bytes amd64Bytes =
     (if name = [] \<or> arm64Bytes = [] \<or> amd64Bytes = [] then None
      else Some \<lparr>eb_name = name, eb_arm64 = arm64Bytes, eb_amd64 = amd64Bytes\<rparr>)"

definition normalizeArch :: "string \<Rightarrow> string option" where
  "normalizeArch arch =
     (let a = to_lower arch
      in if a \<in> set [''arm64'', ''aarch64''] then Some ''arm64''
         else if a \<in> set [''amd64'', ''x86_64'', ''x64'', ''x86-64'', ''x86''] then Some ''amd64''
         else None)"

definition BinBytes :: "EmbeddedBinary \<Rightarrow> string \<Rightarrow> string option" where
  "BinBytes b arch =
     (case normalizeArch arch of
        None \<Rightarrow> None
      | Some n \<Rightarrow> Some (if n = ''arm64'' then eb_arm64 b else eb_amd64 b))"

definition sftp_server_bin :: string where "sftp_server_bin = ''/bin/ssh2incus-sftp-server''"
definition stdio_proxy_bin :: string where "stdio_proxy_bin = ''/bin/ssh2incus-stdio-proxy''"

subsection \<open>Environment of the handlers\<close>

text \<open>
  What the handlers need beside the environment of authentication: the helper binaries, decompression and
  checksum, writing a file of an instance, the decoder of forwarding requests, the network of the host, and
  whether the client still takes the channel.
\<close>

record 'k service_env =
  sv_auth :: "'k auth_env"
  sv_sftp :: EmbeddedBinary
  sv_proxy :: EmbeddedBinary
  sv_Ungz :: "string \<Rightarrow> string option"
  sv_Md5Bytes :: "string \<Rightarrow> string"
  sv_CreateInstanceFile :: "string \<Rightarrow> string \<Rightarrow> string \<Rightarrow> string \<Rightarrow> bool"
  sv_Unmarshal :: "string \<Rightarrow> (string \<times> nat \<times> string \<times> nat) option"
  sv_Dial :: "string \<Rightarrow> bool"
  sv_Accept :: bool
  sv_ChrootSFTP :: bool
  sv_SessionID :: string

datatype service_event =
    Wrote string
  | ExitStatus int
  | Uploaded string string string string
  | Executed string InstanceExec
  | Rejected string
  | Dialed string
  | Accepted
  | Panicked

definition IsDefaultProject :: "string \<Rightarrow> bool" where
  "IsDefaultProject project \<longleftrightarrow> project = [] \<or> project = ''default''"

text \<open>\<open>UseProject\<close> of the client of a connection.\<close>

definition context_use_project :: "string \<Rightarrow> auth_state \<Rightarrow> auth_state option" where
  "context_use_project project st =
     (case as_client st of
        None \<Rightarrow> None
      | Some (a, cur) \<Rightarrow>
          map_option (\<lambda>cur. st\<lparr>as_client := Some (a, cur)\<rparr>) (use_project (api_GetProject a) project cur))"

text \<open>\<open>UploadBytes\<close> of a helper, as root and executable: the project is selected first.\<close>

definition UploadBytes :: "'k service_env \<Rightarrow> LoginUser \<Rightarrow> string \<Rightarrow> string \<Rightarrow> auth_state \<Rightarrow> bool \<times> service_event list \<times> auth_state" where
  "UploadBytes env lu dest content st =
     (case context_use_project (lu_Project (lu_core lu)) st of
        None \<Rightarrow> (False, [], st)
      | Some st \<Rightarrow>
          (case as_client st of
             None \<Rightarrow> (False, [], st)
           | Some (a, cur) \<Rightarrow>
               if sv_CreateInstanceFile env cur (lu_Instance (lu_core lu)) dest content
               then (True, [Uploaded cur (lu_Instance (lu_core lu)) dest content], st) else (False, [], st)))"

datatype deploy_error = NoInstanceFound | NoHelper | BadHelper | NoUpload | DeployPanic

text \<open>
  The part that both services share: the architecture of the instance, the helper for it, whether the
  instance has it already with the right checksum, and the upload otherwise.
\<close>

definition deploy_helper ::
  "'k service_env \<Rightarrow> int \<Rightarrow> EmbeddedBinary \<Rightarrow> string \<Rightarrow> LoginUser \<Rightarrow> api \<times> string \<Rightarrow> auth_state \<Rightarrow>
   deploy_error option \<times> service_event list \<times> auth_state" where
  "deploy_helper env now bin dest lu cl st =
     (case GetCachedInstance (fst cl) now (lu_Project (lu_core lu)) (lu_Instance (lu_core lu)) (as_caches st) (snd cl) of
        (cs, Return inst) \<Rightarrow>
          (let st = st\<lparr>as_caches := cs\<rparr>
           in case BinBytes bin (in_Architecture inst) of
                None \<Rightarrow> (Some NoHelper, [], st)
              | Some gz \<Rightarrow>
                  (case sv_Ungz env gz of
                     None \<Rightarrow> (Some BadHelper, [], st)
                   | Some content \<Rightarrow>
                       (case FileExists (fst cl) now
                               \<lparr>fe_Project = lu_Project (lu_core lu), fe_Instance = lu_Instance (lu_core lu), fe_Path = dest,
                                fe_Md5sum = sv_Md5Bytes env content, fe_ShouldCache = True\<rparr> (as_caches st) (snd cl) of
                          (cs, Return True) \<Rightarrow> (None, [], st\<lparr>as_caches := cs\<rparr>)
                        | (cs, Crash) \<Rightarrow> (Some DeployPanic, [], st\<lparr>as_caches := cs\<rparr>)
                        | (cs, _) \<Rightarrow>
                            (case UploadBytes env lu dest content (st\<lparr>as_caches := cs\<rparr>) of
                               (True, evs, st) \<Rightarrow> (None, evs, st)
                             | (False, evs, st) \<Rightarrow> (Some NoUpload, evs, st)))))
      | (cs, Fail) \<Rightarrow> (Some NoInstanceFound, [], st\<lparr>as_caches := cs\<rparr>)
      | (cs, Crash) \<Rightarrow> (Some DeployPanic, [], st\<lparr>as_caches := cs\<rparr>))"

subsection \<open>The SFTP subsystem\<close>

definition sftp_command :: "bool \<Rightarrow> InstanceUser \<Rightarrow> string \<times> string" where
  "sftp_command chroot iu =
     (let cmd = sftp_server_bin @ '' -e'';
          (home, cmd) = (if chroot \<and> iu_Uid iu \<noteq> 0 then (''/'', cmd @ '' -c'') else (iu_Dir iu, cmd))
      in (home, cmd @ '' -d '' @ iu_Dir iu))"

definition sftp_exec :: "bool \<Rightarrow> string \<Rightarrow> string \<Rightarrow> InstanceUser \<Rightarrow> InstanceExec" where
  "sftp_exec chroot session inst iu =
     (case sftp_command chroot iu of
        (home, cmd) \<Rightarrow>
          \<lparr>ie_Instance = inst, ie_Cmd = cmd,
           ie_Env = [(''USER'', iu_User iu), (''UID'', itoa (iu_Uid iu)), (''GID'', itoa (iu_Gid iu)), (''HOME'', home),
                     (''SSH_SESSION'', session)],
           ie_IsPty = False, ie_Width = 0, ie_Height = 0, ie_User = 0, ie_Group = 0, ie_Cwd = [], ie_has_Stderr = True\<rparr>)"

definition deploy_message :: "LoginUser \<Rightarrow> deploy_error \<Rightarrow> service_event list" where
  "deploy_message lu e =
     (case e of
        NoInstanceFound \<Rightarrow> [Wrote (''cannot get instance '' @ FullInstance (Some lu) @ [CHR 10]), ExitStatus 3]
      | NoHelper \<Rightarrow> [Wrote (''failed to get sftp-server binary'' @ [CHR 10]), ExitStatus 20]
      | BadHelper \<Rightarrow> [Wrote (''failed to prepare sftp-server'' @ [CHR 10]), ExitStatus 20]
      | NoUpload \<Rightarrow> [Wrote (''sftp-server is not available on '' @ FullInstance (Some lu) @ [CHR 10]), ExitStatus 255]
      | DeployPanic \<Rightarrow> [Panicked])"

text \<open>The end of the handler, when the helper is there.\<close>

definition sftp_serve ::
  "'k service_env \<Rightarrow> int \<Rightarrow> LoginUser \<Rightarrow> api \<times> string \<Rightarrow> auth_state \<Rightarrow> service_event list \<times> auth_state" where
  "sftp_serve env now lu cl st =
     (case context_instance_user now lu cl st of
        (Crash, st) \<Rightarrow> ([Panicked], st)
      | (Fail, st) \<Rightarrow> ([Wrote (''cannot get instance user '' @ lu_InstanceUser (lu_core lu) @ [CHR 10]), ExitStatus 3], st)
      | (Return iu, st) \<Rightarrow>
          (case as_client st of
             None \<Rightarrow> ([], st)
           | Some (a, cur) \<Rightarrow>
               (let e = sftp_exec (sv_ChrootSFTP env) (sv_SessionID env) (lu_Instance (lu_core lu)) iu
                in case Exec a cur e of
                     Return (ret, err, _) \<Rightarrow>
                       ([Executed cur e] @ (if err then [Wrote (''sftp connection failed'' @ [CHR 10])] else []) @ [ExitStatus ret], st)
                   | _ \<Rightarrow> ([Executed cur e, Panicked], st))))"

definition sftpSubsystemHandler ::
  "'k service_env \<Rightarrow> int \<Rightarrow> string \<Rightarrow> auth_state \<Rightarrow> service_event list \<times> auth_state" where
  "sftpSubsystemHandler env now user st =
     (case LoginUserFromContext (sv_auth env) user st of (lu, st) \<Rightarrow>
        (case IsValid (sv_auth env) now lu st of
           (Crash, st) \<Rightarrow> ([Panicked], st)
         | (Return True, st) \<Rightarrow>
             (case context_client (sv_auth env) lu st of
                (None, st) \<Rightarrow> ([ExitStatus 255], st)
              | (Some _, st) \<Rightarrow>
                  (case (if IsDefaultProject (lu_Project (lu_core lu)) then Some st
                         else context_use_project (lu_Project (lu_core lu)) st) of
                     None \<Rightarrow> ([Wrote (''unknown project '' @ lu_Project (lu_core lu) @ [CHR 10]), ExitStatus 2], st)
                   | Some st \<Rightarrow>
                       (case as_client st of
                          None \<Rightarrow> ([], st)
                        | Some cl \<Rightarrow>
                            (case deploy_helper env now (sv_sftp env) sftp_server_bin lu cl st of
                               (Some e, evs, st) \<Rightarrow> (evs @ deploy_message lu e, st)
                             | (None, evs, st) \<Rightarrow>
                                 (case as_client st of
                                    None \<Rightarrow> (evs, st)
                                  | Some cl \<Rightarrow>
                                      (case sftp_serve env now lu cl st of (evs', st) \<Rightarrow> (evs @ evs', st)))))))
         | (_, st) \<Rightarrow>
             ([Wrote (''Invalid login for '' @ Quote (lu_OrigUser (lu_core lu)) @ '' ('' @ String (Some lu) @ '')'' @ [CHR 10]),
               ExitStatus 1], st)))"
subsection \<open>Forwarded connections\<close>

text \<open>The first network whose name starts with an e; a network may have no address.\<close>

definition instance_addresses :: "networks \<Rightarrow> string list" where
  "instance_addresses ns = (case find (\<lambda>(d, _). has_prefix d ''e'') ns of Some (_, as) \<Rightarrow> as | None \<Rightarrow> [])"

text \<open>The address of the instance, resolved once for a connection; the error of the query is ignored.\<close>

definition resolve_address ::
  "'k service_env \<Rightarrow> int \<Rightarrow> LoginUser \<Rightarrow> auth_state \<Rightarrow> string option \<Rightarrow> (string + string) \<times> auth_state" where
  "resolve_address env now lu st addr =
     (case addr of
        Some a \<Rightarrow> (Inr a, st)
      | None \<Rightarrow>
          (case context_client (sv_auth env) lu st of
             (None, st) \<Rightarrow> (Inl ''cannot connect to incus'', st)
           | (Some (a, cur), st) \<Rightarrow>
               (case GetCachedInstanceState a now (lu_Project (lu_core lu)) (lu_Instance (lu_core lu)) (as_caches st) cur of
                  (cs, cur, r) \<Rightarrow>
                    (case instance_addresses (case r of Return ns \<Rightarrow> ns | _ \<Rightarrow> []) of
                       [] \<Rightarrow> (Inl ''cannot get instance IP address'', st\<lparr>as_caches := cs, as_client := Some (a, cur)\<rparr>)
                     | x # _ \<Rightarrow> (Inr x, st\<lparr>as_caches := cs, as_client := Some (a, cur)\<rparr>)))))"

definition proxy_exec :: "string \<Rightarrow> InstanceUser \<Rightarrow> string \<Rightarrow> nat \<Rightarrow> InstanceExec" where
  "proxy_exec inst iu destAddr destPort =
     \<lparr>ie_Instance = inst, ie_Cmd = stdio_proxy_bin @ '' tcp:'' @ destAddr @ '':'' @ show_nat destPort,
      ie_Env = [(''USER'', iu_User iu), (''UID'', itoa (iu_Uid iu)), (''GID'', itoa (iu_Gid iu)), (''HOME'', iu_Dir iu)],
      ie_IsPty = False, ie_Width = 0, ie_Height = 0, ie_User = iu_Uid iu, ie_Group = iu_Gid iu, ie_Cwd = [], ie_has_Stderr = True\<rparr>"

definition proxy_reject :: "LoginUser \<Rightarrow> deploy_error \<Rightarrow> service_event" where
  "proxy_reject lu e =
     (case e of
        NoInstanceFound \<Rightarrow> Rejected (''cannot get instance '' @ FullInstance (Some lu))
      | NoHelper \<Rightarrow> Rejected ''failed to get stdio-proxy binary''
      | BadHelper \<Rightarrow> Rejected ''failed to prepare stdio-proxy''
      | NoUpload \<Rightarrow> Rejected (''stdio-proxy is not available on '' @ FullInstance (Some lu) @ [CHR 10])
      | DeployPanic \<Rightarrow> Panicked)"

text \<open>A destination that is not the instance's own address: from inside the instance, in the project of the login.\<close>

definition forward_run ::
  "'k service_env \<Rightarrow> int \<Rightarrow> LoginUser \<Rightarrow> string \<Rightarrow> nat \<Rightarrow> api \<times> string \<Rightarrow> auth_state \<Rightarrow> service_event list \<times> auth_state" where
  "forward_run env now lu destAddr destPort cl st =
     (case deploy_helper env now (sv_proxy env) stdio_proxy_bin lu cl st of
        (Some e, evs, st) \<Rightarrow> (evs @ [proxy_reject lu e], st)
      | (None, evs, st) \<Rightarrow>
          (case as_client st of
             None \<Rightarrow> (evs, st)
           | Some cl \<Rightarrow>
               (case context_instance_user now lu cl st of
                  (Crash, st) \<Rightarrow> (evs @ [Panicked], st)
                | (Fail, st) \<Rightarrow> (evs @ [Rejected (''failed to get instance user '' @ lu_InstanceUser (lu_core lu))], st)
                | (Return iu, st) \<Rightarrow>
                    if \<not> sv_Accept env then (evs, st)
                    else (case as_client st of
                            None \<Rightarrow> (evs @ [Accepted], st)
                          | Some (a, cur) \<Rightarrow>
                              (evs @ [Accepted, Executed cur (proxy_exec (lu_Instance (lu_core lu)) iu destAddr destPort)], st)))))"

definition forward_inside ::
  "'k service_env \<Rightarrow> int \<Rightarrow> LoginUser \<Rightarrow> string \<Rightarrow> nat \<Rightarrow> auth_state \<Rightarrow> service_event list \<times> auth_state" where
  "forward_inside env now lu destAddr destPort st =
     (case context_client (sv_auth env) lu st of
        (None, st) \<Rightarrow> ([Rejected ''cannot connect to incus''], st)
      | (Some _, st) \<Rightarrow>
          (case context_use_project (lu_Project (lu_core lu)) st of
             None \<Rightarrow> ([Rejected ''cannot connect to incus''], st)
           | Some st \<Rightarrow>
               (case as_client st of
                  None \<Rightarrow> ([], st)
                | Some cl \<Rightarrow> forward_run env now lu destAddr destPort cl st)))"

text \<open>The instance's own address: the host connects.\<close>

definition forward_outside :: "'k service_env \<Rightarrow> string \<Rightarrow> nat \<Rightarrow> service_event list" where
  "forward_outside env destAddr destPort =
     (let dest = JoinHostPort destAddr (show_nat destPort)
      in if \<not> sv_Dial env dest then [Dialed dest, Rejected (''failed to connect to tcp://'' @ dest)]
         else if \<not> sv_Accept env then [Dialed dest] else [Dialed dest, Accepted])"

text \<open>The handler for a decoded request; the last component is the address kept in the context.\<close>

definition forward_channel ::
  "'k service_env \<Rightarrow> int \<Rightarrow> LoginUser \<Rightarrow> string \<Rightarrow> nat \<Rightarrow> auth_state \<Rightarrow> string option \<Rightarrow>
   service_event list \<times> auth_state \<times> string option" where
  "forward_channel env now lu destAddr destPort st addr =
     (case resolve_address env now lu st addr of
        (Inl reason, st) \<Rightarrow> ([Rejected reason], st, addr)
      | (Inr instanceAddr, st) \<Rightarrow>
          (let destAddr = (if destAddr = [] \<and> instanceAddr \<noteq> [] then instanceAddr else destAddr)
           in if destAddr \<noteq> instanceAddr
              then (case forward_inside env now lu destAddr destPort st of (evs, st) \<Rightarrow> (evs, st, Some instanceAddr))
              else (forward_outside env destAddr destPort, st, Some instanceAddr)))"

definition directTCPIPStdioHandler ::
  "'k service_env \<Rightarrow> int \<Rightarrow> string \<Rightarrow> string \<Rightarrow> auth_state \<Rightarrow> string option \<Rightarrow>
   service_event list \<times> auth_state \<times> string option" where
  "directTCPIPStdioHandler env now user payload st addr =
     (case LoginUserFromContext (sv_auth env) user st of (lu, st) \<Rightarrow>
        (case IsValid (sv_auth env) now lu st of
           (Crash, st) \<Rightarrow> ([Panicked], st, addr)
         | (Return True, st) \<Rightarrow>
             (case sv_Unmarshal env payload of
                None \<Rightarrow> ([Rejected ''error parsing forward data''], st, addr)
              | Some (destAddr, destPort, originAddr, originPort) \<Rightarrow> forward_channel env now lu destAddr destPort st addr)
         | (_, st) \<Rightarrow>
             ([Rejected (''Invalid login for '' @ Quote (lu_OrigUser (lu_core lu)) @ '' ('' @ String (Some lu) @ '')'')], st, addr)))"

subsection \<open>The helpers\<close>

text \<open>
  \<open>main\<close> of \<open>src/cmd/stdio-proxy\<close>: what it dials for its arguments. The program has one flag, and the
  arguments are counted with it.
\<close>

datatype proxy_main = Usage | BadFormat | BadProtocol string | DialTo string string

definition stdio_proxy_main :: "string list \<Rightarrow> proxy_main" where
  "stdio_proxy_main args =
     (case args of
        [prog, arg] \<Rightarrow>
          (case cut_char (CHR '':'') arg of
             None \<Rightarrow> BadFormat
           | Some (protocol, rest) \<Rightarrow>
               (case cut_char (CHR '':'') rest of
                  None \<Rightarrow> BadFormat
                | Some (host, port) \<Rightarrow>
                    (let p = to_lower protocol
                     in if p \<in> {''tcp'', ''udp''} then DialTo p (JoinHostPort host port) else BadProtocol protocol)))
      | _ \<Rightarrow> Usage)"

text \<open>
  \<open>main\<close> of \<open>src/cmd/sftp-server\<close>: the flags, as the package \<open>flag\<close> reads them, and the system calls
  it makes before it serves.
\<close>

record sftp_flags =
  fl_readOnly :: bool
  fl_chroot :: bool
  fl_debug :: bool
  fl_help :: bool
  fl_startDir :: string
  fl_umask :: int
  fl_level :: string

definition no_flags :: sftp_flags where
  "no_flags = \<lparr>fl_readOnly = False, fl_chroot = False, fl_debug = False, fl_help = False, fl_startDir = [], fl_umask = 0, fl_level = []\<rparr>"

datatype flag_kind = BoolFlag | ValueFlag | NoFlag

definition flag_kind_of :: "string \<Rightarrow> flag_kind" where
  "flag_kind_of name =
     (if name \<in> set [''R'', ''c'', ''e'', ''h''] then BoolFlag
      else if name \<in> set [''d'', ''u'', ''l''] then ValueFlag else NoFlag)"

definition set_bool_flag :: "string \<Rightarrow> bool \<Rightarrow> sftp_flags \<Rightarrow> sftp_flags" where
  "set_bool_flag name b f =
     (if name = ''R'' then f\<lparr>fl_readOnly := b\<rparr>
      else if name = ''c'' then f\<lparr>fl_chroot := b\<rparr>
      else if name = ''e'' then f\<lparr>fl_debug := b\<rparr>
      else f\<lparr>fl_help := b\<rparr>)"

text \<open>The integer of \<open>-u\<close> is read by \<open>parse_int\<close>, \<open>strconv.ParseInt\<close> with any base.\<close>

definition set_value_flag :: "(string \<Rightarrow> int option) \<Rightarrow> string \<Rightarrow> string \<Rightarrow> sftp_flags \<Rightarrow> sftp_flags option" where
  "set_value_flag parse_int name v f =
     (if name = ''d'' then Some (f\<lparr>fl_startDir := v\<rparr>)
      else if name = ''l'' then Some (f\<lparr>fl_level := v\<rparr>)
      else map_option (\<lambda>n. f\<lparr>fl_umask := n\<rparr>) (parse_int v))"

definition ParseBool :: "string \<Rightarrow> bool option" where
  "ParseBool s =
     (if s \<in> set [''1'', ''t'', ''T'', ''true'', ''TRUE'', ''True''] then Some True
      else if s \<in> set [''0'', ''f'', ''F'', ''false'', ''FALSE'', ''False''] then Some False else None)"

text \<open>The name of a flag and the value after an equals sign, \<^const>\<open>None\<close> for a bad syntax.\<close>

definition flag_syntax :: "string \<Rightarrow> (string \<times> string option) option" where
  "flag_syntax s =
     (if s = [] \<or> hd s = CHR ''-'' \<or> hd s = CHR ''='' then None
      else (case cut_char (CHR ''='') s of
              Some (name, v) \<Rightarrow> Some (name, Some v)
            | None \<Rightarrow> Some (s, None)))"

text \<open>
  \<open>flag.Parse\<close>: it stops at the first argument that is not a flag, or after \<open>--\<close>; \<^const>\<open>None\<close> is
  the exit for a flag that is not known or has a bad or no value.
\<close>

definition flag_name :: "string \<Rightarrow> string option" where
  "flag_name arg =
     (case arg of
        CHR ''-'' # CHR ''-'' # s \<Rightarrow> if s = [] then None else Some s
      | CHR ''-'' # c # s \<Rightarrow> Some (c # s)
      | _ \<Rightarrow> None)"

fun flag_parse :: "(string \<Rightarrow> int option) \<Rightarrow> string list \<Rightarrow> sftp_flags \<Rightarrow> sftp_flags option" where
  "flag_parse parse_int [] f = Some f"
| "flag_parse parse_int (arg # args) f =
     (case flag_name arg of
        None \<Rightarrow> Some f
      | Some s \<Rightarrow>
          (case flag_syntax s of
             None \<Rightarrow> None
           | Some (name, v) \<Rightarrow>
               (case flag_kind_of name of
                  BoolFlag \<Rightarrow>
                    (case (case v of None \<Rightarrow> Some True | Some v \<Rightarrow> ParseBool v) of
                       None \<Rightarrow> None
                     | Some b \<Rightarrow> flag_parse parse_int args (set_bool_flag name b f))
                | ValueFlag \<Rightarrow>
                    (case v of
                       Some v \<Rightarrow>
                         (case set_value_flag parse_int name v f of Some f \<Rightarrow> flag_parse parse_int args f | None \<Rightarrow> None)
                     | None \<Rightarrow>
                         (case args of
                            [] \<Rightarrow> None
                          | v # rest \<Rightarrow>
                              (case set_value_flag parse_int name v f of Some f \<Rightarrow> flag_parse parse_int rest f | None \<Rightarrow> None)))
                | NoFlag \<Rightarrow> None)))"

datatype syscall = Chroot string | Chdir string | Setgid int | Setuid int | Umask int | Serve bool | ExitError | ExitOk

definition sftp_server_main :: "(string \<Rightarrow> int option) \<Rightarrow> string list \<Rightarrow> (string \<times> string) list \<Rightarrow> syscall list" where
  "sftp_server_main parse_int args env =
     (case flag_parse parse_int (tl args) no_flags of
        None \<Rightarrow> [ExitError]
      | Some f \<Rightarrow>
          if fl_help f then [ExitOk]
          else (if fl_chroot f then [Chroot (fl_startDir f)] else []) @
            (case map_of env ''HOME'' of
               None \<Rightarrow> [ExitError]
             | Some home \<Rightarrow>
                 (case Option.bind (map_of env ''GID'') atoi of
                    None \<Rightarrow> [ExitError]
                  | Some gid \<Rightarrow>
                      (case Option.bind (map_of env ''UID'') atoi of
                         None \<Rightarrow> [ExitError]
                       | Some uid \<Rightarrow>
                           [Chdir (if fl_chroot f then ''/'' else if fl_startDir f \<noteq> [] then fl_startDir f else home),
                            Setgid gid, Setuid uid, Umask (fl_umask f), Serve (fl_readOnly f)]))))"
section \<open>Lemmas\<close>

subsection \<open>Commands of bare words\<close>

definition bare :: "string \<Rightarrow> bool" where
  "bare w \<longleftrightarrow> w \<noteq> [] \<and> list_all (\<lambda>c. \<not> unicode_IsSpace c \<and> c \<notin> {CHR 0x27, CHR 0x22, CHR 0x5C}) w"

fun bare_line :: "string list \<Rightarrow> (piece list \<times> string) list" where
  "bare_line [] = []"
| "bare_line [w] = [(map Bare w, [])]"
| "bare_line (w # ws) = (map Bare w, '' '') # bare_line ws"

lemma word_text_bare [simp]: "word_text (map Bare w) = w" "word_value (map Bare w) = w"
  by (induction w) (auto simp: word_text_def word_value_def)

lemma wf_bare_line: "list_all bare ws \<Longrightarrow> wf_line (bare_line ws)"
proof (induction ws rule: bare_line.induct)
  case (3 w v vs)
  then show ?case by (auto simp: bare_def list_all_iff unicode_IsSpace_def is_space_def)
qed (auto simp: bare_def list_all_iff)

lemma bare_line_text: "line_text (bare_line ws) = join '' '' ws"
  by (induction ws rule: bare_line.induct) auto

lemma bare_line_words: "map (word_value \<circ> fst) (bare_line ws) = ws"
  by (induction ws rule: bare_line.induct) auto

lemma exec_bare_words: "list_all bare ws \<Longrightarrow> exec_Command (join '' '' ws) = ws"
  using wf_bare_line [of ws] Split_line [of "bare_line ws"] bare_line_words [of ws]
  by (auto simp: exec_Command_def Split_def bare_line_text bare_def list_all_iff filter_id_conv)

lemma bare_append: "bare a \<Longrightarrow> bare b \<Longrightarrow> bare (a @ b)"
  by (auto simp: bare_def)

lemma bare_show_nat: "bare (show_nat n)"
proof -
  have "show_nat n \<noteq> []" by (cases n rule: show_nat.cases) simp
  moreover have "\<not> unicode_IsSpace c \<and> c \<notin> {CHR 0x27, CHR 0x22, CHR 0x5C}" if "c \<in> set (show_nat n)" for c
    using show_nat_digits [OF that] by (auto simp: is_digit_def unicode_IsSpace_def is_space_def)
  ultimately show ?thesis by (simp add: bare_def list_all_iff)
qed

subsection \<open>What the helpers are given\<close>

lemma plain_bin: "bare stdio_proxy_bin" "bare sftp_server_bin" "bare ''tcp:''" "bare ''-e''" "bare ''-c''" "bare ''-d''" "bare '':''"
  by (simp_all add: bare_def stdio_proxy_bin_def sftp_server_bin_def unicode_IsSpace_def is_space_def)

lemma proxy_arguments:
  assumes "bare destAddr"
  shows "exec_Command (ie_Cmd (proxy_exec inst iu destAddr destPort)) =
    [stdio_proxy_bin, ''tcp:'' @ destAddr @ '':'' @ show_nat destPort]"
proof -
  have "list_all bare [stdio_proxy_bin, ''tcp:'' @ destAddr @ '':'' @ show_nat destPort]"
    using assms plain_bin bare_show_nat by (auto intro!: bare_append simp del: append_Cons append.simps)
  from exec_bare_words [OF this] show ?thesis by (simp add: proxy_exec_def)
qed

lemma sftp_arguments:
  assumes "bare (iu_Dir iu)"
  shows "exec_Command (ie_Cmd (sftp_exec chroot session inst iu)) =
    [sftp_server_bin, ''-e''] @ (if chroot \<and> iu_Uid iu \<noteq> 0 then [''-c''] else []) @ [''-d'', iu_Dir iu]"
proof -
  let ?ws = "[sftp_server_bin, ''-e''] @ (if chroot \<and> iu_Uid iu \<noteq> 0 then [''-c''] else []) @ [''-d'', iu_Dir iu]"
  have "list_all bare ?ws" using assms plain_bin by simp
  moreover have "ie_Cmd (sftp_exec chroot session inst iu) = join '' '' ?ws" by (simp add: sftp_exec_def sftp_command_def Let_def)
  ultimately show ?thesis using exec_bare_words by metis
qed

section \<open>Properties\<close>

text \<open>
  The helper for forwarded connections connects to the requested destination exactly for host names
  and addresses without a colon: the handler joins host and port with a colon, without the brackets that
  an IPv6 address needs, and the helper splits at the first colon.
\<close>

theorem proxied_destination:
  assumes "bare destAddr"
  shows "stdio_proxy_main (exec_Command (ie_Cmd (proxy_exec inst iu destAddr destPort))) =
      DialTo ''tcp'' (JoinHostPort destAddr (show_nat destPort)) \<longleftrightarrow> CHR '':'' \<notin> set destAddr"
proof -
  let ?port = "show_nat destPort"
  have split: "cut_char (CHR '':'') (''tcp:'' @ destAddr @ '':'' @ ?port) = Some (''tcp'', destAddr @ '':'' @ ?port)"
    by (simp add: cut_char_Some)
  obtain host rest where h: "cut_char (CHR '':'') (destAddr @ '':'' @ ?port) = Some (host, rest)"
    by (cases "cut_char (CHR '':'') (destAddr @ '':'' @ ?port)") (auto simp: cut_char_None)
  then have host: "CHR '':'' \<notin> set host" "host @ '':'' @ rest = destAddr @ '':'' @ ?port" by (auto simp: cut_char_Some)
  have "to_lower ''tcp'' = ''tcp''" by code_simp
  then have run: "stdio_proxy_main (exec_Command (ie_Cmd (proxy_exec inst iu destAddr destPort))) = DialTo ''tcp'' (destAddr @ '':'' @ ?port)"
    unfolding proxy_arguments [OF assms] stdio_proxy_main_def using split h host by (simp add: JoinHostPort_def Let_def)
  show ?thesis
  proof (cases "CHR '':'' \<in> set destAddr")
    case True
    then have "length (JoinHostPort destAddr ?port) \<noteq> length (destAddr @ '':'' @ ?port)" by (simp add: JoinHostPort_def)
    then have "JoinHostPort destAddr ?port \<noteq> destAddr @ '':'' @ ?port" by metis
    with True run show ?thesis by simp
  qed (simp add: run JoinHostPort_def)
qed

theorem proxied_destination_witness:
  "stdio_proxy_main (exec_Command (ie_Cmd (proxy_exec ''web'' zero_InstanceUser ''db.lan'' 5))) = DialTo ''tcp'' (JoinHostPort ''db.lan'' (show_nat 5)) \<and>
   stdio_proxy_main (exec_Command (ie_Cmd (proxy_exec ''web'' zero_InstanceUser ''fe80::1'' 5))) \<noteq> DialTo ''tcp'' (JoinHostPort ''fe80::1'' (show_nat 5))"
  using proxied_destination [of "''db.lan''" "''web''" zero_InstanceUser 5] proxied_destination [of "''fe80::1''" "''web''" zero_InstanceUser 5]
  by (simp add: bare_def unicode_IsSpace_def is_space_def)


subsection \<open>The project of a connection\<close>

text \<open>A project query answers with the project of that name.\<close>

definition honest_api :: "api \<Rightarrow> bool" where
  "honest_api a \<longleftrightarrow> (\<forall>p q. api_GetProject a p = Some q \<longrightarrow> q = p)"

definition project_name :: "LoginUser \<Rightarrow> string" where
  "project_name lu = (if lu_Project (lu_core lu) = [] then ''default'' else lu_Project (lu_core lu))"

text \<open>The client of the connection is in no project yet or in the project of the login.\<close>

definition own_project :: "LoginUser \<Rightarrow> auth_state \<Rightarrow> bool" where
  "own_project lu st \<longleftrightarrow>
     (\<forall>a cur. as_client st = Some (a, cur) \<longrightarrow> honest_api a \<and> (cur = [] \<or> cur = project_name lu))"

definition in_project :: "LoginUser \<Rightarrow> auth_state \<Rightarrow> bool" where
  "in_project lu st \<longleftrightarrow> own_project lu st \<and> (\<forall>a cur. as_client st = Some (a, cur) \<longrightarrow> cur \<noteq> [])"

lemma use_own_project:
  "honest_api a \<Longrightarrow> use_project (api_GetProject a) (lu_Project (lu_core lu)) cur = Some cur' \<Longrightarrow> cur' = project_name lu"
  by (auto simp: use_project_def project_name_def honest_api_def Let_def split: if_splits)

lemma project_name_nonempty [simp]: "project_name lu \<noteq> []"
  by (simp add: project_name_def)

lemma own_project_same: "as_client st' = as_client st \<Longrightarrow> own_project lu st' = own_project lu st"
  by (simp add: own_project_def)

lemma own_project_caches [simp]:
  "own_project lu (st\<lparr>as_caches := cs\<rparr>) = own_project lu st"
  "own_project lu (st\<lparr>as_failed := f\<rparr>) = own_project lu st"
  "own_project lu (st\<lparr>as_valid := f\<rparr>) = own_project lu st"
  "in_project lu (st\<lparr>as_caches := cs\<rparr>) = in_project lu st"
  by (simp_all add: own_project_def in_project_def)

lemma context_use_project_in:
  assumes "own_project lu st" "context_use_project (lu_Project (lu_core lu)) st = Some st'"
  shows "in_project lu st'"
proof -
  obtain a cur cur' where c: "as_client st = Some (a, cur)" "st' = st\<lparr>as_client := Some (a, cur')\<rparr>"
    "use_project (api_GetProject a) (lu_Project (lu_core lu)) cur = Some cur'"
    using assms(2) by (auto simp: context_use_project_def split: option.splits)
  have h: "honest_api a" using assms(1) c(1) by (simp add: own_project_def)
  show ?thesis using h use_own_project [OF h c(3)] by (simp add: c(2) in_project_def own_project_def)
qed

definition honest_connect :: "'k auth_env \<Rightarrow> bool" where
  "honest_connect env \<longleftrightarrow> (\<forall>remote a. ae_connect env remote = Some a \<longrightarrow> honest_api a)"

lemma context_client_own:
  assumes "honest_connect env" "own_project lu st" "context_client env lu st = (c, st')"
  shows "own_project lu st'"
  using assms by (auto simp: context_client_def own_project_def honest_connect_def split: option.splits)

lemma GetInstanceUser_project:
  "GetInstanceUser a project inst user cur = (cur', r) \<Longrightarrow> cur' = cur \<or> use_project (api_GetProject a) project cur = Some cur'"
  by (auto simp: GetInstanceUser_def split: option.splits)

lemma context_user_own:
  assumes "own_project lu st" "as_client st = Some cl" "context_instance_user now lu cl st = (r, st')"
  shows "own_project lu st'" and "in_project lu st \<Longrightarrow> in_project lu st'"
proof -
  obtain cs cur where c: "GetCachedInstanceUser (fst cl) now (lu_Project (lu_core lu)) (lu_Instance (lu_core lu))
      (lu_InstanceUser (lu_core lu)) (as_caches st) (snd cl) = (cs, cur, r)"
    and st': "st' = st\<lparr>as_caches := cs, as_client := Some (fst cl, cur)\<rparr>"
    using assms(3) by (auto simp: context_instance_user_def split: prod.splits)
  have "cur = snd cl \<or> use_project (api_GetProject (fst cl)) (lu_Project (lu_core lu)) (snd cl) = Some cur"
    using c GetInstanceUser_project unfolding GetCachedInstanceUser_def Let_def
    by (auto split: option.splits prod.splits call.splits)
  moreover have "honest_api (fst cl)" using assms(1,2) by (cases cl) (auto simp: own_project_def)
  ultimately have cur: "cur = snd cl \<or> cur = project_name lu" using use_own_project by blast
  show "own_project lu st'" using assms(1,2) cur by (cases cl) (auto simp: st' own_project_def)
  show "in_project lu st \<Longrightarrow> in_project lu st'"
    using assms(2) cur by (cases cl) (auto simp: st' own_project_def in_project_def)
qed

lemma IsValid_own:
  assumes "honest_connect env" "own_project lu st" "IsValid env now lu st = (r, st')"
  shows "own_project lu st'"
proof -
  obtain c st1 where c: "context_client env lu st = (c, st1)" by fastforce
  note o1 = context_client_own [OF assms(1,2) c]
  show ?thesis
  proof (cases c)
    case None
    with assms(2,3) c o1 show ?thesis by (auto simp: IsValid_def split: if_splits)
  next
    case (Some cl)
    then have cl: "as_client st1 = Some cl" using context_client_from(2) [OF c] by simp
    obtain r2 st2 where u: "context_instance_user now lu cl st1 = (r2, st2)" by fastforce
    have o3: "own_project lu st2" by (rule context_user_own(1) [OF o1 cl u])
    have "st' = st \<or> as_client st' = as_client st1 \<or> as_client st' = as_client st2"
      using assms(3) c Some u unfolding IsValid_def by (cases r2) (auto split: if_splits)
    then show ?thesis using assms(2) o1 o3 own_project_same [of st' st1 lu] own_project_same [of st' st2 lu] by auto
  qed
qed

lemma UploadBytes_own:
  assumes "own_project lu st" "UploadBytes env lu dest content st = (ok, evs, st')"
  shows "own_project lu st'" "in_project lu st \<Longrightarrow> in_project lu st'"
    and "ev \<in> set evs \<Longrightarrow> \<exists>i d c. ev = Uploaded (project_name lu) i d c"
proof -
  have c: "st' = st \<and> evs = [] \<or>
    in_project lu st' \<and> (\<forall>ev \<in> set evs. \<exists>a cur i d c. as_client st' = Some (a, cur) \<and> ev = Uploaded cur i d c)"
    using assms context_use_project_in [OF assms(1)] by (auto simp: UploadBytes_def split: option.splits if_splits)
  then show "own_project lu st'" "in_project lu st \<Longrightarrow> in_project lu st'"
    using assms(1) by (auto simp: in_project_def)
  show "ev \<in> set evs \<Longrightarrow> \<exists>i d c. ev = Uploaded (project_name lu) i d c"
    using c by (fastforce simp: in_project_def own_project_def)
qed

lemma deploy_own:
  assumes "own_project lu st" "deploy_helper env now bin dest lu cl st = (r, evs, st')"
  shows "own_project lu st'" "in_project lu st \<Longrightarrow> in_project lu st'"
    and "ev \<in> set evs \<Longrightarrow> \<exists>i d c. ev = Uploaded (project_name lu) i d c"
proof -
  have "(\<exists>cs. st' = st\<lparr>as_caches := cs\<rparr>) \<and> evs = [] \<or>
    (\<exists>cs content ok. UploadBytes env lu dest content (st\<lparr>as_caches := cs\<rparr>) = (ok, evs, st'))"
    using assms(2) unfolding deploy_helper_def Let_def
    by (auto split: prod.splits call.splits option.splits bool.splits)
  then have d: "(own_project lu st' = own_project lu st \<and> in_project lu st' = in_project lu st \<and> evs = []) \<or>
    own_project lu st' \<and> (in_project lu st \<longrightarrow> in_project lu st') \<and> (\<forall>ev \<in> set evs. \<exists>i d c. ev = Uploaded (project_name lu) i d c)"
  proof (elim disjE exE conjE)
    fix cs content ok
    assume u: "UploadBytes env lu dest content (st\<lparr>as_caches := cs\<rparr>) = (ok, evs, st')"
    have o: "own_project lu (st\<lparr>as_caches := cs\<rparr>)" using assms(1) by simp
    show ?thesis using UploadBytes_own [OF o u] by simp
  qed simp
  show "own_project lu st'" "in_project lu st \<Longrightarrow> in_project lu st'" using d assms(1) by auto
  show "ev \<in> set evs \<Longrightarrow> \<exists>i d c. ev = Uploaded (project_name lu) i d c" using d by auto
qed

definition stays :: "LoginUser \<Rightarrow> service_event \<Rightarrow> bool" where
  "stays lu ev =
     (case ev of
        Uploaded cur i d c \<Rightarrow> cur = project_name lu
      | Executed cur e \<Rightarrow> cur = project_name lu \<or> IsDefaultProject (lu_Project (lu_core lu)) \<and> cur = []
      | _ \<Rightarrow> True)"

lemma stays_simps [simp]:
  "stays lu (Wrote t)" "stays lu (ExitStatus n)" "stays lu (Rejected t)" "stays lu (Dialed t)" "stays lu Accepted" "stays lu Panicked"
  "stays lu (Uploaded (project_name lu) i d c)"
  by (simp_all add: stays_def)

lemma stays_executed:
  "own_project lu st \<Longrightarrow> IsDefaultProject (lu_Project (lu_core lu)) \<or> in_project lu st \<Longrightarrow> as_client st = Some (a, cur) \<Longrightarrow> stays lu (Executed cur e)"
  by (auto simp: stays_def own_project_def in_project_def)

lemma sftp_serve_stays:
  assumes "own_project lu st" "IsDefaultProject (lu_Project (lu_core lu)) \<or> in_project lu st" "as_client st = Some cl"
  shows "list_all (stays lu) (fst (sftp_serve env now lu cl st))"
proof -
  obtain r st' where u: "context_instance_user now lu cl st = (r, st')" by fastforce
  have o: "own_project lu st'" "IsDefaultProject (lu_Project (lu_core lu)) \<or> in_project lu st'"
    using context_user_own [OF assms(1,3) u] assms(2) by auto
  show ?thesis using stays_executed [OF o]
    by (cases r) (auto simp: sftp_serve_def u Let_def split: option.splits call.splits prod.splits)
qed

lemma deploy_stays:
  assumes "own_project lu st" "deploy_helper env now bin dest lu cl st = (r, evs, st')"
  shows "list_all (stays lu) evs"
  using deploy_own(3) [OF assms] by (fastforce simp: list_all_iff)

lemma deploy_message_stays: "list_all (stays lu) (deploy_message lu' e)" "stays lu (proxy_reject lu' e)"
  by (cases e; simp add: deploy_message_def proxy_reject_def)+

lemma sftp_stays:
  assumes "honest_connect (sv_auth env)" "own_project lu st" "as_user st = Some lu"
  shows "list_all (stays lu) (fst (sftpSubsystemHandler env now user st))"
proof -
  have lu: "LoginUserFromContext (sv_auth env) user st = (lu, st)" using assms(3) by (simp add: LoginUserFromContext_def)
  obtain v st1 where v: "IsValid (sv_auth env) now lu st = (v, st1)" by fastforce
  have o1: "own_project lu st1" by (rule IsValid_own [OF assms(1,2) v])
  obtain c st2 where c: "context_client (sv_auth env) lu st1 = (c, st2)" by fastforce
  have o2: "own_project lu st2" by (rule context_client_own [OF assms(1) o1 c])
  let ?sel = "if IsDefaultProject (lu_Project (lu_core lu)) then Some st2 else context_use_project (lu_Project (lu_core lu)) st2"
  have "list_all (stays lu) (case as_client st3 of None \<Rightarrow> []
      | Some cl \<Rightarrow> (case deploy_helper env now (sv_sftp env) sftp_server_bin lu cl st3 of
           (Some e, evs, st) \<Rightarrow> evs @ deploy_message lu e
         | (None, evs, st) \<Rightarrow> (case as_client st of None \<Rightarrow> evs | Some cl \<Rightarrow> evs @ fst (sftp_serve env now lu cl st))))"
    if s: "?sel = Some st3" for st3
  proof (cases "as_client st3")
    case (Some cl)
    have o3: "own_project lu st3" "IsDefaultProject (lu_Project (lu_core lu)) \<or> in_project lu st3"
      using s o2 context_use_project_in [OF o2] by (auto simp: in_project_def split: if_splits)
    obtain r evs st4 where d: "deploy_helper env now (sv_sftp env) sftp_server_bin lu cl st3 = (r, evs, st4)"
      by (cases "deploy_helper env now (sv_sftp env) sftp_server_bin lu cl st3")
    have o4: "own_project lu st4" "IsDefaultProject (lu_Project (lu_core lu)) \<or> in_project lu st4"
      using deploy_own(1,2) [OF o3(1) d] o3(2) by auto
    show ?thesis
      using deploy_stays [OF o3(1) d] deploy_message_stays(1)
      by (auto simp: Some d sftp_serve_stays [OF o4] split: option.splits)
  qed simp
  then show ?thesis
    by (auto simp: sftpSubsystemHandler_def lu v c split: call.splits bool.splits option.splits prod.splits)
qed

text \<open>What a forwarded connection does inside the instance.\<close>

definition inside_event :: "LoginUser \<Rightarrow> string \<Rightarrow> nat \<Rightarrow> service_event \<Rightarrow> bool" where
  "inside_event lu destAddr destPort ev =
     (case ev of
        Executed cur e \<Rightarrow> cur = project_name lu \<and> (\<exists>iu. e = proxy_exec (lu_Instance (lu_core lu)) iu destAddr destPort)
      | Uploaded cur i d c \<Rightarrow> cur = project_name lu
      | Dialed d \<Rightarrow> False
      | _ \<Rightarrow> True)"

lemma inside_event_simps [simp]:
  "inside_event lu d p (Rejected t)" "inside_event lu d p Accepted" "inside_event lu d p Panicked"
  "inside_event lu d p (Uploaded (project_name lu) i x c)" "\<not> inside_event lu d p (Dialed t)"
  by (simp_all add: inside_event_def)

lemma proxy_reject_inside [simp]: "inside_event lu d p (proxy_reject lu' e)"
  by (cases e) (simp_all add: proxy_reject_def)

lemma forward_run_events:
  assumes "in_project lu st"
  shows "list_all (inside_event lu destAddr destPort) (fst (forward_run env now lu destAddr destPort cl st))"
proof -
  have o: "own_project lu st" using assms by (simp add: in_project_def)
  obtain r evs st3 where d: "deploy_helper env now (sv_proxy env) stdio_proxy_bin lu cl st = (r, evs, st3)"
    by (cases "deploy_helper env now (sv_proxy env) stdio_proxy_bin lu cl st")
  have evs: "list_all (inside_event lu destAddr destPort) evs" using deploy_own(3) [OF o d] by (fastforce simp: list_all_iff)
  have o3: "own_project lu st3" "in_project lu st3" using deploy_own(1,2) [OF o d] assms by auto
  show ?thesis
  proof (cases "r = None \<and> as_client st3 \<noteq> None")
    case True
    then obtain cl' where cl': "as_client st3 = Some cl'" by auto
    obtain v st4 where v: "context_instance_user now lu cl' st3 = (v, st4)" by fastforce
    have "cur = project_name lu" if "as_client st4 = Some (a, cur)" for a cur
      using context_user_own(2) [OF o3(1) cl' v o3(2)] that by (auto simp: in_project_def own_project_def)
    then show ?thesis using True evs by (cases v) (auto simp: forward_run_def d cl' v inside_event_def split: option.splits)
  next
    case False
    then show ?thesis using evs by (auto simp: forward_run_def d split: option.splits)
  qed
qed

lemma forward_inside_events:
  assumes "honest_connect (sv_auth env)" "own_project lu st"
  shows "list_all (inside_event lu destAddr destPort) (fst (forward_inside env now lu destAddr destPort st))"
proof -
  obtain c st1 where c: "context_client (sv_auth env) lu st = (c, st1)" by fastforce
  have o1: "own_project lu st1" by (rule context_client_own [OF assms c])
  show ?thesis
    using context_use_project_in [OF o1] forward_run_events
    by (auto simp: forward_inside_def c split: option.splits)
qed

text \<open>What a forwarded connection does on the host: at most one connection, to the address of the instance.\<close>

lemma forward_outside_events: "Dialed d \<in> set (forward_outside env a p) \<Longrightarrow> d = JoinHostPort a (show_nat p)"
  "Executed cur e \<notin> set (forward_outside env a p)" "Uploaded cur i x c \<notin> set (forward_outside env a p)"
  by (auto simp: forward_outside_def Let_def split: if_splits)

lemma resolve_own:
  assumes "honest_connect (sv_auth env)" "own_project lu st" "resolve_address env now lu st addr = (r, st')"
  shows "own_project lu st'"
proof (cases addr)
  case None
  obtain c st1 where c: "context_client (sv_auth env) lu st = (c, st1)" by fastforce
  have o1: "own_project lu st1" by (rule context_client_own [OF assms(1,2) c])
  show ?thesis
  proof (cases c)
    case (Some cl)
    obtain a cur where cl: "cl = (a, cur)" by (cases cl)
    then have a1: "as_client st1 = Some (a, cur)" using context_client_from(2) [OF c] Some by simp
    obtain cs cur' r' where g: "GetCachedInstanceState a now (lu_Project (lu_core lu)) (lu_Instance (lu_core lu)) (as_caches st1) cur = (cs, cur', r')"
      by (cases "GetCachedInstanceState a now (lu_Project (lu_core lu)) (lu_Instance (lu_core lu)) (as_caches st1) cur")
    have h: "honest_api a" using o1 a1 by (simp add: own_project_def)
    have "cur' = cur \<or> cur' = project_name lu"
      using g use_own_project [OF h] by (auto simp: GetCachedInstanceState_def Let_def split: option.splits)
    then show ?thesis
      using assms(3) None c Some cl g o1 a1 h by (auto simp: resolve_address_def own_project_def split: list.splits)
  qed (use assms(3) None c o1 in \<open>auto simp: resolve_address_def\<close>)
qed (use assms in \<open>auto simp: resolve_address_def\<close>)

lemma forward_events:
  assumes "honest_connect (sv_auth env)" "own_project lu st" "as_user st = Some lu"
    and "directTCPIPStdioHandler env now user payload st addr = (evs, st', addr')" "ev \<in> set evs"
  shows "(case ev of
      Dialed d \<Rightarrow> \<exists>a p. addr' = Some a \<and> d = JoinHostPort a (show_nat p) \<and> (addr = None \<or> addr = Some a)
    | Executed cur e \<Rightarrow> cur = project_name lu \<and> (\<exists>iu d p. e = proxy_exec (lu_Instance (lu_core lu)) iu d p \<and> addr' \<noteq> Some d)
    | Uploaded cur i d c \<Rightarrow> cur = project_name lu
    | _ \<Rightarrow> True)"
proof -
  have lu: "LoginUserFromContext (sv_auth env) user st = (lu, st)" using assms(3) by (simp add: LoginUserFromContext_def)
  obtain v st1 where v: "IsValid (sv_auth env) now lu st = (v, st1)" by fastforce
  have o1: "own_project lu st1" by (rule IsValid_own [OF assms(1,2) v])
  obtain r st2 where r: "resolve_address env now lu st1 addr = (r, st2)" by fastforce
  have o2: "own_project lu st2" by (rule resolve_own [OF assms(1) o1 r])
  have keep: "addr = None \<or> addr = Some a" if "r = Inr a" for a
    using r that by (auto simp: resolve_address_def split: option.splits)
  have "(\<exists>t. ev = Rejected t) \<or> ev = Panicked \<or>
    (\<exists>d p. ev \<in> set (fst (forward_channel env now lu d p st1 addr)) \<and> addr' = snd (snd (forward_channel env now lu d p st1 addr)))"
    using assms(4,5) lu v
    by (cases v) (auto simp: directTCPIPStdioHandler_def split: option.splits if_splits bool.splits, metis fst_conv snd_conv)
  then have "(\<exists>t. ev = Rejected t) \<or> ev = Panicked \<or>
    (\<exists>a d p. r = Inr a \<and> addr' = Some a \<and>
       (if d \<noteq> a then ev \<in> set (fst (forward_inside env now lu d p st2)) else ev \<in> set (forward_outside env d p)))"
    using r by (cases r) (auto simp: forward_channel_def Let_def case_prod_unfold split: if_splits)
  then show ?thesis
  proof (elim disjE exE conjE)
    fix a d p assume a: "r = Inr a" "addr' = Some a"
      and e: "if d \<noteq> a then ev \<in> set (fst (forward_inside env now lu d p st2)) else ev \<in> set (forward_outside env d p)"
    show ?thesis
    proof (cases "d = a")
      case True
      with e have "ev \<in> set (forward_outside env a p)" by simp
      then show ?thesis using a(2) keep [OF a(1)]
        by (cases rule: service_event.exhaust [of ev]) (auto simp: forward_outside_events(2,3) dest: forward_outside_events(1))
    next
      case False
      with e forward_inside_events [OF assms(1) o2, of d p now] have "inside_event lu d p ev" by (auto simp: list_all_iff)
      with False a show ?thesis by (auto simp: inside_event_def split: service_event.splits)
    qed
  qed auto
qed


text \<open>
  The SFTP handler stays in the project of the login: every upload goes to the instance in that project
  and the server runs there (in the default project a client that never selected a project is there
  already).
\<close>

theorem sftp_in_project:
  assumes "honest_connect (sv_auth env)" "own_project lu st" "as_user st = Some lu"
  shows "(\<forall>cur i d c. Uploaded cur i d c \<in> set (fst (sftpSubsystemHandler env now user st)) \<longrightarrow> cur = project_name lu) \<and>
    (\<forall>cur e. Executed cur e \<in> set (fst (sftpSubsystemHandler env now user st)) \<longrightarrow>
      cur = project_name lu \<or> IsDefaultProject (lu_Project (lu_core lu)) \<and> cur = [])"
  using sftp_stays [OF assms, of now user] by (fastforce simp: list_all_iff stays_def)+

section \<open>Witnesses\<close>

definition helper_api :: api where
  "helper_api = demo_api
     \<lparr>api_Exec := (\<lambda>cur inst req. Some \<lparr>out_return = 1, out_stdout = [], out_stderr = []\<rparr>),
      api_GetInstanceFull := (\<lambda>cur inst. Some \<lparr>in_Status = ''Running'', in_Type = ''container'', in_Ephemeral = False, in_Architecture = ''x86_64''\<rparr>),
      api_GetInstanceState := (\<lambda>cur inst. Some [(''lo'', [''127.0.0.1'']), (''eth0'', [''10.0.0.5''])])\<rparr>"

definition helper_env :: "string service_env" where
  "helper_env =
     \<lparr>sv_auth = demo_env\<lparr>ae_connect := (\<lambda>_. Some helper_api)\<rparr>,
      sv_sftp = \<lparr>eb_name = sftp_server_bin, eb_arm64 = ''a'', eb_amd64 = ''b''\<rparr>,
      sv_proxy = \<lparr>eb_name = stdio_proxy_bin, eb_arm64 = ''a'', eb_amd64 = ''b''\<rparr>,
      sv_Ungz = Some, sv_Md5Bytes = id, sv_CreateInstanceFile = (\<lambda>_ _ _ _. True),
      sv_Unmarshal = (\<lambda>p. Some (p, 80, [], 0)), sv_Dial = (\<lambda>_. True), sv_Accept = True, sv_ChrootSFTP = True, sv_SessionID = []\<rparr>"

lemma helper_honest: "honest_connect (sv_auth helper_env)" "own_project lu (demo_state lu)" "as_user (demo_state lu) = Some lu"
  by (simp_all add: honest_connect_def honest_api_def helper_env_def helper_api_def demo_env_def demo_api_def own_project_def demo_state_def)


theorem sftp_in_project_witness:
  "Uploaded ''prod'' ''web'' sftp_server_bin ''b'' \<in> set (fst (sftpSubsystemHandler helper_env 1 [] (demo_state (demo_login ''bob'' ''explain'')))) \<and>
   ''prod'' = project_name (demo_login ''bob'' ''explain'')"
proof -
  let ?lu = "demo_login ''bob'' ''explain''" and ?st = "demo_state (demo_login ''bob'' ''explain'')"
  let ?inst = "\<lparr>in_Status = ''Running'', in_Type = ''container'', in_Ephemeral = False, in_Architecture = ''x86_64''\<rparr>"
  have l: "LoginUserFromContext (sv_auth helper_env) [] ?st = (?lu, ?st)"
    by (simp add: LoginUserFromContext_def demo_state_def)
  have v: "IsValid (sv_auth helper_env) 1 ?lu ?st = (Return True, ?st)"
    by (simp add: IsValid_def IsCommand_def demo_login_def)
  have none: "cache_Get 1 k (instanceCache (as_caches ?st)) = None" "cache_Get 1 k (fileExistsCache (as_caches ?st)) = None" for k
    by (simp_all add: demo_state_def init_caches_def new_cache_empty)
  have c: "context_client (sv_auth helper_env) ?lu ?st = (Some (helper_api, []), ?st\<lparr>as_client := Some (helper_api, [])\<rparr>)"
    by (simp add: context_client_def demo_state_def helper_env_def)
  have s: "api_GetProject helper_api p = Some p" "api_GetInstanceFull helper_api cur inst = Some ?inst" for cur inst p
    by (simp_all add: helper_api_def demo_api_def)
  have b: "BinBytes (sv_sftp helper_env) ''x86_64'' = Some ''b''" unfolding helper_env_def service_env.select_convs by code_simp
  have h: "sv_Ungz helper_env x = Some x" "sv_Md5Bytes helper_env x = x" "sv_CreateInstanceFile helper_env a1 a2 a3 a4" for x a1 a2 a3 a4 by (simp_all add: helper_env_def)
  have f: "file_check helper_api cur p = Return False" if "fe_Md5sum p = ''b''" for cur p
    by (simp add: file_check_def Exec_def helper_api_def)
  let ?st1 = "?st\<lparr>as_client := Some (helper_api, ''prod'')\<rparr>"
  have u: "context_use_project ''prod'' (?st\<lparr>as_client := Some (helper_api, []), as_caches := cs\<rparr>) = Some (?st1\<lparr>as_caches := cs\<rparr>)"
    "context_use_project ''prod'' (?st\<lparr>as_client := Some (helper_api, [])\<rparr>) = Some ?st1"
    "context_use_project ''prod'' (?st1\<lparr>as_caches := cs\<rparr>) = Some (?st1\<lparr>as_caches := cs\<rparr>)" for cs
    by (simp_all add: context_use_project_def use_project_def s)
  have lu: "lu_Project (lu_core ?lu) = ''prod''" "lu_Instance (lu_core ?lu) = ''web''" by (simp_all add: demo_login_def)
  have "\<exists>st2. deploy_helper helper_env 1 (sv_sftp helper_env) sftp_server_bin ?lu (helper_api, ''prod'') ?st1 =
      (None, [Uploaded ''prod'' ''web'' sftp_server_bin ''b''], st2)"
    using none
    by (simp add: deploy_helper_def GetCachedInstance_def s lu b h FileExists_def f UploadBytes_def u Let_def)
  then obtain st2 where d: "deploy_helper helper_env 1 (sv_sftp helper_env) sftp_server_bin ?lu (helper_api, ''prod'') ?st1 =
      (None, [Uploaded ''prod'' ''web'' sftp_server_bin ''b''], st2)" by blast
  have "\<not> IsDefaultProject ''prod''" by (simp add: IsDefaultProject_def)
  then have "Uploaded ''prod'' ''web'' sftp_server_bin ''b'' \<in> set (fst (sftpSubsystemHandler helper_env 1 [] ?st))"
    by (simp add: sftpSubsystemHandler_def l v c lu u d split: option.splits prod.splits)
  then show ?thesis using sftp_in_project [OF helper_honest, of 1 "[]" ?lu] by blast
qed

end
