(* ===== verification/Remote_Forward.thy ===== *)
theory Remote_Forward
  imports Proxy_Device
begin

text \<open>
  Remote port forwarding: \<open>ForwardTCPHandler\<close> of \<open>src/server/ssh-request.go\<close> and
  \<open>ForwardedTCPHandler\<close> of \<open>src/pkg/ssh/tcpip.go\<close>. One handler serves all connections; it keeps the
  listeners in a map by the requested address. A forward starts two goroutines, one that waits for the end
  of the connection and one that accepts. They interleave with the requests of all connections, which is a
  step relation here. The first handler also has a device for each forward, whose \<open>Shutdown\<close> closes the
  listener of the forward; this is the parameter \<open>dev\<close>. Every forward gets a fresh number for its
  listener.
\<close>

section \<open>Model\<close>

text \<open>
  The map; the listeners that are open; the goroutines that wait for the end of a connection, with the
  address and the listener of their forward; the accept loops; and as histories what was forwarded, which
  connections have ended, which cancellations were requested and which accept loops have failed.
\<close>

record forwards =
  fw_map :: "(string, nat) mapping"
  fw_open :: "nat list"
  fw_next :: nat
  fw_watch :: "(nat \<times> string \<times> nat) list"
  fw_loops :: "(nat \<times> string) list"
  fw_owner :: "(nat \<times> nat \<times> string) list"
  fw_ended :: "nat list"
  fw_cancels :: "(nat \<times> string) list"
  fw_failed :: "nat list"

definition no_forwards :: forwards where
  "no_forwards =
     \<lparr>fw_map = Mapping.empty, fw_open = [], fw_next = 0, fw_watch = [], fw_loops = [], fw_owner = [], fw_ended = [],
      fw_cancels = [], fw_failed = []\<rparr>"

definition forward_key :: "string \<Rightarrow> nat \<Rightarrow> string" where
  "forward_key addr port = JoinHostPort addr (show_nat port)"

definition close_listener :: "nat \<Rightarrow> forwards \<Rightarrow> forwards" where
  "close_listener l fw = fw\<lparr>fw_open := removeAll l (fw_open fw)\<rparr>"

definition close_mapped :: "string \<Rightarrow> forwards \<Rightarrow> forwards" where
  "close_mapped src fw = (case Mapping.lookup (fw_map fw) src of Some l \<Rightarrow> close_listener l fw | None \<Rightarrow> fw)"

datatype forward_request = BadPayload | TcpipForward string nat | CancelForward string nat | OtherRequest

text \<open>
  What the request depends on besides: the login is valid, the callback allows it, and the device and the
  listener can be set up. The answer is the reply and the state after it.
\<close>

definition HandleSSHRequest ::
  "bool \<Rightarrow> bool \<Rightarrow> bool \<Rightarrow> nat \<Rightarrow> forward_request \<Rightarrow> forwards \<Rightarrow> bool \<times> forwards" where
  "HandleSSHRequest valid allowed listens conn req fw =
     (if \<not> valid then (False, fw)
      else (case req of
              BadPayload \<Rightarrow> (False, fw)
            | TcpipForward addr port \<Rightarrow>
                if \<not> allowed \<or> \<not> listens then (False, fw)
                else (let src = forward_key addr port; l = fw_next fw
                      in (True, fw\<lparr>fw_map := Mapping.update src l (fw_map fw), fw_open := l # fw_open fw, fw_next := Suc l,
                                   fw_watch := (conn, src, l) # fw_watch fw, fw_loops := (l, src) # fw_loops fw,
                                   fw_owner := (l, conn, src) # fw_owner fw\<rparr>))
            | CancelForward addr port \<Rightarrow>
                (let src = forward_key addr port
                 in (True, (close_mapped src fw)\<lparr>fw_cancels := (conn, src) # fw_cancels fw\<rparr>))
            | OtherRequest \<Rightarrow> (False, fw)))"

text \<open>The same of the library handler, which has no login to check.\<close>

definition ssh_HandleSSHRequest :: "bool \<Rightarrow> bool \<Rightarrow> nat \<Rightarrow> forward_request \<Rightarrow> forwards \<Rightarrow> bool \<times> forwards" where
  "ssh_HandleSSHRequest allowed listens conn req fw = HandleSSHRequest True allowed listens conn req fw"

text \<open>
  The goroutine for the end of a connection: it shuts its device down, and closes the listener that the
  map has for its address at that time. The goroutine of the accept loop ends when accepting fails.
\<close>

definition connection_ended :: "bool \<Rightarrow> nat \<times> string \<times> nat \<Rightarrow> forwards \<Rightarrow> forwards" where
  "connection_ended dev w fw =
     (case w of (conn, src, l) \<Rightarrow>
        close_mapped src (if dev then close_listener l (fw\<lparr>fw_watch := removeAll w (fw_watch fw)\<rparr>)
                          else fw\<lparr>fw_watch := removeAll w (fw_watch fw)\<rparr>))"

definition accept_failed :: "bool \<Rightarrow> nat \<times> string \<Rightarrow> forwards \<Rightarrow> forwards" where
  "accept_failed dev lp fw =
     (case lp of (l, src) \<Rightarrow>
        let fw = fw\<lparr>fw_loops := removeAll lp (fw_loops fw)\<rparr>;
            fw = (if dev then close_listener l fw else fw)
        in fw\<lparr>fw_map := Mapping.delete src (fw_map fw)\<rparr>)"

text \<open>A step of one of the connections or goroutines. Accepting fails on a closed listener, and may fail on an open one.\<close>

inductive forward_step :: "bool \<Rightarrow> forwards \<Rightarrow> forwards \<Rightarrow> bool" for dev where
  request: "conn \<notin> set (fw_ended fw) \<Longrightarrow> forward_step dev fw (snd (HandleSSHRequest valid allowed listens conn req fw))"
| disconnect: "forward_step dev fw (fw\<lparr>fw_ended := conn # fw_ended fw\<rparr>)"
| watch: "(conn, src, l) \<in> set (fw_watch fw) \<Longrightarrow> conn \<in> set (fw_ended fw) \<Longrightarrow>
    forward_step dev fw (connection_ended dev (conn, src, l) fw)"
| closed: "(l, src) \<in> set (fw_loops fw) \<Longrightarrow> l \<notin> set (fw_open fw) \<Longrightarrow> forward_step dev fw (accept_failed dev (l, src) fw)"
| failed: "(l, src) \<in> set (fw_loops fw) \<Longrightarrow> l \<in> set (fw_open fw) \<Longrightarrow>
    forward_step dev fw (accept_failed dev (l, src) (fw\<lparr>fw_failed := l # fw_failed fw\<rparr>))"

abbreviation forward_steps :: "bool \<Rightarrow> forwards \<Rightarrow> forwards \<Rightarrow> bool" where
  "forward_steps dev \<equiv> (forward_step dev)\<^sup>*\<^sup>*"

section \<open>Invariants\<close>

lemma close_simps [simp]:
  "fw_map (close_listener l fw) = fw_map fw" "fw_next (close_listener l fw) = fw_next fw"
  "fw_watch (close_listener l fw) = fw_watch fw" "fw_loops (close_listener l fw) = fw_loops fw"
  "fw_owner (close_listener l fw) = fw_owner fw" "fw_ended (close_listener l fw) = fw_ended fw"
  "fw_cancels (close_listener l fw) = fw_cancels fw" "fw_failed (close_listener l fw) = fw_failed fw"
  "set (fw_open (close_listener l fw)) = set (fw_open fw) - {l}"
  by (auto simp: close_listener_def)

lemma close_mapped_simps [simp]:
  "fw_map (close_mapped s fw) = fw_map fw" "fw_next (close_mapped s fw) = fw_next fw"
  "fw_watch (close_mapped s fw) = fw_watch fw" "fw_loops (close_mapped s fw) = fw_loops fw"
  "fw_owner (close_mapped s fw) = fw_owner fw" "fw_ended (close_mapped s fw) = fw_ended fw"
  "fw_cancels (close_mapped s fw) = fw_cancels fw" "fw_failed (close_mapped s fw) = fw_failed fw"
  "set (fw_open (close_mapped s fw)) = set (fw_open fw) - {l. Mapping.lookup (fw_map fw) s = Some l}"
  by (auto simp: close_mapped_def split: option.splits)

text \<open>What is recorded about a listener is what was forwarded, and every listener was forwarded once.\<close>

definition owned :: "forwards \<Rightarrow> bool" where
  "owned fw \<longleftrightarrow>
     (\<forall>l c s. (l, c, s) \<in> set (fw_owner fw) \<longrightarrow> l < fw_next fw) \<and>
     (\<forall>l c s c' s'. (l, c, s) \<in> set (fw_owner fw) \<longrightarrow> (l, c', s') \<in> set (fw_owner fw) \<longrightarrow> c = c' \<and> s = s') \<and>
     (\<forall>s l. Mapping.lookup (fw_map fw) s = Some l \<longrightarrow> (\<exists>c. (l, c, s) \<in> set (fw_owner fw))) \<and>
     (\<forall>c s l. (c, s, l) \<in> set (fw_watch fw) \<longrightarrow> (l, c, s) \<in> set (fw_owner fw))"

text \<open>A listener of a connection is open only while the goroutine for the end of the connection is there.\<close>

definition watched :: "forwards \<Rightarrow> bool" where
  "watched fw \<longleftrightarrow> (\<forall>l c s. l \<in> set (fw_open fw) \<longrightarrow> (l, c, s) \<in> set (fw_owner fw) \<longrightarrow> (c, s, l) \<in> set (fw_watch fw))"

text \<open>No two connections forward the same address.\<close>

definition own_addresses :: "forwards \<Rightarrow> bool" where
  "own_addresses fw \<longleftrightarrow>
     (\<forall>l c s l' c'. (l, c, s) \<in> set (fw_owner fw) \<longrightarrow> (l', c', s) \<in> set (fw_owner fw) \<longrightarrow> c = c')"

text \<open>A listener is closed for a reason of its own.\<close>

definition closed_for_cause :: "forwards \<Rightarrow> bool" where
  "closed_for_cause fw \<longleftrightarrow>
     (\<forall>l c s. (l, c, s) \<in> set (fw_owner fw) \<longrightarrow> l \<notin> set (fw_open fw) \<longrightarrow>
        c \<in> set (fw_ended fw) \<or> l \<in> set (fw_failed fw) \<or> (\<exists>c'. (c', s) \<in> set (fw_cancels fw)))"

lemma request_cases:
  assumes "snd (HandleSSHRequest valid allowed listens conn req fw) = fw'"
  obtains "fw' = fw"
  | src where "fw' = fw\<lparr>fw_map := Mapping.update src (fw_next fw) (fw_map fw), fw_open := fw_next fw # fw_open fw,
      fw_next := Suc (fw_next fw), fw_watch := (conn, src, fw_next fw) # fw_watch fw,
      fw_loops := (fw_next fw, src) # fw_loops fw, fw_owner := (fw_next fw, conn, src) # fw_owner fw\<rparr>"
  | src where "fw' = (close_mapped src fw)\<lparr>fw_cancels := (conn, src) # fw_cancels fw\<rparr>"
  using assms by (auto simp: HandleSSHRequest_def Let_def split: if_splits forward_request.splits)

lemma lookup_delete_Some: "Mapping.lookup (Mapping.delete k m) s = Some l \<Longrightarrow> Mapping.lookup m s = Some l"
  by (cases "s = k") simp_all

lemma owned_step: "forward_step dev fw fw' \<Longrightarrow> owned fw \<Longrightarrow> owned fw'"
proof (induction rule: forward_step.induct)
  case (request conn fw valid allowed listens req)
  let ?fw' = "snd (HandleSSHRequest valid allowed listens conn req fw)"
  show ?case
  proof (rule request_cases [OF refl, of valid allowed listens conn req fw])
    fix src assume e: "?fw' = fw\<lparr>fw_map := Mapping.update src (fw_next fw) (fw_map fw), fw_open := fw_next fw # fw_open fw,
      fw_next := Suc (fw_next fw), fw_watch := (conn, src, fw_next fw) # fw_watch fw,
      fw_loops := (fw_next fw, src) # fw_loops fw, fw_owner := (fw_next fw, conn, src) # fw_owner fw\<rparr>"
    have "\<exists>c. (l, c, s) = (fw_next fw, conn, src) \<or> (l, c, s) \<in> set (fw_owner fw)"
      if "Mapping.lookup (Mapping.update src (fw_next fw) (fw_map fw)) s = Some l" for s l
      using that request(2) unfolding owned_def by (cases "s = src") auto
    moreover have "(fw_next fw, c, s) \<notin> set (fw_owner fw)" for c s
      using request(2) by (auto simp: owned_def)
    ultimately show ?thesis using request(2) unfolding e owned_def by (auto simp: less_Suc_eq)
  qed (use request in \<open>auto simp: owned_def\<close>)
next
  case (disconnect fw conn)
  then show ?case by (simp add: owned_def)
next
  case (watch conn src l fw)
  then show ?case by (simp add: owned_def connection_ended_def)
next
  case (closed l src fw)
  then show ?case by (auto simp: owned_def accept_failed_def Let_def dest: lookup_delete_Some)
next
  case (failed l src fw)
  then show ?case by (auto simp: owned_def accept_failed_def Let_def dest: lookup_delete_Some)
qed

lemma watched_step: "forward_step True fw fw' \<Longrightarrow> owned fw \<Longrightarrow> watched fw \<Longrightarrow> watched fw'"
proof (induction rule: forward_step.induct)
  case (request conn fw valid allowed listens req)
  show ?case
    by (rule request_cases [OF refl, of valid allowed listens conn req fw])
      (use request in \<open>fastforce simp: watched_def owned_def\<close>)+
next
  case (disconnect fw conn)
  then show ?case by (simp add: watched_def)
next
  case (watch conn src l fw)
  then show ?case by (auto simp: watched_def connection_ended_def)
next
  case (closed l src fw)
  then show ?case by (auto simp: watched_def accept_failed_def Let_def)
next
  case (failed l src fw)
  then show ?case by (auto simp: watched_def accept_failed_def Let_def)
qed

lemma own_addresses_step: "forward_step dev fw fw' \<Longrightarrow> own_addresses fw' \<Longrightarrow> own_addresses fw"
proof (induction rule: forward_step.induct)
  case (request conn fw valid allowed listens req)
  show ?case
    by (rule request_cases [OF refl, of valid allowed listens conn req fw])
      (use request in \<open>auto simp: own_addresses_def\<close>)
qed (simp_all add: own_addresses_def connection_ended_def accept_failed_def Let_def)

lemma cause_step:
  "forward_step dev fw fw' \<Longrightarrow> owned fw \<Longrightarrow> own_addresses fw' \<Longrightarrow> closed_for_cause fw \<Longrightarrow> closed_for_cause fw'"
proof (induction rule: forward_step.induct)
  case (request conn fw valid allowed listens req)
  let ?fw' = "snd (HandleSSHRequest valid allowed listens conn req fw)"
  note cause = request(4) [unfolded closed_for_cause_def]
  show ?case
  proof (rule request_cases [OF refl, of valid allowed listens conn req fw])
    fix src assume e: "?fw' = (close_mapped src fw)\<lparr>fw_cancels := (conn, src) # fw_cancels fw\<rparr>"
    have "s = src" if o: "(l, c, s) \<in> set (fw_owner fw)" and m: "Mapping.lookup (fw_map fw) src = Some l" for l c s
    proof -
      obtain c0 where "(l, c0, src) \<in> set (fw_owner fw)" using request(2) m unfolding owned_def by blast
      with o show ?thesis using request(2) unfolding owned_def by blast
    qed
    then show ?thesis using cause unfolding e closed_for_cause_def by fastforce
  qed (use cause in \<open>auto simp: closed_for_cause_def\<close>)
next
  case (disconnect fw conn)
  then show ?case by (auto simp: closed_for_cause_def)
next
  case (watch conn src l fw)
  have w: "(l, conn, src) \<in> set (fw_owner fw)" using watch by (simp add: owned_def)
  have u: "c = c' \<and> s = s'" if "(k, c, s) \<in> set (fw_owner fw)" "(k, c', s') \<in> set (fw_owner fw)" for k c s c' s'
    using watch(3) that unfolding owned_def by blast
  have m: "c = conn" if o: "(k, c, s) \<in> set (fw_owner fw)" and l: "Mapping.lookup (fw_map fw) src = Some k" for k c s
  proof -
    obtain c0 where "(k, c0, src) \<in> set (fw_owner fw)" using watch(3) l unfolding owned_def by blast
    moreover have "own_addresses fw" using watch(4) by (simp add: own_addresses_def connection_ended_def)
    ultimately show ?thesis using u [OF o] w unfolding own_addresses_def by blast
  qed
  show ?case unfolding closed_for_cause_def
  proof (intro allI impI)
    fix k c s assume k: "(k, c, s) \<in> set (fw_owner (connection_ended dev (conn, src, l) fw))"
      "k \<notin> set (fw_open (connection_ended dev (conn, src, l) fw))"
    have k': "(k, c, s) \<in> set (fw_owner fw)" using k(1) by (simp add: connection_ended_def split: if_splits)
    have "k \<notin> set (fw_open fw) \<or> c = conn"
      using k(2) u [OF k' , of conn src] w m [OF k'] by (auto simp: connection_ended_def split: if_splits)
    then show "c \<in> set (fw_ended (connection_ended dev (conn, src, l) fw)) \<or>
      k \<in> set (fw_failed (connection_ended dev (conn, src, l) fw)) \<or>
      (\<exists>c'. (c', s) \<in> set (fw_cancels (connection_ended dev (conn, src, l) fw)))"
      using k' watch(2,5) by (auto simp: connection_ended_def closed_for_cause_def)
  qed
next
  case (closed l src fw)
  then show ?case by (auto simp: closed_for_cause_def accept_failed_def Let_def)
next
  case (failed l src fw)
  then show ?case by (auto simp: closed_for_cause_def accept_failed_def Let_def)
qed

lemma forward_start: "owned no_forwards" "watched no_forwards" "closed_for_cause no_forwards"
  by (simp_all add: owned_def watched_def closed_for_cause_def no_forwards_def lookup_empty)

lemma owned_steps: "forward_steps dev no_forwards fw \<Longrightarrow> owned fw"
  by (induction rule: rtranclp_induct) (auto simp: forward_start owned_step)

lemma watched_steps: "forward_steps True no_forwards fw \<Longrightarrow> watched fw"
  by (induction rule: rtranclp_induct) (auto simp: forward_start watched_step owned_steps)

lemma cause_steps: "forward_steps dev no_forwards fw \<Longrightarrow> own_addresses fw \<Longrightarrow> closed_for_cause fw"
  by (induction rule: rtranclp_induct) (auto simp: forward_start cause_step owned_steps own_addresses_step)

section \<open>Properties\<close>


text \<open>
  Nothing is left of a connection: when the handler of the server has run its goroutines for the end of
  a connection, no listener of that connection is open, however requests and goroutines interleaved.
\<close>

theorem forward_cleanup:
  assumes "forward_steps True no_forwards fw" "\<forall>s l. (c, s, l) \<notin> set (fw_watch fw)" "(l, c, s) \<in> set (fw_owner fw)"
  shows "l \<notin> set (fw_open fw)"
  using watched_steps [OF assms(1)] assms(2,3) unfolding watched_def by blast

text \<open>
  Connections that forward the same address do disturb each other: when the first one ends, the
  listener of the second is closed although that connection lives on and cancelled nothing, and without
  devices the listener of the first stays open with nobody left to close it.
\<close>

theorem forward_interference:
  assumes "c1 \<noteq> c2"
  shows "\<exists>fw l1 l2. forward_steps dev no_forwards fw \<and>
    (l1, c1, forward_key addr port) \<in> set (fw_owner fw) \<and> (l2, c2, forward_key addr port) \<in> set (fw_owner fw) \<and>
    fw_ended fw = [c1] \<and> fw_cancels fw = [] \<and> fw_failed fw = [] \<and> l2 \<notin> set (fw_open fw) \<and>
    (\<not> dev \<longrightarrow> l1 \<in> set (fw_open fw) \<and> (\<forall>s l. (c1, s, l) \<notin> set (fw_watch fw)))"
proof -
  let ?req = "\<lambda>c fw. snd (HandleSSHRequest True True True c (TcpipForward addr port) fw)" and ?s = "forward_key addr port"
  define fw1 fw2 fw3 where "fw1 = ?req c1 no_forwards" and "fw2 = ?req c2 fw1" and "fw3 = fw2\<lparr>fw_ended := c1 # fw_ended fw2\<rparr>"
  note defs = fw1_def fw2_def fw3_def HandleSSHRequest_def no_forwards_def Let_def
  have "forward_step dev no_forwards fw1" unfolding fw1_def by (rule forward_step.request) (simp add: no_forwards_def)
  moreover have "forward_step dev fw1 fw2" unfolding fw2_def by (rule forward_step.request) (simp add: defs)
  moreover have "forward_step dev fw2 fw3" unfolding fw3_def by (rule forward_step.disconnect)
  moreover have "forward_step dev fw3 (connection_ended dev (c1, ?s, 0) fw3)"
    by (rule forward_step.watch) (simp_all add: defs)
  ultimately have "forward_steps dev no_forwards (connection_ended dev (c1, ?s, 0) fw3)"
    by (meson converse_rtranclp_into_rtranclp r_into_rtranclp)
  then show ?thesis
    by (rule exI [of _ "connection_ended dev (c1, ?s, 0) fw3", OF exI [of _ 0, OF exI [of _ 1, OF conjI]]])
      (use assms in \<open>auto simp: connection_ended_def defs\<close>)
qed

text \<open>A connection that forwards one address and ends.\<close>

definition one_ended :: forwards where
  "one_ended = connection_ended True (7, forward_key ''h'' 1, 0)
     ((snd (HandleSSHRequest True True True 7 (TcpipForward ''h'' 1) no_forwards))\<lparr>fw_ended := [7]\<rparr>)"

lemma one_ended_steps: "forward_steps True no_forwards one_ended"
proof -
  let ?fw = "snd (HandleSSHRequest True True True 7 (TcpipForward ''h'' 1) no_forwards)"
  have "forward_step True no_forwards ?fw" by (rule forward_step.request) (simp add: no_forwards_def)
  moreover have "forward_step True ?fw (?fw\<lparr>fw_ended := [7]\<rparr>)"
    using forward_step.disconnect [of True ?fw 7] by (simp add: HandleSSHRequest_def no_forwards_def Let_def)
  moreover have "forward_step True (?fw\<lparr>fw_ended := [7]\<rparr>) one_ended"
    unfolding one_ended_def by (rule forward_step.watch) (simp_all add: HandleSSHRequest_def no_forwards_def Let_def)
  ultimately show ?thesis by (meson converse_rtranclp_into_rtranclp r_into_rtranclp)
qed

lemma one_ended_facts:
  "fw_owner one_ended = [(0, 7, forward_key ''h'' 1)]" "fw_watch one_ended = []" "fw_ended one_ended = [7]" "fw_open one_ended = []"
  "fw_failed one_ended = []" "fw_cancels one_ended = []"
  by (simp_all add: one_ended_def connection_ended_def HandleSSHRequest_def no_forwards_def Let_def close_mapped_def close_listener_def)


theorem forward_cleanup_witness: "0 \<notin> set (fw_open one_ended)"
  by (rule forward_cleanup [OF one_ended_steps, of 7 0 "forward_key ''h'' 1"]) (simp_all add: one_ended_facts)

theorem forward_interference_witness:
  "\<exists>fw l2. forward_steps True no_forwards fw \<and> (l2, 2, forward_key ''h'' 80) \<in> set (fw_owner fw) \<and> fw_ended fw = [1] \<and> l2 \<notin> set (fw_open fw)"
  using forward_interference [of 1 2 True "''h''" 80] by auto

end
