(* ===== verification/Shell_Handler.thy ===== *)
theory Shell_Handler
  imports Instance_Create Instance_Services
begin

text \<open>
  The shell sessions of the server, \<open>src/server/shell.go\<close>: \<open>shellHandler\<close> with the creation of
  instances, agent forwarding and persistent sessions (\<open>src/server/term-mux.go\<close>), the handlers of the
  commands \<open>shell\<close>, \<open>explain\<close> and \<open>remove\<close>, and the greeting (\<open>src/server/welcome.go\<close>). A
  handler is a function from the state of the connection and of the Incus server to the list of what it
  does and the state after it. Logging and the copying of data are left out, and so are the texts of
  errors that Incus reports.
\<close>

section \<open>Model\<close>

subsection \<open>Terminal multiplexers\<close>

text \<open>A format with one \<open>%s\<close>.\<close>

fun fill_in :: "string \<Rightarrow> string \<Rightarrow> string" where
  "fill_in [] x = []"
| "fill_in [c] x = [c]"
| "fill_in (c # d # t) x = (if c = CHR ''%'' \<and> d = CHR ''s'' then x @ t else c # fill_in (d # t) x)"

record mux_cmds =
  mc_list :: string
  mc_new :: string
  mc_attach :: string

definition termMux :: "string \<Rightarrow> mux_cmds option" where
  "termMux mux =
     (if mux = ''tmux'' then Some \<lparr>mc_list = ''ls'', mc_new = ''new -s %s -d'', mc_attach = ''a -t %s''\<rparr>
      else if mux = ''screen'' then Some \<lparr>mc_list = ''-ls'', mc_new = ''-dmS %s'', mc_attach = ''-r %s''\<rparr>
      else None)"

record TermMux =
  tm_mux :: string
  tm_session :: string
  tm_cmds :: mux_cmds
  tm_binWithPrefix :: bool

definition NewTermMux :: "string \<Rightarrow> string \<Rightarrow> bool \<Rightarrow> TermMux option" where
  "NewTermMux mux session binWithPrefix =
     map_option (\<lambda>c. \<lparr>tm_mux = mux, tm_session = session, tm_cmds = c, tm_binWithPrefix = binWithPrefix\<rparr>) (termMux mux)"

definition tm_Name :: "TermMux \<Rightarrow> string" where
  "tm_Name t = (if tm_binWithPrefix t then tm_session t @ ''-'' @ tm_mux t else tm_mux t)"

definition tm_List :: "TermMux \<Rightarrow> string" where
  "tm_List t = tm_Name t @ '' '' @ mc_list (tm_cmds t)"

definition tm_New :: "TermMux \<Rightarrow> string" where
  "tm_New t = tm_Name t @ '' '' @ fill_in (mc_new (tm_cmds t)) (tm_session t)"

definition tm_Attach :: "TermMux \<Rightarrow> string" where
  "tm_Attach t = tm_Name t @ '' '' @ fill_in (mc_attach (tm_cmds t)) (tm_session t)"

definition SessionExists :: "TermMux \<Rightarrow> string list \<Rightarrow> bool" where
  "SessionExists t lines = list_ex (\<lambda>l. contains_str l (tm_session t @ '':'') \<or> contains_str l (''.'' @ tm_session t)) lines"

subsection \<open>Environment, session and events\<close>

text \<open>
  What the handlers need of the program's configuration, of the host and of the Incus server of the
  login: its calls as functions on its state, what the other calls see of a state, and what happens to it
  while the handler sleeps some seconds or waits for a tick.
\<close>

record ('s, 'i, 'k) shell_env =
  sh_auth :: "'k auth_env"
  sh_server :: "('s, 'i) server"
  sh_devices :: "'s device_api"
  sh_view :: "'s \<Rightarrow> api"
  sh_elapse :: "nat \<Rightarrow> 's \<Rightarrow> 's"
  sh_tick :: "'s \<Rightarrow> 's"
  sh_ticks :: nat
  sh_StopInstance :: "string \<Rightarrow> string \<Rightarrow> 's \<Rightarrow> 's \<times> bool"
  sh_DeleteInstance :: "string \<Rightarrow> string \<Rightarrow> 's \<Rightarrow> 's \<times> bool"
  sh_host :: proxy_host
  sh_files :: files
  sh_unmarshal :: "string \<Rightarrow> store \<Rightarrow> (store \<times> CreateConfig) option"
  sh_order :: "strmap \<Rightarrow> string list"
  sh_names :: "CreateConfig \<Rightarrow> string list"
  sh_store :: store
  sh_home :: string
  sh_App :: string
  sh_Shell :: string
  sh_TermMux :: string
  sh_IncusSocket :: string
  sh_Hostname :: string
  sh_AllowCreate :: bool
  sh_Welcome :: bool
  sh_PtyStarts :: bool

text \<open>
  A session: the environment and the command of the client, its pseudo-terminal, whether it asked for agent
  forwarding and the address of the listener for it, and what it sends, one element for each read.
\<close>

record session_info =
  si_Environ :: "string list"
  si_Raw :: string
  si_pty :: "(string \<times> int \<times> int) option"
  si_agent :: bool
  si_listener :: "string option"
  si_RemoteAddr :: string
  si_ID :: string
  si_Input :: "string list"

datatype shell_event =
    Printed string
  | PrintedErr string
  | Exited int
  | Ran string InstanceExec
  | Installed string string "string list"
  | Created string CreateInstanceParams
  | Registered ProxyDevice
  | Stopping string string
  | Deleting string string
  | HostCommand "string list" "string list"
  | HostInput string
  | Panic

type_synonym 's shell_state = "auth_state \<times> 's"

definition CRLF :: string where "CRLF = [CHR 13, CHR 10]"

text \<open>The client looks at the new state of the server.\<close>

definition refresh :: "('s \<Rightarrow> api) \<Rightarrow> 's \<Rightarrow> string \<Rightarrow> auth_state \<Rightarrow> auth_state" where
  "refresh look s cur st = st\<lparr>as_client := Some (look s, cur)\<rparr>"

text \<open>The environment as the list of its entries.\<close>

definition env_list :: "(strmap \<Rightarrow> string list) \<Rightarrow> strmap \<Rightarrow> (string \<times> string) list" where
  "env_list order env = map (\<lambda>k. (k, info_get env k)) (order env)"

subsection \<open>Persistent sessions\<close>

text \<open>\<open>checkTermMux\<close>: what it does, and whether it returns, fails or panics.\<close>

definition mux_install ::
  "int \<Rightarrow> TermMux \<Rightarrow> LoginUser \<Rightarrow> api \<times> string \<Rightarrow> auth_state \<Rightarrow> shell_event list \<times> auth_state \<times> unit call" where
  "mux_install now t lu cl st =
     (case CommandExists (fst cl) now (lu_Project (lu_core lu)) (lu_Instance (lu_core lu)) (tm_Name t) False (as_caches st) (snd cl) of
        (cs, Return True) \<Rightarrow> ([], st\<lparr>as_caches := cs\<rparr>, Return ())
      | (cs, Crash) \<Rightarrow> ([], st\<lparr>as_caches := cs\<rparr>, Crash)
      | (cs, _) \<Rightarrow>
          ([Printed (CRLF @ ''installing '' @ tm_Name t @ ''...'' @ CRLF @ [CHR 10]),
            Installed (snd cl) (lu_Instance (lu_core lu)) [tm_Name t]], st\<lparr>as_caches := cs\<rparr>,
           InstallPackages (fst cl) (lu_Project (lu_core lu)) (lu_Instance (lu_core lu)) [tm_Name t] (snd cl)))"

definition mux_list_exec :: "TermMux \<Rightarrow> string \<Rightarrow> InstanceUser \<Rightarrow> InstanceExec" where
  "mux_list_exec t inst iu =
     (simple_exec inst (tm_List t) True)\<lparr>ie_User := iu_Uid iu, ie_Group := iu_Gid iu\<rparr>"

text \<open>The command that makes a session has no writer for its standard error.\<close>

definition mux_new_exec :: "TermMux \<Rightarrow> string \<Rightarrow> InstanceUser \<Rightarrow> (string \<times> string) list \<Rightarrow> InstanceExec" where
  "mux_new_exec t inst iu env =
     (simple_exec inst (tm_New t) False)\<lparr>ie_Env := env, ie_User := iu_Uid iu, ie_Group := iu_Gid iu, ie_Cwd := iu_Dir iu\<rparr>"

definition mux_session ::
  "TermMux \<Rightarrow> LoginUser \<Rightarrow> InstanceUser \<Rightarrow> (string \<times> string) list \<Rightarrow> api \<times> string \<Rightarrow> shell_event list \<times> unit call" where
  "mux_session t lu iu env cl =
     (let inst = lu_Instance (lu_core lu); e = mux_list_exec t inst iu
      in case Exec (fst cl) (snd cl) e of
           Return (_, _, out) \<Rightarrow>
             if SessionExists t (fst (ob_Lines (ob_Write out NewOutputBuffer))) then ([Ran (snd cl) e], Return ())
             else (let e' = mux_new_exec t inst iu env
                   in ([Ran (snd cl) e, Ran (snd cl) e'],
                       case Exec (fst cl) (snd cl) e' of
                         Return (ret, _, _) \<Rightarrow> if ret \<noteq> 0 then Fail else Return ()
                       | Fail \<Rightarrow> Fail
                       | Crash \<Rightarrow> Crash))
         | _ \<Rightarrow> ([Ran (snd cl) e], Crash))"

definition checkTermMux ::
  "int \<Rightarrow> TermMux \<Rightarrow> LoginUser \<Rightarrow> InstanceUser \<Rightarrow> (string \<times> string) list \<Rightarrow> api \<times> string \<Rightarrow> auth_state \<Rightarrow>
   shell_event list \<times> auth_state \<times> unit call" where
  "checkTermMux now t lu iu env cl st =
     (case mux_install now t lu cl st of
        (evs, st, Return _) \<Rightarrow> (case mux_session t lu iu env cl of (evs', r) \<Rightarrow> (evs @ evs', st, r))
      | (evs, st, r) \<Rightarrow> (evs, st, r))"

subsection \<open>The user of the instance\<close>

definition shell_config_paths :: "('s, 'i, 'k) shell_env \<Rightarrow> string list" where
  "shell_config_paths env =
     [[], path_Join [sh_home env, ''.config'', sh_App env], path_Join [''/etc'', sh_App env]]"

text \<open>
  Creating the instance: a configuration that cannot be loaded is a nil pointer, which \<open>ApplyProfiles\<close>
  dereferences. The last component is whether the handler goes on.
\<close>

definition shell_create ::
  "('s, 'i, 'k) shell_env \<Rightarrow> LoginUser \<Rightarrow> string \<Rightarrow> 's shell_state \<Rightarrow> shell_event list \<times> 's shell_state \<times> bool" where
  "shell_create env lu cur = (\<lambda>(st, s).
     (case LoadCreateConfigWithFallback (sh_files env) (sh_unmarshal env) (sh_order env) (sh_names env)
             (shell_config_paths env) (sh_store env) of
        (h, Inl e) \<Rightarrow> ([Panic], (st, s), False)
      | (h, Inr cc) \<Rightarrow>
          (case ApplyProfiles cc (lcc_Profiles (lu_CreateConfig (lu_core lu))) h of
             (h, cc, Some name) \<Rightarrow>
               ([Printed (''profile '' @ Quote name @ '' does not exist'' @ CRLF), Exited 255], (st, s), False)
           | (h, cc, None) \<Rightarrow>
               (let p = login_params lu cc h;
                    tip = (if cp_Ephemeral p
                           then [Printed (CRLF @ ''tip: run `sudo poweroff` to destroy ephemeral instance'' @ CRLF)] else [])
                in case CreateInstance (sh_server env) p s cur of
                     (s, cur, Inl e) \<Rightarrow>
                       (tip @ [Printed (CRLF @ ''cannot create instance:'' @ CRLF), Exited 20],
                        (refresh (sh_view env) s cur st, s), False)
                   | (s, cur, Inr i) \<Rightarrow>
                       (tip @ [Created (lu_Project (lu_core lu)) p], (refresh (sh_view env) s cur st, s), True)))))"

text \<open>
  The loop that waits for the user of a new instance. What it finds is dropped: the variable of the loop
  hides the one of the handler. The last component is whether there was no panic.
\<close>

fun wait_user ::
  "('s \<Rightarrow> api) \<Rightarrow> (nat \<Rightarrow> 's \<Rightarrow> 's) \<Rightarrow> string \<Rightarrow> string \<Rightarrow> string \<Rightarrow> nat list \<Rightarrow> 's \<Rightarrow> string \<Rightarrow> 's \<times> string \<times> bool" where
  "wait_user look elapse project inst user [] s cur = (s, cur, True)"
| "wait_user look elapse project inst user (i # is) s cur =
     (let s = elapse (i div 10 + 1) s
      in case GetInstanceUser (look s) project inst user cur of
           (cur, Return _) \<Rightarrow> (s, cur, True)
         | (cur, Fail) \<Rightarrow> wait_user look elapse project inst user is s cur
         | (cur, Crash) \<Rightarrow> (s, cur, False))"

definition shell_wait :: "('s, 'i, 'k) shell_env \<Rightarrow> LoginUser \<Rightarrow> 's shell_state \<Rightarrow> 's shell_state \<times> bool" where
  "shell_wait env lu = (\<lambda>(st, s).
     (case as_client st of
        None \<Rightarrow> ((st, s), True)
      | Some (a, cur) \<Rightarrow>
          if lu_InstanceUser (lu_core lu) = ''root'' then ((st, s), True)
          else (case wait_user (sh_view env) (sh_elapse env) (lu_Project (lu_core lu)) (lu_Instance (lu_core lu))
                       (lu_InstanceUser (lu_core lu)) [0..<20] s cur of
                  (s, cur, ok) \<Rightarrow> ((refresh (sh_view env) s cur st, s), ok))))"

definition cached_user ::
  "int \<Rightarrow> LoginUser \<Rightarrow> 's shell_state \<Rightarrow> shell_event list \<times> 's shell_state \<times> InstanceUser option" where
  "cached_user now lu = (\<lambda>(st, s).
     (case as_client st of
        None \<Rightarrow> ([], (st, s), None)
      | Some cl \<Rightarrow>
          (case context_instance_user now lu cl st of
             (Return iu, st) \<Rightarrow> ([], (st, s), Some iu)
           | (Fail, st) \<Rightarrow>
               ([Printed (CRLF @ ''cannot get instance user '' @ Quote (lu_InstanceUser (lu_core lu)) @ CRLF), Exited 1],
                (st, s), None)
           | (Crash, st) \<Rightarrow> ([Panic], (st, s), None))))"

definition created_user ::
  "('s, 'i, 'k) shell_env \<Rightarrow> int \<Rightarrow> LoginUser \<Rightarrow> string \<Rightarrow> 's shell_state \<Rightarrow>
   shell_event list \<times> 's shell_state \<times> InstanceUser option" where
  "created_user env now lu cur x =
     (case shell_create env lu cur x of
        (evs, x, False) \<Rightarrow> (evs, x, None)
      | (evs, x, True) \<Rightarrow>
          (case shell_wait env lu x of
             (x, False) \<Rightarrow> (evs @ [Panic], x, None)
           | (x, True) \<Rightarrow> (case cached_user now lu x of (evs', x, r) \<Rightarrow> (evs @ evs', x, r))))"

definition shell_user ::
  "('s, 'i, 'k) shell_env \<Rightarrow> int \<Rightarrow> LoginUser \<Rightarrow> 's shell_state \<Rightarrow> shell_event list \<times> 's shell_state \<times> InstanceUser option" where
  "shell_user env now lu = (\<lambda>(st, s).
     (if \<not> lu_CreateInstance (lu_core lu) then cached_user now lu (st, s)
      else if \<not> sh_AllowCreate env
      then ([Printed (CRLF @ ''Instance creation not allowed'' @ CRLF), Exited 1], (st, s), None)
      else (case as_client st of
              None \<Rightarrow> ([], (st, s), None)
            | Some (a, cur) \<Rightarrow>
                (case GetInstanceUser a (lu_Project (lu_core lu)) (lu_Instance (lu_core lu)) (lu_InstanceUser (lu_core lu)) cur of
                   (cur, Return iu) \<Rightarrow> ([], (st\<lparr>as_client := Some (a, cur)\<rparr>, s), Some iu)
                 | (cur, Crash) \<Rightarrow> ([Panic], (st\<lparr>as_client := Some (a, cur)\<rparr>, s), None)
                 | (cur, Fail) \<Rightarrow>
                     (case created_user env now lu cur (st\<lparr>as_client := Some (a, cur)\<rparr>, s) of
                        (evs, x, r) \<Rightarrow> (Printed (''creating instance...'' @ CRLF) # evs, x, r))))))"

subsection \<open>Agent forwarding\<close>

definition agent_device :: "LoginUser \<Rightarrow> InstanceUser \<Rightarrow> string \<Rightarrow> ProxyDevice" where
  "agent_device lu iu addr =
     NewProxyDevice (lu_Project (lu_core lu)) (lu_Instance (lu_core lu)) addr (iu_Uid iu) (iu_Gid iu) ''0660''"

text \<open>Without a listener the address is read from a nil interface. The device is added where the client is.\<close>

definition setup_agent ::
  "('s, 'i, 'k) shell_env \<Rightarrow> LoginUser \<Rightarrow> InstanceUser \<Rightarrow> session_info \<Rightarrow> strmap \<Rightarrow> 's shell_state \<Rightarrow>
   shell_event list \<times> 's shell_state \<times> strmap option" where
  "setup_agent env lu iu ses vars = (\<lambda>(st, s).
     (if \<not> si_agent ses then ([], (st, s), Some vars)
      else (case si_listener ses of
              None \<Rightarrow> ([PrintedErr (CRLF @ ''failed to setup agent'' @ CRLF), Panic], (st, s), None)
            | Some addr \<Rightarrow>
                (case as_client st of
                   None \<Rightarrow> ([], (st, s), Some vars)
                 | Some (a, cur) \<Rightarrow>
                     (case AddSocket (sh_devices env) (sh_host env) (agent_device lu iu addr)
                             \<lparr>cl_project = cur, cl_scope = (if cur = [] then ''default'' else cur)\<rparr> s of
                        (Inr socket, pd, _, s) \<Rightarrow>
                          ([Registered pd], (refresh (sh_view env) s cur st, s), Some (Mapping.update ''SSH_AUTH_SOCK'' socket vars))
                      | (Inl _, _, _, _) \<Rightarrow>
                          ([PrintedErr (CRLF @ ''failed to setup agent socket'' @ CRLF)], (st, s), Some vars))))))"

subsection \<open>The command\<close>

text \<open>The command and whether it runs as the user. A multiplexer that is not known is a nil pointer.\<close>

definition shell_command ::
  "('s, 'i, 'k) shell_env \<Rightarrow> int \<Rightarrow> LoginUser \<Rightarrow> InstanceUser \<Rightarrow> session_info \<Rightarrow> strmap \<Rightarrow> auth_state \<Rightarrow>
   shell_event list \<times> auth_state \<times> (string \<times> bool) option" where
  "shell_command env now lu iu ses vars st =
     (if \<not> lu_Persistent (lu_core lu)
      then ([], st, Some (buildCommandString (sh_Shell env) (si_Raw ses) iu (si_RemoteAddr ses)))
      else (case NewTermMux (sh_TermMux env) (sh_App env) False of
              None \<Rightarrow> ([PrintedErr (CRLF @ ''failed to create persistent session'' @ CRLF), Panic], st, None)
            | Some t \<Rightarrow>
                (case as_client st of
                   None \<Rightarrow> ([], st, None)
                 | Some cl \<Rightarrow>
                     (case checkTermMux now t lu iu (env_list (sh_order env) vars) cl st of
                        (evs, st, Crash) \<Rightarrow> (evs @ [Panic], st, None)
                      | (evs, st, Fail) \<Rightarrow>
                          (evs @ [PrintedErr (CRLF @ ''failed to create persistent session:'' @ CRLF)], st, Some (tm_Attach t, True))
                      | (evs, st, Return _) \<Rightarrow> (evs, st, Some (tm_Attach t, True))))))"

text \<open>\<open>strings.NewReplacer\<close> for keys that are not empty.\<close>

function replacer :: "(string \<times> string) list \<Rightarrow> string \<Rightarrow> string" where
  "replacer kvs [] = []"
| "replacer kvs (c # s) =
     (case find (\<lambda>(k, v). has_prefix (c # s) k) kvs of
        Some (k, v) \<Rightarrow> v @ replacer kvs (drop (length k - 1) s)
      | None \<Rightarrow> c # replacer kvs s)"
  by pat_completeness auto
termination
  by (relation "measure (\<lambda>(kvs, s). length s)") auto

definition welcome_paths :: "string \<Rightarrow> string list" where
  "welcome_paths home =
     [''welcome.txt''] @ (if home \<noteq> [] then [path_Join [home, ''.config'', ''ssh2incus'', ''welcome.txt'']] else []) @
     [path_Join [''/etc'', ''ssh2incus'', ''welcome.txt'']]"

definition welcomeHandler :: "files \<Rightarrow> string \<Rightarrow> InstanceUser \<Rightarrow> string" where
  "welcomeHandler fs home iu =
     (case List.map_filter (fs_ReadFile fs) (welcome_paths home) of
        data # _ \<Rightarrow>
          replacer [(''[INSTANCE_USER]'', iu_User iu), (''[INSTANCE]'', iu_Instance iu), (''[PROJECT]'', iu_Project iu)] data
      | [] \<Rightarrow> ''Welcome '' @ Quote (iu_User iu) @ '' to incus shell on '' @ iu_Instance iu @ ''.'' @ iu_Project iu)"

definition greeting :: "('s, 'i, 'k) shell_env \<Rightarrow> session_info \<Rightarrow> InstanceUser \<Rightarrow> shell_event list" where
  "greeting env ses iu =
     (let welcome = welcomeHandler (sh_files env) (sh_home env) iu
      in if sh_Welcome env \<and> si_pty ses \<noteq> None \<and> si_Raw ses = [] \<and> welcome \<noteq> []
         then [Printed (CRLF @ welcome @ CRLF @ [CHR 10])] else [])"

definition shell_exec ::
  "('s, 'i, 'k) shell_env \<Rightarrow> LoginUser \<Rightarrow> InstanceUser \<Rightarrow> session_info \<Rightarrow> strmap \<Rightarrow> string \<times> bool \<Rightarrow> InstanceExec" where
  "shell_exec env lu iu ses vars c =
     \<lparr>ie_Instance = lu_Instance (lu_core lu), ie_Cmd = fst c, ie_Env = env_list (sh_order env) vars,
      ie_IsPty = (si_pty ses \<noteq> None),
      ie_Width = (case si_pty ses of Some (_, w, h) \<Rightarrow> w | None \<Rightarrow> 0),
      ie_Height = (case si_pty ses of Some (_, w, h) \<Rightarrow> h | None \<Rightarrow> 0),
      ie_User = (if snd c then iu_Uid iu else 0), ie_Group = (if snd c then iu_Gid iu else 0),
      ie_Cwd = iu_Dir iu, ie_has_Stderr = True\<rparr>"

text \<open>The end of the handler: the greeting, the command, and its exit status for the client.\<close>

definition shell_run :: "shell_event list \<Rightarrow> InstanceExec \<Rightarrow> api \<times> string \<Rightarrow> shell_event list" where
  "shell_run hello e cl =
     hello @ [Ran (snd cl) e] @
     (case Exec (fst cl) (snd cl) e of Return (ret, _, _) \<Rightarrow> [Exited ret] | _ \<Rightarrow> [Panic])"

definition shell_start ::
  "('s, 'i, 'k) shell_env \<Rightarrow> int \<Rightarrow> LoginUser \<Rightarrow> InstanceUser \<Rightarrow> session_info \<Rightarrow> 's shell_state \<Rightarrow>
   shell_event list \<times> 's shell_state" where
  "shell_start env now lu iu ses x =
     (let term = (case si_pty ses of Some (term, _) \<Rightarrow> term | None \<Rightarrow> []);
          vars = setupEnvironmentVariables (si_Environ ses) (si_ID ses) iu term
      in case setup_agent env lu iu ses vars x of
           (evs, x, None) \<Rightarrow> (evs, x)
         | (evs, (st, s), Some vars) \<Rightarrow>
             (case shell_command env now lu iu ses vars st of
                (evs', st, None) \<Rightarrow> (evs @ evs', (st, s))
              | (evs', st, Some c) \<Rightarrow>
                  (case as_client st of
                     None \<Rightarrow> (evs @ evs', (st, s))
                   | Some cl \<Rightarrow>
                       (evs @ evs' @ shell_run (greeting env ses iu) (shell_exec env lu iu ses vars c) cl, (st, s)))))"

text \<open>A login that is not a command.\<close>

definition shell_session ::
  "('s, 'i, 'k) shell_env \<Rightarrow> int \<Rightarrow> LoginUser \<Rightarrow> session_info \<Rightarrow> 's shell_state \<Rightarrow> shell_event list \<times> 's shell_state" where
  "shell_session env now lu ses = (\<lambda>(st, s).
     (case context_client (sh_auth env) lu st of
        (None, st) \<Rightarrow> ([Exited 255], (st, s))
      | (Some _, st) \<Rightarrow>
          (case shell_user env now lu (st, s) of
             (evs, x, None) \<Rightarrow> (evs, x)
           | (evs, x, Some iu) \<Rightarrow> (case shell_start env now lu iu ses x of (evs', x) \<Rightarrow> (evs @ evs', x)))))"

subsection \<open>Commands\<close>

definition yes_line :: "bool option \<Rightarrow> string \<Rightarrow> string" where
  "yes_line b line = (if b = Some True then line else [])"

definition option_line :: "string \<Rightarrow> string option \<Rightarrow> string \<Rightarrow> string" where
  "option_line label v unit = (case v of Some x \<Rightarrow> label @ x @ unit @ CRLF | None \<Rightarrow> [])"

definition explain_create :: "LoginCreateConfig \<Rightarrow> string" where
  "explain_create c =
     ''Create Instance: true'' @ CRLF @
     option_line ''  Image:         '' (lcc_Image c) [] @
     option_line ''  Memory:        '' (map_option itoa (lcc_Memory c)) '' MB'' @
     option_line ''  CPU:           '' (map_option itoa (lcc_CPU c)) '' cores'' @
     option_line ''  Disk:          '' (map_option itoa (lcc_Disk c)) '' GB'' @
     yes_line (lcc_Ephemeral c) (''  Ephemeral:     true (destroyed on poweroff)'' @ CRLF) @
     yes_line (lcc_Nesting c) (''  Nesting:       true'' @ CRLF) @
     yes_line (lcc_Privileged c) (''  Privileged:    true'' @ CRLF) @
     yes_line (lcc_VM c) (''  VM:            true'' @ CRLF) @
     (if lcc_Profiles c \<noteq> [] then ''  Profiles:      ['' @ join '' '' (lcc_Profiles c) @ '']'' @ CRLF else [])"

definition explain_text :: "login_core \<Rightarrow> string" where
  "explain_text eu =
     CRLF @ ''=== Login String Explanation ==='' @ CRLF @ [CHR 10] @
     (if lu_Remote eu \<noteq> [] then ''Remote:          '' @ lu_Remote eu @ CRLF else []) @
     ''Host User:       '' @ lu_User eu @ CRLF @
     ''Instance:        '' @ lu_Instance eu @ CRLF @
     ''Project:         '' @ lu_Project eu @ CRLF @
     ''Instance User:   '' @ lu_InstanceUser eu @ CRLF @
     (if lu_Persistent eu then ''Persistent:      true (session persists across connections)'' @ [CHR 10] else []) @
     (if lu_CreateInstance eu then explain_create (lu_CreateConfig eu) else []) @ CRLF"

definition explainHandler :: "LoginUser \<Rightarrow> shell_event list" where
  "explainHandler lu =
     (case lu_ExplainUser lu of
        None \<Rightarrow> [Printed (''Invalid explain command'' @ CRLF), Exited 1]
      | Some eu \<Rightarrow> [Printed (explain_text (lu_core eu)), Exited 0])"

text \<open>\<open>incusShell\<close>: a program of the host. What is typed goes to it up to the read that has a Ctrl+C.\<close>

fun shell_input :: "string list \<Rightarrow> string list \<times> bool" where
  "shell_input [] = ([], False)"
| "shell_input (c # cs) =
     (if CHR 3 \<in> set c then ([], True) else (case shell_input cs of (ds, e) \<Rightarrow> (c # ds, e)))"

definition incus_shell_command :: string where
  "incus_shell_command =
     ''/bin/bash -c '' @ [CHR 0x27] @ ''while true; do read -r -p '' @ [CHR 0x22, CHR 10] @ ''Type incus command:'' @ [CHR 10] @
     ''> incus '' @ [CHR 0x22] @ '' a; incus $a; done'' @ [CHR 0x27]"

definition incus_shell_env :: "('s, 'i, 'k) shell_env \<Rightarrow> session_info \<Rightarrow> string \<Rightarrow> string list" where
  "incus_shell_env env ses term =
     (if term \<noteq> [] then [''TERM='' @ term] else []) @
     [''SSH_SESSION='' @ si_ID ses, ''PATH=/bin:/usr/bin:/snap/bin:/usr/local/bin''] @
     (if sh_IncusSocket env \<noteq> [] then [''INCUS_SOCKET='' @ sh_IncusSocket env] else [])"

definition incusShell :: "('s, 'i, 'k) shell_env \<Rightarrow> session_info \<Rightarrow> shell_event list" where
  "incusShell env ses =
     (case Split incus_shell_command True of
        (_, Some _) \<Rightarrow> [Printed (''Internal error: command parsing failed'' @ CRLF), Exited 255]
      | (args, None) \<Rightarrow>
          (case si_pty ses of
             None \<Rightarrow> [Printed (''No PTY requested'' @ CRLF), Exited 255]
           | Some (term, _) \<Rightarrow>
               (let hello = [Printed ([CHR 10] @ ''incus shell emulator on '' @ sh_Hostname env @ '' (Ctrl+C to exit)'' @ [CHR 10, CHR 10] @
                               ''Hit ENTER or type '' @ [CHR 0x27] @ ''help <command>'' @ [CHR 0x27] @ '' for help about any command'' @ [CHR 10])]
                in if \<not> sh_PtyStarts env
                   then [Printed (''Could not allocate PTY'' @ CRLF), Exited (-1)] @ hello @ [Exited 0]
                   else [HostCommand args (incus_shell_env env ses term)] @ hello @
                     (case shell_input (si_Input ses) of
                        (typed, e) \<Rightarrow> map HostInput typed @ (if e then [Printed (CRLF @ ''Exiting incus shell'' @ CRLF)] else [])) @
                     [Exited 0])))"

subsection \<open>Removing an instance\<close>

text \<open>The text of \<open>api.Instance\<close> is of the instance that was looked up.\<close>

definition remove_text :: "('s, 'i, 'k) shell_env \<Rightarrow> login_core \<Rightarrow> InstanceFull \<Rightarrow> string" where
  "remove_text env ru i =
     (let remote = (if lu_Remote ru = [] then ae_Remote (sh_auth env) else lu_Remote ru)
      in CRLF @ ''=== Instance Details ==='' @ CRLF @ [CHR 10] @
         (if remote \<noteq> [] then ''Remote:          '' @ remote @ CRLF else []) @
         ''Instance:        '' @ lu_Instance ru @ CRLF @
         ''Project:         '' @ lu_Project ru @ CRLF @
         ''Status:          '' @ in_Status i @ CRLF @
         ''Type:            '' @ in_Type i @ CRLF @
         (if in_Ephemeral i then ''Ephemeral:       yes'' @ CRLF else []) @ CRLF)"

definition full_name :: "login_core \<Rightarrow> string" where
  "full_name ru = lu_Instance ru @ ''.'' @ lu_Project ru"

text \<open>One read of at most 1024 bytes is the answer.\<close>

definition remove_confirmed :: "string list \<Rightarrow> bool" where
  "remove_confirmed input = (case input of [] \<Rightarrow> False | answer # _ \<Rightarrow> to_lower (trim_space (take 1024 answer)) = ''yes'')"

definition remove_delete :: "('s, 'i, 'k) shell_env \<Rightarrow> login_core \<Rightarrow> 's \<Rightarrow> shell_event list \<times> 's" where
  "remove_delete env ru s =
     (case sh_DeleteInstance env (lu_Project ru) (lu_Instance ru) s of
        (s, ok) \<Rightarrow>
          ([Printed (''Deleting instance...'' @ CRLF), Deleting (lu_Project ru) (lu_Instance ru)] @
           (if ok then [Printed (CRLF @ ''Instance '' @ full_name ru @ '' deleted successfully'' @ CRLF), Exited 0]
            else [Printed (''Failed to delete instance: ''), Exited 20]), s))"

text \<open>An ephemeral instance is gone after it was stopped; a query that fails is tried again.\<close>

fun wait_gone ::
  "('s, 'i) server \<Rightarrow> ('s \<Rightarrow> 's) \<Rightarrow> string \<Rightarrow> string \<Rightarrow> nat \<Rightarrow> 's \<Rightarrow> string \<Rightarrow> 's \<times> string \<times> bool" where
  "wait_gone sv tick name project 0 s cur = (s, cur, False)"
| "wait_gone sv tick name project (Suc n) s cur =
     (let s = tick s
      in case InstanceExists sv name project s cur of
           (cur, Inr False) \<Rightarrow> (s, cur, True)
         | (cur, _) \<Rightarrow> wait_gone sv tick name project n s cur)"

definition remove_wait ::
  "('s, 'i, 'k) shell_env \<Rightarrow> login_core \<Rightarrow> string \<Rightarrow> auth_state \<Rightarrow> 's \<Rightarrow> shell_event list \<times> 's shell_state" where
  "remove_wait env ru cur st s =
     (case wait_gone (sh_server env) (sh_tick env) (lu_Instance ru) (lu_Project ru) (sh_ticks env) s cur of
        (s, cur, gone) \<Rightarrow>
          (Printed (''Waiting for ephemeral instance to be deleted...'' @ CRLF) #
           (if gone then [Printed (CRLF @ ''Ephemeral instance '' @ full_name ru @ '' deleted successfully'' @ CRLF), Exited 0]
            else [Printed (''Timeout waiting for instance to be deleted'' @ CRLF), Exited 20]),
           (refresh (sh_view env) s cur st, s)))"

text \<open>After the confirmation: what was looked up decides whether the instance is stopped and awaited.\<close>

definition remove_confirmed_instance ::
  "('s, 'i, 'k) shell_env \<Rightarrow> login_core \<Rightarrow> InstanceFull \<Rightarrow> string \<Rightarrow> 's shell_state \<Rightarrow> shell_event list \<times> 's shell_state" where
  "remove_confirmed_instance env ru i cur = (\<lambda>(st, s).
     (if in_Status i \<noteq> ''Running''
      then (case remove_delete env ru s of (evs, s) \<Rightarrow> (evs, (refresh (sh_view env) s cur st, s)))
      else (case sh_StopInstance env (lu_Project ru) (lu_Instance ru) s of
              (s, ok) \<Rightarrow>
                (case (if \<not> ok then ([Printed (''Failed to stop instance: ''), Exited 20], (refresh (sh_view env) s cur st, s))
                       else if in_Ephemeral i then remove_wait env ru cur st s
                       else (case remove_delete env ru s of (evs, s) \<Rightarrow> (evs, (refresh (sh_view env) s cur st, s)))) of
                   (evs, x) \<Rightarrow>
                     ([Printed (CRLF @ ''Stopping instance...'' @ CRLF), Stopping (lu_Project ru) (lu_Instance ru)] @ evs, x)))))"

definition remove_instance ::
  "('s, 'i, 'k) shell_env \<Rightarrow> LoginUser \<Rightarrow> login_core \<Rightarrow> session_info \<Rightarrow> InstanceFull \<Rightarrow> string \<Rightarrow> 's shell_state \<Rightarrow>
   shell_event list \<times> 's shell_state" where
  "remove_instance env lu ru ses i cur x =
     (let ask = Printed (''Are you sure you want to delete instance '' @ full_name ru @ ''? Type '' @ [CHR 0x27] @ ''yes'' @ [CHR 0x27] @ '' to confirm: '')
      in if lu_ForceRemove (lu_core lu)
         then (case remove_confirmed_instance env ru i cur x of (evs, x) \<Rightarrow> (Printed (remove_text env ru i) # evs, x))
         else if \<not> remove_confirmed (si_Input ses)
         then ([Printed (remove_text env ru i), ask, Printed (CRLF @ ''Cancelled'' @ CRLF), Exited 0], x)
         else (case remove_confirmed_instance env ru i cur x of (evs, x) \<Rightarrow> ([Printed (remove_text env ru i), ask] @ evs, x)))"

text \<open>The client is the one for the remote of the login, whose own remote is not that of the instance to remove.\<close>

definition removeHandler ::
  "('s, 'i, 'k) shell_env \<Rightarrow> int \<Rightarrow> LoginUser \<Rightarrow> session_info \<Rightarrow> 's shell_state \<Rightarrow> shell_event list \<times> 's shell_state" where
  "removeHandler env now lu ses = (\<lambda>(st, s).
     (case lu_RemoveUser lu of
        None \<Rightarrow> ([Printed (''Invalid remove command'' @ CRLF), Exited 1], (st, s))
      | Some r \<Rightarrow>
          if lu_User (lu_core lu) \<noteq> ''root''
          then ([Printed (CRLF @ ''Permission denied: only root user can remove instances'' @ CRLF), Exited 1], (st, s))
          else (case context_client (sh_auth env) lu st of
                  (None, st) \<Rightarrow> ([Printed (CRLF @ ''Failed to connect to Incus: ''), Exited 255], (st, s))
                | (Some (a, cur), st) \<Rightarrow>
                    (case GetCachedInstance a now (lu_Project (lu_core r)) (lu_Instance (lu_core r)) (as_caches st) cur of
                       (cs, Return i) \<Rightarrow> remove_instance env lu (lu_core r) ses i cur (st\<lparr>as_caches := cs\<rparr>, s)
                     | (cs, _) \<Rightarrow>
                         ([Printed (CRLF @ ''Instance '' @ full_name (lu_core r) @ '' not found'' @ CRLF), Exited 1],
                          (st\<lparr>as_caches := cs\<rparr>, s))))))"

subsection \<open>The handler\<close>

definition shellHandler ::
  "('s, 'i, 'k) shell_env \<Rightarrow> int \<Rightarrow> string \<Rightarrow> session_info \<Rightarrow> 's shell_state \<Rightarrow> shell_event list \<times> 's shell_state" where
  "shellHandler env now user ses = (\<lambda>(st, s).
     (case LoginUserFromContext (sh_auth env) user st of (lu, st) \<Rightarrow>
        (case IsValid (sh_auth env) now lu st of
           (Crash, st) \<Rightarrow> ([Panic], (st, s))
         | (Return True, st) \<Rightarrow>
             if lu_User (lu_core lu) = ''root'' \<and> lu_Command (lu_core lu) = ''shell'' then (incusShell env ses, (st, s))
             else if lu_User (lu_core lu) = ''root'' \<and> lu_Command (lu_core lu) = ''remove''
             then removeHandler env now lu ses (st, s)
             else if lu_Command (lu_core lu) = ''explain'' then (explainHandler lu, (st, s))
             else if IsCommand lu
             then ([Printed (CRLF @ ''/'' @ lu_Command (lu_core lu) @ '' not allowed'' @ CRLF), Exited 1], (st, s))
             else shell_session env now lu ses (st, s)
         | (_, st) \<Rightarrow>
             ([Printed (''invalid login for '' @ Quote (lu_OrigUser (lu_core lu)) @ '' ('' @ String (Some lu) @ '')'' @ CRLF), Exited 1],
              (st, s)))))"

section \<open>Lemmas\<close>

subsection \<open>Who a command runs as\<close>

text \<open>
  A command of the session runs as the user of the instance, or it is one of the three that switch to the
  user themselves.
\<close>

definition run_as :: "('s, 'i, 'k) shell_env \<Rightarrow> LoginUser \<Rightarrow> session_info \<Rightarrow> InstanceUser \<Rightarrow> InstanceExec \<Rightarrow> bool" where
  "run_as env lu ses iu e \<longleftrightarrow>
     ie_Instance e = lu_Instance (lu_core lu) \<and>
     (ie_User e = iu_Uid iu \<and> ie_Group e = iu_Gid iu \<or>
      \<not> lu_Persistent (lu_core lu) \<and> si_Raw ses = [] \<and> sh_Shell env \<in> {''su'', ''sush'', ''login''} \<and>
      ie_Cmd e = fst (buildCommandString (sh_Shell env) [] iu (si_RemoteAddr ses)))"

lemma command_as_user:
  "\<not> snd (buildCommandString shell raw iu remote) \<Longrightarrow> raw = [] \<and> shell \<in> {''su'', ''sush'', ''login''}"
  by (auto simp: buildCommandString_def split: if_splits)

lemma mux_ran:
  assumes "checkTermMux now t lu iu env cl st = (evs, st', r)" "Ran p e \<in> set evs"
  shows "p = snd cl \<and> ie_Instance e = lu_Instance (lu_core lu) \<and> ie_User e = iu_Uid iu \<and> ie_Group e = iu_Gid iu"
proof -
  obtain evs1 st1 r1 where i: "mux_install now t lu cl st = (evs1, st1, r1)" by (cases "mux_install now t lu cl st")
  then have "Ran p e \<notin> set evs1" by (auto simp: mux_install_def split: prod.splits call.splits bool.splits)
  moreover have "x \<in> {Ran (snd cl) (mux_list_exec t (lu_Instance (lu_core lu)) iu), Ran (snd cl) (mux_new_exec t (lu_Instance (lu_core lu)) iu env)}"
    if "x \<in> set (fst (mux_session t lu iu env cl))" for x
    using that by (auto simp: mux_session_def Let_def split: call.splits if_splits prod.splits)
  ultimately have "Ran p e \<in> {Ran (snd cl) (mux_list_exec t (lu_Instance (lu_core lu)) iu), Ran (snd cl) (mux_new_exec t (lu_Instance (lu_core lu)) iu env)}"
    using assms i unfolding checkTermMux_def by (fastforce split: call.splits prod.splits)
  then show ?thesis by (auto simp: mux_list_exec_def mux_new_exec_def simple_exec_def)
qed

lemma mux_client:
  "checkTermMux now t lu iu env cl st = (evs, st', r) \<Longrightarrow> as_client st' = as_client st"
  by (auto simp: checkTermMux_def mux_install_def split: prod.splits call.splits bool.splits)

lemma agent_client:
  assumes "setup_agent env lu iu ses vars x = (evs, x', r)"
  shows "map_option snd (as_client (fst x')) = map_option snd (as_client (fst x))" "Ran p e \<notin> set evs"
  using assms by (cases x; auto simp: setup_agent_def refresh_def split: if_splits option.splits prod.splits sum.splits)+

lemma command_client:
  assumes "shell_command env now lu iu ses vars st = (evs, st', r)"
  shows "as_client st' = as_client st"
    and "Ran p e \<in> set evs \<Longrightarrow> map_option snd (as_client st) = Some p \<and> run_as env lu ses iu e"
    and "r = Some c \<Longrightarrow> snd c \<or> \<not> lu_Persistent (lu_core lu) \<and> c = buildCommandString (sh_Shell env) (si_Raw ses) iu (si_RemoteAddr ses)"
proof -
  show "as_client st' = as_client st"
    using assms mux_client unfolding shell_command_def
    by (auto split: if_splits option.splits prod.splits call.splits)
  show "r = Some c \<Longrightarrow> snd c \<or> \<not> lu_Persistent (lu_core lu) \<and> c = buildCommandString (sh_Shell env) (si_Raw ses) iu (si_RemoteAddr ses)"
    using assms unfolding shell_command_def by (auto split: if_splits option.splits prod.splits call.splits)
  show "map_option snd (as_client st) = Some p \<and> run_as env lu ses iu e" if r: "Ran p e \<in> set evs"
  proof -
    obtain t cl evs1 st1 r1 where "as_client st = Some cl"
      and m: "checkTermMux now t lu iu (env_list (sh_order env) vars) cl st = (evs1, st1, r1)" and "Ran p e \<in> set evs1"
      using assms r unfolding shell_command_def by (auto split: if_splits option.splits prod.splits call.splits)
    with mux_ran [OF m] show ?thesis by (auto simp: run_as_def)
  qed
qed

lemma shell_run_ran:
  assumes "Ran p e \<in> set (shell_run (greeting env ses iu) e' cl)"
  shows "p = snd cl \<and> e = e'"
  using assms by (auto simp: shell_run_def greeting_def Let_def split: call.splits if_splits)

lemma shell_start_runs:
  assumes "shell_start env now lu iu ses x = (evs, x')" "Ran p e \<in> set evs"
  shows "map_option snd (as_client (fst x)) = Some p \<and> run_as env lu ses iu e"
proof -
  let ?vars = "setupEnvironmentVariables (si_Environ ses) (si_ID ses) iu (case si_pty ses of Some (term, _) \<Rightarrow> term | None \<Rightarrow> [])"
  obtain evs1 st1 s1 r1 where a: "setup_agent env lu iu ses ?vars x = (evs1, (st1, s1), r1)"
    by (cases "setup_agent env lu iu ses ?vars x") auto
  show ?thesis
  proof (cases r1)
    case None
    with assms a agent_client(2) [OF a] show ?thesis by (simp add: shell_start_def Let_def)
  next
    case (Some vars)
    obtain evs2 st2 r2 where c: "shell_command env now lu iu ses vars st1 = (evs2, st2, r2)" by (cases "shell_command env now lu iu ses vars st1")
    note k = command_client [OF c] agent_client [OF a]
    have run: "map_option snd (as_client st1) = Some p \<and> run_as env lu ses iu e"
    proof (cases "Ran p e \<in> set evs2")
      case False
      then obtain c' cl where c': "r2 = Some c'" "as_client st2 = Some cl"
        "Ran p e \<in> set (shell_run (greeting env ses iu) (shell_exec env lu iu ses vars c') cl)"
        using assms a Some c k(5) by (auto simp: shell_start_def Let_def split: option.splits)
      have e: "p = snd cl" "e = shell_exec env lu iu ses vars c'" using shell_run_ran [OF c'(3)] by simp_all
      have "snd c' \<or> c' = buildCommandString (sh_Shell env) [] iu (si_RemoteAddr ses) \<and> si_Raw ses = [] \<and>
        sh_Shell env \<in> {''su'', ''sush'', ''login''} \<and> \<not> lu_Persistent (lu_core lu)"
        using k(3) [OF c'(1)] command_as_user [of "sh_Shell env" "si_Raw ses" iu "si_RemoteAddr ses"] by auto
      then have "run_as env lu ses iu e" by (auto simp: e run_as_def shell_exec_def)
      moreover have "as_client st1 = Some cl" using k(1) c'(2) by metis
      ultimately show ?thesis by (simp add: e(1))
    qed (use k(2) in blast)
    then show ?thesis using k(4) unfolding fst_conv by metis
  qed
qed
subsection \<open>Where a command runs\<close>

text \<open>
  A project query answers with the project of that name; the client is in the project of the login, or it
  has still to select it because the user of the instance is not cached.
\<close>

definition honest_env :: "('s, 'i, 'k) shell_env \<Rightarrow> bool" where
  "honest_env env \<longleftrightarrow>
     honest_connect (sh_auth env) \<and> (\<forall>s. honest_api (sh_view env s)) \<and>
     (\<forall>p s q. sv_GetProject (sh_server env) p s = Some q \<longrightarrow> q = p)"

definition user_cached :: "int \<Rightarrow> LoginUser \<Rightarrow> auth_state \<Rightarrow> bool" where
  "user_cached now lu st \<longleftrightarrow>
     cache_Get now (instanceUserKey (lu_Project (lu_core lu)) (lu_Instance (lu_core lu)) (lu_InstanceUser (lu_core lu)))
       (instanceUserCache (as_caches st)) \<noteq> None"

definition placed :: "LoginUser \<Rightarrow> auth_state \<Rightarrow> bool" where
  "placed lu st \<longleftrightarrow> own_project lu st \<and> map_option snd (as_client st) = Some (project_name lu)"

definition ready :: "int \<Rightarrow> LoginUser \<Rightarrow> auth_state \<Rightarrow> bool" where
  "ready now lu st \<longleftrightarrow> placed lu st \<or> own_project lu st \<and> \<not> user_cached now lu st"

lemma GetInstanceUser_placed:
  assumes "honest_api a" "GetInstanceUser a (lu_Project (lu_core lu)) inst user cur = (cur', Return iu)"
  shows "cur' = project_name lu"
  using assms use_own_project [OF assms(1)] by (auto simp: GetInstanceUser_def split: option.splits)

lemma context_user_placed:
  assumes "ready now lu st" "as_client st = Some cl" "context_instance_user now lu cl st = (Return iu, st')"
  shows "placed lu st'"
proof -
  have own: "own_project lu st" using assms(1) by (auto simp: ready_def placed_def)
  have h: "honest_api (fst cl)" using own assms(2) by (cases cl) (simp add: own_project_def)
  have own': "own_project lu st'" by (rule context_user_own(1) [OF own assms(2,3)])
  let ?k = "instanceUserKey (lu_Project (lu_core lu)) (lu_Instance (lu_core lu)) (lu_InstanceUser (lu_core lu))"
  show ?thesis
  proof (cases "cache_Get now ?k (instanceUserCache (as_caches st))")
    case None
    then obtain cs cur where g: "GetInstanceUser (fst cl) (lu_Project (lu_core lu)) (lu_Instance (lu_core lu)) (lu_InstanceUser (lu_core lu)) (snd cl) = (cur, Return iu)"
      and st': "st' = st\<lparr>as_caches := cs, as_client := Some (fst cl, cur)\<rparr>"
      using assms(3) by (auto simp: context_instance_user_def GetCachedInstanceUser_def Let_def split: option.splits prod.splits call.splits)
    show ?thesis using GetInstanceUser_placed [OF h g] own' by (simp add: placed_def st')
  next
    case (Some i)
    then have p: "placed lu st" using assms(1) by (simp add: ready_def user_cached_def)
    have "st' = st\<lparr>as_client := Some (fst cl, snd cl)\<rparr>"
      using assms(3) Some by (simp add: context_instance_user_def GetCachedInstanceUser_def Let_def)
    then show ?thesis using p assms(2) own' by (simp add: placed_def)
  qed
qed

lemma ready_client:
  assumes "honest_connect env" "ready now lu st" "context_client env lu st = (c, st')"
  shows "ready now lu st'"
proof (cases "as_client st")
  case None
  have "own_project lu st" using assms(2) by (auto simp: ready_def placed_def)
  then have "own_project lu st'" by (rule context_client_own [OF assms(1) _ assms(3)])
  moreover have "as_caches st' = as_caches st" using assms(3) by (auto simp: context_client_def split: option.splits)
  ultimately show ?thesis using assms(2) None by (simp add: ready_def placed_def user_cached_def)
qed (use assms in \<open>auto simp: context_client_def\<close>)

lemma ready_valid:
  assumes "honest_connect env" "ready now lu st" "IsValid env now lu st = (Return True, st')" "\<not> IsCommand lu"
  shows "ready now lu st'"
proof -
  obtain c st1 where c: "context_client env lu st = (c, st1)" by fastforce
  note r1 = ready_client [OF assms(1,2) c]
  show ?thesis
  proof (cases c)
    case None
    with assms c show ?thesis by (auto simp: IsValid_def split: if_splits)
  next
    case (Some cl)
    then have cl: "as_client st1 = Some cl" using context_client_from(2) [OF c] by simp
    obtain r2 st2 where u: "context_instance_user now lu cl st1 = (r2, st2)" by fastforce
    have g: "instanceUserCache (fst (GetCachedInstance a now p i cs cur)) = instanceUserCache cs" for a p i cs cur
      by (simp add: GetCachedInstance_def Let_def split: option.splits)
    have "st' = st \<or>
      st' = st1\<lparr>as_caches := fst (GetCachedInstance (fst cl) now (lu_Project (lu_core lu)) (lu_Instance (lu_core lu)) (as_caches st1) (snd cl))\<rparr> \<or>
      (\<exists>iu. r2 = Return iu \<and> as_client st' = as_client st2)"
      using assms(3,4) c Some u unfolding IsValid_def by (auto split: if_splits call.splits)
    then show ?thesis
    proof (elim disjE exE conjE)
      fix iu assume r: "r2 = Return iu" and same: "as_client st' = as_client st2"
      have "placed lu st2" by (rule context_user_placed [OF r1 cl u [unfolded r]])
      then show ?thesis using same own_project_same [OF same] by (simp add: ready_def placed_def)
    qed (use assms(2) r1 g in \<open>simp_all add: ready_def placed_def user_cached_def\<close>)
  qed
qed
lemma use_project_name:
  "(\<And>p q. get p = Some q \<Longrightarrow> q = p) \<Longrightarrow> use_project get project cur = Some cur' \<Longrightarrow>
    cur' = (if project = [] then ''default'' else project)"
  by (auto simp: use_project_def Let_def split: if_splits)

lemma created_project:
  assumes "\<And>p s q. sv_GetProject sv p s = Some q \<Longrightarrow> q = p" "CreateInstance sv p s cur = (s', cur', Inr i)"
  shows "cur' = (if cp_Project p = [] then ''default'' else cp_Project p)"
proof -
  obtain s0 cur0 where "GetInstance sv (cp_Project p) (cp_Name p) s0 cur0 = (cur', Inr i)"
    using assms(2) unfolding CreateInstance_def by (auto split: prod.splits sum.splits option.splits if_splits)
  then have "use_project (\<lambda>q. sv_GetProject sv q s0) (cp_Project p) cur0 = Some cur'"
    by (auto simp: GetInstance_def UseProject_def split: option.splits)
  then show ?thesis by (rule use_project_name [rotated]) (rule assms(1))
qed

lemma refresh_placed: "honest_env env \<Longrightarrow> placed lu (refresh (sh_view env) s (project_name lu) st)"
  by (simp add: placed_def refresh_def own_project_def honest_env_def)

lemma shell_create_placed:
  assumes "honest_env env" "shell_create env lu cur x = (evs, x', True)"
  shows "placed lu (fst x')"
proof (cases x)
  case (Pair st s)
  obtain p s0 cur0 i where c: "CreateInstance (sh_server env) p s cur = (s0, cur0, Inr i)" "cp_Project p = lu_Project (lu_core lu)"
    and x': "x' = (refresh (sh_view env) s0 cur0 st, s0)"
    using assms(2) unfolding Pair shell_create_def Let_def by (auto split: prod.splits sum.splits option.splits if_splits)
  have "cur0 = project_name lu"
    using created_project [OF _ c(1)] assms(1) c(2) by (auto simp: honest_env_def project_name_def)
  then show ?thesis using refresh_placed [OF assms(1)] by (simp add: x')
qed

lemma wait_user_placed:
  assumes "\<And>s. honest_api (look s)" "cur = project_name lu"
    and "wait_user look elapse (lu_Project (lu_core lu)) inst user is s cur = (s', cur', ok)"
  shows "cur' = project_name lu"
  using assms(2,3)
proof (induction "is" arbitrary: s cur)
  case (Cons i "is")
  let ?s = "elapse (i div 10 + 1) s"
  obtain cur1 r where g: "GetInstanceUser (look ?s) (lu_Project (lu_core lu)) inst user cur = (cur1, r)" by fastforce
  then have "cur1 = project_name lu"
    using GetInstanceUser_project [OF g] use_own_project [OF assms(1)] Cons.prems(1) by blast
  then show ?case using Cons g by (auto simp: Let_def split: call.splits)
qed simp

lemma shell_wait_placed:
  assumes "honest_env env" "placed lu (fst x)" "shell_wait env lu x = (x', ok)"
  shows "placed lu (fst x')"
proof -
  obtain st s a where x: "x = (st, s)" "as_client st = Some (a, project_name lu)"
    using assms(2) by (cases x) (auto simp: placed_def)
  show ?thesis
  proof (cases "lu_InstanceUser (lu_core lu) = ''root''")
    case True
    then show ?thesis using assms(2,3) x by (auto simp: shell_wait_def)
  next
    case False
    obtain s1 cur1 ok1 where w: "wait_user (sh_view env) (sh_elapse env) (lu_Project (lu_core lu)) (lu_Instance (lu_core lu))
        (lu_InstanceUser (lu_core lu)) [0..<20] s (project_name lu) = (s1, cur1, ok1)"
      by (metis prod_cases3)
    have "honest_api (sh_view env s)" for s using assms(1) by (simp add: honest_env_def)
    then have "cur1 = project_name lu" by (rule wait_user_placed [OF _ refl w])
    then show ?thesis using assms(3) x w False refresh_placed [OF assms(1)] by (auto simp: shell_wait_def split: prod.splits)
  qed
qed

lemma cached_user_placed:
  assumes "ready now lu (fst x)" "cached_user now lu x = (evs, x', Some iu)"
  shows "placed lu (fst x')"
proof (cases x)
  case (Pair st s)
  obtain cl st' where "as_client st = Some cl" "context_instance_user now lu cl st = (Return iu, st')" "fst x' = st'"
    using assms(2) unfolding Pair cached_user_def by (auto split: option.splits prod.splits call.splits)
  then show ?thesis using context_user_placed assms(1) Pair by fastforce
qed

lemma created_user_placed:
  assumes "honest_env env" "created_user env now lu cur x = (evs, x', Some iu)"
  shows "placed lu (fst x')"
proof -
  obtain evs1 x1 where c: "shell_create env lu cur x = (evs1, x1, True)"
    using assms(2) unfolding created_user_def by (auto split: prod.splits bool.splits)
  obtain x2 ok where w: "shell_wait env lu x1 = (x2, ok)" by fastforce
  obtain evs3 where u: "cached_user now lu x2 = (evs3, x', Some iu)"
    using assms(2) c w unfolding created_user_def by (auto split: prod.splits bool.splits)
  have "placed lu (fst x2)" by (rule shell_wait_placed [OF assms(1) shell_create_placed [OF assms(1) c] w])
  then have "ready now lu (fst x2)" by (simp add: ready_def)
  then show ?thesis by (rule cached_user_placed [OF _ u])
qed

lemma shell_user_cases:
  assumes "shell_user env now lu (st, s) = (evs, x', r)"
  obtains (cached) "\<not> lu_CreateInstance (lu_core lu)" "cached_user now lu (st, s) = (evs, x', r)"
  | (known) a cur cur1 iu where "lu_CreateInstance (lu_core lu)" "sh_AllowCreate env" "as_client st = Some (a, cur)"
      "GetInstanceUser a (lu_Project (lu_core lu)) (lu_Instance (lu_core lu)) (lu_InstanceUser (lu_core lu)) cur = (cur1, Return iu)"
      "evs = []" "x' = (st\<lparr>as_client := Some (a, cur1)\<rparr>, s)" "r = Some iu"
  | (creates) a cur cur1 evs1 where "lu_CreateInstance (lu_core lu)" "sh_AllowCreate env" "as_client st = Some (a, cur)"
      "GetInstanceUser a (lu_Project (lu_core lu)) (lu_Instance (lu_core lu)) (lu_InstanceUser (lu_core lu)) cur = (cur1, Fail)"
      "created_user env now lu cur1 (st\<lparr>as_client := Some (a, cur1)\<rparr>, s) = (evs1, x', r)"
      "evs = Printed (''creating instance...'' @ CRLF) # evs1"
  | (stopped) "evs \<in> {[], [Panic], [Printed (CRLF @ ''Instance creation not allowed'' @ CRLF), Exited 1]}" "r = None"
proof (cases "lu_CreateInstance (lu_core lu)")
  case False
  then show ?thesis using assms cached by (simp add: shell_user_def)
next
  case create: True
  show ?thesis
  proof (cases "\<not> sh_AllowCreate env \<or> as_client st = None")
    case True
    then show ?thesis using assms create stopped by (cases "sh_AllowCreate env") (simp_all add: shell_user_def)
  next
    case False
    then obtain a cur where c: "as_client st = Some (a, cur)" by auto
    obtain cur1 q where g: "GetInstanceUser a (lu_Project (lu_core lu)) (lu_Instance (lu_core lu)) (lu_InstanceUser (lu_core lu)) cur = (cur1, q)"
      by fastforce
    obtain evs1 x1 r1 where k: "created_user env now lu cur1 (st\<lparr>as_client := Some (a, cur1)\<rparr>, s) = (evs1, x1, r1)"
      by (metis prod_cases3)
    have run: "(case (cur1, q) of
        (cur, Return iu) \<Rightarrow> ([], (st\<lparr>as_client := Some (a, cur)\<rparr>, s), Some iu)
      | (cur, Crash) \<Rightarrow> ([Panic], (st\<lparr>as_client := Some (a, cur)\<rparr>, s), None)
      | (cur, Fail) \<Rightarrow> (case created_user env now lu cur (st\<lparr>as_client := Some (a, cur)\<rparr>, s) of
            (evs, x, r) \<Rightarrow> (Printed (''creating instance...'' @ CRLF) # evs, x, r))) = (evs, x', r)"
      using assms create c g False by (simp add: shell_user_def)
    show ?thesis
    proof (cases q)
      case (Return iu)
      then show ?thesis using run False known [OF create _ c g [unfolded Return]] by simp
    next
      case Fail
      then show ?thesis using run False k creates [OF create _ c g [unfolded Fail]] by simp
    next
      case Crash
      then show ?thesis using run False stopped by simp
    qed
  qed
qed

lemma shell_user_placed:
  assumes "honest_env env" "ready now lu st" "shell_user env now lu (st, s) = (evs, x', Some iu)"
  shows "placed lu (fst x')"
  using assms(3)
proof (cases rule: shell_user_cases)
  case cached
  show ?thesis by (rule cached_user_placed [OF _ cached(2)]) (simp add: assms(2))
next
  case (known a cur cur1 i)
  have h: "honest_api a" using assms(2) known(3) by (auto simp: ready_def placed_def own_project_def)
  have "cur1 = project_name lu" by (rule GetInstanceUser_placed [OF h known(4)])
  then show ?thesis using h by (simp add: known(6) placed_def own_project_def)
next
  case (creates a cur cur1 evs1)
  show ?thesis by (rule created_user_placed [OF assms(1) creates(5)])
qed simp

subsection \<open>Kinds of events\<close>

fun plain :: "shell_event \<Rightarrow> bool" where
  "plain (Printed m) \<longleftrightarrow> True"
| "plain (PrintedErr m) \<longleftrightarrow> True"
| "plain (Exited n) \<longleftrightarrow> True"
| "plain Panic \<longleftrightarrow> True"
| "plain ev \<longleftrightarrow> False"

text \<open>What a session does once the user is known.\<close>

fun inside :: "shell_event \<Rightarrow> bool" where
  "inside (Ran p e) \<longleftrightarrow> True"
| "inside (Installed p i ps) \<longleftrightarrow> True"
| "inside (Registered pd) \<longleftrightarrow> True"
| "inside ev \<longleftrightarrow> plain ev"

text \<open>A creation that the login asks for and the configuration allows.\<close>

fun lawful :: "('s, 'i, 'k) shell_env \<Rightarrow> LoginUser \<Rightarrow> shell_event \<Rightarrow> bool" where
  "lawful env lu (Created p params) \<longleftrightarrow>
     lu_CreateInstance (lu_core lu) \<and> sh_AllowCreate env \<and> p = lu_Project (lu_core lu) \<and>
     cp_Project params = lu_Project (lu_core lu) \<and> cp_Name params = lu_Instance (lu_core lu)"
| "lawful env lu ev \<longleftrightarrow> plain ev"

lemma plain_lawful: "list_all plain evs \<Longrightarrow> list_all (lawful env lu) evs"
proof (induction evs)
  case (Cons ev evs)
  then show ?case by (cases ev) auto
qed simp

lemma cached_user_events: "cached_user now lu x = (evs, x', r) \<Longrightarrow> list_all plain evs"
  by (cases x) (auto simp: cached_user_def split: option.splits prod.splits call.splits)

lemma shell_create_events:
  assumes "shell_create env lu cur x = (evs, x', ok)" "lu_CreateInstance (lu_core lu)" "sh_AllowCreate env"
  shows "list_all (lawful env lu) evs"
  using assms by (cases x) (auto simp: shell_create_def Let_def split: prod.splits sum.splits option.splits if_splits)

lemma created_user_events:
  assumes "created_user env now lu cur x = (evs, x', r)" "lu_CreateInstance (lu_core lu)" "sh_AllowCreate env"
  shows "list_all (lawful env lu) evs"
proof -
  obtain evs1 x1 ok1 where c: "shell_create env lu cur x = (evs1, x1, ok1)" by (metis prod_cases3)
  obtain x2 ok2 where w: "shell_wait env lu x1 = (x2, ok2)" by fastforce
  obtain evs3 x3 r3 where u: "cached_user now lu x2 = (evs3, x3, r3)" by (metis prod_cases3)
  show ?thesis
    using assms(1) c w u shell_create_events [OF c assms(2,3)] plain_lawful [OF cached_user_events [OF u]]
    by (cases ok1; cases ok2) (auto simp: created_user_def)
qed

lemma shell_user_events:
  assumes "shell_user env now lu (st, s) = (evs, x', r)"
  shows "list_all (lawful env lu) evs"
  using assms
proof (cases rule: shell_user_cases)
  case cached
  show ?thesis using plain_lawful [OF cached_user_events [OF cached(2)]] .
next
  case (creates a cur cur1 evs1)
  show ?thesis using created_user_events [OF creates(5,1,2)] by (simp add: creates(6))
qed auto

lemma agent_events: "setup_agent env lu iu ses vars x = (evs, x', r) \<Longrightarrow> list_all inside evs"
  by (cases x) (auto simp: setup_agent_def split: if_splits option.splits prod.splits sum.splits)

lemma mux_events:
  assumes "checkTermMux now t lu iu env cl st = (evs, st', r)"
  shows "list_all inside evs"
proof -
  obtain evs1 st1 r1 where i: "mux_install now t lu cl st = (evs1, st1, r1)" by (cases "mux_install now t lu cl st")
  then have "list_all inside evs1" by (auto simp: mux_install_def split: prod.splits call.splits bool.splits)
  moreover have "list_all inside (fst (mux_session t lu iu env cl))" by (auto simp: mux_session_def Let_def split: call.splits)
  ultimately show ?thesis using assms i unfolding checkTermMux_def by (auto split: call.splits prod.splits)
qed

lemma command_events:
  assumes "shell_command env now lu iu ses vars st = (evs, st', r)"
  shows "list_all inside evs"
  using assms mux_events unfolding shell_command_def by (auto split: if_splits option.splits prod.splits call.splits)

lemma shell_start_events:
  assumes "shell_start env now lu iu ses x = (evs, x')"
  shows "list_all inside evs"
proof -
  let ?vars = "setupEnvironmentVariables (si_Environ ses) (si_ID ses) iu (case si_pty ses of Some (term, _) \<Rightarrow> term | None \<Rightarrow> [])"
  obtain evs1 st1 s1 r1 where a: "setup_agent env lu iu ses ?vars x = (evs1, (st1, s1), r1)"
    by (cases "setup_agent env lu iu ses ?vars x") auto
  have "list_all inside (shell_run (greeting env ses iu) e cl)" for e cl
    by (auto simp: shell_run_def greeting_def Let_def split: call.splits)
  then show ?thesis
    using assms a agent_events [OF a] command_events unfolding shell_start_def Let_def
    by (auto split: option.splits prod.splits)
qed

lemma session_events:
  assumes "ev \<in> set (fst (shell_session env now lu ses (st, s)))"
  shows "lawful env lu ev \<or> inside ev"
proof -
  obtain c st1 where c: "context_client (sh_auth env) lu st = (c, st1)" by fastforce
  obtain evs1 x1 r where u: "shell_user env now lu (st1, s) = (evs1, x1, r)" by (metis prod_cases3)
  have u': "lawful env lu ev" if "ev \<in> set evs1" using shell_user_events [OF u] that by (simp add: list_all_iff)
  show ?thesis
  proof (cases r)
    case None
    with assms c u u' show ?thesis by (auto simp: shell_session_def split: option.splits)
  next
    case (Some iu)
    obtain evs2 x2 where t: "shell_start env now lu iu ses x1 = (evs2, x2)"
      by (cases "shell_start env now lu iu ses x1")
    have "inside ev" if "ev \<in> set evs2" using shell_start_events [OF t] that by (simp add: list_all_iff)
    with assms c u u' t Some show ?thesis by (auto simp: shell_session_def split: option.splits)
  qed
qed

lemma shell_user_ran:
  assumes "shell_user env now lu (st, s) = (evs, x', r)"
  shows "Ran p e \<notin> set evs"
proof
  assume "Ran p e \<in> set evs"
  with shell_user_events [OF assms] have "lawful env lu (Ran p e)" by (simp only: list_all_iff)
  then show False by simp
qed
subsection \<open>The status of a session\<close>

lemma shell_create_continues: "shell_create env lu cur x = (evs, x', True) \<Longrightarrow> Exited n \<notin> set evs"
  by (cases x) (auto simp: shell_create_def Let_def split: prod.splits sum.splits option.splits if_splits)

lemma cached_user_continues: "cached_user now lu x = (evs, x', Some iu) \<Longrightarrow> evs = []"
  by (cases x) (auto simp: cached_user_def split: option.splits prod.splits call.splits)

lemma created_user_continues:
  assumes "created_user env now lu cur x = (evs, x', Some iu)"
  shows "Exited n \<notin> set evs"
proof -
  obtain evs1 x1 where c: "shell_create env lu cur x = (evs1, x1, True)"
    using assms unfolding created_user_def by (auto split: prod.splits bool.splits)
  obtain x2 ok2 where w: "shell_wait env lu x1 = (x2, ok2)" by fastforce
  obtain evs3 where u: "cached_user now lu x2 = (evs3, x', Some iu)" "evs = evs1 @ evs3"
    using assms c w unfolding created_user_def by (auto split: prod.splits bool.splits)
  show ?thesis using shell_create_continues [OF c] cached_user_continues [OF u(1)] u(2) by simp
qed

lemma shell_user_continues:
  assumes "shell_user env now lu (st, s) = (evs, x', Some iu)"
  shows "Exited n \<notin> set evs"
  using assms
proof (cases rule: shell_user_cases)
  case cached
  show ?thesis using cached_user_continues [OF cached(2)] by simp
next
  case (creates a cur cur1 evs1)
  show ?thesis using created_user_continues [OF creates(5)] by (simp add: creates(6))
qed auto

lemma agent_exit: "setup_agent env lu iu ses vars x = (evs, x', r) \<Longrightarrow> Exited n \<notin> set evs"
  by (cases x) (auto simp: setup_agent_def split: if_splits option.splits prod.splits sum.splits)

lemma mux_exit:
  assumes "checkTermMux now t lu iu env cl st = (evs, st', r)"
  shows "Exited n \<notin> set evs"
proof -
  obtain evs1 st1 r1 where i: "mux_install now t lu cl st = (evs1, st1, r1)" by (cases "mux_install now t lu cl st")
  then have "Exited n \<notin> set evs1" by (auto simp: mux_install_def split: prod.splits call.splits bool.splits)
  moreover have "Exited n \<notin> set (fst (mux_session t lu iu env cl))"
    by (auto simp: mux_session_def Let_def split: call.splits)
  ultimately show ?thesis using assms i unfolding checkTermMux_def by (auto split: call.splits prod.splits)
qed

lemma command_exit:
  assumes "shell_command env now lu iu ses vars st = (evs, st', r)"
  shows "Exited n \<notin> set evs"
  using assms mux_exit unfolding shell_command_def by (auto split: if_splits option.splits prod.splits call.splits)

lemma shell_start_status:
  assumes "shell_start env now lu iu ses x = (evs, x')" "Exited n \<in> set evs"
  shows "\<exists>a p e err out. as_client (fst x') = Some (a, p) \<and> Ran p e \<in> set evs \<and> Exec a p e = Return (n, err, out)"
proof -
  let ?vars = "setupEnvironmentVariables (si_Environ ses) (si_ID ses) iu (case si_pty ses of Some (term, _) \<Rightarrow> term | None \<Rightarrow> [])"
  obtain evs1 st1 s1 r1 where a: "setup_agent env lu iu ses ?vars x = (evs1, (st1, s1), r1)"
    by (cases "setup_agent env lu iu ses ?vars x") auto
  obtain vars where v: "r1 = Some vars"
    using assms a agent_exit [OF a, of n] by (cases r1) (auto simp: shell_start_def Let_def)
  obtain evs2 st2 r2 where c: "shell_command env now lu iu ses vars st1 = (evs2, st2, r2)" by (cases "shell_command env now lu iu ses vars st1")
  have no: "Exited n \<notin> set evs1" "Exited n \<notin> set evs2" using agent_exit [OF a] command_exit [OF c] by simp_all
  obtain c' cl where r: "r2 = Some c'" "as_client st2 = Some cl"
    using assms a v c no by (auto simp: shell_start_def Let_def split: option.splits)
  let ?e = "shell_exec env lu iu ses vars c'"
  have run: "evs = evs1 @ evs2 @ shell_run (greeting env ses iu) ?e cl" "x' = (st2, s1)"
    using assms(1) a v c r by (simp_all add: shell_start_def Let_def)
  have "Exited n \<in> set (shell_run (greeting env ses iu) ?e cl)" using assms(2) no run(1) by simp
  moreover have "Exited n \<notin> set (greeting env ses iu)" by (simp add: greeting_def Let_def)
  ultimately obtain err out where "Exec (fst cl) (snd cl) ?e = Return (n, err, out)"
    by (auto simp: shell_run_def split: call.splits)
  then show ?thesis using r(2) run by (cases cl) (auto simp: shell_run_def)
qed

subsection \<open>Removals and creations\<close>

lemma remove_confirmed_events:
  assumes "remove_confirmed_instance env ru i cur x = (evs, x')" "ev \<in> set evs"
  shows "(\<exists>m. ev = Printed m) \<or> (\<exists>n. ev = Exited n) \<or> ev = Stopping (lu_Project ru) (lu_Instance ru) \<or> ev = Deleting (lu_Project ru) (lu_Instance ru)"
  using assms by (cases x) (auto simp: remove_confirmed_instance_def remove_delete_def remove_wait_def split: if_splits prod.splits)

lemma remove_events:
  assumes "removeHandler env now lu ses x = (evs, x')" "ev \<in> set evs"
  shows "(\<exists>m. ev = Printed m) \<or> (\<exists>n. ev = Exited n) \<or>
    (lu_ForceRemove (lu_core lu) \<or> remove_confirmed (si_Input ses)) \<and>
    (\<exists>r. lu_RemoveUser lu = Some r \<and>
      (ev = Stopping (lu_Project (lu_core r)) (lu_Instance (lu_core r)) \<or> ev = Deleting (lu_Project (lu_core r)) (lu_Instance (lu_core r))))"
proof (cases "(\<exists>m. ev = Printed m) \<or> (\<exists>n. ev = Exited n)")
  case False
  obtain st s where x: "x = (st, s)" by (cases x)
  obtain r i cur y where r: "lu_RemoveUser lu = Some r"
    and ri: "remove_instance env lu (lu_core r) ses i cur y = (evs, x')"
    using assms False unfolding removeHandler_def x
    by (auto split: option.splits if_splits prod.splits call.splits)
  obtain evs1 x1 where c: "remove_confirmed_instance env (lu_core r) i cur y = (evs1, x1)"
    by (cases "remove_confirmed_instance env (lu_core r) i cur y") auto
  have "(lu_ForceRemove (lu_core lu) \<or> remove_confirmed (si_Input ses)) \<and> ev \<in> set evs1"
    using ri assms(2) False c unfolding remove_instance_def Let_def by (auto split: if_splits)
  then show ?thesis using remove_confirmed_events [OF c, of ev] False r by auto
qed auto

lemma shell_events:
  assumes "ev \<in> set (incusShell env ses) \<or> ev \<in> set (explainHandler lu)"
  shows "(\<exists>m. ev = Printed m) \<or> (\<exists>n. ev = Exited n) \<or> (\<exists>c v. ev = HostCommand c v) \<or> (\<exists>m. ev = HostInput m)"
  using assms by (auto simp: incusShell_def explainHandler_def Let_def split: prod.splits option.splits if_splits)

subsection \<open>The cases of the handler\<close>

lemma handler_cases:
  assumes "as_user st = Some lu"
  obtains (message) "list_all plain (fst (shellHandler env now user ses (st, s)))"
  | (command) "set (fst (shellHandler env now user ses (st, s))) \<subseteq> set (incusShell env ses) \<union> set (explainHandler lu)"
  | (remove) st1 where "lu_User (lu_core lu) = ''root''" "lu_Command (lu_core lu) = ''remove''"
      "shellHandler env now user ses (st, s) = removeHandler env now lu ses (st1, s)"
  | (session) st1 where "IsValid (sh_auth env) now lu st = (Return True, st1)" "\<not> IsCommand lu"
      "shellHandler env now user ses (st, s) = shell_session env now lu ses (st1, s)"
proof -
  have l: "LoginUserFromContext (sh_auth env) user st = (lu, st)" using assms by (simp add: LoginUserFromContext_def)
  obtain r st1 where v: "IsValid (sh_auth env) now lu st = (r, st1)" by fastforce
  show ?thesis
  proof (cases "r = Return True")
    case False
    then have "list_all plain (fst (shellHandler env now user ses (st, s)))"
      using l v by (cases r) (auto simp: shellHandler_def split: bool.splits)
    then show ?thesis by (rule message)
  next
    case True
    have h: "shellHandler env now user ses (st, s) =
       (if lu_User (lu_core lu) = ''root'' \<and> lu_Command (lu_core lu) = ''shell'' then (incusShell env ses, (st1, s))
        else if lu_User (lu_core lu) = ''root'' \<and> lu_Command (lu_core lu) = ''remove'' then removeHandler env now lu ses (st1, s)
        else if lu_Command (lu_core lu) = ''explain'' then (explainHandler lu, (st1, s))
        else if IsCommand lu
        then ([Printed (CRLF @ ''/'' @ lu_Command (lu_core lu) @ '' not allowed'' @ CRLF), Exited 1], (st1, s))
        else shell_session env now lu ses (st1, s))"
      using l v True by (simp add: shellHandler_def)
    consider "lu_User (lu_core lu) = ''root'' \<and> lu_Command (lu_core lu) = ''shell''"
      | "lu_User (lu_core lu) = ''root'' \<and> lu_Command (lu_core lu) = ''remove''"
      | "lu_Command (lu_core lu) = ''explain''"
      | "\<not> (lu_User (lu_core lu) = ''root'' \<and> lu_Command (lu_core lu) \<in> {''shell'', ''remove''})" "lu_Command (lu_core lu) \<noteq> ''explain''"
      by blast
    then show ?thesis
    proof cases
      case 1 then show ?thesis using h command by simp
    next
      case 2 then show ?thesis using h remove by simp
    next
      case 3 then show ?thesis using h command by simp
    next
      case 4 then show ?thesis using h message session v True by (cases "IsCommand lu") auto
    qed
  qed
qed

lemma handler_events:
  assumes "as_user st = Some lu" "ev \<in> set (fst (shellHandler env now user ses (st, s)))"
  shows "lawful env lu ev \<or> inside ev \<or> (\<exists>c v. ev = HostCommand c v) \<or> (\<exists>m. ev = HostInput m) \<or>
    lu_User (lu_core lu) = ''root'' \<and> lu_Command (lu_core lu) = ''remove'' \<and>
    (lu_ForceRemove (lu_core lu) \<or> remove_confirmed (si_Input ses)) \<and>
    (\<exists>r. lu_RemoveUser lu = Some r \<and>
      (ev = Stopping (lu_Project (lu_core r)) (lu_Instance (lu_core r)) \<or> ev = Deleting (lu_Project (lu_core r)) (lu_Instance (lu_core r))))"
  using assms(1)
proof (cases rule: handler_cases [where env = env and now = now and user = user and ses = ses and s = s])
  case message
  then have "plain ev" using assms(2) by (simp add: list_all_iff)
  then have "inside ev" by (cases ev) auto
  then show ?thesis by blast
next
  case command
  then have m: "ev \<in> set (incusShell env ses) \<or> ev \<in> set (explainHandler lu)" using assms(2) by blast
  from shell_events [OF m] show ?thesis by auto
next
  case (remove st1)
  obtain evs x' where r: "removeHandler env now lu ses (st1, s) = (evs, x')" by (cases "removeHandler env now lu ses (st1, s)")
  then show ?thesis using remove_events [OF r, of ev] assms(2) remove by auto
next
  case (session st1)
  then show ?thesis using session_events [of ev env now lu ses st1 s] assms(2) by auto
qed

section \<open>Properties\<close>

text \<open>
  C11. A session runs in its own project: when the API answers a project query with the project of that name,
  and the client has selected the project of the login or the user of the instance is not cached,
  every command that the handler runs in an instance is run in the project of the login.
\<close>

theorem shell_in_project:
  assumes "honest_env env" "as_user st = Some lu" "ready now lu st" "Ran p e \<in> set (fst (shellHandler env now user ses (st, s)))"
  shows "p = project_name lu"
proof -
  have ev: "\<not> plain (Ran p e)" by simp
  have "Ran p e \<notin> set (incusShell env ses) \<union> set (explainHandler lu)" using shell_events [of "Ran p e" env ses lu] by auto
  moreover have "Ran p e \<notin> set (fst (removeHandler env now lu ses y))" for y
    using remove_events [of env now lu ses y _ _ "Ran p e"] by (cases "removeHandler env now lu ses y") auto
  ultimately obtain st1 where v: "IsValid (sh_auth env) now lu st = (Return True, st1)" "\<not> IsCommand lu"
    and run: "Ran p e \<in> set (fst (shell_session env now lu ses (st1, s)))"
    using assms(4) ev handler_cases [OF assms(2), of env now user ses s thesis] unfolding list_all_iff by (metis subsetD)
  have hc: "honest_connect (sh_auth env)" using assms(1) by (simp add: honest_env_def)
  obtain c st2 where c: "context_client (sh_auth env) lu st1 = (c, st2)" by fastforce
  have rd: "ready now lu st2" by (rule ready_client [OF hc ready_valid [OF hc assms(3) v] c])
  obtain evs2 x2 r where u: "shell_user env now lu (st2, s) = (evs2, x2, r)" by (metis prod_cases3)
  have no: "Ran p e \<notin> set evs2" by (rule shell_user_ran [OF u])
  obtain iu evs3 x3 where r: "r = Some iu" and t: "shell_start env now lu iu ses x2 = (evs3, x3)" and "Ran p e \<in> set evs3"
    using run c u no by (auto simp: shell_session_def split: option.splits prod.splits)
  then have "map_option snd (as_client (fst x2)) = Some p" using shell_start_runs [OF t] by simp
  moreover have "placed lu (fst x2)" by (rule shell_user_placed [OF assms(1) rd u [unfolded r]])
  ultimately show ?thesis unfolding placed_def by (metis option.inject)
qed

text \<open>
  A session may run in the wrong project: when a new connection finds its login and the user of the
  instance in the caches, nothing selects the project, and the command runs in the instance of that name
  in the default project, whatever the project of the login is.
\<close>

theorem shell_wrong_project:
  assumes "as_user st = Some lu" "as_client st = None" "\<not> IsCommand lu" "\<not> lu_CreateInstance (lu_core lu)" "\<not> lu_Persistent (lu_core lu)"
    and "cache_Get now (Hash (Some lu)) (as_failed st) = None" "cache_Get now (Hash (Some lu)) (as_valid st) \<noteq> None"
    and "cache_Get now (instanceUserKey (lu_Project (lu_core lu)) (lu_Instance (lu_core lu)) (lu_InstanceUser (lu_core lu)))
        (instanceUserCache (as_caches st)) = Some iu"
    and "ae_connect (sh_auth env) (lu_Remote (lu_core lu)) = Some a" "\<not> si_agent ses"
  shows "\<exists>e. fst (shellHandler env now user ses (st, s)) = shell_run (greeting env ses iu) e (a, []) \<and>
    ie_Instance e = lu_Instance (lu_core lu) \<and> Ran [] e \<in> set (fst (shellHandler env now user ses (st, s)))"
proof -
  let ?vars = "setupEnvironmentVariables (si_Environ ses) (si_ID ses) iu (case si_pty ses of Some (term, _) \<Rightarrow> term | None \<Rightarrow> [])"
  let ?e = "shell_exec env lu iu ses ?vars (buildCommandString (sh_Shell env) (si_Raw ses) iu (si_RemoteAddr ses))"
  let ?st = "st\<lparr>as_client := Some (a, [])\<rparr>"
  have l: "LoginUserFromContext (sh_auth env) user st = (lu, st)" using assms(1) by (simp add: LoginUserFromContext_def)
  have v: "IsValid (sh_auth env) now lu st = (Return True, st)" using assms(3,6,7) by (auto simp: IsValid_def)
  have c: "context_client (sh_auth env) lu st = (Some (a, []), ?st)" using assms(2,9) by (simp add: context_client_def)
  have "context_instance_user now lu (a, []) ?st = (Return iu, ?st)"
    using assms(8) by (simp add: context_instance_user_def GetCachedInstanceUser_def Let_def)
  then have u: "shell_user env now lu (?st, s) = ([], (?st, s), Some iu)" using assms(4) by (simp add: shell_user_def cached_user_def)
  have t: "shell_start env now lu iu ses (?st, s) = (shell_run (greeting env ses iu) ?e (a, []), (?st, s))"
    using assms(5,10) by (simp add: shell_start_def Let_def setup_agent_def shell_command_def)
  have "fst (shellHandler env now user ses (st, s)) = shell_run (greeting env ses iu) ?e (a, [])"
    using assms(3) l v c u t by (auto simp: shellHandler_def shell_session_def IsCommand_def)
  then show ?thesis by (auto simp: shell_run_def shell_exec_def)
qed



text \<open>
  C32. An instance is created only for a login that asks for it and when the configuration allows it, and it
  is the instance of the login in its project.
\<close>

theorem creation_guarded:
  assumes "as_user st = Some lu" "Created p params \<in> set (fst (shellHandler env now user ses (st, s)))"
  shows "lu_CreateInstance (lu_core lu) \<and> sh_AllowCreate env \<and> p = lu_Project (lu_core lu) \<and>
    cp_Project params = lu_Project (lu_core lu) \<and> cp_Name params = lu_Instance (lu_core lu)"
  using handler_events [OF assms] by auto

text \<open>
  What is removed is looked up elsewhere: on a new connection the instance is looked up in the default
  project of the remote of the login, whatever project and remote the instance to remove has. When
  there is none of that name, the removal is refused although the instance may exist.
\<close>

theorem remove_looks_elsewhere:
  assumes "lu_RemoveUser lu = Some r" "lu_User (lu_core lu) = ''root''" "as_client st = None"
    and "ae_connect (sh_auth env) (lu_Remote (lu_core lu)) = Some a" "api_GetInstanceFull a [] (lu_Instance (lu_core r)) = None"
    and "cache_Get now (lu_Project (lu_core r) @ ''/'' @ lu_Instance (lu_core r)) (instanceCache (as_caches st)) = None"
  shows "fst (removeHandler env now lu ses (st, s)) = [Printed (CRLF @ ''Instance '' @ full_name (lu_core r) @ '' not found'' @ CRLF), Exited 1]"
proof -
  have c: "context_client (sh_auth env) lu st = (Some (a, []), st\<lparr>as_client := Some (a, [])\<rparr>)"
    using assms(3,4) by (simp add: context_client_def)
  have "GetCachedInstance a now (lu_Project (lu_core r)) (lu_Instance (lu_core r)) (as_caches (st\<lparr>as_client := Some (a, [])\<rparr>)) [] =
      (as_caches st, Fail)"
    using assms(5,6) by (simp add: GetCachedInstance_def Let_def)
  then show ?thesis using assms(1,2) c unfolding removeHandler_def by simp
qed

section \<open>Witnesses\<close>

definition no_devices :: "'s device_api" where
  "no_devices =
     \<lparr>da_Connect = (\<lambda>_. False), da_GetProject = (\<lambda>_ _. None), da_GetInstance = (\<lambda>_ _ _. None), da_UpdateInstance = (\<lambda>_ _ _ _ _. None),
      da_Exec = (\<lambda>_ _ _ s. (s, None)), da_GetInstancesAllProjects = (\<lambda>_. None)\<rparr>"

definition demo_files :: files where
  "demo_files = \<lparr>fs_ReadFile = (\<lambda>p. if p = ''/etc/ssh2incus/create-config.yaml'' then Some [] else None), fs_Stat = (\<lambda>_. False), fs_Getwd = None\<rparr>"

definition demo_config :: CreateConfig where
  "demo_config = \<lparr>cc_Version = [], cc_Defaults = zero_icc, cc_Profiles = Mapping.empty, cc_config = zero_icc, cc_configFile = []\<rparr>"

definition demo_shell :: "((string \<times> string) list, string, string) shell_env" where
  "demo_shell =
     \<lparr>sh_auth = demo_env, sh_server = list_server, sh_devices = no_devices, sh_view = (\<lambda>_. demo_api), sh_elapse = (\<lambda>_ s. s), sh_tick = id,
      sh_ticks = 3, sh_StopInstance = (\<lambda>p n s. (s, True)), sh_DeleteInstance = (\<lambda>p n s. (removeAll (p, n) s, True)), sh_host = plain_host,
      sh_files = demo_files, sh_unmarshal = (\<lambda>_ h. Some (h, demo_config)), sh_order = (\<lambda>_. []), sh_names = (\<lambda>_. []),
      sh_store = \<lparr>cfgs = [], devs = []\<rparr>, sh_home = ''/root'', sh_App = ''ssh2incus'', sh_Shell = ''su'', sh_TermMux = ''tmux'',
      sh_IncusSocket = [], sh_Hostname = ''host'', sh_AllowCreate = True, sh_Welcome = False, sh_PtyStarts = True\<rparr>"

definition demo_session :: session_info where
  "demo_session =
     \<lparr>si_Environ = [], si_Raw = ''id'', si_pty = None, si_agent = False, si_listener = None, si_RemoteAddr = ''10.0.0.1:9'', si_ID = ''1'',
      si_Input = [''yes'' @ [CHR 10]]\<rparr>"

text \<open>A state in which the login and its user are cached.\<close>

definition known_state :: "LoginUser \<Rightarrow> auth_state" where
  "known_state lu = (demo_state lu)\<lparr>as_valid := SetDefault 1 (Hash (Some lu)) 1 (fst login_caches),
     as_caches := init_caches\<lparr>instanceUserCache := SetDefault 1 (instanceUserKey ''prod'' ''web'' ''root'') demo_iu (cache_New minute (2 * minute))\<rparr>\<rparr>"

lemma known_cached:
  "cache_Get 1 (Hash (Some lu)) (as_valid (known_state lu)) \<noteq> None"
  "cache_Get 1 k (as_failed (known_state lu)) = None"
  "cache_Get 1 (instanceUserKey ''prod'' ''web'' ''root'') (instanceUserCache (as_caches (known_state lu))) = Some demo_iu"
  "as_user (known_state lu) = Some lu" "as_client (known_state lu) = None"
  by (simp_all add: known_state_def demo_state_def login_caches_def new_cache_empty get_after_set new_cache_expiration minute_def in_int64_def)

lemma demo_honest: "honest_env demo_shell"
  by (auto simp: honest_env_def honest_connect_def honest_api_def demo_shell_def demo_env_def demo_api_def list_server_def split: if_splits)

lemma demo_names:
  "lu_Project (lu_core (demo_login u c)) = ''prod''" "lu_Instance (lu_core (demo_login u c)) = ''web''"
  "lu_InstanceUser (lu_core (demo_login u c)) = ''root''" "project_name (demo_login u c) = ''prod''"
  "IsCommand (demo_login u c) \<longleftrightarrow> c \<noteq> []" "\<not> lu_CreateInstance (lu_core (demo_login u c))" "\<not> lu_Persistent (lu_core (demo_login u c))"
  by (simp_all add: demo_login_def empty_core_def project_name_def IsCommand_def)

text \<open>The run of a known login on a client in some project.\<close>

lemma demo_run:
  assumes "as_client st = Some (demo_api, cur)"
    and "cache_Get 1 (instanceUserKey ''prod'' ''web'' ''root'') (instanceUserCache (as_caches st)) = Some demo_iu"
  shows "\<exists>e. shell_session demo_shell 1 (demo_login ''bob'' []) demo_session (st, s) = ([Ran cur e, Exited 0], (st, s))"
proof -
  let ?lu = "demo_login ''bob'' []"
  have c: "context_client (sh_auth demo_shell) ?lu st = (Some (demo_api, cur), st)" using assms(1) by (simp add: context_client_def)
  have "context_instance_user 1 ?lu (demo_api, cur) st = (Return demo_iu, st)"
    using assms by (simp add: context_instance_user_def GetCachedInstanceUser_def demo_names)
  then have u: "shell_user demo_shell 1 ?lu (st, s) = ([], (st, s), Some demo_iu)"
    using assms(1) by (simp add: shell_user_def cached_user_def demo_names)
  have "\<exists>e. shell_start demo_shell 1 ?lu demo_iu demo_session (st, s) = ([Ran cur e, Exited 0], (st, s))"
    using assms(1) by (simp add: shell_start_def setup_agent_def shell_command_def demo_session_def demo_names shell_run_def greeting_def
        demo_shell_def demo_api_def Exec_def)
  then show ?thesis using c u by (auto simp: shell_session_def)
qed

theorem shell_in_project_witness:
  "\<exists>e. Ran ''prod'' e \<in> set (fst (shellHandler demo_shell 1 [] demo_session
      ((known_state (demo_login ''bob'' []))\<lparr>as_client := Some (demo_api, ''prod'')\<rparr>, []))) \<and> ''prod'' = project_name (demo_login ''bob'' [])"
proof -
  let ?lu = "demo_login ''bob'' []"
  let ?st = "(known_state ?lu)\<lparr>as_client := Some (demo_api, ''prod'')\<rparr>"
  note k = known_cached [where lu = ?lu]
  have v: "IsValid (sh_auth demo_shell) 1 ?lu ?st = (Return True, ?st)" using k(1,2) by (auto simp: IsValid_def demo_names)
  obtain e where e: "shell_session demo_shell 1 ?lu demo_session (?st, []) = ([Ran ''prod'' e, Exited 0], (?st, []))"
    using demo_run [of ?st "''prod''" "[]"] k(3) by auto
  have l: "as_user ?st = Some ?lu" using k(4) by simp
  have cmd: "lu_Command (lu_core ?lu) = []" by (simp add: demo_login_def)
  have "fst (shellHandler demo_shell 1 [] demo_session (?st, [])) = [Ran ''prod'' e, Exited 0]"
    using v e l by (simp add: shellHandler_def LoginUserFromContext_def IsCommand_def cmd)
  moreover have "ready 1 ?lu ?st"
    by (simp add: ready_def placed_def own_project_def demo_names honest_api_def demo_api_def)
  ultimately show ?thesis using shell_in_project [OF demo_honest l, of 1 "''prod''" e "[]" demo_session "[]"] by auto
qed

theorem shell_wrong_project_witness:
  "\<exists>e. Ran [] e \<in> set (fst (shellHandler demo_shell 1 [] demo_session (known_state (demo_login ''bob'' []), []))) \<and>
     project_name (demo_login ''bob'' []) = ''prod''"
proof -
  let ?lu = "demo_login ''bob'' []"
  note k = known_cached [where lu = ?lu]
  have a: "ae_connect (sh_auth demo_shell) (lu_Remote (lu_core ?lu)) = Some demo_api" "\<not> si_agent demo_session"
    by (simp_all add: demo_shell_def demo_env_def demo_session_def)
  have n: "\<not> IsCommand ?lu" by (simp add: demo_names)
  have u: "cache_Get 1 (instanceUserKey (lu_Project (lu_core ?lu)) (lu_Instance (lu_core ?lu)) (lu_InstanceUser (lu_core ?lu)))
      (instanceUserCache (as_caches (known_state ?lu))) = Some demo_iu" unfolding demo_names by (rule k(3))
  from shell_wrong_project [OF k(4,5) n demo_names(6,7) k(2,1) u a] show ?thesis using demo_names(4) by blast
qed


definition remove_login :: LoginUser where
  "remove_login = LoginUser (empty_core\<lparr>lu_User := ''root'', lu_Command := ''remove''\<rparr>) None (Some (demo_login ''bob'' []))"

definition helper_shell :: "((string \<times> string) list, string, string) shell_env" where
  "helper_shell = demo_shell\<lparr>sh_auth := demo_env\<lparr>ae_connect := (\<lambda>_. Some helper_api)\<rparr>, sh_view := (\<lambda>_. helper_api)\<rparr>"

lemma demo_answer: "remove_confirmed (si_Input demo_session)"
  unfolding remove_confirmed_def demo_session_def by code_simp


theorem remove_looks_elsewhere_witness:
  "fst (removeHandler demo_shell 1 remove_login demo_session (demo_state remove_login, [])) =
     [Printed (CRLF @ ''Instance web.prod not found'' @ CRLF), Exited 1]"
proof -
  have "cache_Get 1 k (instanceCache (as_caches (demo_state remove_login))) = None" for k
    by (simp add: demo_state_def init_caches_def new_cache_empty)
  moreover have "full_name (lu_core (demo_login ''bob'' [])) = ''web.prod''" by (simp add: full_name_def demo_names)
  moreover have "lu_RemoveUser remove_login = Some (demo_login ''bob'' [])" "lu_User (lu_core remove_login) = ''root''"
    "as_client (demo_state remove_login) = None" "ae_connect (sh_auth demo_shell) (lu_Remote (lu_core remove_login)) = Some demo_api"
    "api_GetInstanceFull demo_api [] (lu_Instance (lu_core (demo_login ''bob'' []))) = None"
    by (simp_all add: remove_login_def empty_core_def demo_state_def demo_shell_def demo_env_def demo_api_def)
  ultimately show ?thesis
    using remove_looks_elsewhere [of remove_login "demo_login ''bob'' []" "demo_state remove_login" demo_shell demo_api 1 demo_session "[]"] by simp
qed

definition create_login :: LoginUser where
  "create_login = LoginUser (empty_core\<lparr>lu_User := ''bob'', lu_Instance := ''new'', lu_Project := ''default'', lu_InstanceUser := ''root'',
     lu_CreateInstance := True\<rparr>) None None"

lemma demo_loaded:
  "\<exists>h. LoadCreateConfigWithFallback (sh_files helper_shell) (sh_unmarshal helper_shell) (sh_order helper_shell) (sh_names helper_shell)
    (shell_config_paths helper_shell) (sh_store helper_shell) = (h, Inr (demo_config\<lparr>cc_configFile := ''/etc/ssh2incus/create-config.yaml''\<rparr>))"
proof -
  have p: "config_paths demo_files [[], path_Join [''/root'', ''.config'', ''ssh2incus''], path_Join [''/etc'', ''ssh2incus'']] =
    [''/root/.config/ssh2incus/create-config.yaml'', ''/etc/ssh2incus/create-config.yaml'']"
    unfolding demo_files_def by code_simp
  show ?thesis
    by (simp add: LoadCreateConfigWithFallback_def shell_config_paths_def helper_shell_def demo_shell_def p)
      (simp add: LoadCreateConfig_def demo_files_def demo_config_def zero_icc_def processIncludes_def)
qed

lemma session_user:
  assumes "context_client (sh_auth env) lu st = (Some c, st1)"
  shows "set (fst (shell_user env now lu (st1, s))) \<subseteq> set (fst (shell_session env now lu ses (st, s)))"
proof -
  obtain evs x r where u: "shell_user env now lu (st1, s) = (evs, x, r)" by (metis prod_cases3)
  show ?thesis
  proof (cases r)
    case (Some iu)
    obtain evs' x' where "shell_start env now lu iu ses x = (evs', x')" by (cases "shell_start env now lu iu ses x")
    with assms u Some show ?thesis by (simp add: shell_session_def)
  qed (use assms u in \<open>simp add: shell_session_def\<close>)
qed

theorem creation_guarded_witness:
  "\<exists>params. Created ''default'' params \<in> set (fst (shellHandler helper_shell 1 [] demo_session (demo_state create_login, []))) \<and>
     cp_Name params = ''new''"
proof -
  let ?st = "demo_state create_login" let ?st1 = "?st\<lparr>as_client := Some (helper_api, [])\<rparr>"
  have n: "lu_CreateInstance (lu_core create_login)" "\<not> IsCommand create_login" "lu_Command (lu_core create_login) = []"
    "lu_Project (lu_core create_login) = ''default''" "lu_Instance (lu_core create_login) = ''new''"
    "lu_InstanceUser (lu_core create_login) = ''root''" "lcc_Profiles (lu_CreateConfig (lu_core create_login)) = []"
    by (simp_all add: create_login_def empty_core_def IsCommand_def empty_LoginCreateConfig_def)
  have l: "as_user ?st = Some create_login" by (simp add: demo_state_def)
  have c: "context_client (sh_auth helper_shell) create_login ?st = (Some (helper_api, []), ?st1)"
    by (simp add: context_client_def demo_state_def helper_shell_def)
  have none: "cache_Get 1 k (as_failed ?st) = None" "cache_Get 1 k (as_valid ?st) = None" for k
    by (simp_all add: demo_state_def login_caches_def new_cache_empty)
  obtain st2 where v: "IsValid (sh_auth helper_shell) 1 create_login ?st = (Return True, st2)" "as_client st2 = Some (helper_api, [])"
    using n(1,2) c none by (simp add: IsValid_def)
  let ?st3 = "st2\<lparr>as_client := Some (helper_api, ''default'')\<rparr>"
  have g: "GetInstanceUser helper_api ''default'' ''new'' ''root'' [] = (''default'', Fail)"
    by (simp add: GetInstanceUser_def use_project_def helper_api_def demo_api_def Exec_def)
  obtain h cc where cc: "LoadCreateConfigWithFallback (sh_files helper_shell) (sh_unmarshal helper_shell) (sh_order helper_shell) (sh_names helper_shell)
    (shell_config_paths helper_shell) (sh_store helper_shell) = (h, Inr cc)" using demo_loaded by blast
  let ?cc = "cc\<lparr>cc_config := cc_Defaults cc\<rparr>"
  let ?p = "login_params create_login ?cc h"
  have "CreateInstance list_server ?p [] ''default'' = ([(''default'', ''new'')], ''default'', Inr ''new'')"
    by (simp add: CreateInstance_def GetInstance_def UseProject_def use_project_def list_server_def n build_request_def login_params_def Let_def split: prod.splits)
  then have k: "\<exists>evs x. shell_create helper_shell create_login ''default'' (?st3, []) = (evs, x, True) \<and> Created ''default'' ?p \<in> set evs"
    using cc n(4,7) by (simp add: shell_create_def ApplyProfiles_def Let_def helper_shell_def demo_shell_def)
  then have u: "Created ''default'' ?p \<in> set (fst (created_user helper_shell 1 create_login ''default'' (?st3, [])))"
    by (auto simp: created_user_def case_prod_unfold split: bool.split)
  have "sh_AllowCreate helper_shell" by (simp add: helper_shell_def demo_shell_def)
  then have "Created ''default'' ?p \<in> set (fst (shell_user helper_shell 1 create_login (st2, [])))"
    using n(1,4,5,6) v(2) g u by (simp add: shell_user_def case_prod_unfold)
  moreover have "context_client (sh_auth helper_shell) create_login st2 = (Some (helper_api, []), st2)"
    using v(2) by (simp add: context_client_def)
  ultimately have "Created ''default'' ?p \<in> set (fst (shell_session helper_shell 1 create_login demo_session (st2, [])))"
    by (meson session_user subsetD)
  moreover have "LoginUserFromContext (sh_auth helper_shell) [] ?st = (create_login, ?st)" using l by (simp add: LoginUserFromContext_def)
  then have "shellHandler helper_shell 1 [] demo_session (?st, []) = shell_session helper_shell 1 create_login demo_session (st2, [])"
    using v(1) n(2,3) by (simp add: shellHandler_def)
  ultimately have m: "Created ''default'' ?p \<in> set (fst (shellHandler helper_shell 1 [] demo_session (?st, [])))" by (simp only:)
  have "cp_Name ?p = ''new''" using creation_guarded [OF l m] unfolding n(5) by (elim conjE)
  with m show ?thesis by (intro exI [of _ ?p] conjI)
qed

end
