(* ===== verification/Startup.thy ===== *)
theory Startup
  imports Shell_Handler Ssh_Auth
begin

text \<open>
  From the command line to the configured SSH server: the arguments and the settings
  (\<open>src/init.go\<close>, \<open>src/server/config.go\<close>), the role of the process and the child of the master
  process (\<open>Run\<close>, \<open>handoffToChild\<close> of \<open>src/server/server.go\<close>), the server with its handlers
  (\<open>setupServer\<close>), the banner (\<open>src/server/banner.go\<close>) and the texts of \<open>src/pkg/app.go\<close>. The
  flag and configuration library is not part of the repository: the settings it has collected are a
  parameter, a value for every key; setting a key makes it the value that is read afterwards.
\<close>

section \<open>Model\<close>

subsection \<open>Arguments\<close>

text \<open>The loop of \<open>parseArgs\<close>: the argument read so far, and whether it is in quotes or after a backslash.\<close>

fun parse_args_loop :: "string \<Rightarrow> string \<Rightarrow> bool \<Rightarrow> bool \<Rightarrow> string list" where
  "parse_args_loop [] cur inq esc = (if cur \<noteq> [] then [cur] else [])"
| "parse_args_loop (r # s) cur inq esc =
     (if esc then parse_args_loop s (cur @ [r]) inq False
      else if r = CHR 0x5C then parse_args_loop s cur inq True
      else if r = CHR 0x22 then parse_args_loop s cur (\<not> inq) False
      else if r = CHR '' '' \<and> \<not> inq
      then (if cur \<noteq> [] then cur # parse_args_loop s [] inq False else parse_args_loop s [] inq False)
      else parse_args_loop s (cur @ [r]) inq False)"

definition parseArgs :: "string \<Rightarrow> string list" where
  "parseArgs s = parse_args_loop s [] False False"

definition to_upper_char :: "char \<Rightarrow> char" where
  "to_upper_char c = 
     (if 97 \<le> (of_char c :: nat) \<and> (of_char c :: nat) \<le> 122 then char_of (of_char c - 32 :: nat) else c)"

definition app_NAME :: "string \<Rightarrow> string" where
  "app_NAME name = map to_upper_char name"

text \<open>The environment is the list of its entries; the last one of a name counts.\<close>

definition getenv :: "(string \<times> string) list \<Rightarrow> string \<Rightarrow> string" where
  "getenv es n = (case map_of (rev es) n of Some v \<Rightarrow> v | None \<Rightarrow> [])"

definition ArgsEnvName :: "string \<Rightarrow> string" where
  "ArgsEnvName name = app_NAME name @ ''_ARGS''"

definition SocketFdEnvName :: "string \<Rightarrow> string" where
  "SocketFdEnvName name = app_NAME name @ ''_SOCKET_FD''"

definition ArgsEnvValue :: "string list \<Rightarrow> string" where
  "ArgsEnvValue args = join '' '' args"

definition program_args :: "string \<Rightarrow> (string \<times> string) list \<Rightarrow> string list \<Rightarrow> string list" where
  "program_args name es os_args =
     (if getenv es (ArgsEnvName name) \<noteq> [] then parseArgs (getenv es (ArgsEnvName name))
      else if length os_args > 1 then tl os_args else [])"

subsection \<open>Settings\<close>

record settings =
  get_bool :: "string \<Rightarrow> bool"
  get_string :: "string \<Rightarrow> string"
  get_dur :: "string \<Rightarrow> int"

definition set_bool :: "string \<Rightarrow> bool \<Rightarrow> settings \<Rightarrow> settings" where
  "set_bool n b v = v\<lparr>get_bool := (get_bool v)(n := b)\<rparr>"

definition set_string :: "string \<Rightarrow> string \<Rightarrow> settings \<Rightarrow> settings" where
  "set_string n s v = v\<lparr>get_string := (get_string v)(n := s)\<rparr>"

definition default_string :: "string \<Rightarrow> string \<Rightarrow> settings \<Rightarrow> settings" where
  "default_string n s v = (if get_string v n = [] then set_string n s v else v)"

definition allowed_groups :: "string \<Rightarrow> string list" where
  "allowed_groups s = filter (\<lambda>g. g \<noteq> []) (map trim_space (split_char (CHR '','') s))"

fun auth_methods_loop :: "string list \<Rightarrow> string list option" where
  "auth_methods_loop [] = Some []"
| "auth_methods_loop (m # ms) =
     (if trim_space m \<in> {''password'', ''publickey''} then map_option ((#) (trim_space m)) (auth_methods_loop ms) else None)"

definition parseAuthMethods :: "string \<Rightarrow> string list option" where
  "parseAuthMethods s = (if s = [] then Some [] else auth_methods_loop (split_char (CHR '','') s))"

text \<open>The settings as the program completes them, with the authentication methods and the groups.\<close>

definition basic_settings :: "(string \<times> string) list \<Rightarrow> settings \<Rightarrow> settings" where
  "basic_settings es v =
     (let v = (if get_bool v ''inauth'' then set_bool ''instance-auth'' True v else v);
          v = (if get_bool v ''pprof'' \<and> get_bool v ''master'' then set_bool ''pprof'' False v else v);
          v = default_string ''socket'' (getenv es ''INCUS_SOCKET'') v;
          v = default_string ''client-cert'' (getenv es ''INCUS_CLIENT_CERT'') v
      in default_string ''client-key'' (getenv es ''INCUS_CLIENT_KEY'') v)"

definition auth_settings :: "string list \<Rightarrow> settings \<Rightarrow> settings" where
  "auth_settings methods v =
     (let v = (if methods \<noteq> [] \<and> get_bool v ''noauth'' then set_bool ''noauth'' False v else v)
      in if List.member methods ''password'' then set_bool ''password-auth'' True v else v)"

definition complete_settings ::
  "(string \<times> string) list \<Rightarrow> settings \<Rightarrow> (settings \<times> string list \<times> string list) option" where
  "complete_settings es v =
     (let v = basic_settings es v;
          groups = allowed_groups (get_string v ''groups'');
          v = set_string ''groups'' (join '','' groups) v
      in map_option (\<lambda>methods. (auth_settings methods v, methods, groups)) (parseAuthMethods (get_string v ''auth-methods'')))"

record Config =
  cf_Args :: "string list"
  cf_Listen :: string
  cf_Socket :: string
  cf_Shell :: string
  cf_Groups :: string
  cf_HealthCheck :: string
  cf_Remote :: string
  cf_URL :: string
  cf_ClientCert :: string
  cf_ClientKey :: string
  cf_ServerCert :: string
  cf_TermMux :: string
  cf_Master :: bool
  cf_Debug :: bool
  cf_Banner :: bool
  cf_NoAuth :: bool
  cf_InstanceAuth :: bool
  cf_PassAuth :: bool
  cf_AllowCreate :: bool
  cf_ChrootSFTP :: bool
  cf_Welcome :: bool
  cf_Pprof :: bool
  cf_PprofListen :: string
  cf_AuthMethods :: "string list"
  cf_AllowedGroups :: "string list"
  cf_IdleTimeout :: int
  cf_WebListen :: string
  cf_Web :: bool
  cf_WebAuth :: string

definition build_Config :: "string list \<Rightarrow> settings \<times> string list \<times> string list \<Rightarrow> Config" where
  "build_Config args = (\<lambda>(v, methods, groups).
     \<lparr>cf_Args = args, cf_Listen = get_string v ''listen'', cf_Socket = get_string v ''socket'',
      cf_Shell = get_string v ''shell'', cf_Groups = get_string v ''groups'',
      cf_HealthCheck = get_string v ''health-check'', cf_Remote = get_string v ''remote'',
      cf_URL = get_string v ''url'', cf_ClientCert = get_string v ''client-cert'',
      cf_ClientKey = get_string v ''client-key'', cf_ServerCert = get_string v ''server-cert'',
      cf_TermMux = get_string v ''term-mux'', cf_Master = get_bool v ''master'', cf_Debug = get_bool v ''debug'',
      cf_Banner = get_bool v ''banner'',
      cf_NoAuth = (get_bool v ''noauth'' \<and> \<not> get_bool v ''instance-auth''),
      cf_InstanceAuth = get_bool v ''instance-auth'', cf_PassAuth = get_bool v ''password-auth'',
      cf_AllowCreate = get_bool v ''allow-create'', cf_ChrootSFTP = get_bool v ''chroot-sftp'',
      cf_Welcome = get_bool v ''welcome'', cf_Pprof = get_bool v ''pprof'',
      cf_PprofListen = get_string v ''pprof-listen'', cf_AuthMethods = methods, cf_AllowedGroups = groups,
      cf_IdleTimeout = get_dur v ''idle-timeout'', cf_WebListen = get_string v ''web-listen'',
      cf_Web = get_bool v ''web'', cf_WebAuth = get_string v ''web-auth''\<rparr>)"

text \<open>What the program does with its arguments and settings.\<close>

datatype startup = PrintHelp | PrintVersion | Fatal | DumpConfig | DumpCreate | RunServer Config

definition program_init :: "(string \<times> string) list \<Rightarrow> string list \<Rightarrow> settings \<Rightarrow> startup" where
  "program_init es args v =
     (if get_bool v ''help'' then PrintHelp
      else if get_bool v ''version'' then PrintVersion
      else (case complete_settings es v of
              None \<Rightarrow> Fatal
            | Some (v, methods, groups) \<Rightarrow>
                if get_bool v ''dump'' then DumpConfig
                else if get_bool v ''dump-create'' then DumpCreate
                else RunServer (build_Config args (v, methods, groups))))"

subsection \<open>Processes\<close>

datatype role = Child | MasterProcess | Daemon

definition Run :: "string \<Rightarrow> (string \<times> string) list \<Rightarrow> Config \<Rightarrow> role" where
  "Run name es c =
     (if getenv es (SocketFdEnvName name) \<noteq> [] then Child else if cf_Master c then MasterProcess else Daemon)"

text \<open>The command line and the environment of the process that serves one connection.\<close>

definition child_args :: "string \<Rightarrow> string \<Rightarrow> string list" where
  "child_args arg0 remote = [arg0, ''serve'', remote]"

definition child_environ :: "string \<Rightarrow> (string \<times> string) list \<Rightarrow> nat \<Rightarrow> Config \<Rightarrow> (string \<times> string) list" where
  "child_environ name es fd c =
     filter (\<lambda>(n, _). n \<noteq> SocketFdEnvName name) es @
     [(SocketFdEnvName name, show_nat fd), (ArgsEnvName name, ArgsEnvValue (cf_Args c))]"

subsection \<open>The server\<close>

datatype key_handler = HostAuth | InstanceAuth | NoAuth

datatype channel_handler = SessionChannel | DirectTcpipChannel

datatype subsystem_handler = DefaultSubsystem | SftpSubsystem

record 'k ssh_setup =
  ss_Addr :: string
  ss_IdleTimeout :: int
  ss_Version :: string
  ss_Channels :: "(string \<times> channel_handler) list"
  ss_Subsystems :: "(string \<times> subsystem_handler) list"
  ss_Requests :: "string list"
  ss_HostSigners :: "'k list"
  ss_AuthMethods :: "string list"
  ss_Password :: bool
  ss_PublicKey :: key_handler
  ss_Banner :: bool

definition publickey_handler :: "Config \<Rightarrow> key_handler" where
  "publickey_handler c = (if cf_InstanceAuth c then InstanceAuth else if cf_NoAuth c then NoAuth else HostAuth)"

definition server_groups :: "(string \<Rightarrow> string option) \<Rightarrow> Config \<Rightarrow> string list" where
  "server_groups lookup_group c =
     (if \<not> cf_NoAuth c \<and> cf_AllowedGroups c \<noteq> [] then ''0'' # getGroupIds lookup_group (cf_AllowedGroups c)
      else cf_AllowedGroups c)"

text \<open>The files that match the pattern, those that can be read, and those that hold a key.\<close>

definition host_signers :: "string list \<Rightarrow> (string \<Rightarrow> string option) \<Rightarrow> (string \<Rightarrow> 'k option) \<Rightarrow> 'k list" where
  "host_signers files read parse = List.map_filter parse (List.map_filter read files)"

definition setupServer ::
  "(string \<Rightarrow> string option) \<Rightarrow> string list \<Rightarrow> (string \<Rightarrow> string option) \<Rightarrow> (string \<Rightarrow> 'k option) \<Rightarrow> Config \<Rightarrow> Config \<times> 'k ssh_setup" where
  "setupServer lookup_group files read parse c =
     (c\<lparr>cf_AllowedGroups := server_groups lookup_group c\<rparr>,
      \<lparr>ss_Addr = cf_Listen c, ss_IdleTimeout = cf_IdleTimeout c, ss_Version = ''Incus'',
       ss_Channels = [(''session'', SessionChannel), (''direct-tcpip'', DirectTcpipChannel)],
       ss_Subsystems = [(''default'', DefaultSubsystem), (''sftp'', SftpSubsystem)],
       ss_Requests = [''tcpip-forward'', ''cancel-tcpip-forward''],
       ss_HostSigners = host_signers files read parse,
       ss_AuthMethods = cf_AuthMethods c,
       ss_Password = (cf_AuthMethods c \<noteq> [] \<or> cf_PassAuth c \<and> \<not> cf_NoAuth c),
       ss_PublicKey = publickey_handler c, ss_Banner = cf_Banner c\<rparr>)"

text \<open>What the handlers decide for one connection, by name; the handlers of the configured server.\<close>

record 'c deciders =
  host_decides :: "'c \<Rightarrow> bool"
  instance_decides :: "'c \<Rightarrow> bool"
  noauth_decides :: "'c \<Rightarrow> bool"
  password_decides :: "'c \<Rightarrow> bool"

definition key_decides :: "'c deciders \<Rightarrow> key_handler \<Rightarrow> 'c \<Rightarrow> bool" where
  "key_decides d h = (case h of HostAuth \<Rightarrow> host_decides d | InstanceAuth \<Rightarrow> instance_decides d | NoAuth \<Rightarrow> noauth_decides d)"

definition setup_handlers :: "'c deciders \<Rightarrow> 'k ssh_setup \<Rightarrow> 'c handlers" where
  "setup_handlers d ss =
     \<lparr>PasswordHandler = (if ss_Password ss then Some (password_decides d) else None),
      PublicKeyHandler = Some (key_decides d (ss_PublicKey ss)), KeyboardInteractiveHandler = None\<rparr>"

subsection \<open>Banner\<close>

text \<open>The picture in UTF-8: a frame of box-drawing characters around five lines of text.\<close>

definition box_char :: "nat \<Rightarrow> string" where
  "box_char n = [CHR 0xE2, CHR 0x94, char_of n]"

definition horizontal :: "nat \<Rightarrow> string" where
  "horizontal n = concat (replicate n (box_char 0x80))"

definition boxed :: "string \<Rightarrow> string" where
  "boxed l = box_char 0x82 @ l @ box_char 0x82 @ [CHR 10]"

definition banner :: string where
  "banner =
     [CHR 10] @ box_char 0x8C @ horizontal 46 @ box_char 0x90 @ [CHR 10] @
     concat (map boxed
       [''          _     ____  _                       '',
        ''  ___ ___| |__ |___ '' @ [CHR 0x5C] @ ''(_)_ __   ___ _   _ ___  '',
        '' / __/ __| '' @ [CHR 0x27] @ ''_ '' @ [CHR 0x5C] @ ''  __) | | '' @ [CHR 0x27] @ ''_ '' @ [CHR 0x5C] @ '' / __| | | / __| '',
        '' '' @ [CHR 0x5C] @ ''__ '' @ [CHR 0x5C] @ ''__ '' @ [CHR 0x5C] @ '' | | |/ __/| | | | | (__| |_| '' @ [CHR 0x5C] @ ''__ '' @ [CHR 0x5C] @ '' '',
        '' |___/___/_| |_|_____|_|_| |_|'' @ [CHR 0x5C] @ ''___|'' @ [CHR 0x5C] @ ''__,_|___/ '']) @
     box_char 0x94 @ horizontal 46 @ box_char 0x98 @ [CHR 10]"

definition rule_line :: string where
  "rule_line = horizontal 48 @ [CHR 10]"

definition laptop :: string where "laptop = [CHR 0xF0, CHR 0x9F, CHR 0x92, CHR 0xBB]"

definition person :: string where "person = [CHR 0xF0, CHR 0x9F, CHR 0x91, CHR 0xA4]"

definition parcel :: string where "parcel = [CHR 0xF0, CHR 0x9F, CHR 0x93, CHR 0xA6]"

definition banner_paths :: "string \<Rightarrow> string list" where
  "banner_paths home =
     [''banner.txt''] @ (if home \<noteq> [] then [path_Join [home, ''.config'', ''ssh2incus'', ''banner.txt'']] else []) @
     [path_Join [''/etc'', ''ssh2incus'', ''banner.txt'']]"

definition banner_text :: "files \<Rightarrow> string \<Rightarrow> string \<Rightarrow> LoginUser \<Rightarrow> string" where
  "banner_text fs home hostname lu =
     (let u = lu_core lu;
          remote = (if lu_Remote u \<noteq> [] then lu_Remote u @ '' / '' else []);
          shown = (if hostname \<noteq> [] then '' '' @ laptop @ '' '' @ remote @ hostname else [])
      in case List.map_filter (fs_ReadFile fs) (banner_paths home) of
           data # _ \<Rightarrow>
             [CHR 10] @ replacer [(''[INSTANCE_USER]'', lu_InstanceUser u), (''[INSTANCE]'', lu_Instance u),
                (''[PROJECT]'', lu_Project u), (''[REMOTE]'', lu_Remote u), (''[HOSTNAME]'', hostname)] data @ [CHR 10]
         | [] \<Rightarrow>
             banner @ person @ '' '' @ lu_InstanceUser u @ '' '' @ parcel @ '' '' @ lu_Instance u @ ''.'' @ lu_Project u @
             shown @ [CHR 10] @ rule_line @ [CHR 10])"

text \<open>\<^const>\<open>Fail\<close> does not occur: an invalid login has an empty banner.\<close>

definition bannerHandler ::
  "'k auth_env \<Rightarrow> files \<Rightarrow> string \<Rightarrow> string \<Rightarrow> int \<Rightarrow> string \<Rightarrow> auth_state \<Rightarrow> string call \<times> auth_state" where
  "bannerHandler env fs home hostname now user st =
     (case LoginUserFromContext env user st of (lu, st) \<Rightarrow>
        (case IsValid env now lu st of
           (Crash, st) \<Rightarrow> (Crash, st)
         | (Return True, st) \<Rightarrow> (Return (if IsCommand lu then banner else banner_text fs home hostname lu), st)
         | (_, st) \<Rightarrow> (Return [], st)))"

subsection \<open>Texts of the application\<close>

record App =
  app_name :: string
  app_version :: string
  app_gitHash :: string

definition app_String :: "App \<Rightarrow> string" where
  "app_String a = app_name a @ '' '' @ app_version a"

definition LongName :: "App \<Rightarrow> string" where
  "LongName a = app_String a @ (if app_gitHash a \<noteq> [] then '' ('' @ app_gitHash a @ '')'' else [])"

text \<open>
  Durations in nanoseconds, not negative. The floating-point numbers of hours and minutes of a whole number
  of seconds are cut to the integers that the division gives.
\<close>

definition round_seconds :: "int \<Rightarrow> int" where
  "round_seconds d = (d + 500000000) div 1000000000"

definition duration_part :: "int \<times> string \<Rightarrow> string" where
  "duration_part = (\<lambda>(n, unit). if n = 1 then ''1 '' @ unit else itoa n @ '' '' @ unit @ ''s'')"

definition duration_fields :: "int \<Rightarrow> (int \<times> string) list" where
  "duration_fields d =
     (let s = round_seconds d;
          parts = filter (\<lambda>(n, _). n > 0)
                    [(s div 86400, ''day''), (s div 3600 mod 24, ''hour''), (s div 60 mod 60, ''minute'')]
      in if s mod 60 > 0 \<or> parts = [] then parts @ [(s mod 60, ''second'')] else parts)"

definition formatDuration :: "int \<Rightarrow> string" where
  "formatDuration d = join '', '' (map duration_part (duration_fields d))"

section \<open>Lemmas\<close>

subsection \<open>Arguments\<close>

definition special :: "char \<Rightarrow> bool" where
  "special c \<longleftrightarrow> c = CHR 0x5C \<or> c = CHR 0x22"

definition bare_arg :: "string \<Rightarrow> bool" where
  "bare_arg a \<longleftrightarrow> a \<noteq> [] \<and> list_all (\<lambda>c. \<not> special c \<and> c \<noteq> CHR '' '') a"

text \<open>The characters of the arguments with one separator for each.\<close>

definition weight :: "string list \<Rightarrow> nat" where
  "weight rs = sum_list (map (\<lambda>r. length r + 1) rs)"

lemma weight_simps [simp]: "weight [] = 0" "weight (r # rs) = length r + 1 + weight rs"
  by (simp_all add: weight_def)

lemma weight_join: "args \<noteq> [] \<Longrightarrow> weight args = length (join '' '' args) + 1"
  by (induction "'' ''" args rule: join.induct) auto

lemma parse_args_weight: "weight (parse_args_loop s cur inq esc) \<le> length cur + length s + 1"
proof (induction s arbitrary: cur inq esc)
  case (Cons r s)
  show ?case
    using Cons [of "cur @ [r]" inq False] Cons [of cur inq True] Cons [of cur "\<not> inq" False] Cons [of "[]" False False]
    by simp
qed simp

text \<open>A quote or a backslash is lost.\<close>

lemma parse_args_loses:
  "\<not> esc \<Longrightarrow> \<not> list_all (\<lambda>c. \<not> special c) s \<Longrightarrow> weight (parse_args_loop s cur inq esc) \<le> length cur + length s"
proof (induction s arbitrary: cur inq esc)
  case (Cons r s)
  show ?case
  proof (cases "special r")
    case True
    then show ?thesis
      using Cons.prems parse_args_weight [of s cur inq True] parse_args_weight [of s cur "\<not> inq" False]
      by (auto simp: special_def)
  next
    case False
    then have "\<not> list_all (\<lambda>c. \<not> special c) s" "r \<noteq> CHR 0x5C" "r \<noteq> CHR 0x22"
      using Cons.prems by (simp_all add: special_def)
    then show ?thesis using Cons.prems(1) Cons.IH [of False "cur @ [r]" inq] Cons.IH [of False "[]" False] by simp
  qed
qed simp

lemma parse_args_plain:
  "list_all (\<lambda>c. \<not> special c) s \<Longrightarrow>
   parse_args_loop s cur False False = filter (\<lambda>a. a \<noteq> []) (case split_char (CHR '' '') s of x # xs \<Rightarrow> (cur @ x) # xs | [] \<Rightarrow> [])"
proof (induction s arbitrary: cur)
  case (Cons r s)
  obtain x xs where x: "split_char (CHR '' '') s = x # xs" by (cases "split_char (CHR '' '') s") auto
  show ?case using Cons x by (cases "r = CHR '' ''") (auto simp: special_def)
qed simp

lemma join_special: "list_all (\<lambda>c. \<not> special c) (join '' '' args) \<longleftrightarrow> list_all (list_all (\<lambda>c. \<not> special c)) args"
  by (induction "'' ''" args rule: join.induct) (auto simp: special_def)

lemma parse_join:
  assumes "args \<noteq> []"
  shows "parseArgs (join '' '' args) = args \<longleftrightarrow> list_all bare_arg args"
proof
  assume p: "parseArgs (join '' '' args) = args"
  have ok: "list_all (\<lambda>c. \<not> special c) (join '' '' args)"
  proof (rule ccontr)
    assume "\<not> ?thesis"
    from parse_args_loses [OF _ this, of False "[]" False] p weight_join [OF assms] show False
      by (simp add: parseArgs_def)
  qed
  have args: "args = filter (\<lambda>a. a \<noteq> []) (split_char (CHR '' '') (join '' '' args))"
    using p parse_args_plain [OF ok, of "[]"]
    by (cases "split_char (CHR '' '') (join '' '' args)") (auto simp: parseArgs_def)
  have "a \<noteq> [] \<and> CHR '' '' \<notin> set a" if "a \<in> set args" for a
  proof -
    have "a \<in> set (filter (\<lambda>a. a \<noteq> []) (split_char (CHR '' '') (join '' '' args)))" using that args by metis
    then show ?thesis using split_char_pieces [of a "CHR '' ''" "join '' '' args"] by simp
  qed
  then show "list_all bare_arg args"
    using ok [unfolded join_special] by (auto simp: bare_arg_def list_all_iff)
next
  assume b: "list_all bare_arg args"
  then have sp: "CHR '' '' \<notin> set a \<and> a \<noteq> []" "list_all (\<lambda>c. \<not> special c) a" if "a \<in> set args" for a
    using that by (auto simp: bare_arg_def list_all_iff)
  have ok: "list_all (\<lambda>c. \<not> special c) (join '' '' args)"
    unfolding join_special using sp(2) by (simp add: list_all_iff)
  have "split_char (CHR '' '') (join '' '' args) = args" using sp(1) assms by (intro split_join) simp_all
  moreover have "filter (\<lambda>a. a \<noteq> []) args = args" using sp(1) by (intro filter_True) simp
  ultimately show "parseArgs (join '' '' args) = args"
    using parse_args_plain [OF ok, of "[]"] assms by (cases args) (simp_all add: parseArgs_def split: if_splits)
qed

lemma getenv_last: "getenv (es @ [(n, x)]) n = x" by (simp add: getenv_def)

text \<open>
  C39. A process that serves one connection gets the arguments of the master process exactly when there are any,
  none of them is empty and none has a space, a quote or a backslash; otherwise it runs with other arguments.
\<close>

theorem args_reach_child:
  "program_args name (child_environ name es fd c) (child_args arg0 remote) = cf_Args c \<longleftrightarrow>
   cf_Args c \<noteq> [] \<and> list_all bare_arg (cf_Args c)"
proof -
  have e: "getenv (child_environ name es fd c) (ArgsEnvName name) = join '' '' (cf_Args c)"
    using getenv_last [of "filter (\<lambda>(n, _). n \<noteq> SocketFdEnvName name) es @ [(SocketFdEnvName name, show_nat fd)]"]
    by (simp add: child_environ_def ArgsEnvValue_def)
  have "join '' '' (cf_Args c) = [] \<longleftrightarrow> cf_Args c = [] \<or> cf_Args c = [[]]"
    by (cases "cf_Args c"; cases "tl (cf_Args c)") (auto simp: join_Cons)
  then show ?thesis using parse_join [of "cf_Args c"]
    by (auto simp: program_args_def e child_args_def bare_arg_def)
qed
subsection \<open>Authentication\<close>

text \<open>The first occurrences in a list.\<close>

fun firsts :: "'a list \<Rightarrow> 'a list" where
  "firsts [] = []"
| "firsts (x # xs) = x # filter (\<lambda>y. y \<noteq> x) (firsts xs)"

lemma validMethods_names:
  "list_all (\<lambda>s. available hs s \<noteq> None) ms \<Longrightarrow>
   map method_name (validMethods hs seen ms) = filter (\<lambda>s. s \<notin> seen) (firsts ms)"
proof (induction ms arbitrary: seen)
  case (Cons s ms)
  then obtain a where a: "available hs s = Some a" by auto
  then have "method_name a = s" by (simp add: available_iff)
  moreover have "filter (\<lambda>y. y \<notin> insert s seen) (firsts ms) = filter (\<lambda>y. y \<notin> seen) (filter (\<lambda>y. y \<noteq> s) (firsts ms))"
    by (simp add: conj_commute)
  moreover have "s \<in> seen \<Longrightarrow> filter (\<lambda>y. y \<notin> seen) (filter (\<lambda>y. y \<noteq> s) (firsts ms)) = filter (\<lambda>y. y \<notin> seen) (firsts ms)"
    by (auto intro: filter_cong)
  ultimately show ?case using Cons a by simp
qed simp

lemma auth_methods_loop_Some:
  "auth_methods_loop ms = Some ns \<longleftrightarrow> ns = map trim_space ms \<and> list_all (\<lambda>m. trim_space m \<in> {''password'', ''publickey''}) ms"
  by (induction ms arbitrary: ns) auto

lemma setting_simps [simp]:
  "get_bool (set_bool n b v) m = (if m = n then b else get_bool v m)"
  "get_string (set_bool n b v) m = get_string v m"
  "get_bool (set_string n s v) m = get_bool v m"
  "get_string (set_string n s v) m = (if m = n then s else get_string v m)"
  "get_bool (default_string n s v) m = get_bool v m"
  "m \<noteq> n \<Longrightarrow> get_string (default_string n s v) m = get_string v m"
  by (simp_all add: set_bool_def set_string_def default_string_def)

lemma basic_settings_simps [simp]:
  "get_bool (basic_settings es v) ''instance-auth'' \<longleftrightarrow> get_bool v ''instance-auth'' \<or> get_bool v ''inauth''"
  "get_bool (basic_settings es v) ''noauth'' = get_bool v ''noauth''"
  "get_bool (basic_settings es v) ''password-auth'' = get_bool v ''password-auth''"
  "get_string (basic_settings es v) ''auth-methods'' = get_string v ''auth-methods''"
  "get_string (basic_settings es v) ''groups'' = get_string v ''groups''"
  by (simp_all add: basic_settings_def Let_def)

lemma auth_settings_simps [simp]:
  "get_bool (auth_settings ms v) ''instance-auth'' = get_bool v ''instance-auth''"
  "get_bool (auth_settings ms v) ''noauth'' \<longleftrightarrow> get_bool v ''noauth'' \<and> ms = []"
  "get_bool (auth_settings ms v) ''password-auth'' \<longleftrightarrow> get_bool v ''password-auth'' \<or> ''password'' \<in> set ms"
  by (simp_all add: auth_settings_def)

lemma started_config:
  assumes "program_init es args v = RunServer c"
  shows "parseAuthMethods (get_string v ''auth-methods'') = Some (cf_AuthMethods c)"
    and "cf_InstanceAuth c \<longleftrightarrow> get_bool v ''instance-auth'' \<or> get_bool v ''inauth''"
    and "cf_NoAuth c \<longleftrightarrow> get_bool v ''noauth'' \<and> cf_AuthMethods c = [] \<and> \<not> cf_InstanceAuth c"
    and "cf_PassAuth c \<longleftrightarrow> get_bool v ''password-auth'' \<or> ''password'' \<in> set (cf_AuthMethods c)"
    and "cf_AllowedGroups c = allowed_groups (get_string v ''groups'')"
proof -
  let ?ms = "cf_AuthMethods c"
  let ?v = "set_string ''groups'' (join '','' (allowed_groups (get_string v ''groups''))) (basic_settings es v)"
  have "parseAuthMethods (get_string v ''auth-methods'') = Some ?ms \<and>
      c = build_Config args (auth_settings ?ms ?v, ?ms, allowed_groups (get_string v ''groups''))"
    using assms by (auto simp: program_init_def complete_settings_def Let_def build_Config_def split: if_splits option.splits)
  then obtain p: "parseAuthMethods (get_string v ''auth-methods'') = Some ?ms"
    and c: "c = build_Config args (auth_settings ?ms ?v, ?ms, allowed_groups (get_string v ''groups''))" by blast
  show "parseAuthMethods (get_string v ''auth-methods'') = Some ?ms" by (rule p)
  show i: "cf_InstanceAuth c \<longleftrightarrow> get_bool v ''instance-auth'' \<or> get_bool v ''inauth''"
    by (subst c) (simp add: build_Config_def)
  show "cf_NoAuth c \<longleftrightarrow> get_bool v ''noauth'' \<and> ?ms = [] \<and> \<not> cf_InstanceAuth c"
    unfolding i by (subst c) (auto simp: build_Config_def)
  show "cf_PassAuth c \<longleftrightarrow> get_bool v ''password-auth'' \<or> ''password'' \<in> set ?ms"
    by (subst c) (simp add: build_Config_def)
  show "cf_AllowedGroups c = allowed_groups (get_string v ''groups'')"
    by (subst c) (simp add: build_Config_def)
qed

lemma method_name_inj: "inj method_name"
proof (rule injI)
  fix a b :: auth_method
  assume "method_name a = method_name b"
  then show "a = b" by (cases a; cases b) simp_all
qed

text \<open>The key handler and the methods that the settings ask for.\<close>

definition wanted_handler :: "settings \<Rightarrow> key_handler" where
  "wanted_handler v =
     (if get_bool v ''instance-auth'' \<or> get_bool v ''inauth'' then InstanceAuth
      else if get_bool v ''noauth'' \<and> get_string v ''auth-methods'' = [] then NoAuth else HostAuth)"

definition wanted_methods :: "settings \<Rightarrow> string list" where
  "wanted_methods v = firsts (map trim_space (split_char (CHR '','') (get_string v ''auth-methods'')))"

definition passes :: "'c deciders \<Rightarrow> key_handler \<Rightarrow> auth_method \<times> 'c \<Rightarrow> bool" where
  "passes d h = (\<lambda>(m, cred).
     (case m of Publickey \<Rightarrow> key_decides d h cred | Password \<Rightarrow> password_decides d cred | KeyboardInteractive \<Rightarrow> False))"

lemma settings_server:
  assumes "program_init es args v = RunServer c" and "setupServer lookup files read parse c = (c', ss)"
  shows "cf_AuthMethods c = [] \<longleftrightarrow> get_string v ''auth-methods'' = []"
    and "ss_AuthMethods ss = cf_AuthMethods c"
    and "ss_PublicKey ss = wanted_handler v"
    and "ss_Password ss \<longleftrightarrow> cf_AuthMethods c \<noteq> [] \<or> get_bool v ''password-auth'' \<and> wanted_handler v \<noteq> NoAuth"
proof -
  note c = started_config [OF assms(1)]
  show none: "cf_AuthMethods c = [] \<longleftrightarrow> get_string v ''auth-methods'' = []"
    using c(1) by (auto simp: parseAuthMethods_def auth_methods_loop_Some split: if_splits)
  have key: "ss_PublicKey ss = publickey_handler c"
    and pw: "ss_Password ss \<longleftrightarrow> cf_AuthMethods c \<noteq> [] \<or> cf_PassAuth c \<and> \<not> cf_NoAuth c"
    using assms(2) by (auto simp: setupServer_def)
  show "ss_AuthMethods ss = cf_AuthMethods c" using assms(2) by (auto simp: setupServer_def)
  show "ss_PublicKey ss = wanted_handler v"
    unfolding key publickey_handler_def wanted_handler_def c(2,3) none by auto
  have "cf_AuthMethods c = [] \<Longrightarrow> cf_NoAuth c \<longleftrightarrow> wanted_handler v = NoAuth"
    unfolding wanted_handler_def c(2,3) none by simp
  moreover have "cf_AuthMethods c = [] \<Longrightarrow> cf_PassAuth c = get_bool v ''password-auth''"
    using c(4) by simp
  ultimately show "ss_Password ss \<longleftrightarrow> cf_AuthMethods c \<noteq> [] \<or> get_bool v ''password-auth'' \<and> wanted_handler v \<noteq> NoAuth"
    unfolding pw by blast
qed

lemma accepted_passes:
  "accepted (setup_handlers d ss) x \<longleftrightarrow> passes d (ss_PublicKey ss) x \<and> (fst x = Password \<longrightarrow> ss_Password ss)"
  by (cases x; cases "fst x") (auto simp: accepted_def setup_handlers_def passes_def)

text \<open>Without methods: one accepted attempt.\<close>

lemma one_attempt:
  assumes "hs = setup_handlers d ss"
  shows "authenticates hs (server_config hs []) steps \<longleftrightarrow>
    list_all (passes d (ss_PublicKey ss)) steps \<and>
    (map fst steps = [Publickey] \<or> map fst steps = [Password] \<and> ss_Password ss)"
proof (cases "\<exists>m cred. steps = [(m, cred)]")
  case True
  then obtain m cred where s: "steps = [(m, cred)]" by blast
  then have "authenticates hs (server_config hs []) steps \<longleftrightarrow> accepted hs (m, cred)"
    using auth_any_exact [of hs steps "[]"] by auto
  then show ?thesis unfolding assms accepted_passes using s by (cases m) (auto simp: passes_def)
next
  case False
  then have "map fst steps \<noteq> [m]" for m by (auto simp: map_eq_Cons_conv)
  then show ?thesis using auth_any_exact [of hs steps "[]"] False by auto
qed

text \<open>With methods that the program has handlers for: all of them, in the order of their first occurrences.\<close>

lemma all_attempts:
  assumes "hs = setup_handlers d ss" and "ms \<noteq> []" and "ss_Password ss"
    and "list_all (\<lambda>m. m = ''password'' \<or> m = ''publickey'') ms"
  shows "authenticates hs (server_config hs ms) steps \<longleftrightarrow>
    list_all (passes d (ss_PublicKey ss)) steps \<and> map (method_name \<circ> fst) steps = firsts ms"
proof -
  have "list_all (\<lambda>s. available hs s \<noteq> None) ms"
    using assms(3,4) by (auto simp: list_all_iff available_def assms(1) setup_handlers_def)
  from validMethods_names [OF this, of "{}"]
  have "map method_name (validMethods hs {} ms) = firsts ms" by simp
  then have names: "map fst steps = validMethods hs {} ms \<longleftrightarrow> map (method_name \<circ> fst) steps = firsts ms"
    using method_name_inj by (metis (no_types) inj_map_eq_map map_map)
  moreover have "list_all (accepted hs) steps \<longleftrightarrow> list_all (passes d (ss_PublicKey ss)) steps"
    using assms(3) by (auto simp: assms(1) accepted_passes list_all_iff)
  moreover have "firsts ms \<noteq> []" using assms(2) by (cases ms) auto
  ultimately show ?thesis using chain_authenticates [of ms hs steps] assms(2) by auto
qed

text \<open>
  C8. The settings decide who is authenticated. Without authentication methods one credential is enough: a key that
  the key handler accepts, or a password when passwords are on and authentication is not switched off. With
  methods a client has to pass each of them once, in the order of their first occurrences, and switching
  authentication off is ignored. The key handler asks the instance when instance authentication is on, lets in
  everybody only when authentication is off and nothing else is asked for, and otherwise is the one of the host;
  the server never leaves out authentication altogether.
\<close>

theorem configured_authentication:
  assumes "program_init es args v = RunServer c" "setupServer lookup files read parse c = (c', ss)" "hs = setup_handlers d ss"
  shows "(authenticates hs (server_config hs (ss_AuthMethods ss)) steps \<longleftrightarrow>
      list_all (passes d (wanted_handler v)) steps \<and>
      (if get_string v ''auth-methods'' = []
       then map fst steps = [Publickey] \<or>
         map fst steps = [Password] \<and> get_bool v ''password-auth'' \<and> wanted_handler v \<noteq> NoAuth
       else map (method_name \<circ> fst) steps = wanted_methods v)) \<and>
    \<not> NoClientAuth (server_config hs (ss_AuthMethods ss))"
proof -
  note server = settings_server [OF assms(1,2)]
  have "\<not> NoClientAuth (server_config hs (ss_AuthMethods ss))"
    using auth_any_exact [of hs _ "ss_AuthMethods ss"] by (auto simp: assms(3) setup_handlers_def intro: exI [of _ Publickey])
  moreover have "ss_Password ss" "list_all (\<lambda>m. m = ''password'' \<or> m = ''publickey'') (cf_AuthMethods c)"
      "firsts (cf_AuthMethods c) = wanted_methods v" if "get_string v ''auth-methods'' \<noteq> []"
    using that started_config(1) [OF assms(1)] server(1,4)
    by (auto simp: parseAuthMethods_def auth_methods_loop_Some wanted_methods_def list_all_iff)
  ultimately show ?thesis
    using one_attempt [OF assms(3), of steps] all_attempts [OF assms(3), of "cf_AuthMethods c" steps] server
    by (cases "get_string v ''auth-methods'' = []") auto
qed

definition demo_settings :: settings where
  "demo_settings =
     \<lparr>get_bool = (\<lambda>n. n = ''noauth''), get_string = (\<lambda>n. if n = ''auth-methods'' then ''publickey, password'' else []),
      get_dur = (\<lambda>_. 0)\<rparr>"

definition demo_deciders :: "string deciders" where
  "demo_deciders =
     \<lparr>host_decides = (\<lambda>k. k = ''key''), instance_decides = (\<lambda>_. False), noauth_decides = (\<lambda>_. True),
      password_decides = (\<lambda>p. p = ''secret'')\<rparr>"

lemma demo_started: "\<exists>c. program_init [] [] demo_settings = RunServer c"
  by (simp add: program_init_def complete_settings_def basic_settings_def auth_settings_def default_string_def set_string_def
      set_bool_def demo_settings_def parseAuthMethods_def trim_space_def is_space_def Let_def)

theorem configured_authentication_witness:
  "\<exists>c c' (ss :: unit ssh_setup) hs. program_init [] [] demo_settings = RunServer c \<and>
     setupServer (\<lambda>_. None) [] (\<lambda>_. None) (\<lambda>_. None) c = (c', ss) \<and>
     authenticates hs (server_config hs (ss_AuthMethods ss)) [(Publickey, ''key''), (Password, ''secret'')] \<and>
     \<not> authenticates hs (server_config hs (ss_AuthMethods ss)) [(Publickey, ''key'')]"
proof -
  obtain c where c: "program_init [] [] demo_settings = RunServer c" using demo_started by blast
  obtain c' and ss :: "unit ssh_setup" where s: "setupServer (\<lambda>_. None) [] (\<lambda>_. None) (\<lambda>_. None) c = (c', ss)"
    by (cases "setupServer (\<lambda>_. None) [] (\<lambda>_. None) (\<lambda>_. None) c :: Config \<times> unit ssh_setup")
  define hs where "hs = setup_handlers demo_deciders ss"
  note p = configured_authentication [OF c s hs_def]
  have w: "wanted_methods demo_settings = [''publickey'', ''password'']" "get_string demo_settings ''auth-methods'' \<noteq> []"
    "wanted_handler demo_settings = HostAuth"
    by (simp_all add: wanted_methods_def wanted_handler_def demo_settings_def trim_space_def is_space_def)
  have "authenticates hs (server_config hs (ss_AuthMethods ss)) [(Publickey, ''key''), (Password, ''secret'')]"
    using p [of "[(Publickey, ''key''), (Password, ''secret'')]"] w
    by (simp add: passes_def key_decides_def demo_deciders_def)
  moreover have "\<not> authenticates hs (server_config hs (ss_AuthMethods ss)) [(Publickey, ''key'')]"
    using p [of "[(Publickey, ''key'')]"] w by simp
  ultimately show ?thesis using c s by blast
qed

subsection \<open>Groups\<close>

text \<open>
  Groups that are listed restrict the users: the server then has the group of root and the groups of the host
  that the list names, also when it names none. Only an empty list, or authentication that is off, lifts
  the restriction.
\<close>

lemma groups_restrict:
  "server_groups lookup c = [] \<longleftrightarrow> cf_AllowedGroups c = []"
  "g \<in> set (server_groups lookup c) \<Longrightarrow> \<not> cf_NoAuth c \<Longrightarrow> g = ''0'' \<or> (\<exists>n \<in> set (cf_AllowedGroups c). lookup n = Some g)"
  by (auto simp: server_groups_def getGroupIds_def List.map_filter_def split: if_splits)

subsection \<open>Durations\<close>

text \<open>The text of a duration has the seconds it was rounded to, in fields within their bounds.\<close>

definition unit_seconds :: "string \<Rightarrow> int" where
  "unit_seconds u = (if u = ''day'' then 86400 else if u = ''hour'' then 3600 else if u = ''minute'' then 60 else 1)"

lemma duration_fields_value:
  assumes "0 \<le> d"
  shows "sum_list (map (\<lambda>(n, u). n * unit_seconds u) (duration_fields d)) = round_seconds d"
proof -
  let ?s = "round_seconds d"
  have s: "0 \<le> ?s" using assms by (simp add: round_seconds_def)
  define D H M S where "D = ?s div 86400" "H = ?s div 3600 mod 24" "M = ?s div 60 mod 60" "S = ?s mod 60"
  have "?s div 3600 = ?s div 60 div 60" "?s div 86400 = ?s div 3600 div 24"
    using zdiv_zmult2_eq [of 60 ?s 60] zdiv_zmult2_eq [of 24 ?s 3600] by simp_all
  moreover have "?s = ?s div 60 * 60 + S" "?s div 60 = ?s div 60 div 60 * 60 + M" "?s div 3600 = ?s div 3600 div 24 * 24 + H"
    unfolding D_H_M_S_def by (simp_all only: div_mult_mod_eq)
  ultimately have "?s = D * 86400 + H * 3600 + M * 60 + S" unfolding D_H_M_S_def(1) by linarith
  moreover have "0 \<le> D" "0 \<le> H" "0 \<le> M" "0 \<le> S" using s by (simp_all add: D_H_M_S_def)
  ultimately show ?thesis
    unfolding duration_fields_def Let_def D_H_M_S_def [symmetric]
    by (cases "D = 0"; cases "H = 0"; cases "M = 0"; cases "S = 0") (simp_all add: unit_seconds_def)
qed

end
