(* ===== verification/Ssh_Server.thy ===== *)
theory Ssh_Server
  imports Startup
begin

text \<open>
  The life of the SSH server, \<open>src/pkg/ssh/server.go\<close>: its host keys and handlers, the dispatch of
  channels and requests of a connection, the deadlines of a connection, and the accept loops, connections,
  \<open>Close\<close> and \<open>Shutdown\<close> as a step relation, one step for each stretch that holds the mutex of the
  server or waits for a wait group. Listeners and connections are numbers.
\<close>

section \<open>Model\<close>

subsection \<open>Keys and handlers\<close>

text \<open>\<open>kty\<close> gives the algorithm of a key.\<close>

fun AddHostKey :: "('k \<Rightarrow> string) \<Rightarrow> 'k \<Rightarrow> 'k list \<Rightarrow> 'k list" where
  "AddHostKey kty key [] = [key]"
| "AddHostKey kty key (k # ks) = (if kty k = kty key then key # ks else k # AddHostKey kty key ks)"

text \<open>A key is generated when there is none; \<^const>\<open>None\<close> is an error.\<close>

definition ensureHostSigner :: "'k option \<Rightarrow> 'k list \<Rightarrow> 'k list option" where
  "ensureHostSigner generated ks = (if ks = [] then map_option (\<lambda>k. [k]) generated else Some ks)"

definition HostKeyPEM :: "(string \<Rightarrow> 'k option) \<Rightarrow> ('k \<Rightarrow> string) \<Rightarrow> string \<Rightarrow> 'k list \<Rightarrow> 'k list option" where
  "HostKeyPEM parse kty pem ks = map_option (\<lambda>k. AddHostKey kty k ks) (parse pem)"

definition HostKeyFile ::
  "(string \<Rightarrow> string option) \<Rightarrow> (string \<Rightarrow> 'k option) \<Rightarrow> ('k \<Rightarrow> string) \<Rightarrow> string \<Rightarrow> 'k list \<Rightarrow> 'k list option" where
  "HostKeyFile read parse kty path ks = Option.bind (read path) (\<lambda>pem. HostKeyPEM parse kty pem ks)"

text \<open>A map of handlers that is nil becomes a copy of the default one.\<close>

definition ensureHandlers :: "'h list option \<Rightarrow> 'h list \<Rightarrow> 'h list" where
  "ensureHandlers handlers defaults = (case handlers of Some hs \<Rightarrow> hs | None \<Rightarrow> defaults)"

definition pick_handler :: "(string \<times> 'h) list \<Rightarrow> string \<Rightarrow> 'h option" where
  "pick_handler hs t = (case map_of hs t of Some h \<Rightarrow> Some h | None \<Rightarrow> map_of hs ''default'')"

text \<open>The channels of a connection: each is handled by a goroutine of its own or rejected.\<close>

datatype 'h channel_event = Handled 'h | Rejected string

definition handle_channels :: "(string \<times> 'h) list \<Rightarrow> string list \<Rightarrow> 'h channel_event list" where
  "handle_channels hs types =
     map (\<lambda>t. case pick_handler hs t of Some h \<Rightarrow> Handled h | None \<Rightarrow> Rejected ''unsupported channel type'') types"

text \<open>The requests of a connection, one after the other: the replies and the state the handlers leave.\<close>

fun handleRequests ::
  "(string \<times> (string \<Rightarrow> 's \<Rightarrow> 's \<times> bool \<times> string)) list \<Rightarrow> (string \<times> string) list \<Rightarrow> 's \<Rightarrow> 's \<times> (bool \<times> string) list" where
  "handleRequests hs [] s = (s, [])"
| "handleRequests hs ((t, payload) # reqs) s =
     (case pick_handler hs t of
        None \<Rightarrow> (case handleRequests hs reqs s of (s, rs) \<Rightarrow> (s, (False, []) # rs))
      | Some h \<Rightarrow>
          (case h payload s of (s, ok, reply) \<Rightarrow>
             (case handleRequests hs reqs s of (s, rs) \<Rightarrow> (s, (ok, reply) # rs))))"

text \<open>The deadlines of a new connection and the first one that is set; times in nanoseconds.\<close>

record conn_deadlines =
  cd_idleTimeout :: int
  cd_handshake :: "int option"
  cd_max :: "int option"

definition new_conn :: "int \<Rightarrow> int \<Rightarrow> int \<Rightarrow> int \<Rightarrow> conn_deadlines" where
  "new_conn now idle maxTimeout handshakeTimeout =
     \<lparr>cd_idleTimeout = idle,
      cd_handshake = (if handshakeTimeout > 0 then Some (now + handshakeTimeout) else None),
      cd_max = (if maxTimeout > 0 then Some (now + maxTimeout) else None)\<rparr>"

definition conn_deadline :: "int \<Rightarrow> conn_deadlines \<Rightarrow> int option" where
  "conn_deadline now c = updateDeadline now (cd_idleTimeout c) (cd_handshake c) (cd_max c)"

definition after_handshake :: "conn_deadlines \<Rightarrow> conn_deadlines" where
  "after_handshake c = c\<lparr>cd_handshake := None\<rparr>"

text \<open>Reading or writing: \<^const>\<open>None\<close> when the deadline stays as it is.\<close>

definition io_deadline :: "int \<Rightarrow> conn_deadlines \<Rightarrow> int option option" where
  "io_deadline now c = (if cd_idleTimeout c > 0 then Some (conn_deadline now c) else None)"

subsection \<open>The state of the server\<close>

datatype conn_phase = Unknown | Handshaking | Serving | Ended

datatype wait_phase = Idle | WaitListeners | WaitConns | Finished

datatype serve_result = ServerClosed | AcceptError

text \<open>
  The maps of tracked listeners and connections, the channel \<open>doneChan\<close> (nil, open or closed) and the wait
  groups are fields of the server; the rest is where the goroutines are: the accept loops, the listeners
  that are closed, the connections, the call of \<open>Shutdown\<close> and what the calls of \<open>Serve\<close> returned.
\<close>

record ssh_srv =
  sv_listeners :: "nat set"
  sv_conns :: "nat set"
  sv_doneChan :: "bool option"
  sv_listenerWg :: nat
  sv_connWg :: nat
  sv_accepting :: "nat set"
  sv_closed :: "nat set"
  sv_phase :: "nat \<Rightarrow> conn_phase"
  sv_cut :: "nat set"
  sv_waiter :: wait_phase
  sv_returned :: "(nat \<times> serve_result) list"

definition new_srv :: ssh_srv where
  "new_srv =
     \<lparr>sv_listeners = {}, sv_conns = {}, sv_doneChan = None, sv_listenerWg = 0, sv_connWg = 0, sv_accepting = {},
      sv_closed = {}, sv_phase = (\<lambda>_. Unknown), sv_cut = {}, sv_waiter = Idle, sv_returned = []\<rparr>"

definition getDoneChan :: "ssh_srv \<Rightarrow> ssh_srv" where
  "getDoneChan s = (if sv_doneChan s = None then s\<lparr>sv_doneChan := Some False\<rparr> else s)"

definition closeDoneChan :: "ssh_srv \<Rightarrow> ssh_srv" where
  "closeDoneChan s = (let s = getDoneChan s in if sv_doneChan s = Some True then s else s\<lparr>sv_doneChan := Some True\<rparr>)"

definition closeListeners :: "ssh_srv \<Rightarrow> ssh_srv" where
  "closeListeners s = s\<lparr>sv_closed := sv_closed s \<union> sv_listeners s, sv_listeners := {}\<rparr>"

definition trackListener :: "nat \<Rightarrow> bool \<Rightarrow> ssh_srv \<Rightarrow> ssh_srv" where
  "trackListener l add s =
     (if add
      then (let s = (if sv_listeners s = {} \<and> sv_conns s = {} then s\<lparr>sv_doneChan := None\<rparr> else s)
            in s\<lparr>sv_listeners := insert l (sv_listeners s), sv_listenerWg := sv_listenerWg s + 1\<rparr>)
      else s\<lparr>sv_listeners := sv_listeners s - {l}, sv_listenerWg := sv_listenerWg s - 1\<rparr>)"

definition trackConn :: "nat \<Rightarrow> bool \<Rightarrow> ssh_srv \<Rightarrow> ssh_srv" where
  "trackConn c add s =
     (if add then s\<lparr>sv_conns := insert c (sv_conns s), sv_connWg := sv_connWg s + 1\<rparr>
      else s\<lparr>sv_conns := sv_conns s - {c}, sv_connWg := sv_connWg s - 1\<rparr>)"

definition srv_Close :: "ssh_srv \<Rightarrow> ssh_srv" where
  "srv_Close s = (let s = closeListeners (closeDoneChan s) in s\<lparr>sv_cut := sv_cut s \<union> sv_conns s, sv_conns := {}\<rparr>)"

definition srv_Shutdown :: "ssh_srv \<Rightarrow> ssh_srv" where
  "srv_Shutdown s = (closeDoneChan (closeListeners s))\<lparr>sv_waiter := WaitListeners\<rparr>"

text \<open>The end of \<open>Serve\<close> after a failed accept: the result, and the deferred calls.\<close>

definition accept_fails :: "nat \<Rightarrow> ssh_srv \<Rightarrow> ssh_srv" where
  "accept_fails l s =
     (let s = getDoneChan s;
          r = (if sv_doneChan s = Some True then ServerClosed else AcceptError);
          s = trackListener l False s
      in s\<lparr>sv_accepting := sv_accepting s - {l}, sv_closed := insert l (sv_closed s), sv_returned := (l, r) # sv_returned s\<rparr>)"

definition serve_starts :: "nat \<Rightarrow> ssh_srv \<Rightarrow> ssh_srv" where
  "serve_starts l s = (let s = trackListener l True s in s\<lparr>sv_accepting := insert l (sv_accepting s)\<rparr>)"

definition conn_moves :: "nat \<Rightarrow> conn_phase \<Rightarrow> ssh_srv \<Rightarrow> ssh_srv" where
  "conn_moves c p s = s\<lparr>sv_phase := (sv_phase s)(c := p)\<rparr>"

datatype srv_event =
    ServeStart nat
  | Accept nat nat
  | AcceptFail nat
  | HandshakeOk nat
  | HandshakeFail nat
  | ConnEnd nat
  | CloseCall
  | ShutdownCall
  | ListenersDone
  | ConnsDone

text \<open>An accept loop that waits after a temporary error does not change the state and has no step.\<close>

inductive srv_step :: "ssh_srv \<Rightarrow> srv_event \<Rightarrow> ssh_srv \<Rightarrow> bool" where
  start: "l \<notin> sv_accepting s \<Longrightarrow> l \<notin> sv_closed s \<Longrightarrow> srv_step s (ServeStart l) (serve_starts l s)"
| accept: "l \<in> sv_accepting s \<Longrightarrow> l \<notin> sv_closed s \<Longrightarrow> sv_phase s c = Unknown \<Longrightarrow>
    srv_step s (Accept l c) (conn_moves c Handshaking s)"
| accept_fail: "l \<in> sv_accepting s \<Longrightarrow> srv_step s (AcceptFail l) (accept_fails l s)"
| handshake: "sv_phase s c = Handshaking \<Longrightarrow> srv_step s (HandshakeOk c) (conn_moves c Serving (trackConn c True s))"
| handshake_fail: "sv_phase s c = Handshaking \<Longrightarrow> srv_step s (HandshakeFail c) (conn_moves c Ended s)"
| conn_end: "sv_phase s c = Serving \<Longrightarrow> srv_step s (ConnEnd c) (conn_moves c Ended (trackConn c False s))"
| close: "srv_step s CloseCall (srv_Close s)"
| shutdown: "sv_waiter s \<in> {Idle, Finished} \<Longrightarrow> srv_step s ShutdownCall (srv_Shutdown s)"
| listeners_done: "sv_waiter s = WaitListeners \<Longrightarrow> sv_listenerWg s = 0 \<Longrightarrow> srv_step s ListenersDone (s\<lparr>sv_waiter := WaitConns\<rparr>)"
| conns_done: "sv_waiter s = WaitConns \<Longrightarrow> sv_connWg s = 0 \<Longrightarrow> srv_step s ConnsDone (s\<lparr>sv_waiter := Finished\<rparr>)"

inductive srv_steps :: "ssh_srv \<Rightarrow> srv_event list \<Rightarrow> ssh_srv \<Rightarrow> bool" where
  nil: "srv_steps s [] s"
| snoc: "srv_steps s es s' \<Longrightarrow> srv_step s' e s'' \<Longrightarrow> srv_steps s (es @ [e]) s''"

definition srv_reachable :: "ssh_srv \<Rightarrow> bool" where
  "srv_reachable s \<longleftrightarrow> (\<exists>es. srv_steps new_srv es s)"

section \<open>Lemmas\<close>

inductive_cases srv_step_cases: "srv_step s e s'"

inductive_simps srv_step_simps:
  "srv_step s (ServeStart l) s'" "srv_step s (Accept l c) s'" "srv_step s (AcceptFail l) s'" "srv_step s (HandshakeOk c) s'"
  "srv_step s (ConnEnd c) s'" "srv_step s ShutdownCall s'" "srv_step s ListenersDone s'" "srv_step s ConnsDone s'"

lemmas srv_defs = getDoneChan_def closeDoneChan_def closeListeners_def trackListener_def trackConn_def srv_Close_def
  srv_Shutdown_def accept_fails_def serve_starts_def conn_moves_def Let_def

text \<open>The wait groups count the accept loops and the connections that are served; what is tracked is in use.\<close>

definition srv_inv :: "ssh_srv \<Rightarrow> bool" where
  "srv_inv s \<longleftrightarrow>
     finite (sv_accepting s) \<and> sv_listenerWg s = card (sv_accepting s) \<and> sv_listeners s \<subseteq> sv_accepting s - sv_closed s \<and>
     finite {c. sv_phase s c = Serving} \<and> sv_connWg s = card {c. sv_phase s c = Serving} \<and>
     sv_conns s \<subseteq> {c. sv_phase s c = Serving}"

lemma serving_update:
  "{d. (if d = c then p else f d) = Serving} = (if p = Serving then insert c {d. f d = Serving} else {d. f d = Serving} - {c})"
  by auto

lemma srv_inv_new: "srv_inv new_srv"
  by (simp add: srv_inv_def new_srv_def)

lemma srv_inv_step: "srv_step s e s' \<Longrightarrow> srv_inv s \<Longrightarrow> srv_inv s'"
proof (induction rule: srv_step.induct)
  case (handshake s c)
  then show ?case by (auto simp: srv_inv_def srv_defs serving_update card_insert_if)
next
  case (handshake_fail s c)
  then have "{d. sv_phase s d = Serving} - {c} = {d. sv_phase s d = Serving}" by auto
  with handshake_fail show ?case by (auto simp: srv_inv_def srv_defs serving_update)
next
  case (accept l s c)
  then have "{d. sv_phase s d = Serving} - {c} = {d. sv_phase s d = Serving}" by auto
  with accept show ?case by (auto simp: srv_inv_def srv_defs serving_update)
qed (auto simp: srv_inv_def srv_defs serving_update card_insert_if card_Diff_singleton)

lemma srv_inv_steps: "srv_steps s es s' \<Longrightarrow> srv_inv s \<Longrightarrow> srv_inv s'"
  by (induction rule: srv_steps.induct) (auto intro: srv_inv_step)

lemma srv_reachable_inv: "srv_reachable s \<Longrightarrow> srv_inv s"
  using srv_inv_steps srv_inv_new by (auto simp: srv_reachable_def)

subsection \<open>Runs\<close>

lemma srv_steps_one: "srv_step s e s' \<Longrightarrow> srv_steps s [e] s'"
  using srv_steps.snoc [OF srv_steps.nil, of s e s'] by simp

lemma srv_steps_append: "srv_steps s' es' s'' \<Longrightarrow> srv_steps s es s' \<Longrightarrow> srv_steps s (es @ es') s''"
proof (induction s' es' s'' rule: srv_steps.induct)
  case (snoc s' es' t e t')
  then show ?case using srv_steps.snoc [of s "es @ es'" t e t'] by simp
qed simp

lemma srv_steps_Cons: "srv_step s e s' \<Longrightarrow> srv_steps s' es s'' \<Longrightarrow> srv_steps s (e # es) s''"
  using srv_steps_append [of s' es s'' s "[e]"] srv_steps_one by simp

lemma reachable_steps: "srv_reachable s \<Longrightarrow> srv_steps s es s' \<Longrightarrow> srv_reachable s'"
  unfolding srv_reachable_def using srv_steps_append by blast

text \<open>A connection that is served stays so or has ended, and what is closed stays closed.\<close>

lemma phase_step:
  "srv_step s e s' \<Longrightarrow> sv_phase s c \<in> {Serving, Ended} \<Longrightarrow> sv_phase s' c \<in> {Serving, Ended}"
  by (induction rule: srv_step.induct) (auto simp: srv_defs)

lemma phase_steps:
  "srv_steps s es s' \<Longrightarrow> sv_phase s c \<in> {Serving, Ended} \<Longrightarrow> sv_phase s' c \<in> {Serving, Ended}"
  by (induction rule: srv_steps.induct) (use phase_step in blast)+

lemma closed_step: "srv_step s e s' \<Longrightarrow> sv_closed s \<subseteq> sv_closed s'"
  by (induction rule: srv_step.induct) (auto simp: srv_defs)

lemma closed_steps: "srv_steps s es s' \<Longrightarrow> sv_closed s \<subseteq> sv_closed s'"
  by (induction rule: srv_steps.induct) (use closed_step in blast)+

text \<open>The loops \<open>L\<close> that accept when \<open>Shutdown\<close> is called: none is left when it has waited for the listeners.\<close>

definition loops_left :: "nat set \<Rightarrow> ssh_srv \<Rightarrow> bool" where
  "loops_left L s \<longleftrightarrow>
     L \<subseteq> sv_accepting s \<union> sv_closed s \<and> (sv_waiter s = WaitListeners \<or> sv_waiter s \<noteq> Idle \<and> L \<inter> sv_accepting s = {})"

lemma loops_left_step: "srv_step s e s' \<Longrightarrow> srv_inv s \<Longrightarrow> loops_left L s \<Longrightarrow> loops_left L s'"
  by (induction rule: srv_step.induct) (auto simp: loops_left_def srv_inv_def srv_defs)

lemma loops_left_steps: "srv_steps s es s' \<Longrightarrow> srv_inv s \<Longrightarrow> loops_left L s \<Longrightarrow> loops_left L s'"
  by (induction rule: srv_steps.induct) (use loops_left_step srv_inv_steps in blast)+

text \<open>
  C21. A graceful shutdown waits: when \<open>Shutdown\<close> has returned without its context having expired, every
  accept loop that ran when it was called has returned and its listener is closed, every connection that was
  served has ended, and at that moment none is served.
\<close>

theorem shutdown_drains:
  assumes "srv_reachable s" "srv_step s ShutdownCall s1" "srv_steps s1 es s2" "srv_step s2 ConnsDone s3"
  shows "sv_accepting s \<inter> sv_accepting s3 = {} \<and> sv_accepting s \<subseteq> sv_closed s3 \<and>
    {c. sv_phase s c = Serving} \<subseteq> {c. sv_phase s3 c = Ended} \<and> {c. sv_phase s3 c = Serving} = {}"
proof -
  have i1: "srv_inv s1" using srv_inv_step [OF assms(2) srv_reachable_inv [OF assms(1)]] .
  then have i2: "srv_inv s2" by (rule srv_inv_steps [OF assms(3)])
  have d: "sv_waiter s2 = WaitConns" "sv_connWg s2 = 0" "s3 = s2\<lparr>sv_waiter := Finished\<rparr>"
    using assms(4) by (simp_all add: srv_step_simps)
  have "loops_left (sv_accepting s) s1" using assms(2) by (auto simp: srv_step_simps loops_left_def srv_defs)
  from loops_left_steps [OF assms(3) i1 this] have l: "sv_accepting s \<inter> sv_accepting s2 = {}" "sv_accepting s \<subseteq> sv_closed s2"
    using d(1) by (auto simp: loops_left_def)
  have none: "{c. sv_phase s2 c = Serving} = {}" using i2 d(2) unfolding srv_inv_def by (metis card_0_eq)
  have "sv_phase s1 = sv_phase s" using assms(2) by (auto simp: srv_step_simps srv_defs)
  then have "sv_phase s2 c = Ended" if "sv_phase s c = Serving" for c
    using phase_steps [OF assms(3), of c] none that by auto
  then show ?thesis using l none by (auto simp: d(3))
qed

subsection \<open>Completion\<close>

definition finishing :: "srv_event \<Rightarrow> bool" where
  "finishing e \<longleftrightarrow> (case e of AcceptFail _ \<Rightarrow> True | ConnEnd _ \<Rightarrow> True | ListenersDone \<Rightarrow> True | ConnsDone \<Rightarrow> True | _ \<Rightarrow> False)"

lemma drain_loops:
  assumes "srv_inv s"
  shows "\<exists>es s'. srv_steps s es s' \<and> list_all finishing es \<and> sv_accepting s' = {} \<and> sv_phase s' = sv_phase s \<and> sv_waiter s' = sv_waiter s"
  using assms
proof (induction "card (sv_accepting s)" arbitrary: s)
  case 0
  then have "sv_accepting s = {}" by (simp add: srv_inv_def)
  then show ?case using srv_steps.nil [of s] by (intro exI [of _ "[]"] exI [of _ s]) simp
next
  case (Suc n)
  then obtain l where l: "l \<in> sv_accepting s" by (metis card.empty all_not_in_conv nat.distinct(1))
  let ?t = "accept_fails l s"
  have st: "srv_step s (AcceptFail l) ?t" using l by (rule srv_step.accept_fail)
  have "sv_accepting ?t = sv_accepting s - {l}" "sv_phase ?t = sv_phase s" "sv_waiter ?t = sv_waiter s" by (simp_all add: srv_defs)
  moreover have "n = card (sv_accepting s - {l})" using Suc.hyps(2) l by simp
  ultimately obtain es s' where "srv_steps ?t es s'" "list_all finishing es" "sv_accepting s' = {}" "sv_phase s' = sv_phase s"
    "sv_waiter s' = sv_waiter s"
    using Suc.hyps(1) [of ?t] srv_inv_step [OF st Suc.prems] by metis
  then show ?case using srv_steps_Cons [OF st] by (intro exI [of _ "AcceptFail l # es"] exI [of _ s']) (simp add: finishing_def)
qed

lemma drain_conns:
  assumes "srv_inv s"
  shows "\<exists>es s'. srv_steps s es s' \<and> list_all finishing es \<and> sv_connWg s' = 0 \<and> sv_waiter s' = sv_waiter s \<and>
    (\<forall>c. sv_phase s c = Handshaking \<longrightarrow> sv_phase s' c = Handshaking)"
  using assms
proof (induction "sv_connWg s" arbitrary: s)
  case 0
  then show ?case using srv_steps.nil [of s] by (intro exI [of _ "[]"] exI [of _ s]) simp
next
  case (Suc n)
  then have "card {c. sv_phase s c = Serving} \<noteq> 0" unfolding srv_inv_def by (metis nat.distinct(1))
  then have "{c. sv_phase s c = Serving} \<noteq> {}" by (intro notI) simp
  then obtain c where c: "sv_phase s c = Serving" by blast
  let ?t = "conn_moves c Ended (trackConn c False s)"
  have st: "srv_step s (ConnEnd c) ?t" using c by (rule srv_step.conn_end)
  have "n = sv_connWg ?t" "sv_waiter ?t = sv_waiter s" "\<And>d. sv_phase s d = Handshaking \<Longrightarrow> sv_phase ?t d = Handshaking"
    using Suc.hyps(2) c by (auto simp: srv_defs)
  then obtain es s' where "srv_steps ?t es s'" "list_all finishing es" "sv_connWg s' = 0" "sv_waiter s' = sv_waiter s"
    "\<forall>d. sv_phase s d = Handshaking \<longrightarrow> sv_phase s' d = Handshaking"
    using Suc.hyps(1) [of ?t] srv_inv_step [OF st Suc.prems] by metis
  then show ?case using srv_steps_Cons [OF st] by (intro exI [of _ "ConnEnd c # es"] exI [of _ s']) (simp add: finishing_def)
qed

lemma shutdown_completes:
  assumes "srv_reachable s" "sv_waiter s \<in> {Idle, Finished}"
  shows "\<exists>es s'. srv_steps s (ShutdownCall # es) s' \<and> list_all finishing es \<and> sv_waiter s' = Finished \<and>
    (\<forall>c. sv_phase s c = Handshaking \<longrightarrow> sv_phase s' c = Handshaking)"
proof -
  let ?s1 = "srv_Shutdown s"
  have st: "srv_step s ShutdownCall ?s1" using assms(2) by (rule srv_step.shutdown)
  have i1: "srv_inv ?s1" using srv_inv_step [OF st srv_reachable_inv [OF assms(1)]] .
  have w1: "sv_waiter ?s1 = WaitListeners" "sv_phase ?s1 = sv_phase s" by (simp_all add: srv_defs)
  obtain es2 s2 where s2: "srv_steps ?s1 es2 s2" "list_all finishing es2" "sv_accepting s2 = {}" "sv_phase s2 = sv_phase s" "sv_waiter s2 = WaitListeners"
    using drain_loops [OF i1] w1 by auto
  let ?s3 = "s2\<lparr>sv_waiter := WaitConns\<rparr>"
  have i2: "srv_inv s2" by (rule srv_inv_steps [OF s2(1) i1])
  then have st3: "srv_step s2 ListenersDone ?s3" using s2 by (intro srv_step.listeners_done) (simp_all add: srv_inv_def)
  obtain es4 s4 where s4: "srv_steps ?s3 es4 s4" "list_all finishing es4" "sv_connWg s4 = 0" "sv_waiter s4 = WaitConns"
    "\<And>c. sv_phase s c = Handshaking \<Longrightarrow> sv_phase s4 c = Handshaking"
    using drain_conns [OF srv_inv_step [OF st3 i2]] s2(4) by auto
  have st5: "srv_step s4 ConnsDone (s4\<lparr>sv_waiter := Finished\<rparr>)" using s4 by (intro srv_step.conns_done)
  have "srv_steps s (ShutdownCall # es2 @ ListenersDone # es4 @ [ConnsDone]) (s4\<lparr>sv_waiter := Finished\<rparr>)"
    by (intro srv_steps_Cons [OF st] srv_steps_append [OF _ s2(1)] srv_steps_Cons [OF st3] srv_steps_append [OF srv_steps_one [OF st5] s4(1)])
  moreover have "list_all finishing (es2 @ ListenersDone # es4 @ [ConnsDone])" using s2 s4 by (simp add: finishing_def)
  ultimately show ?thesis using s4(5) by (intro exI [of _ "es2 @ ListenersDone # es4 @ [ConnsDone]"] exI [of _ "s4\<lparr>sv_waiter := Finished\<rparr>"]) simp
qed

text \<open>
  A shutdown can always complete: from every reachable state the call needs nothing but that the accept loops
  see their closed listeners and the served connections end; no connection in its handshake has to end.
\<close>

theorem shutdown_can_finish:
  assumes "srv_reachable s" "sv_waiter s \<in> {Idle, Finished}"
  shows "\<exists>es s'. srv_steps s (ShutdownCall # es) s' \<and> list_all finishing es \<and> sv_waiter s' = Finished"
  using shutdown_completes [OF assms] by blast

text \<open>
  A shutdown misses connections in their handshake: they are tracked only after it, so that
  \<open>Shutdown\<close> returns without an error while they go on, and such a connection is served afterwards.
\<close>

theorem shutdown_misses_handshake:
  assumes "srv_reachable s" "sv_waiter s \<in> {Idle, Finished}" "sv_phase s c = Handshaking"
  shows "\<exists>es s'. srv_steps s (ShutdownCall # es @ [HandshakeOk c]) s' \<and> list_all finishing es \<and> sv_waiter s' = Finished \<and>
    sv_phase s' c = Serving"
proof -
  obtain es s' where s': "srv_steps s (ShutdownCall # es) s'" "list_all finishing es" "sv_waiter s' = Finished" "sv_phase s' c = Handshaking"
    using shutdown_completes [OF assms(1,2)] assms(3) by blast
  have "srv_steps s ((ShutdownCall # es) @ [HandshakeOk c]) (conn_moves c Serving (trackConn c True s'))"
    using s'(1) srv_step.handshake [of s' c, OF s'(4)] by (rule srv_steps.snoc)
  then show ?thesis using s' by (intro exI [of _ es] exI [of _ "conn_moves c Serving (trackConn c True s')"]) (simp add: srv_defs)
qed

text \<open>
  The result of \<open>Serve\<close>: after \<open>Shutdown\<close> or \<open>Close\<close> it is that the server was closed as long as no other
  listener was given to the server; a server that is used again too early forgets that it was closed.
\<close>

lemma done_stays:
  "srv_step s e s' \<Longrightarrow> sv_doneChan s = Some True \<Longrightarrow> (\<And>l. e \<noteq> ServeStart l) \<Longrightarrow> sv_doneChan s' = Some True"
  by (induction rule: srv_step.induct) (auto simp: srv_defs)

lemma serve_result:
  "sv_doneChan s = Some True \<Longrightarrow> sv_returned (accept_fails l s) = (l, ServerClosed) # sv_returned s"
  "sv_doneChan (srv_Shutdown s) = Some True" "sv_doneChan (srv_Close s) = Some True"
  "sv_listeners s = {} \<Longrightarrow> sv_conns s = {} \<Longrightarrow>
   sv_returned (accept_fails l (serve_starts l' s)) = (l, AcceptError) # sv_returned s"
  by (auto simp: srv_defs)
subsection \<open>Keys and handlers\<close>

text \<open>
  The host keys are a map from algorithms: adding a key replaces the one of its algorithm in its place or
  comes last, changes no other, and never leaves two keys of one algorithm.
\<close>

theorem host_keys_refine:
  "map_of (map (\<lambda>k. (kty k, k)) (AddHostKey kty key ks)) = (map_of (map (\<lambda>k. (kty k, k)) ks))(kty key \<mapsto> key) \<and>
   distinct (map kty (AddHostKey kty key ks)) = distinct (map kty ks) \<and>
   map kty (AddHostKey kty key ks) = map kty ks @ (if kty key \<in> kty ` set ks then [] else [kty key])"
  by (induction ks) (auto simp: fun_eq_iff)

text \<open>
  The server that \<open>setupServer\<close> makes handles sessions and direct connections and rejects every other
  channel; a subsystem that it does not know goes to the handler that says so.
\<close>

lemma setup_channels:
  assumes "setupServer lookup files read parse c = (c', ss)"
  shows "handle_channels (ss_Channels ss) types =
    map (\<lambda>t. if t = ''session'' then Handled SessionChannel else if t = ''direct-tcpip'' then Handled DirectTcpipChannel
             else Rejected ''unsupported channel type'') types"
    and "pick_handler (ss_Subsystems ss) t = Some (if t = ''sftp'' then SftpSubsystem else DefaultSubsystem)"
  using assms by (auto simp: setupServer_def handle_channels_def pick_handler_def)

text \<open>Every request gets one reply, in order.\<close>

lemma handleRequests_replies: "handleRequests hs reqs s = (s', rs) \<Longrightarrow> length rs = length reqs"
  by (induction hs reqs s arbitrary: s' rs rule: handleRequests.induct) (auto split: prod.splits option.splits)

text \<open>After the handshake its deadline no longer counts.\<close>

lemma handshake_deadline:
  "conn_deadline now (after_handshake (new_conn t 0 0 h)) = None"
  "h > 0 \<Longrightarrow> conn_deadline now (new_conn t 0 0 h) = Some (t + h)"
  by (simp_all add: conn_deadline_def after_handshake_def new_conn_def updateDeadline_def)

text \<open>One listener, one served connection and one in its handshake.\<close>

definition busy :: ssh_srv where
  "busy = conn_moves 1 Handshaking (conn_moves 0 Serving (trackConn 0 True (conn_moves 0 Handshaking (serve_starts 0 new_srv))))"

lemma busy_reachable: "srv_reachable busy"
proof -
  let ?a = "serve_starts 0 new_srv"
  let ?b = "conn_moves 0 Handshaking ?a"
  let ?c = "conn_moves 0 Serving (trackConn 0 True ?b)"
  have a: "srv_step new_srv (ServeStart 0) ?a" by (rule srv_step.start) (simp_all add: new_srv_def)
  have b: "srv_step ?a (Accept 0 0) ?b" by (rule srv_step.accept) (simp_all add: new_srv_def srv_defs)
  have c: "srv_step ?b (HandshakeOk 0) ?c" by (rule srv_step.handshake) (simp add: srv_defs)
  have "srv_step ?c (Accept 0 1) busy" unfolding busy_def by (rule srv_step.accept) (simp_all add: new_srv_def srv_defs)
  from srv_steps_Cons [OF a srv_steps_Cons [OF b srv_steps_Cons [OF c srv_steps_one [OF this]]]]
  show ?thesis unfolding srv_reachable_def by blast
qed

lemma busy_facts: "sv_waiter busy = Idle" "sv_phase busy 0 = Serving" "sv_phase busy 1 = Handshaking" "sv_accepting busy = {0}"
  by (simp_all add: busy_def new_srv_def srv_defs)

theorem shutdown_can_finish_witness:
  "\<exists>es s'. srv_steps busy (ShutdownCall # es) s' \<and> list_all finishing es \<and> sv_waiter s' = Finished"
  by (rule shutdown_can_finish) (simp_all add: busy_reachable busy_facts)

theorem shutdown_misses_handshake_witness:
  "\<exists>es s'. srv_steps busy (ShutdownCall # es @ [HandshakeOk 1]) s' \<and> list_all finishing es \<and> sv_waiter s' = Finished \<and>
    sv_phase s' 1 = Serving"
  by (rule shutdown_misses_handshake [OF busy_reachable _ busy_facts(3)]) (simp add: busy_facts)

theorem shutdown_drains_witness:
  "\<exists>s1 es s2 s3. srv_step busy ShutdownCall s1 \<and> srv_steps s1 es s2 \<and> srv_step s2 ConnsDone s3 \<and>
    0 \<in> sv_closed s3 \<and> sv_phase s3 0 = Ended"
proof -
  let ?s1 = "srv_Shutdown busy"
  let ?s2 = "accept_fails 0 ?s1"
  let ?s3 = "conn_moves 0 Ended (trackConn 0 False ?s2)"
  let ?s4 = "?s3\<lparr>sv_waiter := WaitConns\<rparr>"
  have st: "srv_step busy ShutdownCall ?s1" by (rule srv_step.shutdown) (simp add: busy_facts)
  have a: "srv_step ?s1 (AcceptFail 0) ?s2" by (rule srv_step.accept_fail) (simp add: busy_facts srv_defs)
  have b: "srv_step ?s2 (ConnEnd 0) ?s3" by (rule srv_step.conn_end) (simp add: busy_facts srv_defs)
  have c: "srv_step ?s3 ListenersDone ?s4" by (rule srv_step.listeners_done) (simp_all add: busy_def new_srv_def srv_defs)
  have d: "srv_step ?s4 ConnsDone (?s4\<lparr>sv_waiter := Finished\<rparr>)" by (rule srv_step.conns_done) (simp_all add: busy_def new_srv_def srv_defs)
  have r: "srv_steps ?s1 [AcceptFail 0, ConnEnd 0, ListenersDone] ?s4"
    by (intro srv_steps_Cons [OF a] srv_steps_Cons [OF b] srv_steps_one [OF c])
  from shutdown_drains [OF busy_reachable st r d] have "0 \<in> sv_closed (?s4\<lparr>sv_waiter := Finished\<rparr>)" "sv_phase (?s4\<lparr>sv_waiter := Finished\<rparr>) 0 = Ended"
    using busy_facts by auto
  then show ?thesis using st r d by blast
qed

end
