(* ===== verification/Go_Sort.thy ===== *)
theory Go_Sort
  imports Go_Base "HOL-Library.Multiset"
begin

text \<open>
  What the code relies on when it sorts with \<open>sort.Slice\<close> or \<open>sort.Sort\<close>: a permutation that is sorted when
  the comparison is a strict weak order, and nothing about the order of equal elements. The algorithm for
  short slices, an insertion sort, is an instance.
\<close>

section \<open>The interface\<close>

definition strict_weak :: "('a \<Rightarrow> 'a \<Rightarrow> bool) \<Rightarrow> bool" where
  "strict_weak lt \<longleftrightarrow>
     (\<forall>a. \<not> lt a a) \<and> (\<forall>a b c. lt a b \<longrightarrow> lt b c \<longrightarrow> lt a c) \<and>
     (\<forall>a b c. \<not> lt a b \<longrightarrow> \<not> lt b c \<longrightarrow> \<not> lt a c)"

lemma strict_weak_key: "strict_weak (\<lambda>a b. key a < (key b :: 'k :: linorder))"
  by (auto simp: strict_weak_def)

locale slice_sort =
  fixes srt :: "('a \<Rightarrow> 'a \<Rightarrow> bool) \<Rightarrow> 'a list \<Rightarrow> 'a list"
  assumes mset_srt: "mset (srt lt xs) = mset xs"
    and sorted_srt: "strict_weak lt \<Longrightarrow> sorted_wrt (\<lambda>a b. \<not> lt b a) (srt lt xs)"
begin

lemma set_srt [simp]: "set (srt lt xs) = set xs"
  by (metis mset_srt set_mset_mset)

lemma length_srt [simp]: "length (srt lt xs) = length xs"
  by (metis mset_srt size_mset)

text \<open>A comparison of keys: the keys come out sorted, whatever the order of the elements was.\<close>

lemma sorted_keys: "sorted (map key (srt (\<lambda>a b. key a < (key b :: 'k :: linorder)) xs))"
  using sorted_srt [OF strict_weak_key, of key xs] by (auto simp: sorted_wrt_map not_less elim: sorted_wrt_mono_rel [rotated])

lemma keys_canonical:
  fixes key :: "'a \<Rightarrow> 'k :: linorder"
  assumes "mset xs = mset ys"
  shows "map key (srt (\<lambda>a b. key a < key b) xs) = map key (srt (\<lambda>a b. key a < key b) ys)"
proof -
  have s: "sort (map key (srt (\<lambda>a b. key a < key b) zs)) = map key (srt (\<lambda>a b. key a < key b) zs)" for zs
    using sorted_keys [of key zs] by (simp add: sorted_sort_id)
  have "mset (map key (srt (\<lambda>a b. key a < key b) xs)) = mset (map key (srt (\<lambda>a b. key a < key b) ys))"
    by (simp add: mset_srt assms)
  then have "sort (map key (srt (\<lambda>a b. key a < key b) xs)) = sort (map key (srt (\<lambda>a b. key a < key b) ys))"
    by (intro properties_for_sort) simp_all
  then show ?thesis by (simp only: s)
qed

lemma srt_sort_key:
  fixes key :: "'a \<Rightarrow> 'k :: linorder"
  assumes "distinct (map key xs)"
  shows "srt (\<lambda>a b. key a < key b) xs = sort_key key xs"
  using assms sorted_keys [of key xs]
  by (intro sort_key_inj_key_eq [symmetric]) (simp_all add: mset_srt distinct_map)

end

section \<open>Insertion sort\<close>

text \<open>The new element is moved down as long as it is less than its neighbour; the prefix is reversed.\<close>

fun sink :: "('a \<Rightarrow> 'a \<Rightarrow> bool) \<Rightarrow> 'a \<Rightarrow> 'a list \<Rightarrow> 'a list" where
  "sink lt x [] = [x]"
| "sink lt x (y # ys) = (if lt x y then y # sink lt x ys else x # y # ys)"

definition insertion_sort :: "('a \<Rightarrow> 'a \<Rightarrow> bool) \<Rightarrow> 'a list \<Rightarrow> 'a list" where
  "insertion_sort lt xs = rev (fold (sink lt) xs [])"

lemma mset_sink [simp]: "mset (sink lt x ys) = add_mset x (mset ys)"
  by (induction ys) auto

lemma mset_fold_sink: "mset (fold (sink lt) xs ys) = mset xs + mset ys"
  by (induction xs arbitrary: ys) auto

lemma set_sink [simp]: "set (sink lt x ys) = insert x (set ys)"
  by (induction ys) auto

lemma sorted_sink:
  assumes "strict_weak lt" "sorted_wrt (\<lambda>a b. \<not> lt a b) ys"
  shows "sorted_wrt (\<lambda>a b. \<not> lt a b) (sink lt x ys)"
  using assms(2)
proof (induction ys)
  case (Cons y ys)
  show ?case
  proof (cases "lt x y")
    case True
    then have "\<not> lt y x" using assms(1) unfolding strict_weak_def by blast
    then show ?thesis using Cons True by simp
  next
    case False
    have "\<not> lt x z" if "z \<in> set ys" for z
      using False Cons.prems that assms(1) unfolding strict_weak_def by (metis sorted_wrt.simps(2))
    then show ?thesis using Cons.prems False by simp
  qed
qed simp

lemma sorted_fold_sink:
  "strict_weak lt \<Longrightarrow> sorted_wrt (\<lambda>a b. \<not> lt a b) ys \<Longrightarrow> sorted_wrt (\<lambda>a b. \<not> lt a b) (fold (sink lt) xs ys)"
  by (induction xs arbitrary: ys) (auto intro: sorted_sink)

interpretation insertion: slice_sort insertion_sort
proof
  fix lt :: "'a \<Rightarrow> 'a \<Rightarrow> bool" and xs
  show "mset (insertion_sort lt xs) = mset xs" by (simp add: insertion_sort_def mset_fold_sink)
  show "sorted_wrt (\<lambda>a b. \<not> lt b a) (insertion_sort lt xs)" if "strict_weak lt"
    using sorted_fold_sink [OF that, of "[]" xs] by (simp add: insertion_sort_def sorted_wrt_rev)
qed

end
