(* ===== verification/Web_Api.thy ===== *)
theory Web_Api
  imports Startup Go_Sort "HOL-Library.Char_ord" "HOL-Library.List_Lexorder" "HOL-Library.Product_Lexorder"
begin

text \<open>
  The HTTP interface: the credentials of \<open>src/server/web.go\<close> and the handlers of \<open>src/server/web-api.go\<close>
  but the one that creates an instance, which the theory \<open>Instance_Create\<close> has. A handler is a function
  from the request and the state of the Incus server to the answer, with the calls that change the
  server where it makes any. The web library, which matches routes and encodes answers, the Incus API and
  the sorting routine are parameters.
\<close>

section \<open>Model\<close>

subsection \<open>Credentials\<close>

text \<open>One pair of the setting; the empty one, one without a colon and one with an empty half are skipped.\<close>

definition credential_pair :: "string \<Rightarrow> (string \<times> string) option" where
  "credential_pair pair =
     (let pair = trim_space pair
      in if pair = [] then None
         else (case cut_char (CHR '':'') pair of
                 None \<Rightarrow> None
               | Some (u, p) \<Rightarrow>
                   (let u = trim_space u; p = trim_space p in if u = [] \<or> p = [] then None else Some (u, p))))"

definition parseWebAuthCredentials :: "string \<Rightarrow> (string, string) mapping" where
  "parseWebAuthCredentials s =
     (if s = [] then Mapping.empty
      else fold (\<lambda>(u, p). Mapping.update u p) (List.map_filter credential_pair (split_char (CHR '','') s)) Mapping.empty)"

definition basicAuthValidator :: "(string, string) mapping \<Rightarrow> string \<Rightarrow> string \<Rightarrow> bool" where
  "basicAuthValidator credentials username password =
     (case Mapping.lookup credentials username of Some expected \<Rightarrow> expected = password | None \<Rightarrow> False)"

text \<open>
  The middleware of the server: \<^const>\<open>None\<close> when no credentials are asked for. A request with the given
  credentials, if any, is then let through.
\<close>

definition web_auth :: "string \<Rightarrow> (string, string) mapping option" where
  "web_auth setting =
     (if setting \<noteq> [] \<and> \<not> Mapping.is_empty (parseWebAuthCredentials setting)
      then Some (parseWebAuthCredentials setting) else None)"

definition web_admits :: "string \<Rightarrow> (string \<times> string) option \<Rightarrow> bool" where
  "web_admits setting given =
     (case web_auth setting of
        None \<Rightarrow> True
      | Some credentials \<Rightarrow> (case given of Some (u, p) \<Rightarrow> basicAuthValidator credentials u p | None \<Rightarrow> False))"

subsection \<open>Routes\<close>

datatype route =
    ConfigRoute
  | InstancesRoute
  | DetailedRoute
  | InstanceRoute
  | ActionRoute
  | ProfilesRoute
  | ImagesRoute
  | ProjectsRoute
  | ExistsRoute
  | CreateRoute
  | TerminalRoute
  | StaticRoute

definition routes :: "(string \<times> string \<times> route) list" where
  "routes =
     [(''GET'', ''/api/config'', ConfigRoute), (''GET'', ''/api/instances'', InstancesRoute),
      (''GET'', ''/api/instances/detailed/list'', DetailedRoute), (''GET'', ''/api/instances/:instance'', InstanceRoute),
      (''POST'', ''/api/instances/:instance/action'', ActionRoute), (''GET'', ''/api/profiles'', ProfilesRoute),
      (''GET'', ''/api/images'', ImagesRoute), (''GET'', ''/api/projects'', ProjectsRoute),
      (''GET'', ''/api/instances/:instance/exists'', ExistsRoute), (''POST'', ''/api/instances'', CreateRoute),
      (''GET'', ''/ws/ssh/:login'', TerminalRoute), (''GET'', ''/*'', StaticRoute)]"

text \<open>The path that the file server gets: the page of the application for a file that does not exist.\<close>

definition static_path :: "(string \<Rightarrow> bool) \<Rightarrow> string \<Rightarrow> string" where
  "static_path file_exists url =
     (let path = (if url = ''/'' then ''/index.html'' else drop 1 url) in if file_exists path then url else ''/'')"

subsection \<open>Answers\<close>

datatype 'a response = Answer nat 'a | ErrorAnswer nat string

record ConfigSettings =
  cs_Master :: bool
  cs_Debug :: bool
  cs_Banner :: bool
  cs_NoAuth :: bool
  cs_InstanceAuth :: bool
  cs_PasswordAuth :: bool
  cs_AllowCreate :: bool
  cs_ChrootSFTP :: bool
  cs_Web :: bool
  cs_Welcome :: bool
  cs_Shell :: string
  cs_Groups :: string
  cs_TermMux :: string
  cs_HealthCheck :: string
  cs_Listen :: string
  cs_WebListen :: string
  cs_Version :: string
  cs_Edition :: string

definition configHandler :: "App \<Rightarrow> Config \<Rightarrow> ConfigSettings response" where
  "configHandler app c =
     Answer 200
       \<lparr>cs_Master = cf_Master c, cs_Debug = cf_Debug c, cs_Banner = cf_Banner c, cs_NoAuth = cf_NoAuth c,
        cs_InstanceAuth = cf_InstanceAuth c, cs_PasswordAuth = cf_PassAuth c, cs_AllowCreate = cf_AllowCreate c,
        cs_ChrootSFTP = cf_ChrootSFTP c, cs_Web = cf_Web c, cs_Welcome = cf_Welcome c, cs_Shell = cf_Shell c,
        cs_Groups = cf_Groups c, cs_TermMux = cf_TermMux c, cs_HealthCheck = cf_HealthCheck c,
        cs_Listen = cf_Listen c, cs_WebListen = cf_WebListen c, cs_Version = app_version app, cs_Edition = ''community''\<rparr>"

text \<open>The parameter of the routes of one instance: its name and the part after the first dot.\<close>

definition instance_param :: "string \<Rightarrow> string \<times> string" where
  "instance_param s =
     (let parts = split_char (CHR ''.'') s in (hd parts, if length parts > 1 then parts ! 1 else ''default''))"

subsection \<open>Addresses\<close>

record net_addr =
  na_Family :: string
  na_Address :: string

record AddressInfo =
  ai_Address :: string
  ai_Interface :: string

text \<open>The networks of an instance in the order in which the loop over the map visits them.\<close>

type_synonym net_map = "(string \<times> net_addr list) list"

definition getInterfacePriority :: "string \<Rightarrow> nat" where
  "getInterfacePriority iface =
     (if iface = ''lo'' \<or> iface = ''lo0'' then 2
      else if length iface \<ge> 2 \<and> (take 2 iface = ''et'' \<or> take 2 iface = ''en'') then 0
      else 1)"

definition isIPv6 :: "string \<Rightarrow> bool" where
  "isIPv6 ip = list_ex (\<lambda>c. c = CHR '':'') ip"

definition collect_addresses :: "net_map \<Rightarrow> AddressInfo list" where
  "collect_addresses nets =
     concat (map (\<lambda>(ifName, addrs).
       map (\<lambda>a. \<lparr>ai_Address = na_Address a, ai_Interface = ifName\<rparr>)
         (filter (\<lambda>a. na_Family a = ''inet'' \<or> na_Family a = ''inet6'') addrs)) nets)"

definition addr_less :: "AddressInfo \<Rightarrow> AddressInfo \<Rightarrow> bool" where
  "addr_less a b =
     (let pa = getInterfacePriority (ai_Interface a); pb = getInterfacePriority (ai_Interface b);
          v4a = (\<not> isIPv6 (ai_Address a)); v4b = (\<not> isIPv6 (ai_Address b))
      in if pa \<noteq> pb then pa < pb else if v4a \<noteq> v4b then v4a else ai_Address a < ai_Address b)"

type_synonym sorter = "(AddressInfo \<Rightarrow> AddressInfo \<Rightarrow> bool) \<Rightarrow> AddressInfo list \<Rightarrow> AddressInfo list"

definition sorted_addresses :: "sorter \<Rightarrow> net_map \<Rightarrow> AddressInfo list" where
  "sorted_addresses srt nets = srt addr_less (collect_addresses nets)"

subsection \<open>The server\<close>

record ApiInstance =
  pi_Name :: string
  pi_Status :: string
  pi_Type :: string
  pi_Architecture :: string
  pi_CreatedAt :: string
  pi_Ephemeral :: bool
  pi_Stateful :: bool
  pi_Location :: string
  pi_Profiles :: "string list"
  pi_Config :: strmap
  pi_Devices :: devmap
  pi_ExpandedConfig :: strmap
  pi_ExpandedDevices :: devmap

record InstanceStatePut =
  isp_Action :: string
  isp_Timeout :: int
  isp_Force :: bool
  isp_Stateful :: bool

record Image =
  im_Fingerprint :: string
  im_Aliases :: "string list"
  im_Architecture :: string
  im_Properties :: strmap
  im_Type :: string

text \<open>An operation is refused at once, fails while it is waited for, or is done.\<close>

datatype op_result = Refused | Failed | Done

text \<open>
  The calls of the Incus client; the project comes first. The networks of a state are all that the handlers use of
  it; an image server gives the targets of its aliases and its images.
\<close>

record 's web_api =
  wa_connected :: bool
  wa_GetProjects :: "'s \<Rightarrow> (string \<times> string) list option"
  wa_GetInstances :: "string \<Rightarrow> 's \<Rightarrow> ApiInstance list option"
  wa_GetInstance :: "string \<Rightarrow> string \<Rightarrow> 's \<Rightarrow> ApiInstance option"
  wa_GetState :: "string \<Rightarrow> string \<Rightarrow> 's \<Rightarrow> net_map option"
  wa_GetMetadata :: "string \<Rightarrow> string \<Rightarrow> 's \<Rightarrow> strmap option option"
  wa_view :: "'s \<Rightarrow> api"
  wa_UpdateState :: "string \<Rightarrow> string \<Rightarrow> InstanceStatePut \<Rightarrow> 's \<Rightarrow> 's \<times> op_result"
  wa_DeleteInstance :: "string \<Rightarrow> string \<Rightarrow> 's \<Rightarrow> 's \<times> op_result"
  wa_GetImages :: "'s \<Rightarrow> Image list option"
  wa_ImageServer :: "string \<Rightarrow> (string list option \<times> (string \<Rightarrow> Image option)) option"

subsection \<open>Instances\<close>

record InstanceInfo =
  ii_Name :: string
  ii_Project :: string
  ii_Status :: string
  ii_Type :: string
  ii_OS :: string
  ii_Addresses :: "AddressInfo list"
  ii_Architecture :: string
  ii_CreatedAt :: string
  ii_Ephemeral :: bool
  ii_Stateful :: bool
  ii_Location :: string
  ii_Profiles :: "string list"
  ii_Config :: strmap
  ii_Devices :: devmap
  ii_ExpandedDevices :: devmap
  ii_ExpandedConfig :: strmap
  ii_State :: "net_map option"
  ii_Metadata :: strmap

definition metadata_of :: "strmap option option \<Rightarrow> strmap" where
  "metadata_of m = (case m of Some (Some properties) \<Rightarrow> properties | _ \<Rightarrow> Mapping.empty)"

text \<open>The name of the system, from the configuration or else looked up through the client, which is in no project.\<close>

definition os_name :: "'s web_api \<Rightarrow> 's \<Rightarrow> string \<Rightarrow> ApiInstance \<Rightarrow> string \<Rightarrow> string" where
  "os_name wa s project i name =
     (let n = (case Mapping.lookup (pi_Config i) ''image.os'' of Some n \<Rightarrow> n | None \<Rightarrow> [])
      in if n \<noteq> [] then n else (case GetOS (wa_view wa s) project name [] of Some n \<Rightarrow> n | None \<Rightarrow> []))"

definition full_info :: "sorter \<Rightarrow> string \<Rightarrow> string \<Rightarrow> ApiInstance \<Rightarrow> net_map \<Rightarrow> strmap \<Rightarrow> InstanceInfo" where
  "full_info srt project os i nets metadata =
     \<lparr>ii_Name = pi_Name i, ii_Project = project, ii_Status = pi_Status i, ii_Type = pi_Type i, ii_OS = os,
      ii_Addresses = sorted_addresses srt nets, ii_Architecture = pi_Architecture i, ii_CreatedAt = pi_CreatedAt i,
      ii_Ephemeral = pi_Ephemeral i, ii_Stateful = pi_Stateful i, ii_Location = pi_Location i, ii_Profiles = pi_Profiles i,
      ii_Config = pi_Config i, ii_Devices = pi_Devices i, ii_ExpandedDevices = pi_ExpandedDevices i,
      ii_ExpandedConfig = pi_ExpandedConfig i, ii_State = Some nets, ii_Metadata = metadata\<rparr>"

definition short_config :: "ApiInstance \<Rightarrow> strmap" where
  "short_config i =
     (case Mapping.lookup (pi_Config i) ''image.type'' of
        Some t \<Rightarrow> Mapping.update ''image.type'' t Mapping.empty | None \<Rightarrow> Mapping.empty)"

definition short_info :: "sorter \<Rightarrow> string \<Rightarrow> string \<Rightarrow> ApiInstance \<Rightarrow> net_map \<Rightarrow> InstanceInfo" where
  "short_info srt project os i nets =
     \<lparr>ii_Name = pi_Name i, ii_Project = project, ii_Status = pi_Status i, ii_Type = pi_Type i, ii_OS = os,
      ii_Addresses = sorted_addresses srt nets, ii_Architecture = [], ii_CreatedAt = [],
      ii_Ephemeral = False, ii_Stateful = False, ii_Location = [], ii_Profiles = [],
      ii_Config = short_config i, ii_Devices = Mapping.empty, ii_ExpandedDevices = Mapping.empty,
      ii_ExpandedConfig = Mapping.empty, ii_State = None, ii_Metadata = Mapping.empty\<rparr>"

definition instanceDetailsHandler :: "sorter \<Rightarrow> 's web_api \<Rightarrow> string \<Rightarrow> 's \<Rightarrow> InstanceInfo response" where
  "instanceDetailsHandler srt wa param s =
     (case instance_param param of (name, project) \<Rightarrow>
        if \<not> wa_connected wa then ErrorAnswer 500 ''Failed to connect to Incus: ''
        else (case wa_GetInstance wa project name s of
                None \<Rightarrow> ErrorAnswer 404 ''Instance not found: ''
              | Some i \<Rightarrow>
                  (case wa_GetState wa project name s of
                     None \<Rightarrow> ErrorAnswer 500 ''Failed to get instance state: ''
                   | Some nets \<Rightarrow>
                       Answer 200 (full_info srt project (os_name wa s project i name) i nets
                         (metadata_of (wa_GetMetadata wa project name s))))))"

text \<open>The instances of all projects; a project or an instance that cannot be read is left out.\<close>

definition list_project :: "'s web_api \<Rightarrow> (string \<Rightarrow> ApiInstance \<Rightarrow> net_map \<Rightarrow> InstanceInfo) \<Rightarrow> 's \<Rightarrow> string \<Rightarrow> InstanceInfo list" where
  "list_project wa info s project =
     (case wa_GetInstances wa project s of
        None \<Rightarrow> []
      | Some is \<Rightarrow>
          List.map_filter (\<lambda>i. map_option (info project i) (wa_GetState wa project (pi_Name i) s)) is)"

definition list_instances :: "'s web_api \<Rightarrow> (string \<Rightarrow> ApiInstance \<Rightarrow> net_map \<Rightarrow> InstanceInfo) \<Rightarrow> 's \<Rightarrow> InstanceInfo list response" where
  "list_instances wa info s =
     (if \<not> wa_connected wa then ErrorAnswer 500 ''Failed to connect to Incus: ''
      else (case wa_GetProjects wa s of
              None \<Rightarrow> ErrorAnswer 500 ''Failed to get projects: ''
            | Some ps \<Rightarrow> Answer 200 (concat (map (\<lambda>(project, _). list_project wa info s project) ps))))"

definition listInstancesHandler :: "sorter \<Rightarrow> 's web_api \<Rightarrow> 's \<Rightarrow> InstanceInfo list response" where
  "listInstancesHandler srt wa s =
     list_instances wa (\<lambda>project i nets. short_info srt project (os_name wa s project i (pi_Name i)) i nets) s"

definition listInstancesDetailedHandler :: "sorter \<Rightarrow> 's web_api \<Rightarrow> 's \<Rightarrow> InstanceInfo list response" where
  "listInstancesDetailedHandler srt wa s =
     list_instances wa
       (\<lambda>project i nets. full_info srt project [] i nets (metadata_of (wa_GetMetadata wa project (pi_Name i) s))) s"

subsection \<open>Actions\<close>

record InstanceActionRequest =
  ar_Action :: string
  ar_Force :: bool
  ar_Stateful :: bool
  ar_Delete :: bool

text \<open>What the handler asks of the server.\<close>

datatype web_call = UpdateCall string string InstanceStatePut op_result | DeleteCall string string op_result

definition action_state :: "InstanceActionRequest \<Rightarrow> InstanceStatePut" where
  "action_state req =
     \<lparr>isp_Action = ar_Action req, isp_Timeout = -1, isp_Force = ar_Force req,
      isp_Stateful = (ar_Action req = ''stop'' \<and> ar_Stateful req)\<rparr>"

definition action_delete ::
  "'s web_api \<Rightarrow> string \<Rightarrow> string \<Rightarrow> InstanceActionRequest \<Rightarrow> 's \<Rightarrow> 's \<times> web_call list \<times> string response" where
  "action_delete wa project name req s =
     (if ar_Action req = ''stop'' \<and> ar_Delete req
      then (case wa_DeleteInstance wa project name s of
              (s, Done) \<Rightarrow> (s, [DeleteCall project name Done], Answer 200 (ar_Action req))
            | (s, r) \<Rightarrow> (s, [DeleteCall project name r], ErrorAnswer 500 ''Failed to delete instance: ''))
      else (s, [], Answer 200 (ar_Action req)))"

text \<open>The body is \<^const>\<open>None\<close> when it does not decode.\<close>

definition instanceActionHandler ::
  "'s web_api \<Rightarrow> string \<Rightarrow> InstanceActionRequest option \<Rightarrow> 's \<Rightarrow> 's \<times> web_call list \<times> string response" where
  "instanceActionHandler wa param body s =
     (case instance_param param of (name, project) \<Rightarrow>
        (case body of
           None \<Rightarrow> (s, [], ErrorAnswer 400 ''Invalid request body'')
         | Some req \<Rightarrow>
             if \<not> List.member [''start'', ''stop'', ''restart''] (ar_Action req)
             then (s, [], ErrorAnswer 400 ''Invalid action. Must be start, stop, or restart'')
             else if \<not> wa_connected wa then (s, [], ErrorAnswer 500 ''Failed to connect to Incus: '')
             else (case wa_UpdateState wa project name (action_state req) s of
                     (s, Refused) \<Rightarrow> (s, [UpdateCall project name (action_state req) Refused], ErrorAnswer 500 ''Failed to execute action: '')
                   | (s, Failed) \<Rightarrow> (s, [UpdateCall project name (action_state req) Failed], ErrorAnswer 500 ''Action failed: '')
                   | (s, Done) \<Rightarrow>
                       (case action_delete wa project name req s of
                          (s, calls, r) \<Rightarrow> (s, UpdateCall project name (action_state req) Done # calls, r)))))"

subsection \<open>Profiles, images and projects\<close>

datatype json = JNum int | JStr string

record web_profile =
  wp_name :: string
  wp_image :: "string option"
  wp_memory :: "json option"
  wp_cpu :: "json option"
  wp_disk :: "json option"
  wp_ephemeral :: "bool option"
  wp_config :: "strmap option"
  wp_devices :: "devmap option"

definition default_profile :: "CreateConfig \<Rightarrow> store \<Rightarrow> web_profile" where
  "default_profile cc h =
     (let (h, cfg) = cc_Config cc h; (h, dev) = cc_Devices cc h
      in \<lparr>wp_name = ''default'', wp_image = Some (cc_Image cc), wp_memory = Some (JNum (cc_Memory cc)),
          wp_cpu = Some (JNum (cc_CPU cc)), wp_disk = Some (JNum (cc_Disk cc)), wp_ephemeral = Some (cc_Ephemeral cc),
          wp_config = Some (cfgs h ! cfg), wp_devices = Some (devs h ! dev)\<rparr>)"

definition custom_profile :: "store \<Rightarrow> string \<Rightarrow> InstanceCreateConfig \<Rightarrow> web_profile" where
  "custom_profile h name p =
     \<lparr>wp_name = name, wp_image = icc_Image p, wp_memory = map_option JStr (icc_Memory p),
      wp_cpu = map_option JStr (icc_CPU p), wp_disk = map_option JStr (icc_Disk p), wp_ephemeral = icc_Ephemeral p,
      wp_config = map_option (\<lambda>r. cfgs h ! r) (icc_Config p), wp_devices = map_option (\<lambda>r. devs h ! r) (icc_Devices p)\<rparr>"

text \<open>\<open>names\<close> is the order in which the loop visits the profiles; \<open>home\<close> is the variable HOME.\<close>

definition web_config_paths :: "string \<Rightarrow> string list" where
  "web_config_paths home = [''./'', home @ ''/.config/ssh2incus'', ''/etc/ssh2incus'']"

definition web_profiles :: "(CreateConfig \<Rightarrow> string list) \<Rightarrow> store \<Rightarrow> CreateConfig \<Rightarrow> web_profile list" where
  "web_profiles names h cc =
     default_profile cc h #
     List.map_filter (\<lambda>n. if n = ''default'' then None else map_option (custom_profile h n) (Mapping.lookup (cc_Profiles cc) n))
       (names cc)"

definition profilesHandler ::
  "files \<Rightarrow> (string \<Rightarrow> store \<Rightarrow> (store \<times> CreateConfig) option) \<Rightarrow> (strmap \<Rightarrow> string list) \<Rightarrow>
   (CreateConfig \<Rightarrow> string list) \<Rightarrow> string \<Rightarrow> store \<Rightarrow> web_profile list response" where
  "profilesHandler fs unmarshal order names home h =
     (case LoadCreateConfigWithFallback fs unmarshal order names (web_config_paths home) h of
        (h, Inl e) \<Rightarrow> Answer 200 []
      | (h, Inr cc) \<Rightarrow> Answer 200 (web_profiles names h cc))"

text \<open>\<open>ListImages\<close>: the images of the aliases, each target once; one that cannot be read is left out.\<close>

fun alias_images :: "(string \<Rightarrow> Image option) \<Rightarrow> string list \<Rightarrow> string set \<Rightarrow> Image list" where
  "alias_images get [] seen = []"
| "alias_images get (t # ts) seen =
     (if t \<in> seen then alias_images get ts seen
      else (case get t of
              None \<Rightarrow> alias_images get ts (insert t seen)
            | Some i \<Rightarrow> i # alias_images get ts (insert t seen)))"

definition ListImages :: "'s web_api \<Rightarrow> string \<Rightarrow> Image list option" where
  "ListImages wa remote =
     (case wa_ImageServer wa (if remote = [] then ''images'' else remote) of
        Some (Some aliases, get) \<Rightarrow> Some (alias_images get aliases {})
      | _ \<Rightarrow> None)"

record image_data =
  id_image :: Image
  id_remote :: string

text \<open>
  The map of two remotes: the entry of the query comes second and replaces the local one when it has its name. The loop
  visits the local images first or last.
\<close>

definition image_remotes :: "bool \<Rightarrow> string \<Rightarrow> Image list \<Rightarrow> Image list \<Rightarrow> (string \<times> Image list) list" where
  "image_remotes local_first remote locals remotes =
     (if remote = ''local'' then [(''local'', remotes)]
      else if local_first then [(''local'', locals), (remote, remotes)] else [(remote, remotes), (''local'', locals)])"

definition or_nil :: "'a list option \<Rightarrow> 'a list" where
  "or_nil x = (case x of Some l \<Rightarrow> l | None \<Rightarrow> [])"

definition imagesHandler :: "bool \<Rightarrow> 's web_api \<Rightarrow> string \<Rightarrow> 's \<Rightarrow> image_data list response" where
  "imagesHandler local_first wa query s =
     (let remote = (if query = [] then ''images'' else query)
      in if \<not> wa_connected wa then ErrorAnswer 500 ''Failed to connect to Incus''
         else Answer 200
           (concat (map (\<lambda>(r, is). map (\<lambda>i. \<lparr>id_image = i, id_remote = r\<rparr>) is)
             (image_remotes local_first remote (or_nil (wa_GetImages wa s)) (or_nil (ListImages wa remote))))))"

definition projectsHandler :: "'s web_api \<Rightarrow> 's \<Rightarrow> (string \<times> string) list response" where
  "projectsHandler wa s =
     (if \<not> wa_connected wa then ErrorAnswer 500 ''Failed to connect to Incus''
      else (case wa_GetProjects wa s of None \<Rightarrow> ErrorAnswer 500 ''Failed to list projects: '' | Some ps \<Rightarrow> Answer 200 ps))"

definition instanceExistsHandler :: "('s, 'i) server \<Rightarrow> bool \<Rightarrow> string \<Rightarrow> 's \<Rightarrow> bool response" where
  "instanceExistsHandler sv connected param s =
     (case instance_param param of (name, project) \<Rightarrow>
        if \<not> connected then ErrorAnswer 500 ''Failed to connect to Incus''
        else (case snd (InstanceExists sv name project s []) of
                Inl _ \<Rightarrow> ErrorAnswer 500 ''Failed to check instance: ''
              | Inr b \<Rightarrow> Answer 200 b))"

section \<open>Lemmas\<close>

subsection \<open>Credentials\<close>

text \<open>The pairs of the setting that are well-formed, in their order.\<close>

definition good_pairs :: "string \<Rightarrow> (string \<times> string) list" where
  "good_pairs setting = List.map_filter credential_pair (split_char (CHR '','') setting)"

lemma lookup_fold_update: "Mapping.lookup (fold (\<lambda>(u, p). Mapping.update u p) ps m) u =
   (case map_of (rev ps) u of Some p \<Rightarrow> Some p | None \<Rightarrow> Mapping.lookup m u)"
proof (induction ps arbitrary: m)
  case (Cons x ps)
  then show ?case by (cases x) (simp add: lookup_update' map_add_def split: option.split)
qed simp

lemma good_pairs_empty [simp]: "good_pairs [] = []"
  by (simp add: good_pairs_def List.map_filter_def credential_pair_def trim_space_def)

lemma lookup_credentials: "Mapping.lookup (parseWebAuthCredentials setting) u = map_of (rev (good_pairs setting)) u"
  unfolding parseWebAuthCredentials_def good_pairs_def [symmetric]
  by (simp add: lookup_fold_update split: option.split)

lemma no_credentials: "Mapping.is_empty (parseWebAuthCredentials setting) \<longleftrightarrow> good_pairs setting = []"
proof -
  have "Mapping.is_empty m \<longleftrightarrow> (\<forall>k. Mapping.lookup m k = None)" for m :: "(string, string) mapping"
    by (auto simp: Mapping.is_empty_def keys_dom_lookup dom_def)
  moreover have "(\<forall>k. map_of (rev ps) k = None) \<longleftrightarrow> ps = []" for ps :: "(string \<times> string) list"
    by (cases ps) (auto simp: map_of_eq_None_iff)
  ultimately show ?thesis by (simp add: lookup_credentials)
qed


subsection \<open>Addresses\<close>

text \<open>The order of the addresses as one key: priority of the interface, version, text.\<close>

definition addr_key :: "AddressInfo \<Rightarrow> nat \<times> bool \<times> string" where
  "addr_key a = (getInterfacePriority (ai_Interface a), isIPv6 (ai_Address a), ai_Address a)"

lemma addr_less_key: "addr_less = (\<lambda>a b. addr_key a < addr_key b)"
  by (intro ext) (auto simp: addr_less_def addr_key_def Let_def less_prod_def)

lemma key_address: "ai_Address a = snd (snd (addr_key a))"
  by (simp add: addr_key_def)

lemma mset_collect: "mset nets = mset nets' \<Longrightarrow> mset (collect_addresses nets) = mset (collect_addresses nets')"
  unfolding collect_addresses_def mset_concat map_map by (simp flip: sum_mset_sum_list)

text \<open>
  The addresses of an instance are shown in one order: their texts are those of the internet addresses sorted by
  the priority of the interface, the version and the text, whatever the order in which the networks are visited;
  and when no address occurs twice at one priority the interfaces are determined as well, the list being
  the one that a stable sort by that key gives.
\<close>

theorem addresses_canonical:
  assumes "slice_sort srt" "mset nets = mset nets'"
  shows "map ai_Address (sorted_addresses srt nets) = map (snd \<circ> snd) (sort (map addr_key (collect_addresses nets'))) \<and>
    (distinct (map addr_key (collect_addresses nets)) \<longrightarrow>
       sorted_addresses srt nets = sort_key addr_key (collect_addresses nets'))"
proof -
  have m: "mset (collect_addresses nets) = mset (collect_addresses nets')" by (rule mset_collect [OF assms(2)])
  have "sort (map addr_key (collect_addresses nets')) = map addr_key (sorted_addresses srt nets)"
    unfolding sorted_addresses_def addr_less_key
    using slice_sort.sorted_keys [OF assms(1)] slice_sort.mset_srt [OF assms(1)] m by (intro properties_for_sort) simp_all
  moreover have "sorted_addresses srt nets = sort_key addr_key (collect_addresses nets')"
    if "distinct (map addr_key (collect_addresses nets))"
    unfolding sorted_addresses_def addr_less_key slice_sort.srt_sort_key [OF assms(1) that]
    using that m by (intro sort_key_inj_key_eq) (simp_all add: distinct_map)
  ultimately show ?thesis by (simp add: key_address comp_def)
qed

subsection \<open>Actions\<close>

text \<open>
  An instance is deleted through the web interface only when the request stops it and asks for that, and only after
  the server has stopped it: the stop of the same instance is the first call and was done. The answer is a
  success only when everything that was asked of the server was done.
\<close>

theorem delete_after_stop:
  assumes "instanceActionHandler wa param body s = (s', calls, r)"
  shows "(DeleteCall p n res \<in> set calls \<longrightarrow>
      (\<exists>req. body = Some req \<and> ar_Action req = ''stop'' \<and> ar_Delete req \<and> (n, p) = instance_param param \<and>
        calls = [UpdateCall p n (action_state req) Done, DeleteCall p n res])) \<and>
    ((\<exists>a. r = Answer 200 a) \<longrightarrow> calls \<noteq> [] \<and>
      list_all (\<lambda>c. case c of UpdateCall _ _ _ res \<Rightarrow> res = Done | DeleteCall _ _ res \<Rightarrow> res = Done) calls)"
  using assms
  by (auto simp: instanceActionHandler_def action_delete_def split: prod.splits option.splits if_splits op_result.splits)

subsection \<open>Instances of a project\<close>

lemma split_char_hd: "hd (split_char c s) = takeWhile (\<lambda>x. x \<noteq> c) s"
  by (induction s) (auto split: list.splits)

text \<open>
  The web interface and a login agree on the project of \<open>name.project\<close> exactly when the project is not empty and
  has no dot: the web interface cuts a project at its first dot, a login does not.
\<close>

theorem web_project_agrees:
  assumes "CHR ''.'' \<notin> set name"
  shows "snd (instance_param (name @ CHR ''.'' # project)) = lu_Project (parseInstanceAndProject (name @ CHR ''.'' # project) c) \<longleftrightarrow>
    project \<noteq> [] \<and> CHR ''.'' \<notin> set project"
proof -
  obtain y ys where y: "split_char (CHR ''.'') project = y # ys" by (cases "split_char (CHR ''.'') project") auto
  then have "y = takeWhile (\<lambda>x. x \<noteq> CHR ''.'') project" using split_char_hd [of "CHR ''.''" project] by simp
  moreover have "takeWhile (\<lambda>x. x \<noteq> CHR ''.'') project = project \<longleftrightarrow> CHR ''.'' \<notin> set project" by (auto simp: takeWhile_eq_all_conv)
  moreover have "snd (instance_param (name @ CHR ''.'' # project)) = y"
    using split_char_append [OF assms, of project] y by (simp add: instance_param_def)
  moreover have "lu_Project (parseInstanceAndProject (name @ CHR ''.'' # project) c) = (if project = [] then ''default'' else project)"
    using cut_char_append [OF assms, of project] by (simp add: parseInstanceAndProject_def)
  ultimately show ?thesis by (cases "project = []") simp_all
qed

text \<open>
  The name of the system of an instance is looked up in the default project: without \<open>image.os\<close> in its
  configuration the interface shows for every project what the instance of that name in the default project has.
\<close>

theorem os_of_default_project:
  "os_name wa s project i name = os_name wa s ''default'' i name"
proof -
  have info: "GetOSInfo a p n cur = GetOSInfo a q n cur" for a p q n cur
    unfolding GetOSInfo_def DownloadFile_def Let_def by (simp split: option.split)
  have "GetOS a p n cur = GetOS a q n cur" for a p q n cur
    using info [of a p n cur q] unfolding GetOS_def GuessOSName_def by (simp only:)
  then show ?thesis unfolding os_name_def by metis
qed
subsection \<open>Instances\<close>

definition demo_nets :: net_map where
  "demo_nets =
     [(''lo'', [\<lparr>na_Family = ''inet'', na_Address = ''127.0.0.1''\<rparr>]),
      (''eth0'', [\<lparr>na_Family = ''inet6'', na_Address = ''fd42::1''\<rparr>, \<lparr>na_Family = ''inet'', na_Address = ''10.0.0.2''\<rparr>])]"

theorem addresses_canonical_witness:
  "sorted_addresses insertion_sort demo_nets = sort_key addr_key (collect_addresses (rev demo_nets)) \<and>
   map ai_Address (sorted_addresses insertion_sort demo_nets) = [''10.0.0.2'', ''fd42::1'', ''127.0.0.1'']"
proof
  have "distinct (map addr_key (collect_addresses demo_nets))"
    by (simp add: demo_nets_def collect_addresses_def addr_key_def)
  then show "sorted_addresses insertion_sort demo_nets = sort_key addr_key (collect_addresses (rev demo_nets))"
    using addresses_canonical [OF insertion.slice_sort_axioms, of demo_nets "rev demo_nets"] by simp
  show "map ai_Address (sorted_addresses insertion_sort demo_nets) = [''10.0.0.2'', ''fd42::1'', ''127.0.0.1'']"
    by (simp add: sorted_addresses_def insertion_sort_def demo_nets_def collect_addresses_def addr_less_def
        getInterfacePriority_def isIPv6_def)
qed

text \<open>A server whose state is the instances that run; stopping removes one, deleting what runs fails.\<close>

definition demo_web :: "string list web_api" where
  "demo_web =
     \<lparr>wa_connected = True, wa_GetProjects = (\<lambda>_. None), wa_GetInstances = (\<lambda>_ _. None), wa_GetInstance = (\<lambda>_ _ _. None),
      wa_GetState = (\<lambda>_ _ _. None), wa_GetMetadata = (\<lambda>_ _ _. None), wa_view = (\<lambda>_. demo_api),
      wa_UpdateState = (\<lambda>_ n _ s. (removeAll n s, Done)),
      wa_DeleteInstance = (\<lambda>_ n s. (s, if List.member s n then Refused else Done)),
      wa_GetImages = (\<lambda>_. None), wa_ImageServer = (\<lambda>_. None)\<rparr>"

definition demo_stop :: InstanceActionRequest where
  "demo_stop = \<lparr>ar_Action = ''stop'', ar_Force = False, ar_Stateful = False, ar_Delete = True\<rparr>"

theorem delete_after_stop_witness:
  "\<exists>calls. instanceActionHandler demo_web ''a.p'' (Some demo_stop) [''a''] = ([], calls, Answer 200 ''stop'') \<and>
     calls = [UpdateCall ''p'' ''a'' (action_state demo_stop) Done, DeleteCall ''p'' ''a'' Done]"
proof -
  have h: "instanceActionHandler demo_web ''a.p'' (Some demo_stop) [''a''] =
      ([], [UpdateCall ''p'' ''a'' (action_state demo_stop) Done, DeleteCall ''p'' ''a'' Done], Answer 200 ''stop'')"
    by (simp add: instanceActionHandler_def instance_param_def demo_web_def demo_stop_def action_delete_def)
  from delete_after_stop [OF h, of "''p''" "''a''" Done] h show ?thesis by simp
qed

theorem web_project_agrees_witness:
  "snd (instance_param ''web.b.c'') \<noteq> lu_Project (parseInstanceAndProject ''web.b.c'' empty_core)"
  using web_project_agrees [of "''web''" "''b.c''" empty_core] by simp

end
