(* ===== verification/Web_Terminal.thy ===== *)
theory Web_Terminal
  imports Shell_Handler
begin

text \<open>
  The terminal of the web interface, \<open>src/server/web-websocket.go\<close>: the handler from the request to the
  command in the instance, and the wrapper that separates what is typed from control messages. The
  websocket library is left out, keeping the connection alive and copying data as well; the decoding of a
  control message is a parameter.
\<close>

section \<open>Model\<close>

subsection \<open>The login\<close>

definition unhex :: "char \<Rightarrow> nat option" where
  "unhex c =
     (let n = of_char c :: nat
      in if 48 \<le> n \<and> n \<le> 57 then Some (n - 48)
         else if 97 \<le> n \<and> n \<le> 102 then Some (n - 87)
         else if 65 \<le> n \<and> n \<le> 70 then Some (n - 55) else None)"

text \<open>\<open>url.QueryUnescape\<close>: an escape needs two digits.\<close>

fun query_unescape :: "string \<Rightarrow> string option" where
  "query_unescape [] = Some []"
| "query_unescape (c # s) =
     (if c = CHR ''%''
      then (case s of
              a # b # t \<Rightarrow>
                (case (unhex a, unhex b) of
                   (Some x, Some y) \<Rightarrow> map_option ((#) (char_of (16 * x + y))) (query_unescape t)
                 | _ \<Rightarrow> None)
            | _ \<Rightarrow> None)
      else map_option ((#) (if c = CHR ''+'' then CHR '' '' else c)) (query_unescape s))"

text \<open>A dollar sign in front stands for the percent sign of a persistent session.\<close>

definition ws_login :: "os_env \<Rightarrow> string \<Rightarrow> LoginUser option" where
  "ws_login os param =
     map_option (\<lambda>l. ParseFrom os (case cut_prefix l ''$'' of Some r \<Rightarrow> CHR ''%'' # r | None \<Rightarrow> l) empty_LoginUser)
       (query_unescape param)"

subsection \<open>The handler\<close>

datatype ws_event =
    BadRequest string
  | WsError string
  | FromShell shell_event
  | WsExit int

definition ws_vars :: "InstanceUser \<Rightarrow> strmap" where
  "ws_vars iu =
     Mapping.update ''SHELL'' (iu_Shell iu) (Mapping.update ''HOME'' (iu_Dir iu)
       (Mapping.update ''USER'' (iu_User iu) (Mapping.update ''TERM'' ''xterm-256color'' Mapping.empty)))"

text \<open>
  The context of the handler does not know the SSH server: the client is the one of the configured remote,
  \<open>conn\<close>, whatever the remote of the login is.
\<close>

definition ws_auth :: "('s, 'i, 'k) shell_env \<Rightarrow> api option \<Rightarrow> 'k auth_env" where
  "ws_auth env conn = (sh_auth env)\<lparr>ae_connect := (\<lambda>_. conn)\<rparr>"

text \<open>The command; an unknown multiplexer is reported and then dereferenced.\<close>

definition ws_command ::
  "('s, 'i, 'k) shell_env \<Rightarrow> int \<Rightarrow> LoginUser \<Rightarrow> InstanceUser \<Rightarrow> api \<times> string \<Rightarrow> auth_state \<Rightarrow>
   ws_event list \<times> auth_state \<times> string option" where
  "ws_command env now lu iu cl st =
     (let shell = iu_Shell iu @ '' -l''
      in if \<not> lu_Persistent (lu_core lu) then ([], st, Some shell)
         else (case NewTermMux (sh_TermMux env) (sh_App env) False of
                 None \<Rightarrow> ([WsError ''Failed to create persistent session'', FromShell Panic], st, None)
               | Some t \<Rightarrow>
                   (case checkTermMux now t lu iu (env_list (sh_order env) (ws_vars iu)) cl st of
                      (evs, st, Return _) \<Rightarrow> (map FromShell evs, st, Some (tm_Attach t))
                    | (evs, st, Fail) \<Rightarrow>
                        (map FromShell evs @ [WsError ''Failed to create persistent session: ''], st, Some shell)
                    | (evs, st, Crash) \<Rightarrow> (map FromShell evs @ [FromShell Panic], st, None))))"

text \<open>The window is the one of a resize that arrives early, or 80 by 24.\<close>

definition ws_exec ::
  "('s, 'i, 'k) shell_env \<Rightarrow> LoginUser \<Rightarrow> InstanceUser \<Rightarrow> (int \<times> int) option \<Rightarrow> string \<Rightarrow> InstanceExec" where
  "ws_exec env lu iu early cmd =
     (let w = (case early of Some w \<Rightarrow> w | None \<Rightarrow> (80, 24))
      in \<lparr>ie_Instance = lu_Instance (lu_core lu), ie_Cmd = cmd, ie_Env = env_list (sh_order env) (ws_vars iu),
          ie_IsPty = True, ie_Width = fst w, ie_Height = snd w, ie_User = iu_Uid iu, ie_Group = iu_Gid iu,
          ie_Cwd = iu_Dir iu, ie_has_Stderr = True\<rparr>)"

definition ws_greeting :: "('s, 'i, 'k) shell_env \<Rightarrow> InstanceUser \<Rightarrow> ws_event list" where
  "ws_greeting env iu =
     (let welcome = welcomeHandler (sh_files env) (sh_home env) iu
      in if sh_Welcome env \<and> welcome \<noteq> [] then [FromShell (Printed (CRLF @ welcome @ CRLF @ [CHR 10]))] else [])"

definition ws_run :: "api \<times> string \<Rightarrow> InstanceExec \<Rightarrow> ws_event list" where
  "ws_run cl e =
     FromShell (Ran (snd cl) e) #
     (case Exec (fst cl) (snd cl) e of Return (ret, _, _) \<Rightarrow> [WsExit ret] | _ \<Rightarrow> [FromShell Panic])"

definition ws_session ::
  "('s, 'i, 'k) shell_env \<Rightarrow> int \<Rightarrow> LoginUser \<Rightarrow> (int \<times> int) option \<Rightarrow> InstanceUser \<Rightarrow> auth_state \<Rightarrow> ws_event list \<times> auth_state" where
  "ws_session env now lu early iu st =
     (case as_client st of
        None \<Rightarrow> ([], st)
      | Some cl \<Rightarrow>
          (case ws_command env now lu iu cl st of
             (evs, st, None) \<Rightarrow> (evs, st)
           | (evs, st, Some cmd) \<Rightarrow> (evs @ ws_greeting env iu @ ws_run cl (ws_exec env lu iu early cmd), st)))"

definition ws_valid ::
  "('s, 'i, 'k) shell_env \<Rightarrow> api option \<Rightarrow> int \<Rightarrow> LoginUser \<Rightarrow> (int \<times> int) option \<Rightarrow> auth_state \<Rightarrow> ws_event list \<times> auth_state" where
  "ws_valid env conn now lu early st =
     (case context_client (ws_auth env conn) lu st of
        (None, st) \<Rightarrow> ([WsError ''Failed to connect to Incus''], st)
      | (Some cl, st) \<Rightarrow>
          (case context_instance_user now lu cl st of
             (Return iu, st) \<Rightarrow> ws_session env now lu early iu st
           | (Fail, st) \<Rightarrow> ([WsError (''Instance user '' @ Quote (lu_InstanceUser (lu_core lu)) @ '' not found'')], st)
           | (Crash, st) \<Rightarrow> ([FromShell Panic], st)))"

text \<open>Every request has a context of its own; the caches are those of all connections.\<close>

definition websocketTerminalHandler ::
  "('s, 'i, 'k) shell_env \<Rightarrow> api option \<Rightarrow> int \<Rightarrow> string \<Rightarrow> (int \<times> int) option \<Rightarrow> auth_state \<Rightarrow> ws_event list \<times> auth_state" where
  "websocketTerminalHandler env conn now param early st =
     (case ws_login (ae_os (sh_auth env)) param of
        None \<Rightarrow> ([BadRequest ''Invalid login parameter''], st)
      | Some lu \<Rightarrow>
          (case IsValid (ws_auth env conn) now lu (st\<lparr>as_user := Some lu, as_client := None\<rparr>) of
             (Return True, st) \<Rightarrow> ws_valid env conn now lu early st
           | (Crash, st) \<Rightarrow> ([FromShell Panic], st)
           | (_, st) \<Rightarrow> ([WsError (''Invalid login for '' @ Quote (lu_OrigUser (lu_core lu)))], st)))"

subsection \<open>Reading\<close>

datatype ws_msg = TextMsg string | BinaryMsg string

text \<open>A resize goes into the channel, which holds one; when it is full the new one is dropped.\<close>

definition handle_text :: "(string \<Rightarrow> (int \<times> int) option) \<Rightarrow> string \<Rightarrow> (int \<times> int) list \<Rightarrow> (int \<times> int) list" where
  "handle_text resize t ch = (case resize t of Some w \<Rightarrow> if ch = [] then [w] else ch | None \<Rightarrow> ch)"

text \<open>
  \<open>Read\<close> with a buffer of \<open>n\<close> bytes: the rest of the message that is being read, the messages to come, and the
  channel. \<^const>\<open>None\<close> as the first result is the end of the connection.
\<close>

function ws_read ::
  "(string \<Rightarrow> (int \<times> int) option) \<Rightarrow> nat \<Rightarrow> string option \<Rightarrow> ws_msg list \<Rightarrow> (int \<times> int) list \<Rightarrow>
   string option \<times> string option \<times> ws_msg list \<times> (int \<times> int) list" where
  "ws_read resize n (Some (b # bs)) msgs ch = (Some (take n (b # bs)), Some (drop n (b # bs)), msgs, ch)"
| "ws_read resize n (Some []) msgs ch = ws_read resize n None msgs ch"
| "ws_read resize n None [] ch = (None, None, [], ch)"
| "ws_read resize n None (TextMsg t # msgs) ch = ws_read resize n None msgs (handle_text resize t ch)"
| "ws_read resize n None (BinaryMsg b # msgs) ch = ws_read resize n (Some b) msgs ch"
  by pat_completeness auto
termination
  by (relation "measure (\<lambda>(resize, n, r, msgs, ch). 2 * length msgs + (case r of None \<Rightarrow> 0 | Some _ \<Rightarrow> 1))") auto

text \<open>What a reader with these buffer sizes gets, until the connection ends.\<close>

fun ws_reads ::
  "(string \<Rightarrow> (int \<times> int) option) \<Rightarrow> nat list \<Rightarrow> string option \<Rightarrow> ws_msg list \<Rightarrow> (int \<times> int) list \<Rightarrow> string list" where
  "ws_reads resize [] r msgs ch = []"
| "ws_reads resize (n # ns) r msgs ch =
     (case ws_read resize n r msgs ch of
        (None, _) \<Rightarrow> []
      | (Some d, r, msgs, ch) \<Rightarrow> d # ws_reads resize ns r msgs ch)"

section \<open>Lemmas\<close>

subsection \<open>Reading\<close>

fun binary :: "ws_msg \<Rightarrow> string" where
  "binary (BinaryMsg b) = b"
| "binary (TextMsg t) = []"

definition ws_data :: "string option \<Rightarrow> ws_msg list \<Rightarrow> string" where
  "ws_data r msgs = (case r of Some b \<Rightarrow> b | None \<Rightarrow> []) @ concat (map binary msgs)"

lemma ws_data_simps [simp]:
  "ws_data (Some b) msgs = b @ ws_data None msgs"
  "ws_data None [] = []"
  "ws_data None (TextMsg t # msgs) = ws_data None msgs"
  "ws_data None (BinaryMsg b # msgs) = b @ ws_data None msgs"
  by (simp_all add: ws_data_def)

lemma ws_read_data:
  "ws_read resize n r msgs ch = (d, r', msgs', ch') \<Longrightarrow> n > 0 \<Longrightarrow>
   (case d of None \<Rightarrow> ws_data r msgs = [] | Some d \<Rightarrow> d \<noteq> [] \<and> ws_data r msgs = d @ ws_data r' msgs')"
  by (induction resize n r msgs ch rule: ws_read.induct) (auto split: option.splits)

lemma ws_reads_prefix:
  "list_all (\<lambda>n. n > 0) ns \<Longrightarrow> \<exists>rest. ws_data r msgs = concat (ws_reads resize ns r msgs ch) @ rest \<and>
     (length ns \<ge> length (ws_data r msgs) \<longrightarrow> rest = [])"
proof (induction resize ns r msgs ch rule: ws_reads.induct)
  case (2 resize n ns r msgs ch)
  obtain d r' msgs' ch' where rd: "ws_read resize n r msgs ch = (d, r', msgs', ch')" by (cases "ws_read resize n r msgs ch")
  show ?case
  proof (cases d)
    case None
    then show ?thesis using ws_read_data [OF rd] rd 2(2) by simp
  next
    case (Some x)
    obtain rest where "ws_data r' msgs' = concat (ws_reads resize ns r' msgs' ch') @ rest"
      "length ns \<ge> length (ws_data r' msgs') \<longrightarrow> rest = []"
      using 2(1) [OF rd [symmetric] Some refl refl] 2(2) by auto
    moreover have "x \<noteq> []" "ws_data r msgs = x @ ws_data r' msgs'" using ws_read_data [OF rd] Some 2(2) by auto
    ultimately show ?thesis using rd Some by (cases x) auto
  qed
qed simp
text \<open>
  What is typed reaches the instance: whatever control messages come in between and whatever the sizes of the
  reader's buffers are, what it gets is a prefix of the data of the binary messages in their order, and all
  of it once it has read often enough.
\<close>

theorem typed_data_delivered:
  assumes "list_all (\<lambda>n. n > 0) ns"
  shows "\<exists>rest. concat (map binary msgs) = concat (ws_reads resize ns None msgs ch) @ rest \<and>
    (length ns \<ge> length (concat (map binary msgs)) \<longrightarrow> rest = [])"
  using ws_reads_prefix [OF assms, of None msgs resize ch] by (simp add: ws_data_def)

theorem typed_data_delivered_witness:
  "concat (ws_reads (\<lambda>_. Some (80, 24)) [2, 2, 2, 2] None [BinaryMsg ''abc'', TextMsg ''resize'', BinaryMsg ''d''] []) = ''abcd''"
proof -
  have "list_all (\<lambda>n. n > 0) [2, 2, 2, 2 :: nat]" by simp
  from typed_data_delivered [OF this, of "[BinaryMsg ''abc'', TextMsg ''resize'', BinaryMsg ''d'']" "\<lambda>_. Some (80, 24)" "[]"]
  show ?thesis by auto
qed

text \<open>A resize that finds the channel full is lost, so that the instance keeps the older size.\<close>

lemma resize_dropped:
  "resize t = Some w \<Longrightarrow> resize t' = Some w' \<Longrightarrow> handle_text resize t' (handle_text resize t []) = [w]"
  by (simp add: handle_text_def)

subsection \<open>The terminal\<close>

text \<open>A command of a terminal is run as the user of the instance.\<close>

definition ws_own :: "LoginUser \<Rightarrow> InstanceUser \<Rightarrow> ws_event \<Rightarrow> bool" where
  "ws_own lu iu ev \<longleftrightarrow>
     (case ev of FromShell (Ran p e) \<Rightarrow>
        ie_Instance e = lu_Instance (lu_core lu) \<and> ie_User e = iu_Uid iu \<and> ie_Group e = iu_Gid iu
      | _ \<Rightarrow> True)"

lemma ws_own_shell: "(\<And>p e. ev = Ran p e \<Longrightarrow> ie_Instance e = lu_Instance (lu_core lu) \<and> ie_User e = iu_Uid iu \<and> ie_Group e = iu_Gid iu) \<Longrightarrow>
  ws_own lu iu (FromShell ev)"
  by (cases ev) (auto simp: ws_own_def)

lemma ws_session_own:
  assumes "ws_session env now lu early iu st = (evs, st')"
  shows "list_all (ws_own lu iu) evs"
proof (cases "as_client st")
  case None
  then show ?thesis using assms by (simp add: ws_session_def)
next
  case (Some cl)
  obtain evs1 st1 r where c: "ws_command env now lu iu cl st = (evs1, st1, r)" by (cases "ws_command env now lu iu cl st")
  have mux: "list_all (ws_own lu iu) (map FromShell evs2)"
    if "checkTermMux now t lu iu vars cl st = (evs2, st2, r2)" for t vars evs2 st2 r2
    using mux_ran [OF that] by (auto simp: list_all_iff intro!: ws_own_shell)
  have "list_all (ws_own lu iu) evs1"
    using c mux by (auto simp: ws_command_def Let_def ws_own_def split: if_splits option.splits prod.splits call.splits)
  moreover have "list_all (ws_own lu iu) (ws_greeting env iu)" by (simp add: ws_greeting_def Let_def ws_own_def)
  moreover have "list_all (ws_own lu iu) (ws_run cl (ws_exec env lu iu early cmd))" for cmd
    by (auto simp: ws_run_def ws_exec_def Let_def ws_own_def split: call.splits)
  ultimately show ?thesis using assms c Some by (auto simp: ws_session_def split: option.splits)
qed

lemma ws_run_not_plain: "ws_own lu iu (WsError m)" "ws_own lu iu (BadRequest m)" "ws_own lu iu (FromShell Panic)"
  by (simp_all add: ws_own_def)

text \<open>
  A terminal decides about logins of other remotes: the interface asks the configured remote about the user, whatever
  remote the login names, and keeps the refusal under the key of the login; for one minute every SSH login of
  that name is refused without the remote that it names having been asked.
\<close>

theorem terminal_refuses_login:
  assumes "ws_login (ae_os (sh_auth env)) param = Some lu" "\<not> IsCommand lu" "\<not> lu_CreateInstance (lu_core lu)"
    and "cache_Get now (Hash (Some lu)) (as_failed st) = None" "cache_Get now (Hash (Some lu)) (as_valid st) = None"
    and "cache_Get now (instanceUserKey (lu_Project (lu_core lu)) (lu_Instance (lu_core lu)) (lu_InstanceUser (lu_core lu)))
        (instanceUserCache (as_caches st)) = None"
    and "GetInstanceUser a (lu_Project (lu_core lu)) (lu_Instance (lu_core lu)) (lu_InstanceUser (lu_core lu)) [] = (cur, Fail)"
    and "defaultExpiration (as_failed st) = minute" "0 < now" "in_int64 (now + minute)" "now \<le> t" "t \<le> now + minute"
    and "websocketTerminalHandler env (Some a) now param early st = (evs, st')"
  shows "fst (IsValid env' t lu (st'\<lparr>as_user := u, as_client := c\<rparr>)) = Return False"
proof -
  let ?st = "st\<lparr>as_user := Some lu, as_client := Some (a, [])\<rparr>"
  have cl: "context_client (ws_auth env (Some a)) lu (st\<lparr>as_user := Some lu, as_client := None\<rparr>) = (Some (a, []), ?st)"
    by (simp add: context_client_def ws_auth_def)
  have u: "context_instance_user now lu (a, []) ?st = (Fail, ?st\<lparr>as_client := Some (a, cur)\<rparr>)"
    using assms(6,7) by (simp add: context_instance_user_def GetCachedInstanceUser_def Let_def)
  have "IsValid (ws_auth env (Some a)) now lu (st\<lparr>as_user := Some lu, as_client := None\<rparr>) =
      (Return False, (?st\<lparr>as_client := Some (a, cur)\<rparr>)\<lparr>as_failed := SetDefault now (Hash (Some lu)) now (as_failed st)\<rparr>)"
    using assms(2-5) cl u by (simp add: IsValid_def)
  then have "as_failed st' = SetDefault now (Hash (Some lu)) now (as_failed st)"
    using assms(1,13) by (auto simp: websocketTerminalHandler_def)
  moreover have "(0::int) < minute" by (simp add: minute_def)
  ultimately have "cache_Get t (Hash (Some lu)) (as_failed st') = Some now"
    using get_after_set [of "as_failed st" minute now t "Hash (Some lu)" now] assms(8-12) by simp
  then show ?thesis using assms(2) by (simp add: IsValid_def)
qed

section \<open>Witnesses\<close>

text \<open>A terminal for a login that the caches know.\<close>

definition web_login :: LoginUser where
  "web_login =
     LoginUser (empty_core\<lparr>lu_OrigUser := ''web.prod'', lu_User := ''root'', lu_Instance := ''web'', lu_Project := ''prod'',
                           lu_InstanceUser := ''root''\<rparr>) None None"

lemma web_login_parsed: "ws_login (ae_os (sh_auth demo_shell)) ''web.prod'' = Some web_login"
  by (simp add: ws_login_def cut_prefix_def ParseFrom.simps parseRegularFormat.simps empty_LoginUser_def empty_core_def
      web_login_def demo_shell_def demo_env_def isCreationFormat_def parseRegularInstance_def setDefaults_def
      parseRemoteAndInstance_def parseInstanceAndUser_def parseInstanceAndProject_def has_prefix_def)

lemma web_login_facts:
  "lu_Project (lu_core web_login) = ''prod''" "lu_Instance (lu_core web_login) = ''web''" "lu_InstanceUser (lu_core web_login) = ''root''"
  "\<not> IsCommand web_login" "\<not> lu_CreateInstance (lu_core web_login)" "\<not> lu_Persistent (lu_core web_login)"
  by (simp_all add: web_login_def empty_core_def IsCommand_def)

lemma known_terminal:
  "\<exists>e st'. websocketTerminalHandler demo_shell (Some demo_api) 1 ''web.prod'' None (known_state web_login) =
     ([FromShell (Ran [] e), WsExit 0], st')"
proof -
  let ?st = "(known_state web_login)\<lparr>as_user := Some web_login, as_client := None\<rparr>"
  let ?st1 = "?st\<lparr>as_client := Some (demo_api, [])\<rparr>"
  have v: "IsValid (ws_auth demo_shell (Some demo_api)) 1 web_login ?st = (Return True, ?st)"
    using known_cached(1) [of web_login] by (simp add: IsValid_def web_login_facts known_cached)
  have c: "context_client (ws_auth demo_shell (Some demo_api)) web_login ?st = (Some (demo_api, []), ?st1)"
    by (simp add: context_client_def ws_auth_def)
  have u: "context_instance_user 1 web_login (demo_api, []) ?st1 = (Return demo_iu, ?st1)"
    by (simp add: context_instance_user_def GetCachedInstanceUser_def web_login_facts known_cached)
  have "\<exists>e. ws_session demo_shell 1 web_login None demo_iu ?st1 = ([FromShell (Ran [] e), WsExit 0], ?st1)"
    by (simp add: ws_session_def ws_command_def web_login_facts ws_greeting_def demo_shell_def ws_run_def Exec_def demo_api_def)
  then show ?thesis using web_login_parsed v c u by (auto simp: websocketTerminalHandler_def ws_valid_def)
qed


definition unknown_api :: api where
  "unknown_api = demo_api\<lparr>api_GetProject := (\<lambda>_. None)\<rparr>"

theorem terminal_refuses_login_witness:
  "\<exists>evs st'. websocketTerminalHandler demo_shell (Some unknown_api) 1 ''web.prod'' None (demo_state web_login) = (evs, st') \<and>
     fst (IsValid demo_env minute web_login (st'\<lparr>as_user := None, as_client := None\<rparr>)) = Return False"
proof -
  obtain evs st' where h: "websocketTerminalHandler demo_shell (Some unknown_api) 1 ''web.prod'' None (demo_state web_login) = (evs, st')"
    by (cases "websocketTerminalHandler demo_shell (Some unknown_api) 1 ''web.prod'' None (demo_state web_login)")
  have none: "cache_Get 1 k (as_failed (demo_state web_login)) = None" "cache_Get 1 k (as_valid (demo_state web_login)) = None"
    "cache_Get 1 k (instanceUserCache (as_caches (demo_state web_login))) = None" for k
    by (simp_all add: demo_state_def login_caches_def init_caches_def new_cache_empty)
  have "GetInstanceUser unknown_api ''prod'' ''web'' ''root'' [] = ([], Fail)"
    by (simp add: GetInstanceUser_def use_project_def unknown_api_def)
  then have "fst (IsValid demo_env minute web_login (st'\<lparr>as_user := None, as_client := None\<rparr>)) = Return False"
    by (intro terminal_refuses_login [OF web_login_parsed _ _ none(1,2) _ _ _ _ _ _ _ h])
      (simp_all add: web_login_facts none [unfolded demo_state_def, simplified] demo_state_def login_caches_def new_cache_expiration minute_def in_int64_def)
  then show ?thesis using h by blast
qed

end
