(* ===== verification/Incus_Connect.thy ===== *)
theory Incus_Connect
  imports Startup
begin

text \<open>
  Where a client of Incus connects to: \<open>src/server/incus.go\<close>, \<open>src/pkg/incus/config.go\<close> and \<open>Connect\<close> of
  \<open>src/pkg/incus/incus.go\<close>. The configuration of the command line client of Incus, the files and the key pairs
  are parameters.
\<close>

section \<open>Model\<close>

record ConnectParams =
  cp_Remote :: string
  cp_Url :: string
  cp_CertFile :: string
  cp_KeyFile :: string
  cp_ServerCertFile :: string

record cli_config =
  cc_Remotes :: "string \<Rightarrow> string option"
  cc_DefaultRemote :: string
  cc_ConfigPath :: "string list \<Rightarrow> string"

text \<open>What loading the configuration returns, which files there are, and the environment.\<close>

record client_env =
  ce_config :: "cli_config option"
  ce_load_error :: bool
  ce_exists :: "string \<Rightarrow> bool"
  ce_environ :: "(string \<times> string) list"

datatype connect_error =
    ConfigNotLoaded
  | RemoteNotFound string
  | ClientCertNotFound string
  | ClientKeyNotFound string
  | NeedsClientCert
  | BadKeyPair
  | UnsupportedKey
  | NoServerCert
  | NotReached

definition https :: string where "https = ''https://''"

definition unix_scheme :: string where "unix_scheme = ''unix://''"

definition RemoteConnectParams :: "client_env \<Rightarrow> string \<Rightarrow> connect_error + ConnectParams" where
  "RemoteConnectParams ce remote =
     (case ce_config ce of
        None \<Rightarrow> Inl ConfigNotLoaded
      | Some cc \<Rightarrow>
          if ce_load_error ce then Inl ConfigNotLoaded
          else
            (let remote = (if remote = [] then cc_DefaultRemote cc else remote)
             in case cc_Remotes cc remote of
                  None \<Rightarrow> Inl (RemoteNotFound remote)
                | Some url \<Rightarrow>
                    if has_prefix url https
                    then (let cert = cc_ConfigPath cc [''client.crt'']; key = cc_ConfigPath cc [''client.key'']
                          in if \<not> ce_exists ce cert then Inl (ClientCertNotFound cert)
                             else if \<not> ce_exists ce key then Inl (ClientKeyNotFound key)
                             else Inr \<lparr>cp_Remote = remote, cp_Url = url, cp_CertFile = cert, cp_KeyFile = key,
                                       cp_ServerCertFile = cc_ConfigPath cc [''servercerts'', remote @ ''.crt'']\<rparr>)
                    else Inr \<lparr>cp_Remote = remote, cp_Url = trim_prefix url unix_scheme, cp_CertFile = [],
                              cp_KeyFile = [], cp_ServerCertFile = []\<rparr>))"

text \<open>The two certificates of the branch for a remote: given together or both from the client's directory.\<close>

definition remote_params :: "client_env \<Rightarrow> Config \<Rightarrow> cli_config \<Rightarrow> connect_error + ConnectParams" where
  "remote_params ce c cc =
     (case cc_Remotes cc (cf_Remote c) of
        None \<Rightarrow> Inl (RemoteNotFound (cf_Remote c))
      | Some url \<Rightarrow>
          if has_prefix url https
          then (let server = (if cf_ServerCert c \<noteq> [] then cf_ServerCert c
                              else cc_ConfigPath cc [''servercerts'', cf_Remote c @ ''.crt'']);
                    given = cf_ClientCert c \<noteq> [] \<and> cf_ClientKey c \<noteq> [];
                    cert = (if given then cf_ClientCert c else cc_ConfigPath cc [''client.crt'']);
                    key = (if given then cf_ClientKey c else cc_ConfigPath cc [''client.key''])
                in if \<not> ce_exists ce cert then Inl (ClientCertNotFound cert)
                   else if \<not> ce_exists ce key then Inl (ClientKeyNotFound key)
                   else Inr \<lparr>cp_Remote = cf_Remote c, cp_Url = url, cp_CertFile = cert, cp_KeyFile = key,
                             cp_ServerCertFile = server\<rparr>)
          else Inr \<lparr>cp_Remote = cf_Remote c,
                    cp_Url = (case cut_prefix url unix_scheme of Some u \<Rightarrow> u | None \<Rightarrow> url),
                    cp_CertFile = [], cp_KeyFile = [], cp_ServerCertFile = []\<rparr>)"

text \<open>
  The branch for an address. The server's certificate is put where the client's certificate goes, and then replaced
  by it.
\<close>

definition url_params :: "client_env \<Rightarrow> Config \<Rightarrow> connect_error + ConnectParams" where
  "url_params ce c =
     (if has_prefix (cf_URL c) https
      then (let cert = (if cf_ServerCert c \<noteq> [] then cf_ServerCert c else getenv (ce_environ ce) ''INCUS_SERVER_CERT'');
                given = cf_ClientCert c \<noteq> [] \<and> cf_ClientKey c \<noteq> [];
                cert = (if given then cf_ClientCert c else getenv (ce_environ ce) ''INCUS_CLIENT_CERT'');
                key = (if given then cf_ClientKey c else getenv (ce_environ ce) ''INCUS_CLIENT_KEY'')
            in if cert = [] \<or> key = [] then Inl NeedsClientCert
               else Inr \<lparr>cp_Remote = [], cp_Url = cf_URL c, cp_CertFile = cert, cp_KeyFile = key, cp_ServerCertFile = []\<rparr>)
      else Inr \<lparr>cp_Remote = [], cp_Url = cf_URL c, cp_CertFile = [], cp_KeyFile = [], cp_ServerCertFile = []\<rparr>)"

definition socket_params :: "string \<Rightarrow> ConnectParams" where
  "socket_params path = \<lparr>cp_Remote = [], cp_Url = path, cp_CertFile = [], cp_KeyFile = [], cp_ServerCertFile = []\<rparr>"

definition chosen_params :: "client_env \<Rightarrow> Config \<Rightarrow> connect_error + ConnectParams" where
  "chosen_params ce c =
     (case (cf_Remote c = [], ce_config ce) of
        (False, Some cc) \<Rightarrow> remote_params ce c cc
      | _ \<Rightarrow> if cf_URL c \<noteq> [] then url_params ce c else Inr (socket_params (cf_Socket c)))"

text \<open>The parameters are determined once; the second component is the variable that keeps them.\<close>

definition getIncusConnectParams ::
  "client_env \<Rightarrow> Config \<Rightarrow> ConnectParams option \<Rightarrow> (connect_error + ConnectParams) \<times> ConnectParams option" where
  "getIncusConnectParams ce c kept =
     (case kept of
        Some p \<Rightarrow> (Inr p, kept)
      | None \<Rightarrow> (case chosen_params ce c of Inl e \<Rightarrow> (Inl e, None) | Inr p \<Rightarrow> (Inr p, Some p)))"

subsection \<open>Connecting\<close>

text \<open>A key pair as it is loaded: the certificate and the key in the format that is sent to the client library.\<close>

datatype key_pair = RsaPair string string | EcPair string string | OtherPair

datatype endpoint =
    Https (ep_url: string) (ep_cert: string) (ep_key: string) (ep_server_cert: string)
  | Unix (ep_path: string)

record connect_api =
  ca_LoadKeyPair :: "string \<Rightarrow> string \<Rightarrow> key_pair option"
  ca_ReadFile :: "string \<Rightarrow> string option"
  ca_reaches :: "endpoint \<Rightarrow> bool"

definition reach :: "connect_api \<Rightarrow> endpoint \<Rightarrow> connect_error + endpoint" where
  "reach ca ep = (if ca_reaches ca ep then Inr ep else Inl NotReached)"

definition connect_tls :: "connect_api \<Rightarrow> ConnectParams \<Rightarrow> string \<Rightarrow> string \<Rightarrow> connect_error + endpoint" where
  "connect_tls ca p cert key =
     (if cp_ServerCertFile p = [] then reach ca (Https (cp_Url p) cert key [])
      else (case ca_ReadFile ca (cp_ServerCertFile p) of
              None \<Rightarrow> Inl NoServerCert
            | Some server \<Rightarrow> reach ca (Https (cp_Url p) cert key server)))"

definition Connect :: "connect_api \<Rightarrow> ConnectParams \<Rightarrow> connect_error + endpoint" where
  "Connect ca p =
     (if has_prefix (cp_Url p) https
      then if cp_CertFile p = [] \<or> cp_KeyFile p = [] then Inl NeedsClientCert
           else (case ca_LoadKeyPair ca (cp_CertFile p) (cp_KeyFile p) of
                   None \<Rightarrow> Inl BadKeyPair
                 | Some OtherPair \<Rightarrow> Inl UnsupportedKey
                 | Some (RsaPair cert key) \<Rightarrow> connect_tls ca p cert key
                 | Some (EcPair cert key) \<Rightarrow> connect_tls ca p cert key)
      else reach ca (Unix (cp_Url p)))"

text \<open>
  The client of a context: the one it has already, else a new one. A context of an SSH connection has a server, and
  with it the parameters are those of the login's remote; the others are those of the configuration.
\<close>

definition NewIncusClient ::
  "client_env \<Rightarrow> Config \<Rightarrow> ConnectParams option \<Rightarrow> ConnectParams option \<Rightarrow> (connect_error + ConnectParams) \<times> ConnectParams option" where
  "NewIncusClient ce c kept params =
     (case params of None \<Rightarrow> getIncusConnectParams ce c kept | Some p \<Rightarrow> (Inr p, kept))"

definition NewIncusClientWithContext ::
  "connect_api \<Rightarrow> client_env \<Rightarrow> Config \<Rightarrow> string option \<Rightarrow> ConnectParams option \<Rightarrow> endpoint option \<times> ConnectParams option \<Rightarrow>
   (connect_error + endpoint) \<times> endpoint option \<times> ConnectParams option" where
  "NewIncusClientWithContext ca ce c login params = (\<lambda>(client, kept).
     case client of
       Some ep \<Rightarrow> (Inr ep, client, kept)
     | None \<Rightarrow>
         (case (case login of None \<Rightarrow> Inr params | Some remote \<Rightarrow> map_sum id Some (RemoteConnectParams ce remote)) of
            Inl e \<Rightarrow> (Inl e, None, kept)
          | Inr params \<Rightarrow>
              (case NewIncusClient ce c kept params of
                 (Inl e, kept) \<Rightarrow> (Inl e, None, kept)
               | (Inr p, kept) \<Rightarrow>
                   (case Connect ca p of
                      Inl e \<Rightarrow> (Inl e, None, kept)
                    | Inr ep \<Rightarrow> (Inr ep, Some ep, kept)))))"

text \<open>The check at the start and of the health check: a context without a server, and a client that is closed again.\<close>

definition checkIncus ::
  "connect_api \<Rightarrow> client_env \<Rightarrow> Config \<Rightarrow> ConnectParams option \<Rightarrow> (connect_error + endpoint) \<times> ConnectParams option" where
  "checkIncus ca ce c kept =
     (case NewIncusClientWithContext ca ce c None None (None, kept) of (r, _, kept) \<Rightarrow> (r, kept))"

text \<open>The remote of a login: its own one, else the configured one.\<close>

definition login_remote :: "Config \<Rightarrow> string \<Rightarrow> string" where
  "login_remote c remote = (if remote = [] then cf_Remote c else remote)"

definition session_endpoint :: "connect_api \<Rightarrow> client_env \<Rightarrow> Config \<Rightarrow> ConnectParams option \<Rightarrow> string \<Rightarrow> connect_error + endpoint" where
  "session_endpoint ca ce c kept remote =
     fst (NewIncusClientWithContext ca ce c (Some (login_remote c remote)) None (None, kept))"

section \<open>Lemmas\<close>

lemma reach_Inr [simp]: "reach ca ep = Inr ep' \<longleftrightarrow> ep' = ep \<and> ca_reaches ca ep"
  by (auto simp: reach_def)

text \<open>A connection over TLS is made with a key pair that was loaded from the two files of the parameters.\<close>

lemma Connect_Https:
  assumes "Connect ca p = Inr (Https u cert key server)"
  shows "u = cp_Url p \<and> has_prefix u https \<and>
    ca_LoadKeyPair ca (cp_CertFile p) (cp_KeyFile p) \<in> {Some (RsaPair cert key), Some (EcPair cert key)} \<and>
    (if cp_ServerCertFile p = [] then server = [] else ca_ReadFile ca (cp_ServerCertFile p) = Some server)"
  using assms by (auto simp: Connect_def connect_tls_def split: if_splits option.splits key_pair.splits)

lemma Connect_Unix: "Connect ca p = Inr (Unix path) \<Longrightarrow> path = cp_Url p \<and> \<not> has_prefix path https"
  by (auto simp: Connect_def connect_tls_def split: if_splits option.splits key_pair.splits)

lemma session_simp:
  "session_endpoint ca ce c kept remote =
     (case RemoteConnectParams ce (login_remote c remote) of Inl e \<Rightarrow> Inl e | Inr p \<Rightarrow> Connect ca p)"
  by (simp add: session_endpoint_def NewIncusClientWithContext_def NewIncusClient_def split: sum.split)

lemma check_simp:
  "fst (checkIncus ca ce c kept) =
     (case getIncusConnectParams ce c kept of (Inl e, _) \<Rightarrow> Inl e | (Inr p, _) \<Rightarrow> Connect ca p)"
  by (simp add: checkIncus_def NewIncusClientWithContext_def NewIncusClient_def split: sum.split prod.split)

lemma remote_params_Inr:
  assumes "RemoteConnectParams ce remote = Inr p"
  shows "\<exists>cc (r :: string) url. ce_config ce = Some cc \<and> r = (if remote = [] then cc_DefaultRemote cc else remote) \<and>
    cc_Remotes cc r = Some url \<and>
    (if has_prefix url https
     then cp_Url p = url \<and> cp_CertFile p = cc_ConfigPath cc [''client.crt''] \<and> cp_KeyFile p = cc_ConfigPath cc [''client.key''] \<and>
       cp_ServerCertFile p = cc_ConfigPath cc [''servercerts'', r @ ''.crt'']
     else cp_Url p = trim_prefix url unix_scheme)"
proof (cases "ce_config ce")
  case (Some cc)
  let ?r = "if remote = [] then cc_DefaultRemote cc else remote"
  from Some assms obtain url where u: "cc_Remotes cc ?r = Some url"
    by (cases "cc_Remotes cc ?r") (simp_all add: RemoteConnectParams_def Let_def split: if_splits)
  have e: "\<not> ce_load_error ce" using Some assms by (simp add: RemoteConnectParams_def split: if_splits)
  show ?thesis
  proof (cases "has_prefix url https")
    case True
    then have "p = \<lparr>cp_Remote = ?r, cp_Url = url, cp_CertFile = cc_ConfigPath cc [''client.crt''],
        cp_KeyFile = cc_ConfigPath cc [''client.key''], cp_ServerCertFile = cc_ConfigPath cc [''servercerts'', ?r @ ''.crt'']\<rparr>"
      using assms Some u e by (simp only: RemoteConnectParams_def Let_def option.case if_True if_False split: if_splits) auto
    then show ?thesis using Some u True by auto
  next
    case False
    then have "cp_Url p = trim_prefix url unix_scheme"
      using assms Some u e by (simp only: RemoteConnectParams_def Let_def option.case if_False) auto
    then show ?thesis using Some u False by auto
  qed
qed (use assms in \<open>simp add: RemoteConnectParams_def\<close>)

section \<open>Properties\<close>

text \<open>C22. A session that connects over TLS to an address of the remotes checks the server against the certificate that
  was kept for the remote and shows the key pair of the client's directory, whatever the configuration says.\<close>

theorem session_tls_pinned:
  assumes "ce_config ce = Some cc" and "r = (if login_remote c remote = [] then cc_DefaultRemote cc else login_remote c remote)"
    and "cc_Remotes cc r = Some url" and "has_prefix url https" and "cc_ConfigPath cc [''servercerts'', r @ ''.crt''] \<noteq> []"
    and "session_endpoint ca ce c kept remote = Inr ep"
  shows "ep_url ep = url \<and> ca_ReadFile ca (cc_ConfigPath cc [''servercerts'', r @ ''.crt'']) = Some (ep_server_cert ep) \<and>
    ca_LoadKeyPair ca (cc_ConfigPath cc [''client.crt'']) (cc_ConfigPath cc [''client.key'']) \<in>
      {Some (RsaPair (ep_cert ep) (ep_key ep)), Some (EcPair (ep_cert ep) (ep_key ep))}"
proof -
  obtain p where p: "RemoteConnectParams ce (login_remote c remote) = Inr p" "Connect ca p = Inr ep"
    using assms(6) by (auto simp: session_simp split: sum.splits)
  have q: "cp_Url p = url \<and> cp_CertFile p = cc_ConfigPath cc [''client.crt''] \<and> cp_KeyFile p = cc_ConfigPath cc [''client.key''] \<and>
      cp_ServerCertFile p = cc_ConfigPath cc [''servercerts'', r @ ''.crt'']"
    using remote_params_Inr [OF p(1)] assms(1-4) by auto
  show ?thesis
  proof (cases ep)
    case (Https u cert key server)
    with Connect_Https [of ca p] p(2) q assms(5) show ?thesis by auto
  next
    case (Unix path)
    with Connect_Unix [of ca p path] p(2) q assms(4) show ?thesis by auto
  qed
qed

definition some_config :: Config where
  "some_config = build_Config [] (\<lparr>get_bool = (\<lambda>_. False), get_string = (\<lambda>_. []), get_dur = (\<lambda>_. 0)\<rparr>, [], [])"

definition lab_config :: cli_config where
  "lab_config = \<lparr>cc_Remotes = [''lab'' \<mapsto> ''https://lab:8443'', ''local'' \<mapsto> ''unix://''], cc_DefaultRemote = ''local'',
     cc_ConfigPath = (\<lambda>ps. ''/c/'' @ join ''/'' ps)\<rparr>"

definition lab_env :: client_env where
  "lab_env = \<lparr>ce_config = Some lab_config, ce_load_error = False, ce_exists = (\<lambda>_. True), ce_environ = []\<rparr>"

definition lab_api :: connect_api where
  "lab_api = \<lparr>ca_LoadKeyPair = (\<lambda>c k. Some (RsaPair c k)), ca_ReadFile = Some, ca_reaches = (\<lambda>_. True)\<rparr>"

lemmas lab_defs = lab_config_def lab_env_def lab_api_def session_simp RemoteConnectParams_def login_remote_def
  Connect_def connect_tls_def reach_def https_def unix_scheme_def has_prefix_def some_config_def build_Config_def
  trim_prefix_def cut_prefix_def

lemma session_tls_pinned_witness:
  "ep_url (Https ''https://lab:8443'' ''/c/client.crt'' ''/c/client.key'' ''/c/servercerts/lab.crt'') = ''https://lab:8443'' \<and>
   ca_ReadFile lab_api (cc_ConfigPath lab_config [''servercerts'', ''lab.crt'']) = Some ''/c/servercerts/lab.crt''"
proof -
  have "session_endpoint lab_api lab_env some_config None ''lab'' =
      Inr (Https ''https://lab:8443'' ''/c/client.crt'' ''/c/client.key'' ''/c/servercerts/lab.crt'')"
    by (simp add: lab_defs)
  from session_tls_pinned [OF _ _ _ _ _ this, where cc = lab_config and r = "''lab''" and url = "''https://lab:8443''"]
  show ?thesis by (simp add: lab_config_def lab_env_def login_remote_def https_def has_prefix_def)
qed

text \<open>C28. With an address of Incus in the configuration the check at the start connects there, without a certificate of
  the server even when one is configured. The sessions do not connect there: nothing that is configured but the
  remote has an effect on them.\<close>

theorem configured_address_not_used:
  assumes "cf_Remote c = [] \<or> ce_config ce = None" and "has_prefix (cf_URL c) https" and "checkIncus ca ce c None = (Inr ep, kept)"
  shows "ep_url ep = cf_URL c \<and> ep_server_cert ep = [] \<and>
    session_endpoint ca ce c kept remote =
      session_endpoint ca ce (c\<lparr>cf_URL := url, cf_Socket := socket, cf_ServerCert := server, cf_ClientCert := cert,
        cf_ClientKey := key\<rparr>) kept' remote"
proof -
  have f: "fst (checkIncus ca ce c None) = Inr ep" by (simp add: assms(3))
  have "cf_URL c \<noteq> []" using assms(2) by (auto simp: has_prefix_def https_def)
  then have "chosen_params ce c = url_params ce c"
    using assms(1) by (cases "cf_Remote c = []") (auto simp: chosen_params_def)
  then obtain p where p: "url_params ce c = Inr p" "Connect ca p = Inr ep"
    using f by (auto simp: check_simp getIncusConnectParams_def split: sum.splits)
  then have q: "cp_Url p = cf_URL c \<and> cp_ServerCertFile p = []"
    using assms(2) by (auto simp: url_params_def Let_def split: if_splits)
  have "ep_url ep = cf_URL c \<and> ep_server_cert ep = []"
    using Connect_Https [of ca p] Connect_Unix [of ca p] p(2) q assms(2) by (cases ep) auto
  then show ?thesis by (simp add: session_simp login_remote_def)
qed

lemma configured_address_not_used_witness:
  "ep_server_cert (Https ''https://inc'' ''a.crt'' ''a.key'' []) = [] \<and>
   session_endpoint lab_api lab_env (some_config\<lparr>cf_URL := ''https://inc'', cf_ServerCert := ''inc.crt'', cf_ClientCert := ''a.crt'',
     cf_ClientKey := ''a.key''\<rparr>) None [] = session_endpoint lab_api lab_env some_config None []"
proof -
  let ?c = "some_config\<lparr>cf_URL := ''https://inc'', cf_ServerCert := ''inc.crt'', cf_ClientCert := ''a.crt'', cf_ClientKey := ''a.key''\<rparr>"
  have p: "checkIncus lab_api lab_env ?c None = (Inr (Https ''https://inc'' ''a.crt'' ''a.key'' []),
      Some \<lparr>cp_Remote = [], cp_Url = ''https://inc'', cp_CertFile = ''a.crt'', cp_KeyFile = ''a.key'', cp_ServerCertFile = []\<rparr>)"
    by (simp add: lab_defs checkIncus_def NewIncusClientWithContext_def NewIncusClient_def getIncusConnectParams_def
        chosen_params_def url_params_def)
  have "cf_Remote ?c = [] \<or> ce_config lab_env = None" "has_prefix (cf_URL ?c) https"
    by (simp_all add: some_config_def build_Config_def has_prefix_def https_def)
  from configured_address_not_used [OF this p, of "[]" "[]" "[]" "[]" "[]" "[]" None]
  show ?thesis by (simp add: session_simp login_remote_def)
qed

end
