(* ===== verification/Yescrypt_Encoding.thy ===== *)
theory Yescrypt_Encoding
  imports Go_Base
begin

text \<open>
  The encoding of salts and hashes of yescrypt, \<open>src/pkg/yescrypt/yescrypt_wrapper.go\<close>: six bits for a character, the
  low bits first. An \<open>itoa64\<close> index and an \<open>atoi64\<close> result are natural numbers; a group is gathered in a word of 32 bits
  as in the code. \<open>nil\<close> is \<^const>\<open>None\<close>.
\<close>

unbundle bit_operations_syntax

section \<open>Model\<close>

type_synonym bytes = "8 word list"

definition itoa64 :: string where
  "itoa64 = ''./0123456789ABCDEFGHIJKLMNOPQRSTUVWXYZabcdefghijklmnopqrstuvwxyz''"

definition atoi64Partial :: "nat list" where
  "atoi64Partial =
     [0, 1, 2, 3, 4, 5, 6, 7, 8, 9, 10, 11,
      64, 64, 64, 64, 64, 64, 64,
      12, 13, 14, 15, 16, 17, 18, 19, 20, 21, 22, 23, 24,
      25, 26, 27, 28, 29, 30, 31, 32, 33, 34, 35, 36, 37,
      64, 64, 64, 64, 64, 64,
      38, 39, 40, 41, 42, 43, 44, 45, 46, 47, 48, 49, 50,
      51, 52, 53, 54, 55, 56, 57, 58, 59, 60, 61, 62, 63]"

definition atoi64 :: "8 word \<Rightarrow> nat" where
  "atoi64 c = (if 46 \<le> c \<and> c \<le> 122 then atoi64Partial ! (unat c - 46) else 64)"

definition char64 :: "nat \<Rightarrow> 8 word" where
  "char64 k = of_char (itoa64 ! k)"

text \<open>Up to three bytes into the low bits of a word, and the word out by six bits at a time.\<close>

fun gather8 :: "32 word \<Rightarrow> nat \<Rightarrow> bytes \<Rightarrow> 32 word \<times> nat \<times> bytes" where
  "gather8 acc bs [] = (acc, bs, [])"
| "gather8 acc bs (b # src) =
     (if bs < 24 then gather8 (acc OR push_bit bs (ucast b)) (bs + 8) src else (acc, bs, b # src))"

fun emit6 :: "nat \<Rightarrow> 32 word \<Rightarrow> bytes" where
  "emit6 0 acc = []"
| "emit6 bs acc = char64 (unat (acc AND 63)) # emit6 (bs - 6) (drop_bit 6 acc)"

lemma gather8_length: "length (snd (snd (gather8 acc bs src))) \<le> length src"
  by (induction acc bs src rule: gather8.induct) auto

lemma gather8_rest: "src \<noteq> [] \<Longrightarrow> (acc, bs, rest) = gather8 0 0 src \<Longrightarrow> length rest < length src"
  using gather8_length [of "ucast (hd src)" 8 "tl src"] by (cases src) (auto simp: less_Suc_eq_le dest: sym)

function encode64 :: "bytes \<Rightarrow> bytes" where
  "encode64 src =
     (if src = [] then []
      else (case gather8 0 0 src of (acc, bs, rest) \<Rightarrow> emit6 bs acc @ encode64 rest))"
  by auto
termination by (relation "measure length") (simp, metis gather8_rest in_measure)

text \<open>Up to four characters into a word, which a character that is none of the 64 ends with an error.\<close>

fun gather6 :: "32 word \<Rightarrow> nat \<Rightarrow> bytes \<Rightarrow> (32 word \<times> nat \<times> bytes) option" where
  "gather6 acc bs [] = Some (acc, bs, [])"
| "gather6 acc bs (c # src) =
     (if bs < 24
      then if atoi64 c > 63 then None
           else gather6 (acc OR push_bit bs (of_nat (atoi64 c))) (bs + 6) src
      else Some (acc, bs, c # src))"

fun emit8 :: "nat \<Rightarrow> 32 word \<Rightarrow> bytes \<times> 32 word" where
  "emit8 bs acc =
     (if bs \<ge> 8 then (case emit8 (bs - 8) (drop_bit 8 acc) of (out, acc') \<Rightarrow> (ucast acc # out, acc'))
      else ([], acc))"

lemma gather6_length: "gather6 acc bs src = Some (v, k, rest) \<Longrightarrow> length rest \<le> length src"
  by (induction acc bs src arbitrary: v k rest rule: gather6.induct) (fastforce split: if_splits)+

lemma gather6_rest: "src \<noteq> [] \<Longrightarrow> gather6 0 0 src = Some (acc, bs, rest) \<Longrightarrow> length rest < length src"
  using gather6_length [of "of_nat (atoi64 (hd src))" 6 "tl src"] by (cases src) (auto simp: less_Suc_eq_le split: if_splits)

function decode64 :: "bytes \<Rightarrow> bytes option" where
  "decode64 src =
     (if src = [] then Some []
      else (case gather6 0 0 src of
              None \<Rightarrow> None
            | Some (acc, bs, rest) \<Rightarrow>
                if bs < 12 then None
                else (case emit8 bs acc of
                        (out, acc') \<Rightarrow> if acc' \<noteq> 0 then None else map_option ((@) out) (decode64 rest))))"
  by auto
termination by (relation "measure length") (simp, metis gather6_rest in_measure)
section \<open>Lemmas\<close>

declare encode64.simps [simp del] decode64.simps [simp del] emit8.simps [simp del]

subsection \<open>Characters\<close>

text \<open>The codes of the 64 characters, and the numbers they stand for.\<close>

definition codes64 :: "nat list" where
  "codes64 = [46..<58] @ [65..<91] @ [97..<123]"

lemma length_codes64: "length codes64 = 64"
  by (simp add: codes64_def)

lemma itoa64_codes: "map of_char itoa64 = map (of_nat :: nat \<Rightarrow> 8 word) codes64"
proof -
  have "map of_char itoa64 = codes64" by code_simp
  then have "map (of_nat :: nat \<Rightarrow> 8 word) (map of_char itoa64) = map of_nat codes64" by (simp only:)
  then show ?thesis by (simp add: comp_def of_nat_of_char)
qed

lemma length_itoa64 [simp]: "length itoa64 = 64"
  by (simp add: itoa64_def)

lemma char64_code: "k < 64 \<Longrightarrow> char64 k = of_nat (codes64 ! k)"
  using arg_cong [OF itoa64_codes, of "\<lambda>xs. xs ! k"] by (simp add: char64_def length_codes64)

lemma atoi64_code: "n < 256 \<Longrightarrow> atoi64 (of_nat n) = (if 46 \<le> n \<and> n \<le> 122 then atoi64Partial ! (n - 46) else 64)"
  by (simp add: atoi64_def word_le_nat_alt unat_of_nat)

lemma atoi64_char64: "k < 64 \<Longrightarrow> atoi64 (char64 k) = k"
proof -
  have "list_all (\<lambda>k. codes64 ! k < 256 \<and> 46 \<le> codes64 ! k \<and> codes64 ! k \<le> 122 \<and> atoi64Partial ! (codes64 ! k - 46) = k) [0..<64]"
    by code_simp
  then show "k < 64 \<Longrightarrow> atoi64 (char64 k) = k" by (simp add: list_all_iff char64_code atoi64_code)
qed

lemma char64_atoi64:
  assumes "atoi64 c \<le> 63"
  shows "char64 (atoi64 c) = c"
proof -
  define n where "n = unat c"
  have n: "n < 256" "c = of_nat n" using unsigned_less [of c] by (simp_all add: n_def)
  have "list_all (\<lambda>n. atoi64Partial ! (n - 46) \<le> 63 \<longrightarrow> codes64 ! (atoi64Partial ! (n - 46)) = n) [46..<123]"
    by code_simp
  then have "\<forall>n\<in>{46..<123}. atoi64Partial ! (n - 46) \<le> 63 \<longrightarrow> codes64 ! (atoi64Partial ! (n - 46)) = n"
    by (simp only: list_all_iff set_upt)
  note c = bspec [OF this, of n]
  have "46 \<le> n \<and> n \<le> 122" using assms by (simp add: n atoi64_code split: if_splits)
  then show ?thesis using assms c by (simp add: n atoi64_code char64_code)
qed

lemma mask6: "(63 :: 32 word) = mask 6"
  by (simp add: mask_eq_exp_minus_1)

lemma six_bits: "unat ((w :: 32 word) AND 63) < 64"
  using and_mask_less' [of 6 w] by (simp add: mask6 word_less_nat_alt)

subsection \<open>Groups\<close>

definition word24 :: "8 word \<Rightarrow> 8 word \<Rightarrow> 8 word \<Rightarrow> 32 word" where
  "word24 a b c = ucast a OR push_bit 8 (ucast b) OR push_bit 16 (ucast c)"

lemma encode_3: "encode64 (a # b # c # rest) = emit6 24 (word24 a b c) @ encode64 rest"
  by (subst encode64.simps, cases rest) (simp_all add: word24_def or.assoc)

lemma encode_2: "encode64 [a, b] = emit6 16 (word24 a b 0)"
  by (subst encode64.simps) (simp add: word24_def encode64.simps [of "[]"])

lemma encode_1: "encode64 [a] = emit6 8 (word24 a 0 0)"
  by (subst encode64.simps) (simp add: word24_def encode64.simps [of "[]"])

lemma encode_0 [simp]: "encode64 [] = []"
  by (simp add: encode64.simps)

definition digit64 :: "nat \<Rightarrow> 32 word \<Rightarrow> 32 word" where
  "digit64 k w = drop_bit (6 * k) w AND 63"

lemma emit6_unfold:
  "emit6 8 w = [char64 (unat (digit64 0 w)), char64 (unat (digit64 (Suc 0) w))]"
  "emit6 16 w = [char64 (unat (digit64 0 w)), char64 (unat (digit64 (Suc 0) w)), char64 (unat (digit64 2 w))]"
  "emit6 24 w = [char64 (unat (digit64 0 w)), char64 (unat (digit64 (Suc 0) w)), char64 (unat (digit64 2 w)), char64 (unat (digit64 3 w))]"
  by (simp_all add: digit64_def eval_nat_numeral)

lemma atoi64_digit [simp]: "atoi64 (char64 (unat (digit64 k w))) = unat (digit64 k w)"
  using six_bits [of "drop_bit (6 * k) w"] by (simp add: digit64_def atoi64_char64)

lemma digit64_le [simp]: "\<not> 63 < unat (digit64 k w)"
  using six_bits [of "drop_bit (6 * k) w"] by (simp add: digit64_def)

lemma bit_digit64: "bit (push_bit (6 * k) (digit64 k w)) n \<longleftrightarrow> 6 * k \<le> n \<and> n < 6 * k + 6 \<and> bit w n"
  using bit_imp_le_length [of w n] by (auto simp: digit64_def mask6 bit_simps)

lemma digits64:
  "digit64 0 w OR push_bit 6 (digit64 (Suc 0) w) = w AND mask 12"
  "(digit64 0 w OR push_bit 6 (digit64 (Suc 0) w)) OR push_bit 12 (digit64 2 w) = w AND mask 18"
  "((digit64 0 w OR push_bit 6 (digit64 (Suc 0) w)) OR push_bit 12 (digit64 2 w)) OR push_bit 18 (digit64 3 w) = w AND mask 24"
  using bit_digit64 [of 0 w] bit_digit64 [of "Suc 0" w] bit_digit64 [of 2 w] bit_digit64 [of 3 w]
  by (auto intro!: bit_word_eqI simp: bit_or_iff bit_and_iff bit_mask_iff)

lemma word24_bytes:
  "word24 a b c AND mask 24 = word24 a b c" "word24 a b 0 AND mask 18 = word24 a b 0" "word24 a 0 0 AND mask 12 = word24 a 0 0"
  by (rule bit_word_eqI; auto simp: word24_def bit_simps dest: bit_imp_le_length)+

lemma emit8_word24:
  "emit8 24 (word24 a b c) = ([a, b, c], 0)" "emit8 18 (word24 a b 0) = ([a, b], 0)" "emit8 12 (word24 a 0 0) = ([a], 0)"
proof -
  have d: "drop_bit 24 (word24 a b c) = 0" "drop_bit 16 (word24 a b 0) = 0" "drop_bit 8 (word24 a 0 0) = 0"
    "ucast (word24 a b c) = a" "ucast (drop_bit 8 (word24 a b c)) = b" "ucast (drop_bit 16 (word24 a b c)) = c" for a b c
    by (rule bit_word_eqI; auto simp: word24_def bit_simps dest: bit_imp_le_length)+
  show "emit8 24 (word24 a b c) = ([a, b, c], 0)" "emit8 18 (word24 a b 0) = ([a, b], 0)" "emit8 12 (word24 a 0 0) = ([a], 0)"
    by (simp_all add: emit8.simps d)
qed

lemma decode_0 [simp]: "decode64 [] = Some []"
  by (simp add: decode64.simps)

lemma decode_4:
  assumes "atoi64 p \<le> 63" "atoi64 q \<le> 63" "atoi64 r \<le> 63" "atoi64 s \<le> 63"
  shows "decode64 (p # q # r # s # rest) =
    (case emit8 24 (((of_nat (atoi64 p) OR push_bit 6 (of_nat (atoi64 q))) OR push_bit 12 (of_nat (atoi64 r))) OR push_bit 18 (of_nat (atoi64 s))) of
       (out, acc) \<Rightarrow> if acc \<noteq> 0 then None else map_option ((@) out) (decode64 rest))"
  using assms by (subst decode64.simps, cases rest) (simp_all add: not_less split: prod.split)

lemma decode_3:
  assumes "atoi64 p \<le> 63" "atoi64 q \<le> 63" "atoi64 r \<le> 63"
  shows "decode64 [p, q, r] =
    (case emit8 18 ((of_nat (atoi64 p) OR push_bit 6 (of_nat (atoi64 q))) OR push_bit 12 (of_nat (atoi64 r))) of
       (out, acc) \<Rightarrow> if acc \<noteq> 0 then None else Some out)"
  using assms by (subst decode64.simps) (simp add: not_less split: prod.split)

lemma decode_2:
  assumes "atoi64 p \<le> 63" "atoi64 q \<le> 63"
  shows "decode64 [p, q] =
    (case emit8 12 (of_nat (atoi64 p) OR push_bit 6 (of_nat (atoi64 q))) of
       (out, acc) \<Rightarrow> if acc \<noteq> 0 then None else Some out)"
  using assms by (subst decode64.simps) (simp add: not_less split: prod.split)

lemma digit_bound: "unat (digit64 k w) \<le> 63"
  using digit64_le [of k w] by (simp only: not_less)

lemma decode_encode: "decode64 (encode64 bs) = Some bs"
proof (induction "length bs" arbitrary: bs rule: less_induct)
  case less
  consider "bs = []" | a where "bs = [a]" | a b where "bs = [a, b]" | a b c rest where "bs = a # b # c # rest"
    by (metis list.exhaust)
  then show ?case
  proof cases
    case (2 a)
    then show ?thesis
      by (simp add: encode_1 emit6_unfold decode_2 digit_bound digits64(1) word24_bytes emit8_word24)
  next
    case (3 a b)
    then show ?thesis
      by (simp add: encode_2 emit6_unfold decode_3 digit_bound digits64(2) word24_bytes emit8_word24)
  next
    case (4 a b c rest)
    have "decode64 (encode64 rest) = Some rest" by (rule less) (simp add: 4)
    then show ?thesis
      by (simp add: 4 encode_3 emit6_unfold decode_4 digit_bound digits64(3) word24_bytes emit8_word24)
  qed simp
qed

text \<open>The other direction: a decoded string is the encoding of the result, since the bits that are left over must be
  zero.\<close>

lemma emit8_unfold:
  "emit8 24 w = ([ucast w, ucast (drop_bit 8 w), ucast (drop_bit 16 w)], drop_bit 24 w)"
  "emit8 18 w = ([ucast w, ucast (drop_bit 8 w)], drop_bit 16 w)" "emit8 12 w = ([ucast w], drop_bit 8 w)"
  by (simp_all add: emit8.simps)

lemma drop_bit_0D: "drop_bit k (w :: 32 word) = 0 \<Longrightarrow> bit w n \<Longrightarrow> n < k"
  by (rule ccontr) (use bit_drop_bit_eq [of k w] in \<open>auto simp: fun_eq_iff dest: spec [of _ "n - k"]\<close>)

lemma word24_split:
  "drop_bit 24 w = 0 \<Longrightarrow> word24 (ucast w) (ucast (drop_bit 8 w)) (ucast (drop_bit 16 w)) = w"
  "drop_bit 16 w = 0 \<Longrightarrow> word24 (ucast w) (ucast (drop_bit 8 w)) 0 = w"
  "drop_bit 8 w = 0 \<Longrightarrow> word24 (ucast w) 0 0 = w"
  by (rule bit_word_eqI; force simp: word24_def bit_simps dest: drop_bit_0D)+

definition pack4 :: "32 word \<Rightarrow> 32 word \<Rightarrow> 32 word \<Rightarrow> 32 word \<Rightarrow> 32 word" where
  "pack4 x y z u = ((x OR push_bit 6 y) OR push_bit 12 z) OR push_bit 18 u"

lemma digit64_pack4:
  assumes "x AND 63 = x" "y AND 63 = y" "z AND 63 = z" "u AND 63 = u"
  shows "digit64 0 (pack4 x y z u) = x" "digit64 (Suc 0) (pack4 x y z u) = y"
    "digit64 2 (pack4 x y z u) = z" "digit64 3 (pack4 x y z u) = u"
proof -
  have b: "bit x n \<Longrightarrow> n < 6" "bit y n \<Longrightarrow> n < 6" "bit z n \<Longrightarrow> n < 6" "bit u n \<Longrightarrow> n < 6" for n
    using assms unfolding mask6 by (metis bit_and_iff bit_mask_iff)+
  show "digit64 0 (pack4 x y z u) = x" "digit64 (Suc 0) (pack4 x y z u) = y"
    "digit64 2 (pack4 x y z u) = z" "digit64 3 (pack4 x y z u) = u"
    by (rule bit_word_eqI; use b in \<open>force simp: digit64_def pack4_def mask6 bit_simps\<close>)+
qed

lemma value64: "atoi64 c \<le> 63 \<Longrightarrow> (of_nat (atoi64 c) :: 32 word) AND 63 = of_nat (atoi64 c)"
  by (simp add: mask6 take_bit_of_nat take_bit_nat_eq_self flip: take_bit_eq_mask)

lemma char64_value: "atoi64 c \<le> 63 \<Longrightarrow> char64 (unat (of_nat (atoi64 c) :: 32 word)) = c"
  by (simp add: unat_of_nat take_bit_nat_def char64_atoi64)

lemma digit64_0 [simp]: "(0 :: 32 word) AND 63 = 0" by simp

lemma gather6_valid:
  "gather6 acc bs src = Some x \<Longrightarrow> i < length src \<Longrightarrow> bs + 6 * i < 24 \<Longrightarrow> atoi64 (src ! i) \<le> 63"
proof (induction acc bs src arbitrary: i rule: gather6.induct)
  case (2 acc bs c src)
  then show ?case by (cases i) (auto split: if_splits)
qed simp

lemma decode_valid: "decode64 s = Some bs \<Longrightarrow> i < length s \<Longrightarrow> i < 4 \<Longrightarrow> atoi64 (s ! i) \<le> 63"
  using gather6_valid [of 0 0 s _ i] by (subst (asm) decode64.simps) (auto split: if_splits option.splits)

lemma encode_decode: "decode64 s = Some bs \<Longrightarrow> encode64 bs = s"
proof (induction "length s" arbitrary: s bs rule: less_induct)
  case less
  note v = decode_valid [OF less.prems]
  consider "s = []" | p where "s = [p]" | p q where "s = [p, q]" | p q r where "s = [p, q, r]" | p q r t rest where "s = p # q # r # t # rest"
    by (metis list.exhaust)
  then show ?case
  proof cases
    case 1
    then show ?thesis using less.prems by simp
  next
    case (2 p)
    then show ?thesis using less.prems by (subst (asm) decode64.simps) (simp split: if_splits)
  next
    case (3 p q)
    have c: "atoi64 p \<le> 63" "atoi64 q \<le> 63"
      using v [of 0] v [of 1] v [of 2] v [of 3] by (simp_all add: 3)
    define w where "w = pack4 (of_nat (atoi64 p)) (of_nat (atoi64 q)) 0 0"
    have "drop_bit 8 w = 0 \<and> bs = [ucast w]"
      using less.prems by (simp add: 3 decode_2 c emit8_unfold w_def pack4_def split: if_splits)
    then show ?thesis
      by (simp add: 3 encode_1 word24_split emit6_unfold)
        (simp add: w_def digit64_pack4 value64 c char64_value)
  next
    case (4 p q r)
    have c: "atoi64 p \<le> 63" "atoi64 q \<le> 63" "atoi64 r \<le> 63"
      using v [of 0] v [of 1] v [of 2] v [of 3] by (simp_all add: 4)
    define w where "w = pack4 (of_nat (atoi64 p)) (of_nat (atoi64 q)) (of_nat (atoi64 r)) 0"
    have "drop_bit 16 w = 0 \<and> bs = [ucast w, ucast (drop_bit 8 w)]"
      using less.prems by (simp add: 4 decode_3 c emit8_unfold w_def pack4_def split: if_splits)
    then show ?thesis
      by (simp add: 4 encode_2 word24_split emit6_unfold)
        (simp add: w_def digit64_pack4 value64 c char64_value)
  next
    case (5 p q r t rest)
    have c: "atoi64 p \<le> 63" "atoi64 q \<le> 63" "atoi64 r \<le> 63" "atoi64 t \<le> 63"
      using v [of 0] v [of 1] v [of 2] v [of 3] by (simp_all add: 5)
    define w where "w = pack4 (of_nat (atoi64 p)) (of_nat (atoi64 q)) (of_nat (atoi64 r)) (of_nat (atoi64 t))"
    obtain bs' where b: "drop_bit 24 w = 0 \<and> bs = ucast w # ucast (drop_bit 8 w) # ucast (drop_bit 16 w) # bs'" "decode64 rest = Some bs'"
      using less.prems by (auto simp: 5 decode_4 c emit8_unfold w_def pack4_def split: if_splits)
    have "encode64 bs' = rest" using less.hyps [OF _ b(2)] by (simp add: 5)
    then show ?thesis using b(1)
      by (simp add: 5 encode_3 word24_split emit6_unfold)
        (simp add: w_def digit64_pack4 value64 c char64_value)
  qed
qed

section \<open>Properties\<close>

text \<open>
  C35. The encoding of salts and hashes is a bijection between the byte strings and the strings that are decoded: what
  was encoded is decoded to the same bytes, and every string that is decoded is the encoding of its result.
\<close>

theorem encoding_exact: "decode64 s = Some bs \<longleftrightarrow> s = encode64 bs"
  using decode_encode encode_decode by auto

end
