(* ===== verification/Yescrypt.thy ===== *)
theory Yescrypt
  imports Yescrypt_Encoding
begin

text \<open>
  The hash of passwords with yescrypt, \<open>src/pkg/yescrypt/yescrypt.go\<close> and \<open>Hash\<close> of \<open>yescrypt_wrapper.go\<close>. Every access
  to a slice is checked as in the code. The buffer \<open>tmp\<close> is written before it is read in each call, so it starts
  with zeroes here, and so is the scratch space \<open>xy\<close>. HMAC, SHA-256 and PBKDF2 are parameters.
\<close>

unbundle bit_operations_syntax

section \<open>Model\<close>

subsection \<open>Slices\<close>

text \<open>
  A slice expression and an assignment panic outside the bounds, which is \<^const>\<open>None\<close>. The slices of the code all
  reach to the end of their array.
\<close>

definition slice_get :: "'a list \<Rightarrow> nat \<Rightarrow> 'a option" where
  "slice_get xs i = (if i < length xs then Some (xs ! i) else None)"

definition slice_set :: "'a list \<Rightarrow> nat \<Rightarrow> 'a \<Rightarrow> 'a list option" where
  "slice_set xs i x = (if i < length xs then Some (xs[i := x]) else None)"

definition slice_from :: "'a list \<Rightarrow> nat \<Rightarrow> 'a list option" where
  "slice_from xs i = (if i \<le> length xs then Some (drop i xs) else None)"

definition slice_to :: "'a list \<Rightarrow> nat \<Rightarrow> 'a list option" where
  "slice_to xs n = (if n \<le> length xs then Some (take n xs) else None)"

definition overwrite :: "nat \<Rightarrow> 'a list \<Rightarrow> 'a list \<Rightarrow> 'a list" where
  "overwrite i ys xs = take i xs @ ys @ drop (i + length ys) xs"

text \<open>\<open>copy(xs[i:], ys)\<close> copies as much as there is room for.\<close>

definition slice_copy :: "'a list \<Rightarrow> nat \<Rightarrow> 'a list \<Rightarrow> 'a list option" where
  "slice_copy xs i ys = (if i \<le> length xs then Some (overwrite i (take (length xs - i) ys) xs) else None)"

primrec for_each :: "('i \<Rightarrow> 's \<Rightarrow> 's option) \<Rightarrow> 'i list \<Rightarrow> 's \<Rightarrow> 's option" where
  "for_each f [] s = Some s"
| "for_each f (i # is) s = Option.bind (f i s) (for_each f is)"

subsection \<open>Blocks\<close>

type_synonym u64 = "64 word"

type_synonym u32 = "32 word"

definition blockCopy :: "u64 list \<Rightarrow> nat \<Rightarrow> u64 list \<Rightarrow> nat \<Rightarrow> u64 list option" where
  "blockCopy dst i src n = Option.bind (slice_to src n) (slice_copy dst i)"

definition blockXOR :: "u64 list \<Rightarrow> nat \<Rightarrow> u64 list \<Rightarrow> nat \<Rightarrow> u64 list option" where
  "blockXOR dst i src n =
     Option.bind (slice_to src n)
       (\<lambda>src. if i + n \<le> length dst then Some (overwrite i (map2 (XOR) (take n (drop i dst)) src) dst) else None)"

definition lo32 :: "u64 \<Rightarrow> u32" where "lo32 d = ucast d"

definition hi32 :: "u64 \<Rightarrow> u32" where "hi32 d = ucast (drop_bit 32 d)"

definition join32 :: "u32 \<Rightarrow> u32 \<Rightarrow> u64" where
  "join32 lo hi = ucast lo OR push_bit 32 (ucast hi)"

definition rotl :: "nat \<Rightarrow> u32 \<Rightarrow> u32" where
  "rotl n x = word_rotl n x"

text \<open>The words of a block in the order of the code's variables \<open>x0\<close> to \<open>x15\<close>.\<close>

definition salsa_load :: "u64 list \<Rightarrow> u32 list" where
  "salsa_load d =
     [lo32 (d ! 0), hi32 (d ! 6), lo32 (d ! 5), hi32 (d ! 3), lo32 (d ! 2), hi32 (d ! 0), lo32 (d ! 7), hi32 (d ! 5),
      lo32 (d ! 4), hi32 (d ! 2), lo32 (d ! 1), hi32 (d ! 7), lo32 (d ! 6), hi32 (d ! 4), lo32 (d ! 3), hi32 (d ! 1)]"

definition salsa_rounds :: "u32 list \<Rightarrow> u32 list" where
  "salsa_rounds xs =
     (let x0 = xs ! 0; x1 = xs ! 1; x2 = xs ! 2; x3 = xs ! 3; x4 = xs ! 4; x5 = xs ! 5; x6 = xs ! 6; x7 = xs ! 7;
          x8 = xs ! 8; x9 = xs ! 9; x10 = xs ! 10; x11 = xs ! 11; x12 = xs ! 12; x13 = xs ! 13; x14 = xs ! 14; x15 = xs ! 15;

          x4 = x4 XOR rotl 7 (x0 + x12);
          x8 = x8 XOR rotl 9 (x4 + x0);
          x12 = x12 XOR rotl 13 (x8 + x4);
          x0 = x0 XOR rotl 18 (x12 + x8);

          x9 = x9 XOR rotl 7 (x5 + x1);
          x13 = x13 XOR rotl 9 (x9 + x5);
          x1 = x1 XOR rotl 13 (x13 + x9);
          x5 = x5 XOR rotl 18 (x1 + x13);

          x14 = x14 XOR rotl 7 (x10 + x6);
          x2 = x2 XOR rotl 9 (x14 + x10);
          x6 = x6 XOR rotl 13 (x2 + x14);
          x10 = x10 XOR rotl 18 (x6 + x2);

          x3 = x3 XOR rotl 7 (x15 + x11);
          x7 = x7 XOR rotl 9 (x3 + x15);
          x11 = x11 XOR rotl 13 (x7 + x3);
          x15 = x15 XOR rotl 18 (x11 + x7);

          x1 = x1 XOR rotl 7 (x0 + x3);
          x2 = x2 XOR rotl 9 (x1 + x0);
          x3 = x3 XOR rotl 13 (x2 + x1);
          x0 = x0 XOR rotl 18 (x3 + x2);

          x6 = x6 XOR rotl 7 (x5 + x4);
          x7 = x7 XOR rotl 9 (x6 + x5);
          x4 = x4 XOR rotl 13 (x7 + x6);
          x5 = x5 XOR rotl 18 (x4 + x7);

          x11 = x11 XOR rotl 7 (x10 + x9);
          x8 = x8 XOR rotl 9 (x11 + x10);
          x9 = x9 XOR rotl 13 (x8 + x11);
          x10 = x10 XOR rotl 18 (x9 + x8);

          x12 = x12 XOR rotl 7 (x15 + x14);
          x13 = x13 XOR rotl 9 (x12 + x15);
          x14 = x14 XOR rotl 13 (x13 + x12);
          x15 = x15 XOR rotl 18 (x14 + x13)
      in [x0, x1, x2, x3, x4, x5, x6, x7, x8, x9, x10, x11, x12, x13, x14, x15])"

definition salsa_store :: "u64 list \<Rightarrow> u32 list \<Rightarrow> u64 list" where
  "salsa_store d x =
     [join32 (lo32 (d ! 0) + x ! 0) (hi32 (d ! 0) + x ! 5), join32 (lo32 (d ! 1) + x ! 10) (hi32 (d ! 1) + x ! 15),
      join32 (lo32 (d ! 2) + x ! 4) (hi32 (d ! 2) + x ! 9), join32 (lo32 (d ! 3) + x ! 14) (hi32 (d ! 3) + x ! 3),
      join32 (lo32 (d ! 4) + x ! 8) (hi32 (d ! 4) + x ! 13), join32 (lo32 (d ! 5) + x ! 2) (hi32 (d ! 5) + x ! 7),
      join32 (lo32 (d ! 6) + x ! 12) (hi32 (d ! 6) + x ! 1), join32 (lo32 (d ! 7) + x ! 6) (hi32 (d ! 7) + x ! 11)]"

definition salsa_core :: "nat \<Rightarrow> u64 list \<Rightarrow> u64 list" where
  "salsa_core rounds d = salsa_store d ((salsa_rounds ^^ ((rounds + 1) div 2)) (salsa_load d))"

text \<open>\<open>salsaXOR(tmp, in, out[i:], rounds)\<close>: the new \<open>tmp\<close>, and \<open>out\<close> with it from \<open>i\<close> on.\<close>

definition salsaXOR :: "u64 list \<Rightarrow> u64 list \<Rightarrow> u64 list \<Rightarrow> nat \<Rightarrow> nat \<Rightarrow> (u64 list \<times> u64 list) option" where
  "salsaXOR tmp inp out i rounds =
     Option.bind (slice_to inp 8)
       (\<lambda>inp. let d = salsa_core rounds (map2 (XOR) tmp inp)
              in if i + 8 \<le> length out then Some (d, overwrite i d out) else None)"

text \<open>\<open>blockMix(tmp, in, out, r)\<close>, with the result \<open>out\<close>; what \<open>tmp\<close> was before does not matter.\<close>

definition mix_step :: "u64 list \<Rightarrow> nat \<Rightarrow> nat \<Rightarrow> u64 list \<times> u64 list \<Rightarrow> (u64 list \<times> u64 list) option" where
  "mix_step inp r i = (\<lambda>(tmp, out).
     Option.bind (slice_from inp (i * 8)) (\<lambda>a.
     Option.bind (salsaXOR tmp a out (i * 4) 8) (\<lambda>(tmp, out).
     Option.bind (slice_from inp (i * 8 + 8)) (\<lambda>b.
     salsaXOR tmp b out (i * 4 + r * 8) 8))))"

definition blockMix :: "u64 list \<Rightarrow> u64 list \<Rightarrow> nat \<Rightarrow> u64 list option" where
  "blockMix inp out r =
     Option.bind (slice_from inp ((2 * r - 1) * 8)) (\<lambda>a.
     Option.bind (blockCopy (replicate 8 0) 0 a 8) (\<lambda>tmp.
     map_option snd (for_each (\<lambda>k. mix_step inp r (2 * k)) [0..<r] (tmp, out))))"

subsection \<open>Mixing with the tables\<close>

definition PWXsimple :: nat where "PWXsimple = 2"
definition PWXgather :: nat where "PWXgather = 4"
definition PWXrounds :: nat where "PWXrounds = 6"
definition Swidth :: nat where "Swidth = 8"
definition PWXbytes :: nat where "PWXbytes = PWXgather * PWXsimple * 8"
definition PWXwords :: nat where "PWXwords = PWXbytes div 8"
definition Sbytes :: nat where "Sbytes = 3 * (2 ^ Swidth) * PWXsimple * 8"
definition Swords :: nat where "Swords = Sbytes div 8"
definition Smask :: u32 where "Smask = of_nat ((2 ^ Swidth - 1) * PWXsimple * 8)"

text \<open>The three tables are slices of one array, from these places on.\<close>

record pwxformCtx =
  px_S :: "u64 list"
  px_S0 :: nat
  px_S1 :: nat
  px_S2 :: nat
  px_w :: u32

text \<open>One number with one entry of each of two tables.\<close>

definition table_index :: "u32 \<Rightarrow> nat" where
  "table_index x = unat ((x AND Smask) div 8)"

definition pw_mix :: "u64 list \<Rightarrow> nat \<Rightarrow> nat \<Rightarrow> u64 \<Rightarrow> u64 option" where
  "pw_mix S i j x =
     Option.bind (slice_get S i) (\<lambda>a.
     Option.bind (slice_get S j) (\<lambda>b. Some ((ucast (hi32 x) * ucast (lo32 x) + a) XOR b)))"

definition pw_step :: "pwxformCtx \<Rightarrow> nat \<Rightarrow> nat \<Rightarrow> u64 list \<times> u64 list \<times> u32 \<Rightarrow> (u64 list \<times> u64 list \<times> u32) option" where
  "pw_step ctx i j = (\<lambda>(X, S, w).
     let xl = table_index (lo32 (X ! (j * PWXsimple)));
         xh = table_index (hi32 (X ! (j * PWXsimple)))
     in Option.bind (pw_mix S (px_S0 ctx + xl) (px_S1 ctx + xh) (X ! (j * PWXsimple))) (\<lambda>x.
        let X = X[j * PWXsimple := x]
        in Option.bind (pw_mix S (px_S0 ctx + (xl + 1)) (px_S1 ctx + (xh + 1)) (X ! (j * PWXsimple + 1))) (\<lambda>y.
           let X = X[j * PWXsimple + 1 := y]
           in if i \<noteq> 0 \<and> i \<noteq> PWXrounds - 1
              then Option.bind (slice_set S (px_S2 ctx + unat w) x) (\<lambda>S.
                   Option.bind (slice_set S (px_S2 ctx + unat (w + 1)) y) (\<lambda>S. Some (X, S, w + 2)))
              else Some (X, S, w))))"

definition pwxform :: "u64 list \<Rightarrow> pwxformCtx \<Rightarrow> (u64 list \<times> pwxformCtx) option" where
  "pwxform X ctx =
     map_option (\<lambda>(X, S, w).
         (X, ctx\<lparr>px_S := S, px_S0 := px_S2 ctx, px_S1 := px_S0 ctx, px_S2 := px_S1 ctx,
                 px_w := w AND of_nat (2 ^ Swidth * PWXsimple - 1)\<rparr>))
       (for_each (\<lambda>i. for_each (pw_step ctx i) [0..<PWXgather]) [0..<PWXrounds] (X, px_S ctx, px_w ctx))"

definition pwx_block :: "nat \<Rightarrow> u64 list \<times> u64 list \<times> pwxformCtx \<Rightarrow> (u64 list \<times> u64 list \<times> pwxformCtx) option" where
  "pwx_block i = (\<lambda>(X, B, ctx).
     Option.bind (slice_from B (i * PWXwords)) (\<lambda>b.
     Option.bind (blockXOR X 0 b PWXwords) (\<lambda>X.
     Option.bind (pwxform X ctx) (\<lambda>(X, ctx).
     Option.bind (blockCopy B (i * PWXwords) X PWXwords) (\<lambda>B. Some (X, B, ctx))))))"

definition blockMixPwxform :: "u64 list \<Rightarrow> nat \<Rightarrow> pwxformCtx \<Rightarrow> (u64 list \<times> pwxformCtx) option" where
  "blockMixPwxform B r ctx =
     (let r1 = 128 * r div PWXbytes
      in Option.bind (slice_from B ((r1 - 1) * PWXwords)) (\<lambda>b.
         Option.bind (blockCopy (replicate PWXwords 0) 0 b PWXwords) (\<lambda>X.
         Option.bind (for_each pwx_block [0..<r1] (X, B, ctx)) (\<lambda>(X, B, ctx).
         let i = (r1 - 1) * PWXbytes div 64
         in Option.bind (slice_from B (i * PWXwords)) (\<lambda>b.
            Option.bind (salsaXOR (replicate PWXwords 0) b B (i * PWXwords) 2) (\<lambda>(X, B). Some (B, ctx)))))))"

subsection \<open>The blocks in memory\<close>

definition integer :: "u64 list \<Rightarrow> nat \<Rightarrow> u32 option" where
  "integer b r = map_option lo32 (slice_get b ((2 * r - 1) * 8))"

lemma and_pred_less:
  fixes x :: u32
  assumes "x AND (x - 1) \<noteq> 0"
  shows "unat (x AND (x - 1)) < unat x"
proof -
  have "x \<noteq> 0" using assms by auto
  then have "unat (x - 1) < unat x" using unat_minus_one [of x] by (simp add: unat_gt_0)
  moreover have "x AND (x - 1) \<le> x - 1" by (rule word_and_le1)
  ultimately show ?thesis by (simp only: word_le_nat_alt)
qed

function p2floor :: "u32 \<Rightarrow> u32" where
  "p2floor x = (if x AND (x - 1) \<noteq> 0 then p2floor (x AND (x - 1)) else x)"
  by auto
termination
  by (relation "measure unat", rule wf_measure, simp only: in_measure, rule and_pred_less)

definition wrap :: "u32 \<Rightarrow> u32 \<Rightarrow> u32" where
  "wrap x i = (let n = p2floor i in (x AND (n - 1)) + (i - n))"

text \<open>The byte of the buffer where the number \<open>j div 4\<close> of a block is kept.\<close>

definition shuffled :: "nat \<Rightarrow> nat" where
  "shuffled j = (j div 64 * 64) + (j * 5) mod 64"

definition Uint32 :: "bytes \<Rightarrow> nat \<Rightarrow> u32 option" where
  "Uint32 b i =
     (if i + 4 \<le> length b
      then Some (ucast (b ! i) OR push_bit 8 (ucast (b ! (i + 1))) OR push_bit 16 (ucast (b ! (i + 2))) OR
                 push_bit 24 (ucast (b ! (i + 3))))
      else None)"

definition PutUint32 :: "bytes \<Rightarrow> nat \<Rightarrow> u32 \<Rightarrow> bytes option" where
  "PutUint32 b i x =
     (if i + 4 \<le> length b
      then Some (overwrite i [ucast x, ucast (drop_bit 8 x), ucast (drop_bit 16 x), ucast (drop_bit 24 x)] b)
      else None)"

definition load_words :: "bytes \<Rightarrow> nat \<Rightarrow> u64 list \<Rightarrow> u64 list option" where
  "load_words b R x =
     for_each (\<lambda>i x.
         Option.bind (Uint32 b (shuffled (8 * i))) (\<lambda>lo.
         Option.bind (Uint32 b (shuffled (8 * i + 4))) (\<lambda>hi. slice_set x i (join32 lo hi))))
       [0..<R] x"

definition store_words :: "u64 list \<Rightarrow> nat \<Rightarrow> bytes \<Rightarrow> bytes option" where
  "store_words x R b =
     Option.bind (slice_to x R) (\<lambda>x.
     for_each (\<lambda>i b.
         Option.bind (PutUint32 b (shuffled (8 * i)) (lo32 (x ! i))) (\<lambda>b.
         PutUint32 b (shuffled (8 * i + 4)) (hi32 (x ! i))))
       [0..<R] b)"

text \<open>The memory \<open>v\<close> is filled, and read back in an order that depends on it.\<close>

definition fill_step :: "nat \<Rightarrow> nat \<Rightarrow> u64 list \<times> u64 list \<times> pwxformCtx \<Rightarrow> (u64 list \<times> u64 list \<times> pwxformCtx) option" where
  "fill_step r i = (\<lambda>(v, x, ctx).
     let R = 16 * r
     in Option.bind (blockCopy v (i * R) x R) (\<lambda>v.
        Option.bind (if i > 1
              then Option.bind (integer x r) (\<lambda>n.
                   let j = unat (wrap n (of_nat i)) in Option.bind (slice_from v (j * R)) (\<lambda>a. blockXOR x 0 a R))
              else Some x) (\<lambda>x.
        map_option (\<lambda>(x, ctx). (v, x, ctx)) (blockMixPwxform x r ctx))))"

definition mem_step :: "nat \<Rightarrow> nat \<Rightarrow> nat \<Rightarrow> u64 list \<times> u64 list \<times> pwxformCtx \<Rightarrow> (u64 list \<times> u64 list \<times> pwxformCtx) option" where
  "mem_step r N k = (\<lambda>(v, x, ctx).
     let R = 16 * r
     in Option.bind (integer x r) (\<lambda>n.
        let j = unat (n AND of_nat (N - 1))
        in Option.bind (slice_from v (j * R)) (\<lambda>a.
           Option.bind (blockXOR x 0 a R) (\<lambda>x.
           Option.bind (blockCopy v (j * R) x R) (\<lambda>v.
           map_option (\<lambda>(x, ctx). (v, x, ctx)) (blockMixPwxform x r ctx))))))"

definition classic_fill :: "nat \<Rightarrow> nat \<Rightarrow> u64 list \<times> u64 list \<times> u64 list \<Rightarrow> (u64 list \<times> u64 list \<times> u64 list) option" where
  "classic_fill r i = (\<lambda>(v, x, y).
     let R = 16 * r
     in Option.bind (blockCopy v (i * R) x R) (\<lambda>v.
        Option.bind (blockMix x y r) (\<lambda>y.
        Option.bind (blockCopy v ((i + 1) * R) y R) (\<lambda>v.
        map_option (\<lambda>x. (v, x, y)) (blockMix y x r)))))"

definition classic_mem :: "nat \<Rightarrow> nat \<Rightarrow> u64 list \<Rightarrow> nat \<Rightarrow> u64 list \<times> u64 list \<Rightarrow> (u64 list \<times> u64 list) option" where
  "classic_mem r N v k = (\<lambda>(x, y).
     let R = 16 * r
     in Option.bind (integer x r) (\<lambda>n.
        Option.bind (slice_from v (unat (n AND of_nat (N - 1)) * R)) (\<lambda>a.
        Option.bind (blockXOR x 0 a R) (\<lambda>x.
        Option.bind (blockMix x y r) (\<lambda>y.
        Option.bind (integer y r) (\<lambda>n.
        Option.bind (slice_from v (unat (n AND of_nat (N - 1)) * R)) (\<lambda>a.
        Option.bind (blockXOR y 0 a R) (\<lambda>y.
        map_option (\<lambda>x. (x, y)) (blockMix y x r)))))))))"

text \<open>
  \<open>smix\<close>: the buffer, the memory and the context after it. The two halves \<open>x\<close> and \<open>y\<close> of the scratch space are separate
  here; \<open>x\<close> is used up to its length only. The tables of no context are left out.
\<close>

definition smix_classic :: "bytes \<Rightarrow> nat \<Rightarrow> nat \<Rightarrow> nat \<Rightarrow> u64 list \<Rightarrow> u64 list \<Rightarrow> (bytes \<times> u64 list) option" where
  "smix_classic b r N Nloop v xy =
     (let R = 16 * r
      in Option.bind (slice_from xy R) (\<lambda>y.
         Option.bind (load_words b R (take R xy)) (\<lambda>x.
         Option.bind (for_each (\<lambda>k. classic_fill r (2 * k)) [0..<(N + 1) div 2] (v, x, y)) (\<lambda>(v, x, y).
         Option.bind (for_each (classic_mem r N v) [0..<(Nloop + 1) div 2] (x, y)) (\<lambda>(x, y).
         map_option (\<lambda>b. (b, v)) (store_words x R b))))))"

definition smix_pwx ::
  "bytes \<Rightarrow> nat \<Rightarrow> nat \<Rightarrow> nat \<Rightarrow> u64 list \<Rightarrow> u64 list \<Rightarrow> pwxformCtx \<Rightarrow> (bytes \<times> u64 list) option" where
  "smix_pwx b r N Nloop v xy ctx =
     (let R = 16 * r
      in Option.bind (slice_from xy R) (\<lambda>y.
         Option.bind (load_words b R (take R xy)) (\<lambda>x.
         Option.bind (for_each (fill_step r) [0..<N] (v, x, ctx)) (\<lambda>s.
         Option.bind (for_each (mem_step r N) [0..<Nloop] s) (\<lambda>(v, x, ctx).
         map_option (\<lambda>b. (b, v)) (store_words x R b))))))"

subsection \<open>Keys\<close>

text \<open>The hash functions of the libraries.\<close>

record hashes =
  hmac_sha256 :: "bytes \<Rightarrow> bytes \<Rightarrow> bytes"
  sha256 :: "bytes \<Rightarrow> bytes"
  pbkdf2 :: "bytes \<Rightarrow> bytes \<Rightarrow> nat \<Rightarrow> nat \<Rightarrow> bytes"

definition smixYescrypt ::
  "hashes \<Rightarrow> bytes \<Rightarrow> nat \<Rightarrow> nat \<Rightarrow> u64 list \<Rightarrow> u64 list \<Rightarrow> bytes \<Rightarrow> (bytes \<times> u64 list \<times> bytes) option" where
  "smixYescrypt H b r N v xy passwordSha256 =
     Option.bind (smix_classic b 1 (Sbytes div 128) 0 (replicate Swords 0) xy) (\<lambda>(b, S).
     Option.bind (slice_from b (64 * (2 * r - 1))) (\<lambda>k.
     Option.bind (slice_copy passwordSha256 0 (hmac_sha256 H k passwordSha256)) (\<lambda>passwordSha256.
     map_option (\<lambda>(b, v). (b, v, passwordSha256))
       (smix_pwx b r N (((N + 2) div 3 + 1) div 2 * 2) v xy
         \<lparr>px_S = S, px_S0 = 2 ^ Swidth * PWXsimple * 2, px_S1 = 2 ^ Swidth * PWXsimple, px_S2 = 0, px_w = 0\<rparr>))))"

datatype key_error = BadN | BadR | BadP | TooLarge

definition maxInt :: int where "maxInt = 2 ^ 63 - 1"

definition check_params :: "int \<Rightarrow> int \<Rightarrow> int \<Rightarrow> bool \<Rightarrow> key_error option" where
  "check_params N r p isYescrypt =
     (if N \<le> 1 \<or> N AND (N - 1) \<noteq> 0 then Some BadN
      else if r \<le> 0 then Some BadR
      else if isYescrypt \<and> p \<noteq> 1 then Some BadP
      else if p \<le> 0 then Some BadP
      else if (r * p) mod 2 ^ 64 \<ge> 2 ^ 30 \<or> r > maxInt div 128 div p \<or> r > maxInt div 256 \<or> N > maxInt div 128 div r
      then Some TooLarge
      else None)"

definition prehash :: "string \<Rightarrow> bytes" where
  "prehash s = map of_char s"

text \<open>The body of the loop for yescrypt: the password as it is left in the buffer, the memory and the key.\<close>

definition yescrypt_pass ::
  "hashes \<Rightarrow> string \<Rightarrow> bytes \<Rightarrow> nat \<Rightarrow> nat \<Rightarrow> nat \<Rightarrow> u64 list \<Rightarrow> u64 list \<Rightarrow> bytes \<Rightarrow> (bytes \<times> u64 list \<times> bytes) option" where
  "yescrypt_pass H pre salt N r keyLen v xy password =
     (let password = hmac_sha256 H (prehash pre) password;
          b = pbkdf2 H password salt 1 (128 * r)
      in Option.bind (slice_to b 32) (\<lambda>b32.
         Option.bind (slice_copy password 0 b32) (\<lambda>password.
         map_option (\<lambda>(b, v, password). (password, v, pbkdf2 H password b 1 (max keyLen 32)))
           (smixYescrypt H b r N v xy password))))"

definition yescrypt_key ::
  "hashes \<Rightarrow> bytes \<Rightarrow> bytes \<Rightarrow> nat \<Rightarrow> nat \<Rightarrow> nat \<Rightarrow> bytes option" where
  "yescrypt_key H password salt N r keyLen =
     (let v = replicate (16 * N * r) 0; xy = replicate (16 * max r 2) 0
      in Option.bind
           (if N \<ge> 256 \<and> N * r \<ge> 131072
            then Option.bind (yescrypt_pass H ''yescrypt-prehash'' salt (N div 64) r keyLen v xy password) (\<lambda>(password, v, key).
                 Option.bind (slice_to key 32) (\<lambda>k. map_option (\<lambda>password. (password, v)) (slice_copy password 0 k)))
            else Some (password, v))
           (\<lambda>(password, v).
         Option.bind (yescrypt_pass H ''yescrypt'' salt N r keyLen v xy password) (\<lambda>(_, _, key).
         Option.bind (slice_to key 32) (\<lambda>k.
         Option.bind (slice_copy key 0 (sha256 H (hmac_sha256 H k (prehash ''Client Key'')))) (\<lambda>key.
         slice_to key keyLen)))))"

definition scrypt_key :: "hashes \<Rightarrow> bytes \<Rightarrow> bytes \<Rightarrow> nat \<Rightarrow> nat \<Rightarrow> nat \<Rightarrow> nat \<Rightarrow> bytes option" where
  "scrypt_key H password salt N r p keyLen =
     (let b = pbkdf2 H password salt 1 (p * 128 * r)
      in Option.bind
           (for_each (\<lambda>i (b, v).
               Option.bind (slice_from b (i * 128 * r)) (\<lambda>part.
               Option.bind (smix_classic part r N N v (replicate (32 * r) 0)) (\<lambda>(part, v).
               Some (overwrite (i * 128 * r) part b, v))))
             [0..<p] (b, replicate (16 * N * r) 0))
           (\<lambda>(b, _). slice_to (pbkdf2 H password b 1 (max keyLen 32)) keyLen))"

definition deriveKey ::
  "hashes \<Rightarrow> bytes \<Rightarrow> bytes \<Rightarrow> int \<Rightarrow> int \<Rightarrow> int \<Rightarrow> nat \<Rightarrow> bool \<Rightarrow> (key_error + bytes) option" where
  "deriveKey H password salt N r p keyLen isYescrypt =
     (case check_params N r p isYescrypt of
        Some e \<Rightarrow> Some (Inl e)
      | None \<Rightarrow>
          map_option Inr
            (if isYescrypt then yescrypt_key H password salt (nat N) (nat r) keyLen
             else scrypt_key H password salt (nat N) (nat r) (nat p) keyLen))"

definition ScryptKey ::
  "hashes \<Rightarrow> bytes \<Rightarrow> bytes \<Rightarrow> int \<Rightarrow> int \<Rightarrow> int \<Rightarrow> nat \<Rightarrow> (key_error + bytes) option" where
  "ScryptKey H password salt N r p keyLen = deriveKey H password salt N r p keyLen False"

definition Key :: "hashes \<Rightarrow> bytes \<Rightarrow> bytes \<Rightarrow> int \<Rightarrow> int \<Rightarrow> int \<Rightarrow> nat \<Rightarrow> (key_error + bytes) option" where
  "Key H password salt N r p keyLen = deriveKey H password salt N r p keyLen True"

subsection \<open>Hashes of passwords\<close>

datatype hash_error = UnsupportedParameters | NOutOfRange | ROutOfRange | BadSalt | KeyError key_error

text \<open>The last dollar sign of the setting, and where the salt ends.\<close>

definition LastIndexByte :: "bytes \<Rightarrow> 8 word \<Rightarrow> nat option" where
  "LastIndexByte b c = (case filter (\<lambda>i. b ! i = c) [0..<length b] of [] \<Rightarrow> None | is \<Rightarrow> Some (last is))"

definition salt_end :: "bytes \<Rightarrow> nat" where
  "salt_end setting =
     (case LastIndexByte setting 36 of Some i \<Rightarrow> if i < 7 then length setting else i | None \<Rightarrow> length setting)"

definition HashPassword :: "hashes \<Rightarrow> bytes \<Rightarrow> bytes \<Rightarrow> (hash_error + bytes) option" where
  "HashPassword H password setting =
     (if length setting < 7 \<or> take 4 setting \<noteq> map of_char ''$y$j'' \<or> setting ! 6 \<noteq> 36 then Some (Inl UnsupportedParameters)
      else
        (let Nlog2 = atoi64 (setting ! 4) + 1; r = atoi64 (setting ! 5) + 1
         in if Nlog2 < 10 \<or> Nlog2 > 18 then Some (Inl NOutOfRange)
            else if r < 1 \<or> r > 32 then Some (Inl ROutOfRange)
            else
              (case decode64 (drop 7 (take (salt_end setting) setting)) of
                 None \<Rightarrow> Some (Inl BadSalt)
               | Some salt \<Rightarrow>
                   map_option (\<lambda>k. case k of
                       Inl e \<Rightarrow> Inl (KeyError e)
                     | Inr key \<Rightarrow> Inr (take (salt_end setting) setting @ [36] @ encode64 key))
                     (Key H password salt (2 ^ Nlog2) (int r) 1 32))))"
section \<open>Lemmas\<close>

subsection \<open>Loops and slices\<close>

lemma for_each_inv:
  assumes "P 0 s" "\<And>k s. k < n \<Longrightarrow> P k s \<Longrightarrow> \<exists>s'. f k s = Some s' \<and> P (Suc k) s'"
  shows "\<exists>s'. for_each f [0..<n] s = Some s' \<and> P n s'"
proof -
  have app: "for_each f (xs @ ys) t = Option.bind (for_each f xs t) (for_each f ys)" for xs ys t
    by (induction xs arbitrary: t) (auto simp: bind_eq_None_conv split: bind_splits)
  show ?thesis using assms
  proof (induction n)
    case (Suc n)
    then obtain t where "for_each f [0..<n] s = Some t \<and> P n t" by (meson less_SucI)
    then show ?case using Suc.prems(2) [of n t] by (auto simp: app)
  qed simp
qed

lemma length_overwrite [simp]: "i + length ys \<le> length xs \<Longrightarrow> length (overwrite i ys xs) = length xs"
  by (simp add: overwrite_def)

lemma slice_copy_ok: "i \<le> length xs \<Longrightarrow> \<exists>ys'. slice_copy xs i ys = Some ys' \<and> length ys' = length xs"
  by (auto simp: slice_copy_def overwrite_def)

lemma blockCopy_ok:
  "i \<le> length dst \<Longrightarrow> n \<le> length src \<Longrightarrow> \<exists>dst'. blockCopy dst i src n = Some dst' \<and> length dst' = length dst"
  by (simp add: blockCopy_def slice_to_def slice_copy_ok)

lemma blockXOR_ok:
  "i + n \<le> length dst \<Longrightarrow> n \<le> length src \<Longrightarrow> \<exists>dst'. blockXOR dst i src n = Some dst' \<and> length dst' = length dst"
  by (simp add: blockXOR_def slice_to_def)

lemma length_salsa_core [simp]: "length (salsa_core rounds d) = 8"
  by (simp add: salsa_core_def salsa_store_def)

lemma salsaXOR_ok:
  "8 \<le> length inp \<Longrightarrow> i + 8 \<le> length out \<Longrightarrow>
   \<exists>tmp' out'. salsaXOR tmp inp out i rounds = Some (tmp', out') \<and> length out' = length out"
  by (simp add: salsaXOR_def slice_to_def Let_def)

lemma blockMix_ok:
  assumes "0 < r" "16 * r \<le> length inp" "16 * r \<le> length out"
  shows "\<exists>out'. blockMix inp out r = Some out' \<and> length out' = length out"
proof -
  have a: "(2 * r - 1) * 8 + 8 \<le> length inp" using assms by (simp add: algebra_simps)
  then have d: "8 \<le> length (drop ((2 * r - 1) * 8) inp)" by simp
  obtain tmp where t: "blockCopy (replicate 8 0) 0 (drop ((2 * r - 1) * 8) inp) 8 = Some tmp"
    using blockCopy_ok [OF _ d, of 0 "replicate 8 0"] by blast
  have "\<exists>s. for_each (\<lambda>k. mix_step inp r (2 * k)) [0..<r] (tmp, out) = Some s \<and> length (snd s) = length out"
  proof (rule for_each_inv [where P = "\<lambda>k s. length (snd s) = length out"])
    fix k and s :: "u64 list \<times> u64 list" assume k: "k < r" and s: "length (snd s) = length out"
    obtain tmp out1 where e: "s = (tmp, out1)" by (cases s)
    have i: "2 * k * 8 + 16 \<le> 16 * r" using k by simp
    then have d: "8 \<le> length (drop (2 * k * 8) inp)" "8 \<le> length (drop (2 * k * 8 + 8) inp)"
      using assms(2) by simp_all
    obtain tmp2 out2 where 2: "salsaXOR tmp (drop (2 * k * 8) inp) out1 (2 * k * 4) 8 = Some (tmp2, out2)" "length out2 = length out"
      using salsaXOR_ok [OF d(1), of "2 * k * 4" out1 tmp 8] i s e assms by force
    obtain tmp3 out3 where 3: "salsaXOR tmp2 (drop (2 * k * 8 + 8) inp) out2 (2 * k * 4 + r * 8) 8 = Some (tmp3, out3)" "length out3 = length out"
      using salsaXOR_ok [OF d(2), of "2 * k * 4 + r * 8" out2 tmp2 8] i 2 assms by force
    show "\<exists>s'. mix_step inp r (2 * k) s = Some s' \<and> length (snd s') = length out"
      using i assms 2 3 by (simp add: mix_step_def e slice_from_def)
  qed simp
  then show ?thesis using a t by (auto simp: blockMix_def slice_from_def)
qed

subsection \<open>The tables\<close>

lemmas pw_sizes = PWXsimple_def PWXgather_def PWXrounds_def Swidth_def PWXbytes_def PWXwords_def Sbytes_def Swords_def

lemma table_index_le: "table_index x \<le> 510"
proof -
  have "x AND Smask \<le> 4080" using word_and_le1 [of x Smask] by (simp add: Smask_def pw_sizes)
  then have "unat (x AND Smask) \<le> 4080" by (simp add: word_le_nat_alt)
  then show ?thesis by (simp add: table_index_def unat_div)
qed

text \<open>
  The three tables are the thirds of the array in some order, and the place to write is a multiple of 32 in the third
  one: the 32 numbers that one call writes fit into it.
\<close>

definition tables_ok :: "pwxformCtx \<Rightarrow> bool" where
  "tables_ok ctx \<longleftrightarrow>
     length (px_S ctx) = Swords \<and> distinct [px_S0 ctx, px_S1 ctx, px_S2 ctx] \<and>
     {px_S0 ctx, px_S1 ctx, px_S2 ctx} = {0, 512, 1024} \<and> unat (px_w ctx) < 512 \<and> unat (px_w ctx) mod 32 = 0"

lemma tables_okD:
  assumes "tables_ok ctx"
  shows "length (px_S ctx) = 1536" "px_S0 ctx \<le> 1024" "px_S1 ctx \<le> 1024" "px_S2 ctx \<le> 1024" "unat (px_w ctx) + 32 \<le> 512"
proof -
  have "{px_S0 ctx, px_S1 ctx, px_S2 ctx} = {0, 512, 1024}" using assms by (simp add: tables_ok_def)
  then have "\<forall>x\<in>{px_S0 ctx, px_S1 ctx, px_S2 ctx}. x \<le> 1024" by simp
  then show "length (px_S ctx) = 1536" "px_S0 ctx \<le> 1024" "px_S1 ctx \<le> 1024" "px_S2 ctx \<le> 1024"
    using assms by (auto simp: tables_ok_def pw_sizes)
  obtain q where "unat (px_w ctx) = 32 * q" using assms by (auto simp: tables_ok_def mod_eq_0_iff_dvd)
  then show "unat (px_w ctx) + 32 \<le> 512" using assms by (simp add: tables_ok_def)
qed

lemma pw_mix_ok: "i < length S \<Longrightarrow> j < length S \<Longrightarrow> \<exists>y. pw_mix S i j x = Some y"
  by (simp add: pw_mix_def slice_get_def)

text \<open>One step writes, if at all, two numbers at the place \<open>w\<close> of the third table, and nothing else.\<close>

definition writes :: "nat \<Rightarrow> bool" where
  "writes i \<longleftrightarrow> i \<noteq> 0 \<and> i \<noteq> PWXrounds - 1"

lemma pw_mixes:
  assumes "length S = 1536" "px_S0 ctx \<le> 1024" "px_S1 ctx \<le> 1024"
  shows "\<exists>z. pw_mix S (px_S0 ctx + table_index u) (px_S1 ctx + table_index v) x = Some z"
    "\<exists>z. pw_mix S (px_S0 ctx + (table_index u + 1)) (px_S1 ctx + (table_index v + 1)) x = Some z"
  using table_index_le [of u] table_index_le [of v] assms by (intro pw_mix_ok; simp)+

lemma pw_step_quiet:
  assumes "length S = 1536" "px_S0 ctx \<le> 1024" "px_S1 ctx \<le> 1024" "length X = 8" "j < 4" "\<not> writes i"
  shows "\<exists>X'. pw_step ctx i j (X, S, w) = Some (X', S, w) \<and> length X' = 8"
proof -
  obtain x where x: "pw_mix S (px_S0 ctx + table_index (lo32 (X ! (j * PWXsimple)))) (px_S1 ctx + table_index (hi32 (X ! (j * PWXsimple))))
      (X ! (j * PWXsimple)) = Some x"
    using pw_mixes(1) [OF assms(1-3)] by blast
  obtain y where y: "pw_mix S (px_S0 ctx + (table_index (lo32 (X ! (j * PWXsimple))) + 1)) (px_S1 ctx + (table_index (hi32 (X ! (j * PWXsimple))) + 1))
      (X[j * PWXsimple := x] ! (j * PWXsimple + 1)) = Some y"
    using pw_mixes(2) [OF assms(1-3)] by blast
  show ?thesis using x y assms(4,6) unfolding writes_def by (auto simp: pw_step_def Let_def)
qed

lemma pw_step_ok:
  assumes "length S = 1536" "px_S0 ctx \<le> 1024" "px_S1 ctx \<le> 1024" "px_S2 ctx \<le> 1024" "length X = 8" "j < 4" "unat w + 2 \<le> 512"
  shows "writes i \<Longrightarrow> \<exists>X' S' w'. pw_step ctx i j (X, S, w) = Some (X', S', w') \<and> length X' = 8 \<and> length S' = 1536 \<and>
    unat w' = unat w + 2 \<and> (\<forall>k. \<not> (px_S2 ctx + unat w \<le> k \<and> k < px_S2 ctx + unat w + 2) \<longrightarrow> S' ! k = S ! k)"
proof -
  assume i: "writes i"
  let ?xl = "table_index (lo32 (X ! (j * PWXsimple)))" and ?xh = "table_index (hi32 (X ! (j * PWXsimple)))"
  obtain x where x: "pw_mix S (px_S0 ctx + ?xl) (px_S1 ctx + ?xh) (X ! (j * PWXsimple)) = Some x"
    using pw_mixes(1) [OF assms(1-3)] by blast
  obtain y where y: "pw_mix S (px_S0 ctx + (?xl + 1)) (px_S1 ctx + (?xh + 1)) (X[j * PWXsimple := x] ! (j * PWXsimple + 1)) = Some y"
    using pw_mixes(2) [OF assms(1-3)] by blast
  have w: "unat (w + 1) = unat w + 1" "unat (w + 2) = unat w + 2"
    using assms(7) by (simp_all add: unat_word_ariths)
  define k where "k = px_S2 ctx + unat w"
  have k: "k + 1 < 1536" using assms(4,7) by (simp add: k_def)
  have "pw_step ctx i j (X, S, w) = Some (X[j * PWXsimple := x, j * PWXsimple + 1 := y], S[k := x, k + 1 := y], w + 2)"
    using x y i k w(1) assms(1) unfolding writes_def by (simp add: pw_step_def Let_def slice_set_def k_def)
  moreover have "\<forall>l. \<not> (k \<le> l \<and> l < k + 2) \<longrightarrow> S[k := x, k + 1 := y] ! l = S ! l"
    by (auto simp: nth_list_update)
  ultimately show ?thesis using w(2) assms(1,5) by (simp add: k_def)
qed

text \<open>The state after \<open>m\<close> numbers were written: only the part that is written to has changed.\<close>

definition pw_state :: "pwxformCtx \<Rightarrow> nat \<Rightarrow> u64 list \<times> u64 list \<times> u32 \<Rightarrow> bool" where
  "pw_state ctx m = (\<lambda>(X, S, w). length X = 8 \<and> length S = 1536 \<and> unat w = unat (px_w ctx) + m \<and>
     (\<forall>k. \<not> (px_S2 ctx + unat (px_w ctx) \<le> k \<and> k < px_S2 ctx + unat (px_w ctx) + 32) \<longrightarrow> S ! k = px_S ctx ! k))"

lemma pw_step_state:
  assumes "tables_ok ctx" "pw_state ctx m s" "m + 2 \<le> 32 \<or> \<not> writes i \<and> m \<le> 32" "j < 4"
  shows "\<exists>s'. pw_step ctx i j s = Some s' \<and> pw_state ctx (if writes i then m + 2 else m) s'"
proof -
  note t = tables_okD [OF assms(1)]
  obtain X S w where e: "s = (X, S, w)" by (cases s)
  have p: "length X = 8" "length S = 1536" "unat w = unat (px_w ctx) + m" using assms(2) by (simp_all add: e pw_state_def)
  show ?thesis
  proof (cases "writes i")
    case True
    then have w: "unat w + 2 \<le> 512" "unat w + 2 \<le> unat (px_w ctx) + 32" using assms(3) p(3) t(5) by auto
    from pw_step_ok [OF p(2) t(2-4) p(1) assms(4) w(1), of i] True
    obtain X' S' w' where st: "pw_step ctx i j s = Some (X', S', w')" "length X' = 8" "length S' = 1536" "unat w' = unat w + 2"
      "\<forall>k. \<not> (px_S2 ctx + unat w \<le> k \<and> k < px_S2 ctx + unat w + 2) \<longrightarrow> S' ! k = S ! k" by (auto simp: e)
    then show ?thesis using assms(2) p(3) w True by (auto simp: e pw_state_def)
  next
    case False
    then have "\<exists>X'. pw_step ctx i j s = Some (X', S, w) \<and> length X' = 8"
      using pw_step_quiet [OF p(2) t(2-3) p(1) assms(4)] by (simp add: e)
    then show ?thesis using assms(2) False by (auto simp: e pw_state_def)
  qed
qed

lemma pw_gather_state:
  assumes "tables_ok ctx" "pw_state ctx m s" "m + 8 \<le> 32 \<or> \<not> writes i \<and> m \<le> 32"
  shows "\<exists>s'. for_each (pw_step ctx i) [0..<PWXgather] s = Some s' \<and> pw_state ctx (if writes i then m + 8 else m) s'"
proof -
  have "\<exists>s'. for_each (pw_step ctx i) [0..<PWXgather] s = Some s' \<and> pw_state ctx (if writes i then m + 2 * PWXgather else m) s'"
  proof (rule for_each_inv [where P = "\<lambda>j. pw_state ctx (if writes i then m + 2 * j else m)"])
    fix j s assume j: "j < PWXgather" and p: "pw_state ctx (if writes i then m + 2 * j else m) s"
    have "j < 4" "(if writes i then m + 2 * j else m) + 2 \<le> 32 \<or> \<not> writes i \<and> (if writes i then m + 2 * j else m) \<le> 32"
      using j assms(3) by (auto simp: pw_sizes)
    from pw_step_state [OF assms(1) p this(2,1)]
    show "\<exists>s'. pw_step ctx i j s = Some s' \<and> pw_state ctx (if writes i then m + 2 * Suc j else m) s'"
      by (auto split: if_splits)
  qed (use assms(2) in simp)
  moreover have "2 * PWXgather = 8" by (simp add: pw_sizes)
  ultimately show ?thesis by (simp only:)
qed

lemma pwxform_ok:
  assumes "tables_ok ctx" "length X = 8"
  shows "\<exists>X' ctx'. pwxform X ctx = Some (X', ctx') \<and> length X' = 8 \<and> tables_ok ctx' \<and>
    (\<forall>k. \<not> (px_S2 ctx + unat (px_w ctx) \<le> k \<and> k < px_S2 ctx + unat (px_w ctx) + 32) \<longrightarrow> px_S ctx' ! k = px_S ctx ! k)"
proof -
  define n where "n i = (if i \<le> 1 then 0 else if i \<le> 4 then 8 * (i - 1) else 32)" for i :: nat
  have "\<exists>s'. for_each (\<lambda>i. for_each (pw_step ctx i) [0..<PWXgather]) [0..<PWXrounds] (X, px_S ctx, px_w ctx) = Some s' \<and>
      pw_state ctx (n PWXrounds) s'"
  proof (rule for_each_inv [where P = "\<lambda>i. pw_state ctx (n i)"])
    show "pw_state ctx (n 0) (X, px_S ctx, px_w ctx)" using assms tables_okD [OF assms(1)] by (simp add: pw_state_def n_def)
    fix i s assume i: "i < PWXrounds" and p: "pw_state ctx (n i) s"
    have "i = 0 \<or> i = 1 \<or> i = 2 \<or> i = 3 \<or> i = 4 \<or> i = 5" using i unfolding pw_sizes by linarith
    then have q: "n i + 8 \<le> 32 \<or> \<not> writes i \<and> n i \<le> 32" "(if writes i then n i + 8 else n i) = n (Suc i)"
      by (elim disjE; simp add: n_def writes_def pw_sizes)+
    then show "\<exists>s'. for_each (pw_step ctx i) [0..<PWXgather] s = Some s' \<and> pw_state ctx (n (Suc i)) s'"
      using pw_gather_state [OF assms(1) p q(1)] by (simp only: q(2))
  qed
  then obtain X' S' w' where s: "for_each (\<lambda>i. for_each (pw_step ctx i) [0..<PWXgather]) [0..<PWXrounds] (X, px_S ctx, px_w ctx) = Some (X', S', w')"
    "pw_state ctx 32 (X', S', w')" by (auto simp: n_def pw_sizes)
  have w: "unat w' = unat (px_w ctx) + 32" using s(2) by (simp add: pw_state_def)
  have "w' AND 511 = of_nat ((unat (px_w ctx) + 32) mod 512)"
  proof -
    have m: "(511 :: u32) = mask 9" by (simp add: mask_eq_exp_minus_1)
    have "unat (take_bit 9 w') = (unat (px_w ctx) + 32) mod 512"
      by (simp only: unsigned_take_bit_eq w) (simp add: take_bit_eq_mod)
    then have "unat (w' AND 511) = (unat (px_w ctx) + 32) mod 512" by (simp add: m take_bit_eq_mask)
    then show ?thesis by (metis of_nat_unat ucast_id)
  qed
  moreover have rot: "{px_S2 ctx, px_S0 ctx, px_S1 ctx} = {px_S0 ctx, px_S1 ctx, px_S2 ctx}" by auto
  ultimately have "tables_ok (ctx\<lparr>px_S := S', px_S0 := px_S2 ctx, px_S1 := px_S0 ctx, px_S2 := px_S1 ctx, px_w := w' AND 511\<rparr>)"
    using assms(1) s(2) rot by (simp add: tables_ok_def pw_state_def pw_sizes unat_of_nat mod_mod_cancel take_bit_nat_def mod_add_eq)
  then show ?thesis using s by (auto simp: pwxform_def pw_sizes pw_state_def)
qed

lemma pwx_block_ok:
  assumes "tables_ok ctx" "length X = 8" "i * 8 + 8 \<le> length B"
  shows "\<exists>X' B' ctx'. pwx_block i (X, B, ctx) = Some (X', B', ctx') \<and> length X' = 8 \<and> length B' = length B \<and> tables_ok ctx'"
proof -
  have d: "PWXwords \<le> length (drop (i * 8) B)" "0 + PWXwords \<le> length X" using assms by (simp_all add: pw_sizes)
  obtain X1 where 1: "blockXOR X 0 (drop (i * 8) B) PWXwords = Some X1" "length X1 = 8"
    using blockXOR_ok [OF d(2,1)] assms by auto
  obtain X2 ctx' where 2: "pwxform X1 ctx = Some (X2, ctx')" "length X2 = 8" "tables_ok ctx'"
    using pwxform_ok [OF assms(1) 1(2)] by blast
  have e: "i * 8 \<le> length B" "PWXwords \<le> length X2" using assms 2 by (simp_all add: pw_sizes)
  obtain B' where "blockCopy B (i * 8) X2 PWXwords = Some B'" "length B' = length B"
    using blockCopy_ok [OF e] by blast
  then show ?thesis using 1 2 assms by (simp add: pwx_block_def slice_from_def pw_sizes)
qed

lemma blockMixPwxform_ok:
  assumes "tables_ok ctx" "0 < r" "16 * r \<le> length B"
  shows "\<exists>B' ctx'. blockMixPwxform B r ctx = Some (B', ctx') \<and> length B' = length B \<and> tables_ok ctx'"
proof -
  have r1: "128 * r div PWXbytes = 2 * r" by (simp add: pw_sizes)
  have l: "(2 * r - 1) * 8 + 8 \<le> length B" using assms by (simp add: algebra_simps)
  then have d: "8 \<le> length (drop ((2 * r - 1) * 8) B)" by simp
  obtain X where X: "blockCopy (replicate PWXwords 0) 0 (drop ((2 * r - 1) * 8) B) PWXwords = Some X" "length X = 8"
    using blockCopy_ok [of 0 "replicate PWXwords 0" PWXwords "drop ((2 * r - 1) * 8) B"] d by (auto simp: pw_sizes)
  have "\<exists>s. for_each pwx_block [0..<2 * r] (X, B, ctx) = Some s \<and>
      (case s of (X, B', ctx) \<Rightarrow> length X = 8 \<and> length B' = length B \<and> tables_ok ctx)"
  proof (rule for_each_inv [where P = "\<lambda>i (X, B', ctx). length X = 8 \<and> length B' = length B \<and> tables_ok ctx"])
    fix i and s :: "u64 list \<times> u64 list \<times> pwxformCtx" assume i: "i < 2 * r" and p: "case s of (X, B', ctx) \<Rightarrow> length X = 8 \<and> length B' = length B \<and> tables_ok ctx"
    obtain X1 B1 c1 where e: "s = (X1, B1, c1)" by (cases s)
    have "i * 8 + 8 \<le> length B1" using i p assms(3) by (simp add: e)
    from pwx_block_ok [OF _ _ this, of c1 X1] p
    show "\<exists>s'. pwx_block i s = Some s' \<and> (case s' of (X, B', ctx) \<Rightarrow> length X = 8 \<and> length B' = length B \<and> tables_ok ctx)"
      by (fastforce simp: e)
  qed (use X assms in simp)
  then obtain X' B' ctx' where s: "for_each pwx_block [0..<2 * r] (X, B, ctx) = Some (X', B', ctx')" "length B' = length B" "tables_ok ctx'"
    by auto
  have i: "(2 * r - 1) * PWXbytes div 64 = 2 * r - 1" by (simp add: pw_sizes)
  have "8 \<le> length (drop ((2 * r - 1) * 8) B')" "(2 * r - 1) * 8 + 8 \<le> length B'" using l s(2) by simp_all
  from salsaXOR_ok [OF this, of "replicate PWXwords 0" 2]
  obtain t B2 where "salsaXOR (replicate PWXwords 0) (drop ((2 * r - 1) * 8) B') B' ((2 * r - 1) * 8) 2 = Some (t, B2)" "length B2 = length B'" by blast
  moreover have w: "PWXwords = 8" by (simp add: pw_sizes)
  ultimately show ?thesis using X(1) s l unfolding blockMixPwxform_def r1 Let_def i w by (simp add: slice_from_def)
qed

subsection \<open>Indices\<close>

declare p2floor.simps [simp del]

lemma p2floor_bounds: "x \<noteq> 0 \<Longrightarrow> p2floor x \<noteq> 0 \<and> unat (p2floor x) \<le> unat x"
proof (induction x rule: p2floor.induct)
  case (1 x)
  show ?case
  proof (cases "x AND (x - 1) = 0")
    case False
    with 1 and_pred_less [of x] show ?thesis by (subst (1 2) p2floor.simps) auto
  qed (use 1 in \<open>simp add: p2floor.simps\<close>)
qed

text \<open>The index of an earlier block: less than \<open>i\<close>, whatever is in the block it is taken from.\<close>

lemma wrap_less:
  assumes "0 < i"
  shows "unat (wrap x (of_nat i)) < i"
proof (cases "(of_nat i :: u32) = 0")
  case True
  then have "2 ^ 32 dvd i" by (simp add: word_of_nat_eq_0_iff)
  then have "2 ^ 32 \<le> i" using assms by (rule dvd_imp_le)
  moreover have "unat (wrap x (of_nat i)) < 2 ^ 32" using unsigned_less [of "wrap x (of_nat i)"] by simp
  ultimately show ?thesis by linarith
next
  case False
  let ?i = "of_nat i :: u32" and ?n = "p2floor (of_nat i)"
  note n = p2floor_bounds [OF False]
  have u: "unat (?n - 1) = unat ?n - 1" "0 < unat ?n" using n unat_minus_one [of ?n] by (simp_all add: unat_gt_0)
  have a: "unat (x AND (?n - 1)) \<le> unat ?n - 1"
    using word_and_le1 [of x "?n - 1"] u by (simp add: word_le_nat_alt)
  have s: "unat (?i - ?n) = unat ?i - unat ?n" using n by (simp add: unat_sub word_le_nat_alt)
  have b: "unat (x AND (?n - 1)) + unat (?i - ?n) < unat ?i" using a s u n by linarith
  have lt: "unat ?i < 2 ^ 32" using unsigned_less [of ?i] by simp
  have "unat (wrap x ?i) = unat (x AND (?n - 1)) + unat (?i - ?n)"
    using lt b by (simp add: wrap_def Let_def unat_word_ariths)
  then have "unat (wrap x ?i) < unat ?i" using b by simp
  also have "unat ?i \<le> i" by (simp add: unat_of_nat take_bit_nat_less_eq_self)
  finally show ?thesis .
qed

lemma masked_less: "0 < N \<Longrightarrow> unat ((n :: u32) AND of_nat (N - 1)) < N"
proof -
  assume "0 < N"
  have "unat (n AND of_nat (N - 1)) \<le> unat (of_nat (N - 1) :: u32)"
    using word_and_le1 [of n "of_nat (N - 1)"] by (simp add: word_le_nat_alt)
  also have "\<dots> \<le> N - 1" by (simp add: unat_of_nat take_bit_nat_less_eq_self)
  finally show ?thesis using \<open>0 < N\<close> by simp
qed

end
