(* ===== verification/Yescrypt_Hash.thy ===== *)
theory Yescrypt_Hash
  imports Yescrypt
begin

text \<open>
  What holds of the whole computation of \<open>src/pkg/yescrypt\<close>: no access is out of bounds, so keys and hashes are always
  computed, and a stored hash serves as the setting to check a password with.
\<close>

section \<open>Lemmas\<close>

subsection \<open>Memory\<close>

lemma shuffled_less: "j < 64 * n \<Longrightarrow> 4 dvd j \<Longrightarrow> shuffled j + 4 \<le> 64 * n"
proof -
  assume j: "j < 64 * n" "4 dvd j"
  have "4 dvd j * 5 mod 64" using j(2) by (simp add: dvd_mod)
  then obtain k where k: "j * 5 mod 64 = 4 * k" by blast
  then have "4 * k < 64" by (metis mod_less_divisor zero_less_numeral)
  moreover have "j div 64 < n" using j(1) by (simp add: less_mult_imp_div_less mult.commute)
  then have "Suc (j div 64) * 64 \<le> n * 64" by (intro mult_le_mono1) simp
  ultimately show ?thesis unfolding shuffled_def k by simp
qed

lemma Uint32_ok: "i + 4 \<le> length b \<Longrightarrow> \<exists>x. Uint32 b i = Some x"
  by (simp add: Uint32_def)

lemma PutUint32_ok: "i + 4 \<le> length b \<Longrightarrow> \<exists>b'. PutUint32 b i x = Some b' \<and> length b' = length b"
  by (simp add: PutUint32_def)

lemma word_places:
  assumes "i < 16 * r" "128 * r \<le> length b"
  shows "shuffled (8 * i) + 4 \<le> length b" "shuffled (8 * i + 4) + 4 \<le> length b"
proof -
  have "4 dvd 8 * i" "4 dvd 8 * i + 4" by presburger+
  then show "shuffled (8 * i) + 4 \<le> length b" "shuffled (8 * i + 4) + 4 \<le> length b"
    using shuffled_less [of "8 * i" "2 * r"] shuffled_less [of "8 * i + 4" "2 * r"] assms by linarith+
qed

lemma load_words_ok:
  assumes "128 * r \<le> length b" "16 * r \<le> length x"
  shows "\<exists>x'. load_words b (16 * r) x = Some x' \<and> length x' = length x"
  unfolding load_words_def
proof (rule for_each_inv [where P = "\<lambda>i x'. length x' = length x"])
  fix i and x' :: "u64 list" assume i: "i < 16 * r" and x': "length x' = length x"
  obtain lo hi where "Uint32 b (shuffled (8 * i)) = Some lo" "Uint32 b (shuffled (8 * i + 4)) = Some hi"
    using Uint32_ok word_places [OF i assms(1)] by blast
  then show "\<exists>x''. Option.bind (Uint32 b (shuffled (8 * i))) (\<lambda>lo. Option.bind (Uint32 b (shuffled (8 * i + 4)))
      (\<lambda>hi. slice_set x' i (join32 lo hi))) = Some x'' \<and> length x'' = length x"
    using i x' assms(2) by (simp add: slice_set_def)
qed simp

lemma store_words_ok:
  assumes "128 * r \<le> length b" "16 * r \<le> length x"
  shows "\<exists>b'. store_words x (16 * r) b = Some b' \<and> length b' = length b"
proof -
  let ?x = "take (16 * r) x"
  have "\<exists>b'. for_each (\<lambda>i b. Option.bind (PutUint32 b (shuffled (8 * i)) (lo32 (?x ! i))) (\<lambda>b.
      PutUint32 b (shuffled (8 * i + 4)) (hi32 (?x ! i)))) [0..<16 * r] b = Some b' \<and> length b' = length b"
  proof (rule for_each_inv [where P = "\<lambda>i b'. length b' = length b"])
    fix i and b' :: bytes assume i: "i < 16 * r" and b': "length b' = length b"
    obtain b1 where 1: "PutUint32 b' (shuffled (8 * i)) (lo32 (?x ! i)) = Some b1" "length b1 = length b"
      using PutUint32_ok [of "shuffled (8 * i)" b'] word_places(1) [OF i assms(1)] b' by auto
    obtain b2 where "PutUint32 b1 (shuffled (8 * i + 4)) (hi32 (?x ! i)) = Some b2" "length b2 = length b"
      using PutUint32_ok [of "shuffled (8 * i + 4)" b1] word_places(2) [OF i assms(1)] 1(2) by auto
    then show "\<exists>b''. Option.bind (PutUint32 b' (shuffled (8 * i)) (lo32 (?x ! i))) (\<lambda>b.
        PutUint32 b (shuffled (8 * i + 4)) (hi32 (?x ! i))) = Some b'' \<and> length b'' = length b"
      using 1 by simp
  qed simp
  then show ?thesis using assms(2) by (simp add: store_words_def slice_to_def)
qed

text \<open>What the loops keep: the sizes, and the tables.\<close>

definition mem_ok :: "nat \<Rightarrow> nat \<Rightarrow> u64 list \<times> u64 list \<times> pwxformCtx \<Rightarrow> bool" where
  "mem_ok r n = (\<lambda>(v, x, ctx). n * (16 * r) \<le> length v \<and> 16 * r \<le> length x \<and> tables_ok ctx)"

lemma integer_ok: "0 < r \<Longrightarrow> 16 * r \<le> length x \<Longrightarrow> \<exists>n. integer x r = Some n"
  by (simp add: integer_def slice_get_def)

lemma block_place: "j < n \<Longrightarrow> n * R \<le> (l :: nat) \<Longrightarrow> j * R + R \<le> l"
  using mult_le_mono1 [of "Suc j" n R] by simp

lemma slice_block: "j < n \<Longrightarrow> n * R \<le> length v \<Longrightarrow> slice_from v (j * R) = Some (drop (j * R) v) \<and> R \<le> length (drop (j * R) v)"
  using block_place [of j n R "length v"] by (simp add: slice_from_def)

lemma fill_step_ok:
  assumes "0 < r" "i < n" "mem_ok r n s" "length (fst s) = l"
  shows "\<exists>s'. fill_step r i s = Some s' \<and> mem_ok r n s' \<and> length (fst s') = l"
proof -
  obtain v x ctx where s: "s = (v, x, ctx)" by (cases s)
  have v: "n * (16 * r) \<le> length v" "16 * r \<le> length x" "tables_ok ctx" using assms(3) by (auto simp: s mem_ok_def)
  obtain v' where v': "blockCopy v (i * (16 * r)) x (16 * r) = Some v'" "length v' = length v"
    using blockCopy_ok [of "i * (16 * r)" v "16 * r" x] block_place [OF assms(2) v(1)] v by auto
  have "\<exists>x'. (if i > 1 then Option.bind (integer x r) (\<lambda>n. let j = unat (wrap n (of_nat i)) in
      Option.bind (slice_from v' (j * (16 * r))) (\<lambda>a. blockXOR x 0 a (16 * r))) else Some x) = Some x' \<and> length x' = length x"
  proof (cases "i > 1")
    case True
    obtain k where k: "integer x r = Some k" using integer_ok [OF assms(1) v(2)] by blast
    have j: "unat (wrap k (of_nat i)) < n" using wrap_less [of i k] True assms(2) by simp
    show ?thesis using slice_block [OF j, of "16 * r" v'] v v'(2) blockXOR_ok [of 0 "16 * r" x] True k by (auto simp: Let_def)
  qed simp
  then obtain x' where x': "(if i > 1 then Option.bind (integer x r) (\<lambda>n. let j = unat (wrap n (of_nat i)) in
      Option.bind (slice_from v' (j * (16 * r))) (\<lambda>a. blockXOR x 0 a (16 * r))) else Some x) = Some x'" "length x' = length x"
    by blast
  obtain x2 ctx2 where "blockMixPwxform x' r ctx = Some (x2, ctx2)" "length x2 = length x'" "tables_ok ctx2"
    using blockMixPwxform_ok [OF v(3) assms(1), of x'] v(2) x'(2) by auto
  then show ?thesis using v v' x' assms(4) by (simp add: fill_step_def s Let_def mem_ok_def)
qed

lemma mem_step_ok:
  assumes "0 < r" "0 < N" "N \<le> n" "mem_ok r n s" "length (fst s) = l"
  shows "\<exists>s'. mem_step r N k s = Some s' \<and> mem_ok r n s' \<and> length (fst s') = l"
proof -
  obtain v x ctx where s: "s = (v, x, ctx)" by (cases s)
  have v: "n * (16 * r) \<le> length v" "16 * r \<le> length x" "tables_ok ctx" using assms(4) by (auto simp: s mem_ok_def)
  obtain m where m: "integer x r = Some m" using integer_ok [OF assms(1) v(2)] by blast
  let ?j = "unat (m AND of_nat (N - 1))"
  have j: "?j < n" using masked_less [OF assms(2), of m] assms(3) by (rule less_le_trans)
  note b = slice_block [OF j v(1)]
  obtain x1 where x1: "blockXOR x 0 (drop (?j * (16 * r)) v) (16 * r) = Some x1" "length x1 = length x"
    using blockXOR_ok [of 0 "16 * r" x "drop (?j * (16 * r)) v"] b v(2) by auto
  obtain v' where v': "blockCopy v (?j * (16 * r)) x1 (16 * r) = Some v'" "length v' = length v"
    using blockCopy_ok [of "?j * (16 * r)" v "16 * r" x1] block_place [OF j v(1)] v(2) x1(2) by auto
  obtain x2 ctx2 where "blockMixPwxform x1 r ctx = Some (x2, ctx2)" "length x2 = length x1" "tables_ok ctx2"
    using blockMixPwxform_ok [OF v(3) assms(1), of x1] v(2) x1(2) by auto
  then show ?thesis using v m b x1 v' assms(5) by (simp add: mem_step_def s Let_def mem_ok_def)
qed

lemma smix_pwx_ok:
  assumes "0 < r" "0 < N" "128 * r \<le> length b" "N * (16 * r) \<le> length v" "16 * r \<le> length xy" "tables_ok ctx"
  shows "\<exists>b' v'. smix_pwx b r N Nloop v xy ctx = Some (b', v') \<and> length b' = length b \<and> length v' = length v"
proof -
  obtain x where x: "load_words b (16 * r) (take (16 * r) xy) = Some x" "length x = 16 * r"
    using load_words_ok [OF assms(3), of "take (16 * r) xy"] assms(5) by auto
  let ?P = "\<lambda>s. mem_ok r N s \<and> length (fst s) = length v"
  have "?P (v, x, ctx)" using assms x by (simp add: mem_ok_def)
  then obtain s where s: "for_each (fill_step r) [0..<N] (v, x, ctx) = Some s" "?P s"
    using for_each_inv [of "\<lambda>i. ?P" "(v, x, ctx)" N "fill_step r"] fill_step_ok [OF assms(1)] by blast
  then obtain s' where s': "for_each (mem_step r N) [0..<Nloop] s = Some s'" "?P s'"
    using for_each_inv [of "\<lambda>i. ?P" s Nloop "mem_step r N"] mem_step_ok [OF assms(1,2) order.refl] by blast
  obtain v' x' ctx' where e: "s' = (v', x', ctx')" by (cases s')
  obtain b' where "store_words x' (16 * r) b = Some b'" "length b' = length b"
    using store_words_ok [OF assms(3), of x'] s'(2) by (auto simp: e mem_ok_def)
  then show ?thesis using x s s' assms(5) by (simp add: smix_pwx_def slice_from_def e Let_def)
qed

lemma classic_fill_ok:
  assumes "0 < r" "i + 1 < n" "n * (16 * r) \<le> length v" "16 * r \<le> length x" "16 * r \<le> length y"
  shows "\<exists>v' x' y'. classic_fill r i (v, x, y) = Some (v', x', y') \<and> length v' = length v \<and> length x' = length x \<and> length y' = length y"
proof -
  have p: "i * (16 * r) \<le> length v" "(i + 1) * (16 * r) \<le> length v"
    using block_place [OF _ assms(3), of i] block_place [OF assms(2,3)] assms(2) by linarith+
  obtain v1 where v1: "blockCopy v (i * (16 * r)) x (16 * r) = Some v1" "length v1 = length v"
    using blockCopy_ok [OF p(1) assms(4)] by blast
  obtain y1 where y1: "blockMix x y r = Some y1" "length y1 = length y" using blockMix_ok [OF assms(1,4,5)] by blast
  have y: "16 * r \<le> length y1" "(i + 1) * (16 * r) \<le> length v1" using assms(5) p(2) y1(2) v1(2) by simp_all
  obtain v2 where v2: "blockCopy v1 ((i + 1) * (16 * r)) y1 (16 * r) = Some v2" "length v2 = length v1"
    using blockCopy_ok [OF y(2,1)] by blast
  obtain x1 where "blockMix y1 x r = Some x1" "length x1 = length x" using blockMix_ok [OF assms(1) y(1) assms(4)] by blast
  then show ?thesis using v1 y1 v2 by (simp add: classic_fill_def Let_def)
qed

lemma classic_mem_ok:
  assumes "0 < r" "0 < N" "N * (16 * r) \<le> length v" "16 * r \<le> length x" "16 * r \<le> length y"
  shows "\<exists>x' y'. classic_mem r N v k (x, y) = Some (x', y') \<and> length x' = length x \<and> length y' = length y"
proof -
  obtain m where m: "integer x r = Some m" using integer_ok [OF assms(1,4)] by blast
  note a = slice_block [OF masked_less [OF assms(2)] assms(3)]
  have x0: "0 + 16 * r \<le> length x" using assms(4) by simp
  obtain x1 where x1: "blockXOR x 0 (drop (unat (m AND of_nat (N - 1)) * (16 * r)) v) (16 * r) = Some x1" "length x1 = length x"
    using blockXOR_ok [OF x0 conjunct2 [OF a [of m]]] by blast
  have "16 * r \<le> length x1" using x1(2) assms(4) by simp
  then obtain y1 where y1: "blockMix x1 y r = Some y1" "length y1 = length y" using blockMix_ok [OF assms(1) _ assms(5)] by blast
  have y: "0 + 16 * r \<le> length y1" "16 * r \<le> length y1" using y1(2) assms(5) by simp_all
  obtain l where l: "integer y1 r = Some l" using integer_ok [OF assms(1) y(2)] by blast
  obtain y2 where y2: "blockXOR y1 0 (drop (unat (l AND of_nat (N - 1)) * (16 * r)) v) (16 * r) = Some y2" "length y2 = length y1"
    using blockXOR_ok [OF y(1) conjunct2 [OF a [of l]]] by blast
  have "16 * r \<le> length y2" using y2(2) y(2) by simp
  then obtain x2 where "blockMix y2 x1 r = Some x2" "length x2 = length x1"
    using blockMix_ok [OF assms(1), of y2 x1] \<open>16 * r \<le> length x1\<close> by blast
  then show ?thesis using m x1 y1 l y2 a [of m] a [of l] by (simp add: classic_mem_def Let_def)
qed

lemma smix_classic_ok:
  assumes "0 < r" "0 < N" "even N" "128 * r \<le> length b" "N * (16 * r) \<le> length v" "32 * r \<le> length xy"
  shows "\<exists>b' v'. smix_classic b r N Nloop v xy = Some (b', v') \<and> length b' = length b \<and> length v' = length v"
proof -
  obtain x where x: "load_words b (16 * r) (take (16 * r) xy) = Some x" "length x = 16 * r"
    using load_words_ok [OF assms(4), of "take (16 * r) xy"] assms(6) by auto
  let ?y = "drop (16 * r) xy"
  let ?P = "\<lambda>k (v', x, y). length v' = length v \<and> 16 * r \<le> length x \<and> 16 * r \<le> length y"
  have "\<exists>s. for_each (\<lambda>k. classic_fill r (2 * k)) [0..<(N + 1) div 2] (v, x, ?y) = Some s \<and> ?P ((N + 1) div 2) s"
  proof (rule for_each_inv [where P = ?P])
    fix k and s :: "u64 list \<times> u64 list \<times> u64 list" assume k: "k < (N + 1) div 2" and p: "?P k s"
    obtain v' x' y' where s: "s = (v', x', y')" by (cases s)
    have i: "2 * k + 1 < N" using k assms(3) by (auto elim!: evenE)
    show "\<exists>s'. classic_fill r (2 * k) s = Some s' \<and> ?P (Suc k) s'"
      using classic_fill_ok [OF assms(1) i, of v' x' y'] p assms(5) by (fastforce simp: s)
  qed (use x assms(6) in simp)
  then obtain v' x' y' where f: "for_each (\<lambda>k. classic_fill r (2 * k)) [0..<(N + 1) div 2] (v, x, ?y) = Some (v', x', y')"
    "length v' = length v" "16 * r \<le> length x'" "16 * r \<le> length y'" by auto
  let ?Q = "\<lambda>k (x, y). 16 * r \<le> length x \<and> 16 * r \<le> length y"
  have "\<exists>s. for_each (classic_mem r N v') [0..<(Nloop + 1) div 2] (x', y') = Some s \<and> ?Q ((Nloop + 1) div 2) s"
  proof (rule for_each_inv [where P = ?Q])
    fix k and s :: "u64 list \<times> u64 list" assume p: "?Q k s"
    obtain x1 y1 where s: "s = (x1, y1)" by (cases s)
    have "N * (16 * r) \<le> length v'" "16 * r \<le> length x1" "16 * r \<le> length y1" using f(2) assms(5) p by (simp_all add: s)
    from classic_mem_ok [OF assms(1,2) this, of k] p
    show "\<exists>s'. classic_mem r N v' k s = Some s' \<and> ?Q (Suc k) s'" by (fastforce simp: s)
  qed (use f in simp)
  then obtain x2 y2 where m: "for_each (classic_mem r N v') [0..<(Nloop + 1) div 2] (x', y') = Some (x2, y2)" "16 * r \<le> length x2" by auto
  obtain b' where "store_words x2 (16 * r) b = Some b'" "length b' = length b" using store_words_ok [OF assms(4) m(2)] by blast
  then show ?thesis using x f m assms(6) by (simp add: smix_classic_def slice_from_def Let_def)
qed

subsection \<open>Keys\<close>

definition hash_lengths :: "hashes \<Rightarrow> bool" where
  "hash_lengths H \<longleftrightarrow> (\<forall>k m. length (hmac_sha256 H k m) = 32) \<and> (\<forall>m. length (sha256 H m) = 32) \<and>
     (\<forall>password salt i n. length (pbkdf2 H password salt i n) = n)"

lemma smixYescrypt_ok:
  assumes "0 < r" "0 < N" "length b = 128 * r" "N * (16 * r) \<le> length v" "length xy = 16 * max r 2"
  shows "\<exists>b' v' p'. smixYescrypt H b r N v xy password = Some (b', v', p') \<and> length b' = length b \<and> length v' = length v \<and>
    length p' = length password"
proof -
  have "0 < Sbytes div 128" "even (Sbytes div 128)" "128 * 1 \<le> length b" "Sbytes div 128 * (16 * 1) \<le> length (replicate Swords (0 :: u64))"
    "32 * 1 \<le> length xy" using assms by (simp_all add: pw_sizes)
  from smix_classic_ok [OF _ this, of 0]
  obtain b1 S where 1: "smix_classic b 1 (Sbytes div 128) 0 (replicate Swords 0) xy = Some (b1, S)" "length b1 = length b" "length S = Swords"
    by auto
  have "64 * (2 * r - 1) \<le> length b1" using 1 assms by simp
  moreover obtain p' where "slice_copy password 0 (hmac_sha256 H (drop (64 * (2 * r - 1)) b1) password) = Some p'" "length p' = length password"
    using slice_copy_ok [of 0 password] by blast
  moreover have "tables_ok \<lparr>px_S = S, px_S0 = 2 ^ Swidth * PWXsimple * 2, px_S1 = 2 ^ Swidth * PWXsimple, px_S2 = 0, px_w = 0\<rparr>"
    using 1(3) by (auto simp: tables_ok_def pw_sizes)
  moreover have "128 * r \<le> length b1" "16 * r \<le> length xy" using 1 assms by simp_all
  ultimately show ?thesis using 1(1,2) smix_pwx_ok [OF assms(1,2) \<open>128 * r \<le> length b1\<close> assms(4)]
    by (fastforce simp: smixYescrypt_def slice_from_def)
qed

lemma yescrypt_pass_ok:
  assumes "hash_lengths H" "0 < r" "0 < N" "N * (16 * r) \<le> length v" "length xy = 16 * max r 2"
  shows "\<exists>p v' key. yescrypt_pass H pre salt N r keyLen v xy password = Some (p, v', key) \<and> length v' = length v \<and>
    length key = max keyLen 32"
proof -
  let ?p = "hmac_sha256 H (prehash pre) password" and ?b = "pbkdf2 H (hmac_sha256 H (prehash pre) password) salt 1 (128 * r)"
  have b: "length ?b = 128 * r" using assms(1) by (simp add: hash_lengths_def)
  obtain p where p: "slice_copy ?p 0 (take 32 ?b) = Some p" using slice_copy_ok [of 0 ?p] by blast
  obtain b' v' p' where "smixYescrypt H ?b r N v xy p = Some (b', v', p')" "length v' = length v"
    using smixYescrypt_ok [OF assms(2,3) b assms(4,5)] by blast
  then show ?thesis using b p assms(1,2) by (simp add: yescrypt_pass_def Let_def slice_to_def hash_lengths_def)
qed

lemma yescrypt_key_ok:
  assumes "hash_lengths H" "0 < r" "0 < N"
  shows "\<exists>key. yescrypt_key H password salt N r keyLen = Some key \<and> length key = keyLen \<and>
    (keyLen = 32 \<longrightarrow> (\<exists>k. key = sha256 H (hmac_sha256 H k (prehash ''Client Key''))))"
proof -
  let ?v = "replicate (16 * N * r) 0 :: u64 list" and ?xy = "replicate (16 * max r 2) 0 :: u64 list"
  have xy: "length ?xy = 16 * max r 2" by simp
  have "\<exists>p v. (if N \<ge> 256 \<and> N * r \<ge> 131072
      then Option.bind (yescrypt_pass H ''yescrypt-prehash'' salt (N div 64) r keyLen ?v ?xy password) (\<lambda>(password, v, key).
           Option.bind (slice_to key 32) (\<lambda>k. map_option (\<lambda>password. (password, v)) (slice_copy password 0 k)))
      else Some (password, ?v)) = Some (p, v) \<and> length v = 16 * N * r" (is "\<exists>p v. ?first = Some (p, v) \<and> _")
  proof (cases "N \<ge> 256 \<and> N * r \<ge> 131072")
    case True
    then have "0 < N div 64" by (simp add: div_greater_zero_iff)
    moreover have "N div 64 * (16 * r) \<le> length ?v" using mult_le_mono1 [OF div_le_dividend [of N 64], of "16 * r"] by (simp add: ac_simps)
    ultimately obtain p v key where
      y: "yescrypt_pass H ''yescrypt-prehash'' salt (N div 64) r keyLen ?v ?xy password = Some (p, v, key)" "length v = length ?v" "length key = max keyLen 32"
      using yescrypt_pass_ok [OF assms(1,2) _ _ xy] by blast
    obtain p' where "slice_copy p 0 (take 32 key) = Some p'" using slice_copy_ok [of 0 p] by blast
    then show ?thesis using True y by (simp add: slice_to_def)
  qed auto
  then obtain p v where f: "?first = Some (p, v)" "length v = 16 * N * r" by blast
  have "N * (16 * r) \<le> length v" using f(2) by (simp add: ac_simps)
  then obtain p' v' key where y: "yescrypt_pass H ''yescrypt'' salt N r keyLen v ?xy p = Some (p', v', key)" "length key = max keyLen 32"
    using yescrypt_pass_ok [OF assms(1,2,3) _ xy] by blast
  let ?hash = "sha256 H (hmac_sha256 H (take 32 key) (prehash ''Client Key''))"
  obtain key' where k: "slice_copy key 0 ?hash = Some key'" "length key' = length key"
    using slice_copy_ok [of 0 key] by blast
  have "keyLen = 32 \<Longrightarrow> key' = ?hash"
    using k y(2) assms(1) by (auto simp: slice_copy_def overwrite_def hash_lengths_def)
  then show ?thesis using y k by (simp only: yescrypt_key_def Let_def f) (auto simp: slice_to_def)
qed

lemma scrypt_key_ok:
  assumes "hash_lengths H" "0 < r" "0 < N" "even N"
  shows "\<exists>key. scrypt_key H password salt N r p keyLen = Some key \<and> length key = keyLen"
proof -
  let ?b = "pbkdf2 H password salt 1 (p * 128 * r)"
  let ?f = "\<lambda>i (b, v). Option.bind (slice_from b (i * 128 * r)) (\<lambda>part. Option.bind (smix_classic part r N N v (replicate (32 * r) 0)) (\<lambda>(part, v).
               Some (overwrite (i * 128 * r) part b, v)))"
  let ?P = "\<lambda>i (b, v). length b = p * (128 * r) \<and> length v = N * (16 * r)"
  have "\<exists>s. for_each ?f [0..<p] (?b, replicate (16 * N * r) 0) = Some s \<and> ?P p s"
  proof (rule for_each_inv [where P = ?P])
    fix i and s :: "bytes \<times> u64 list" assume i: "i < p" and s: "?P i s"
    obtain b v where e: "s = (b, v)" by (cases s)
    have l: "i * 128 * r \<le> length b" "128 * r \<le> length (drop (i * 128 * r) b)" "N * (16 * r) \<le> length v" "32 * r \<le> length (replicate (32 * r) (0 :: u64))"
      using block_place [of i p "128 * r" "length b"] i s by (simp_all add: e ac_simps)
    obtain part v' where "smix_classic (drop (i * 128 * r) b) r N N v (replicate (32 * r) 0) = Some (part, v')"
        "length part = length (drop (i * 128 * r) b)" "length v' = length v"
      using smix_classic_ok [OF assms(2,3,4) l(2-4)] by blast
    then show "\<exists>s'. ?f i s = Some s' \<and> ?P (Suc i) s'" using s l(1) by (simp add: e slice_from_def)
  qed (use assms(1) in \<open>simp add: hash_lengths_def ac_simps\<close>)
  then show ?thesis using assms(1) by (auto simp: scrypt_key_def Let_def slice_to_def hash_lengths_def)
qed

lemma odd_and_pred: "1 < (N :: int) \<Longrightarrow> odd N \<Longrightarrow> N AND (N - 1) \<noteq> 0"
proof
  assume a: "1 < N" "odd N" "N AND (N - 1) = 0"
  then obtain m where m: "N = 2 * m + 1" by (rule_tac oddE)
  have "N AND (N - 1) = 2 * (m AND m)" by (subst and_rec) (simp add: m)
  then show False using a m by simp
qed

lemma check_params_None:
  assumes "check_params N r p y = None"
  shows "1 < N" "even N" "0 < r" "0 < p"
  using assms odd_and_pred [of N] by (auto simp: check_params_def split: if_splits)

lemma derive_key_total:
  assumes "hash_lengths H"
  shows "case check_params N r p yes of
      Some e \<Rightarrow> deriveKey H password salt N r p keyLen yes = Some (Inl e)
    | None \<Rightarrow> \<exists>key. deriveKey H password salt N r p keyLen yes = Some (Inr key) \<and> length key = keyLen"
proof (cases "check_params N r p yes")
  case None
  note c = check_params_None [OF None]
  then have n: "0 < nat r" "0 < nat N" "even (nat N)" by (auto simp: even_nat_iff)
  show ?thesis using None yescrypt_key_ok [OF assms n(1,2), of password salt keyLen] scrypt_key_ok [OF assms n, of password salt "nat p" keyLen]
    by (cases yes) (auto simp: deriveKey_def)
qed (simp add: deriveKey_def)

text \<open>So the hash of a password never panics either.\<close>

lemma Hash_total:
  assumes "hash_lengths H"
  shows "\<exists>res. HashPassword H password setting = Some res"
proof -
  have "\<exists>res. Key H password salt N r 1 32 = Some res" for salt N r
    using derive_key_total [OF assms, where N = N and r = r and p = 1 and yes = True and keyLen = 32 and password = password and salt = salt]
    by (cases "check_params N r 1 True") (auto simp: Key_def)
  then show ?thesis by (auto simp: HashPassword_def Let_def split: option.split)
qed

subsection \<open>Settings and hashes\<close>

lemma LastIndexByte_last:
  assumes "c \<notin> set ys"
  shows "LastIndexByte (xs @ c # ys) c = Some (length xs)"
proof -
  let ?b = "xs @ c # ys"
  have u: "[0..<length ?b] = [0..<length xs] @ [length xs] @ [Suc (length xs)..<length ?b]"
    using upt_add_eq_append [of 0 "length xs" "Suc (length ys)"] upt_conv_Cons [of "length xs" "length xs + Suc (length ys)"]
    by (simp del: upt_Suc)
  have n: "?b ! i \<noteq> c" if "i \<in> set [Suc (length xs)..<length ?b]" for i
    using that assms nth_mem [of "i - Suc (length xs)" ys] by (auto simp: nth_append nth_Cons')
  have "filter (\<lambda>i. ?b ! i = c) [0..<length ?b] = filter (\<lambda>i. ?b ! i = c) [0..<length xs] @ [length xs]"
    unfolding u filter_append using n by (simp add: filter_empty_conv del: upt_Suc)
  moreover have "(case is @ [i] of [] \<Rightarrow> None | is \<Rightarrow> Some (last is)) = Some i" for "is" :: "nat list" and i
    by (cases "is") simp_all
  ultimately show ?thesis unfolding LastIndexByte_def by (simp only:)
qed

lemma emit6_chars: "c \<in> set (emit6 bs acc) \<Longrightarrow> \<exists>k<64. c = char64 k"
  using six_bits by (induction bs acc rule: emit6.induct) auto

lemma encode64_chars: "c \<in> set (encode64 bs) \<Longrightarrow> \<exists>k<64. c = char64 k"
proof (induction bs rule: encode64.induct)
  case (1 src)
  from 1(2) show ?case
    by (subst (asm) encode64.simps) (use 1(1) emit6_chars in \<open>auto split: if_splits prod.splits\<close>)
qed

lemma no_dollar: "36 \<notin> set (encode64 bs)"
proof
  assume "36 \<in> set (encode64 bs)"
  then obtain k where "k < 64" "36 = char64 k" using encode64_chars by blast
  then show False using atoi64_char64 [of k] by (simp add: atoi64_def flip: \<open>36 = char64 k\<close>)
qed

lemma salt_end_bounds: "7 \<le> length s \<Longrightarrow> 7 \<le> salt_end s \<and> salt_end s \<le> length s"
proof -
  assume l: "7 \<le> length s"
  have "i < length s" if "LastIndexByte s c = Some i" for i c
  proof -
    have "i \<in> set (filter (\<lambda>i. s ! i = c) [0..<length s])" 
      using that last_in_set by (auto simp: LastIndexByte_def split: list.splits simp del: set_filter)
    then show ?thesis by simp
  qed
  then show ?thesis using l by (force simp: salt_end_def split: option.split)
qed

lemma salt_end_hash:
  assumes "7 \<le> length s"
  shows "salt_end (take (salt_end s) s @ 36 # encode64 key) = salt_end s"
  using salt_end_bounds [OF assms] LastIndexByte_last [OF no_dollar [of key], of "take (salt_end s) s"]
  by (simp add: salt_end_def [of "take (salt_end s) s @ 36 # encode64 key"])

text \<open>What \<open>Hash\<close> does with the part of the setting up to the end of the salt; it looks at nothing else.\<close>

definition prefix_hash :: "hashes \<Rightarrow> bytes \<Rightarrow> bytes \<Rightarrow> (hash_error + bytes) option" where
  "prefix_hash H password s =
     (if length s < 7 \<or> take 4 s \<noteq> map of_char ''$y$j'' \<or> s ! 6 \<noteq> 36 then Some (Inl UnsupportedParameters)
      else
        (let Nlog2 = atoi64 (s ! 4) + 1; r = atoi64 (s ! 5) + 1
         in if Nlog2 < 10 \<or> Nlog2 > 18 then Some (Inl NOutOfRange)
            else if r < 1 \<or> r > 32 then Some (Inl ROutOfRange)
            else
              (case decode64 (drop 7 s) of
                 None \<Rightarrow> Some (Inl BadSalt)
               | Some salt \<Rightarrow>
                   map_option (\<lambda>k. case k of Inl e \<Rightarrow> Inl (KeyError e) | Inr key \<Rightarrow> Inr (s @ [36] @ encode64 key))
                     (Key H password salt (2 ^ Nlog2) (int r) 1 32))))"

lemma Hash_prefix: "7 \<le> length s \<Longrightarrow> HashPassword H password s = prefix_hash H password (take (salt_end s) s)"
proof -
  assume l: "7 \<le> length s"
  note e = salt_end_bounds [OF l]
  have n: "take (salt_end s) s ! i = s ! i" if "i < 7" for i using that e by simp
  have t: "take 4 (take (salt_end s) s) = take 4 s" using e by (simp add: min_def)
  have "\<not> length s < 7" "\<not> length (take (salt_end s) s) < 7" using l e by simp_all
  then show ?thesis unfolding HashPassword_def prefix_hash_def t by (simp add: n)
qed

lemma prefix_hash_Inr:
  "prefix_hash H password s = Some (Inr h) \<Longrightarrow> \<exists>key. h = s @ 36 # encode64 key"
  by (auto simp: prefix_hash_def Let_def split: if_splits option.splits sum.splits) (metis sum.exhaust)

lemma short_Hash: "length s < 7 \<Longrightarrow> HashPassword H password s = Some (Inl UnsupportedParameters)"
  by (simp add: HashPassword_def)

text \<open>
  A stored hash serves as its own setting: for every password \<open>Hash\<close> gives the same with the hash as with the setting
  that the hash was made with.
\<close>

lemma stored_setting:
  assumes "HashPassword H password setting = Some (Inr stored)"
  shows "HashPassword H password' stored = HashPassword H password' setting"
proof -
  have l: "7 \<le> length setting" using assms short_Hash [of setting H password] by (cases "length setting < 7") auto
  let ?s = "take (salt_end setting) setting"
  obtain key where h: "stored = ?s @ 36 # encode64 key"
    using prefix_hash_Inr assms Hash_prefix [OF l] by metis
  have e: "salt_end stored = salt_end setting" unfolding h by (rule salt_end_hash [OF l])
  have "7 \<le> length stored" "take (salt_end stored) stored = ?s" using salt_end_bounds [OF l] unfolding e by (simp_all add: h)
  then show ?thesis using Hash_prefix [OF l, of H password'] Hash_prefix [of stored H password'] by simp
qed

text \<open>A key of 32 bytes is the hash of the client key.\<close>

lemma Key_hash:
  assumes "hash_lengths H" "check_params N r 1 True = None"
  shows "\<exists>k. Key H password salt N r 1 32 = Some (Inr (sha256 H (hmac_sha256 H k (prehash ''Client Key''))))"
  using yescrypt_key_ok [OF assms(1), of "nat r" "nat N" password salt 32] check_params_None [OF assms(2)]
  by (auto simp: Key_def deriveKey_def assms(2))

lemma stored_start:
  assumes "HashPassword H password setting = Some (Inr stored)"
  shows "take 2 stored = [36, 121]"
proof -
  have l: "7 \<le> length setting" using assms short_Hash [of setting H password] by (cases "length setting < 7") auto
  let ?s = "take (salt_end setting) setting"
  have p: "prefix_hash H password ?s = Some (Inr stored)" using assms Hash_prefix [OF l] by simp
  then have "take 4 ?s = map of_char ''$y$j''" by (simp only: prefix_hash_def split: if_splits) auto
  then have "take 2 (take 4 ?s) = [36, 121]" by (simp only: list.map) simp
  moreover have "take 2 (take 4 ?s) = take 2 ?s" by (subst take_take) simp
  ultimately have "take 2 ?s = [36, 121]" by (simp only:)
  then show ?thesis using prefix_hash_Inr [OF p] salt_end_bounds [OF l] l by auto
qed

section \<open>Properties\<close>

text \<open>
  C14. The derivation of keys never panics: with parameters it refuses there is an error, and with all others every
  access to the blocks, the memory and the tables is in bounds, and the key has the length that was asked for.
\<close>

theorem key_derivation_total:
  assumes "hash_lengths H"
  shows "case check_params N r p yes of
      Some e \<Rightarrow> deriveKey H password salt N r p keyLen yes = Some (Inl e)
    | None \<Rightarrow> \<exists>key. deriveKey H password salt N r p keyLen yes = Some (Inr key) \<and> length key = keyLen"
  using assms by (rule derive_key_total)

definition no_hashes :: hashes where
  "no_hashes = \<lparr>hmac_sha256 = (\<lambda>k m. replicate 32 1), sha256 = (\<lambda>m. replicate 32 2), pbkdf2 = (\<lambda>p s i n. replicate n 3)\<rparr>"

lemma key_derivation_total_witness:
  "\<exists>key. deriveKey no_hashes [1, 2] [3] 4096 32 1 32 True = Some (Inr key) \<and> length key = 32"
proof -
  have "hash_lengths no_hashes" by (simp add: hash_lengths_def no_hashes_def)
  moreover have "check_params 4096 32 1 True = None" by (simp add: check_params_def maxInt_def)
  ultimately show ?thesis using key_derivation_total [where H = no_hashes and N = 4096 and r = 32 and p = 1 and yes = True and keyLen = 32] by fastforce
qed

end
