(* ===== verification/Password_Check.thy ===== *)
theory Password_Check
  imports Shadow Yescrypt_Hash
begin

text \<open>
  The check of a host password against the shadow database with the model of yescrypt in the place of the parameter:
  \<open>src/pkg/util/shadow/shadow.go\<close> on top of \<open>src/pkg/yescrypt\<close>.
\<close>

section \<open>Model\<close>

text \<open>Passwords and hashes of the database are strings.\<close>

definition to_bytes :: "string \<Rightarrow> bytes" where
  "to_bytes s = map of_char s"

definition of_bytes :: "bytes \<Rightarrow> string" where
  "of_bytes b = map (\<lambda>c. char_of (unat c)) b"

definition go_crypto :: "hashes \<Rightarrow> (string \<Rightarrow> string \<Rightarrow> crypt_result) \<Rightarrow> crypto" where
  "go_crypto H crypt =
     \<lparr>crypt_verify = crypt,
      yescrypt_Hash = (\<lambda>pass h. case HashPassword H (to_bytes pass) (to_bytes h) of Some (Inr b) \<Rightarrow> Some (of_bytes b) | _ \<Rightarrow> None)\<rparr>"

lemma of_char_unat: "(of_char (char_of (unat c)) :: 8 word) = c"
proof -
  have "unat c < 256" using unsigned_less [of c] by simp
  then have "of_nat (of_char (char_of (unat c))) = c" by simp
  then show ?thesis by (simp only: of_nat_of_char)
qed

lemma of_to_bytes [simp]: "of_bytes (to_bytes s) = s"
proof -
  have "char_of (unat (of_char c :: 8 word)) = c" for c
  proof -
    have "unat (of_char c :: 8 word) = (of_char c :: nat)"
      using unat_of_nat [of "of_char c :: nat", where 'a = 8] by (simp add: of_nat_of_char take_bit_nat_def)
    then show ?thesis by simp
  qed
  then show ?thesis by (simp add: to_bytes_def of_bytes_def comp_def)
qed

lemma to_of_bytes [simp]: "to_bytes (of_bytes b) = b"
  by (simp add: to_bytes_def of_bytes_def comp_def of_char_unat)

lemma of_bytes_inj: "of_bytes a = of_bytes b \<longleftrightarrow> a = b"
  using to_of_bytes by metis

text \<open>
  C18. A user of the host whose password hash was made with \<open>Hash\<close> from some password and setting logs in exactly with the
  passwords that have the same hash with this setting: the stored hash is all that is needed to check a password.
\<close>

theorem yescrypt_login_exact:
  assumes "LookupFile open_file user ShadowFile = Inr e" and "Pass e = of_bytes stored"
    and "HashPassword H password setting = Some (Inr stored)"
  shows "checkHostShadowPassword open_file (go_crypto H crypt) user password' = None \<longleftrightarrow>
    HashPassword H (to_bytes password') setting = Some (Inr stored)"
proof -
  obtain rest where r: "stored = 36 # 121 # rest" using stored_start [OF assms(3)] by (cases stored rule: list.exhaust; cases "tl stored") auto
  have "char_of (36 :: nat) = CHR ''$''" "char_of (121 :: nat) = CHR ''y''" by code_simp+
  then have c: "Pass e = CHR ''$'' # CHR ''y'' # of_bytes rest" by (simp add: assms(2) r of_bytes_def)
  have "checkHostShadowPassword open_file (go_crypto H crypt) user password' = None \<longleftrightarrow>
      yescrypt_Hash (go_crypto H crypt) password' (Pass e) = Some (Pass e)"
    using assms(1) c by (simp add: host_password_exact)
  also have "\<dots> \<longleftrightarrow> HashPassword H (to_bytes password') stored = Some (Inr stored)"
    by (auto simp: go_crypto_def assms(2) of_bytes_inj split: option.splits sum.splits)
  finally show ?thesis by (simp add: stored_setting [OF assms(3)])
qed

text \<open>The hash functions of the witness give the same for everything; \<open>bob\<close> has a hash without a salt.\<close>

definition bob_stored :: bytes where
  "bob_stored = to_bytes ''$y$j9T$'' @ [36] @ encode64 (replicate 32 2)"

definition bob_entry :: Entry where
  "bob_entry =
     \<lparr>Username = ''bob'', Pass = of_bytes bob_stored, LastChange = 19000, MinPassAge = 0, MaxPassAge = 99999,
      WarnPeriod = 7, InactivityPeriod = -1, AcctExpiry = -1, Flags = -1\<rparr>"

lemma bob_hash: "HashPassword no_hashes p (to_bytes ''$y$j9T$'') = Some (Inr bob_stored)"
proof -
  have "hash_lengths no_hashes" by (simp add: hash_lengths_def no_hashes_def)
  moreover have "check_params 4096 32 1 True = None" by (simp add: check_params_def maxInt_def)
  ultimately have key: "Key no_hashes p [] 4096 32 1 32 = Some (Inr (replicate 32 2))"
    using Key_hash [of no_hashes 4096 32 p "[]"] by (simp add: no_hashes_def)
  have "LastIndexByte (to_bytes ''$y$j9T$'') 36 = Some 6" by (simp add: LastIndexByte_def to_bytes_def upt_rec)
  then have e: "salt_end (to_bytes ''$y$j9T$'') = 7" by (simp add: salt_end_def to_bytes_def)
  have a: "atoi64 57 = 11" "atoi64 84 = 31" by (simp_all add: atoi64_def atoi64Partial_def)
  show ?thesis using key e a by (simp add: HashPassword_def bob_stored_def to_bytes_def)
qed

lemma bob_key: "encode64 (replicate (3 * n + 2) 2) = concat (replicate n (to_bytes ''06U.'')) @ to_bytes ''06.''"
proof -
  have "emit6 24 (word24 2 2 2) = to_bytes ''06U.''" "emit6 16 (word24 2 2 0) = to_bytes ''06.''"
    by (simp_all add: emit6_unfold digit64_def word24_def char64_def itoa64_def to_bytes_def)
  then show ?thesis by (induction n) (simp_all add: encode_3 encode_2 numeral_eq_Suc)
qed

lemma bob_string: "of_bytes bob_stored = ''$y$j9T$$'' @ concat (replicate 10 ''06U.'') @ ''06.''"
proof -
  have "bob_stored = to_bytes (''$y$j9T$$'' @ concat (replicate 10 ''06U.'') @ ''06.'')"
    using bob_key [of 10] by (simp add: bob_stored_def to_bytes_def map_concat)
  then show ?thesis by (metis of_to_bytes)
qed

lemma wf_bob: "wf_entry bob_entry"
proof -
  have l: "length (concat (replicate n ''06U.'')) = 4 * n" for n by (induction n) simp_all
  have "length (print_entry bob_entry) < MaxScanTokenSize"
    by (simp add: print_entry_def numbers_def field_def bob_entry_def itoa_def MaxScanTokenSize_def show_nat.simps bob_string l)
  then show ?thesis by (simp add: wf_entry_def numbers_def bob_entry_def in_int64_def bob_string)
qed

lemma yescrypt_login_exact_witness:
  "checkHostShadowPassword (\<lambda>p. if p = ShadowFile then Some (unlines [print_entry bob_entry]) else None)
     (go_crypto no_hashes (\<lambda>_ _. CryptFailure)) ''bob'' ''secret'' = None"
proof -
  let ?open = "\<lambda>p. if p = ShadowFile then Some (unlines [print_entry bob_entry]) else None"
  have "LookupFile ?open ''bob'' ShadowFile = Inr bob_entry"
    using shadow_Read_printed [of "[bob_entry]" ?open ShadowFile] wf_bob by (simp add: LookupFile_def lookup_find bob_entry_def)
  moreover have "Pass bob_entry = of_bytes bob_stored" by (simp add: bob_entry_def)
  ultimately show ?thesis using yescrypt_login_exact [OF _ _ bob_hash [of "[]"]] bob_hash by simp
qed

end
