(* ===== verification/Yescrypt_Scrypt.thy ===== *)
theory Yescrypt_Scrypt
  imports Yescrypt
begin

text \<open>
  The classic part of \<open>src/pkg/yescrypt/yescrypt.go\<close> is scrypt: the reference of RFC 7914 on lists of blocks of sixteen
  words, and the proof that \<open>smix\<close> refines it.
\<close>

section \<open>The reference\<close>

definition quarter :: "u32 \<Rightarrow> u32 \<Rightarrow> u32 \<Rightarrow> u32 \<Rightarrow> u32 \<times> u32 \<times> u32 \<times> u32" where
  "quarter y0 y1 y2 y3 =
     (let z1 = y1 XOR rotl 7 (y0 + y3); z2 = y2 XOR rotl 9 (z1 + y0); z3 = y3 XOR rotl 13 (z2 + z1); z0 = y0 XOR rotl 18 (z3 + z2)
      in (z0, z1, z2, z3))"

text \<open>A round of the rows of a matrix of four by four words, and of its columns.\<close>

fun rowround :: "u32 list \<Rightarrow> u32 list" where
  "rowround [y0, y1, y2, y3, y4, y5, y6, y7, y8, y9, y10, y11, y12, y13, y14, y15] =
     (case (quarter y0 y1 y2 y3, quarter y5 y6 y7 y4, quarter y10 y11 y8 y9, quarter y15 y12 y13 y14) of
        ((z0, z1, z2, z3), (z5, z6, z7, z4), (z10, z11, z8, z9), (z15, z12, z13, z14)) \<Rightarrow>
          [z0, z1, z2, z3, z4, z5, z6, z7, z8, z9, z10, z11, z12, z13, z14, z15])"
| "rowround ys = ys"

fun columnround :: "u32 list \<Rightarrow> u32 list" where
  "columnround [x0, x1, x2, x3, x4, x5, x6, x7, x8, x9, x10, x11, x12, x13, x14, x15] =
     (case (quarter x0 x4 x8 x12, quarter x5 x9 x13 x1, quarter x10 x14 x2 x6, quarter x15 x3 x7 x11) of
        ((y0, y4, y8, y12), (y5, y9, y13, y1), (y10, y14, y2, y6), (y15, y3, y7, y11)) \<Rightarrow>
          [y0, y1, y2, y3, y4, y5, y6, y7, y8, y9, y10, y11, y12, y13, y14, y15])"
| "columnround xs = xs"

definition salsa20_8 :: "u32 list \<Rightarrow> u32 list" where
  "salsa20_8 x = map2 (+) x (((rowround \<circ> columnround) ^^ 4) x)"

text \<open>\<open>scryptBlockMix\<close>: each block is mixed with the one before, and the even ones come first in the result.\<close>

fun chain :: "u32 list \<Rightarrow> u32 list list \<Rightarrow> u32 list list" where
  "chain X [] = []"
| "chain X (B # Bs) = (let Y = salsa20_8 (map2 (XOR) X B) in Y # chain Y Bs)"

definition scryptBlockMix :: "u32 list list \<Rightarrow> u32 list list" where
  "scryptBlockMix Bs =
     (let Y = chain (last Bs) Bs; r = length Bs div 2
      in map (\<lambda>i. Y ! (2 * i)) [0..<r] @ map (\<lambda>i. Y ! (2 * i + 1)) [0..<r])"

definition Integerify :: "u32 list list \<Rightarrow> nat" where
  "Integerify Bs = unat (last Bs ! 0)"

definition xor_blocks :: "u32 list list \<Rightarrow> u32 list list \<Rightarrow> u32 list list" where
  "xor_blocks = map2 (map2 (XOR))"

text \<open>\<open>scryptROMix\<close>: the memory holds the first \<open>N\<close> iterates.\<close>

definition romix_step :: "nat \<Rightarrow> u32 list list \<Rightarrow> u32 list list \<Rightarrow> u32 list list" where
  "romix_step N Bs X = scryptBlockMix (xor_blocks X ((scryptBlockMix ^^ (Integerify X mod N)) Bs))"

definition scryptROMix :: "nat \<Rightarrow> u32 list list \<Rightarrow> u32 list list" where
  "scryptROMix N Bs = (romix_step N Bs ^^ N) ((scryptBlockMix ^^ N) Bs)"

section \<open>Blocks\<close>

text \<open>A block as the code keeps it: pairs of words, every fifth one.\<close>

definition pack :: "u32 list \<Rightarrow> u64 list" where
  "pack w = map (\<lambda>i. join32 (w ! (10 * i mod 16)) (w ! ((10 * i + 5) mod 16))) [0..<8]"

lemma length_pack [simp]: "length (pack w) = 8"
  by (simp add: pack_def)

lemma lo_hi_join [simp]: "lo32 (join32 a b) = a" "hi32 (join32 a b) = b"
  by (rule bit_word_eqI; auto simp: lo32_def hi32_def join32_def bit_simps dest: bit_imp_le_length)+

lemma join_xor: "join32 a b XOR join32 c d = join32 (a XOR c) (b XOR d)"
  by (rule bit_word_eqI) (auto simp: join32_def bit_simps dest: bit_imp_le_length)

lemma list16:
  assumes "length (xs :: 'a list) = 16"
  shows "\<exists>x0 x1 x2 x3 x4 x5 x6 x7 x8 x9 x10 x11 x12 x13 x14 x15. xs = [x0, x1, x2, x3, x4, x5, x6, x7, x8, x9, x10, x11, x12, x13, x14, x15]"
  using assms by (auto simp: numeral_eq_Suc length_Suc_conv)

lemma pack_simp:
  "pack [x0, x1, x2, x3, x4, x5, x6, x7, x8, x9, x10, x11, x12, x13, x14, x15] =
     [join32 x0 x5, join32 x10 x15, join32 x4 x9, join32 x14 x3, join32 x8 x13, join32 x2 x7, join32 x12 x1, join32 x6 x11]"
  by (simp add: pack_def upt_rec)

lemma salsa_load_pack: "length w = 16 \<Longrightarrow> salsa_load (pack w) = w"
  using list16 [of w] by (auto simp: pack_simp salsa_load_def)

lemma salsa_rounds_ref: "length w = 16 \<Longrightarrow> salsa_rounds w = rowround (columnround w)"
  using list16 [of w] by (auto simp: salsa_rounds_def quarter_def Let_def)

lemma salsa_store_pack: "length w = 16 \<Longrightarrow> length x = 16 \<Longrightarrow> salsa_store (pack w) x = pack (map2 (+) w x)"
  using list16 [of w] list16 [of x] by (auto simp: pack_simp salsa_store_def)

lemma pack_xor: "length a = 16 \<Longrightarrow> length b = 16 \<Longrightarrow> map2 (XOR) (pack a) (pack b) = pack (map2 (XOR) a b)"
  using list16 [of a] list16 [of b] by (auto simp: pack_simp join_xor)

lemma length_rounds [simp]: "length (rowround xs) = length xs" "length (columnround xs) = length xs"
  by (induction xs rule: rowround.induct; simp split: prod.split) (induction xs rule: columnround.induct; simp split: prod.split)

lemma length_salsa20_8: "length w = 16 \<Longrightarrow> length (salsa20_8 w) = 16"
proof -
  have "length (((rowround \<circ> columnround) ^^ n) w) = length w" for n by (induction n) simp_all
  then show "length w = 16 \<Longrightarrow> length (salsa20_8 w) = 16" by (simp add: salsa20_8_def)
qed

text \<open>The rounds of the code compute the reference on packed blocks.\<close>

lemma salsa_core_pack:
  assumes "length w = 16"
  shows "salsa_core 8 (pack w) = pack (salsa20_8 w)"
proof -
  have "(salsa_rounds ^^ n) w = ((rowround \<circ> columnround) ^^ n) w \<and> length (((rowround \<circ> columnround) ^^ n) w) = 16" for n
    by (induction n) (simp_all add: assms salsa_rounds_ref)
  from this [of 4] show ?thesis
    by (simp add: salsa_core_def salsa20_8_def salsa_load_pack salsa_store_pack assms)
qed

section \<open>Memory as a list of blocks\<close>

lemma length_blocks: "\<forall>x\<in>set xs. length x = n \<Longrightarrow> length (concat xs) = length xs * n"
  by (induction xs) auto

lemma concat_drop:
  assumes "\<forall>x\<in>set xs. length x = n" "i \<le> length xs"
  shows "drop (i * n) (concat xs) = concat (drop i xs)" "take (i * n) (concat xs) = concat (take i xs)"
proof -
  have l: "length (concat (take i xs)) = i * n"
    using length_blocks [of "take i xs" n] assms by (auto dest: in_set_takeD)
  have "concat xs = concat (take i xs) @ concat (drop i xs)" by (metis append_take_drop_id concat_append)
  then show "drop (i * n) (concat xs) = concat (drop i xs)" "take (i * n) (concat xs) = concat (take i xs)"
    using l by (metis append_eq_conv_conj)+
qed

lemma block_at:
  assumes "\<forall>x\<in>set xs. length x = n" "i < length xs"
  shows "take n (drop (i * n) (concat xs)) = xs ! i"
proof -
  have "drop (i * n) (concat xs) = xs ! i @ concat (drop (Suc i) xs)"
    using concat_drop(1) [OF assms(1), of i] assms(2) by (simp add: Cons_nth_drop_Suc [symmetric])
  then show ?thesis using assms by simp
qed

lemma overwrite_block:
  assumes "\<forall>x\<in>set xs. length x = n" "i < length xs" "length y = n"
  shows "overwrite (i * n) y (concat xs) = concat (xs[i := y])"
proof -
  have "drop (i * n + n) (concat xs) = concat (drop (Suc i) xs)"
    using concat_drop(1) [OF assms(1), of "Suc i"] assms(2) by (simp add: add.commute)
  then show ?thesis using concat_drop(2) [OF assms(1), of i] assms(2,3)
    by (simp add: overwrite_def upd_conv_take_nth_drop)
qed

lemma blocks_update: "\<forall>x\<in>set xs. length x = n \<Longrightarrow> length y = n \<Longrightarrow> \<forall>x\<in>set (xs[i := y]). length x = n"
  using set_update_subset_insert [of xs i y] by blast

lemma split_blocks: "n * m \<le> length out \<Longrightarrow> \<exists>obs. length obs = m \<and> (\<forall>x\<in>set obs. length x = n) \<and> out = concat obs @ drop (n * m) out"
proof (induction m)
  case (Suc m)
  then obtain obs where o: "length obs = m" "\<forall>x\<in>set obs. length x = n" "out = concat obs @ drop (n * m) out" by auto
  have "drop (n * m) out = take n (drop (n * m) out) @ drop (n * Suc m) out" by (metis add.commute append_take_drop_id drop_drop mult_Suc_right)
  then show ?case using o Suc.prems by (intro exI [of _ "obs @ [take n (drop (n * m) out)]"]) simp
qed simp

lemma overwrite_app: "i + length y \<le> length a \<Longrightarrow> overwrite i y (a @ rest) = overwrite i y a @ rest"
  by (simp add: overwrite_def)

lemma slice_from_block:
  assumes "\<forall>x\<in>set xs. length x = n" "i < length xs"
  shows "\<exists>tail. slice_from (concat xs @ rest) (i * n) = Some (xs ! i @ tail)"
proof -
  have "i * n \<le> length (concat xs)" using mult_le_mono1 [of i "length xs" n] assms(2) by (simp add: length_blocks [OF assms(1)])
  moreover have "drop (i * n) (concat xs) = xs ! i @ concat (drop (Suc i) xs)"
    using concat_drop(1) [OF assms(1), of i] assms(2) by (simp add: Cons_nth_drop_Suc [symmetric])
  ultimately show ?thesis by (simp add: slice_from_def)
qed

lemma blockCopy_block:
  assumes "\<forall>x\<in>set xs. length x = n" "i < length xs" "length src = n"
  shows "blockCopy (concat xs @ rest) (i * n) (src @ tail) n = Some (concat (xs[i := src]) @ rest)"
proof -
  have "i * n + n \<le> length xs * n" using mult_le_mono1 [of "Suc i" "length xs" n] assms(2) by simp
  then show ?thesis using assms overwrite_block [OF assms(1,2), of src]
    by (simp add: blockCopy_def slice_to_def slice_copy_def length_blocks [OF assms(1)] overwrite_app)
qed

lemma blockXOR_all:
  "length dst = n \<Longrightarrow> length src = n \<Longrightarrow> blockXOR (dst @ rest) 0 (src @ tail) n = Some (map2 (XOR) dst src @ rest)"
  by (simp add: blockXOR_def slice_to_def overwrite_def)

lemma salsaXOR_block:
  assumes "length tmp = 16" "length inp = 16" "\<forall>x\<in>set out. length x = 8" "i < length out" "Y = salsa20_8 (map2 (XOR) tmp inp)"
  shows "salsaXOR (pack tmp) (pack inp @ tail) (concat out @ rest) (i * 8) 8 = Some (pack Y, concat (out[i := pack Y]) @ rest)"
proof -
  have "i * 8 + 8 \<le> length (concat out)" using assms(4) by (simp add: length_blocks [OF assms(3)])
  then show ?thesis using assms overwrite_block [OF assms(3,4), of "pack Y"]
    by (simp add: salsaXOR_def slice_to_def pack_xor salsa_core_pack Let_def overwrite_app)
qed

section \<open>The block mix\<close>

definition flat :: "u32 list list \<Rightarrow> u64 list" where
  "flat Bs = concat (map pack Bs)"

definition blocks_ok :: "nat \<Rightarrow> u32 list list \<Rightarrow> bool" where
  "blocks_ok r Bs \<longleftrightarrow> length Bs = 2 * r \<and> (\<forall>B\<in>set Bs. length B = 16)"

lemma length_flat: "length (flat Bs) = 8 * length Bs"
  using length_blocks [of "map pack Bs" 8] by (simp add: flat_def)

lemma length_chain [simp]: "length (chain X Bs) = length Bs"
  by (induction Bs arbitrary: X) (simp_all add: Let_def)

lemma chain_nth: "i < length Bs \<Longrightarrow> chain X Bs ! i = salsa20_8 (map2 (XOR) ((X # chain X Bs) ! i) (Bs ! i))"
  by (induction Bs arbitrary: X i) (auto simp: Let_def nth_Cons split: nat.split)

lemma chain_16: "length X = 16 \<Longrightarrow> \<forall>B\<in>set Bs. length B = 16 \<Longrightarrow> Y \<in> set (chain X Bs) \<Longrightarrow> length Y = 16"
proof (induction Bs arbitrary: X)
  case (Cons B Bs)
  have "length (salsa20_8 (map2 (XOR) X B)) = 16" using Cons.prems by (intro length_salsa20_8) simp
  then show ?case using Cons by (auto simp: Let_def)
qed simp

lemma blocks_ok_mix: "blocks_ok r Bs \<Longrightarrow> 0 < r \<Longrightarrow> blocks_ok r (scryptBlockMix Bs)"
proof -
  assume b: "blocks_ok r Bs" "0 < r"
  then have "length (chain (last Bs) Bs ! i) = 16" if "i < 2 * r" for i
  proof -
    have "last Bs \<in> set Bs" "i < length (chain (last Bs) Bs)" using b that by (auto simp: blocks_ok_def intro: last_in_set)
    then show ?thesis using b chain_16 [of "last Bs" Bs] nth_mem by (simp add: blocks_ok_def)
  qed
  then show ?thesis using b by (auto simp: blocks_ok_def scryptBlockMix_def Let_def)
qed

text \<open>What the loop over the blocks has written after so many rounds.\<close>

definition mixed :: "nat \<Rightarrow> u32 list list \<Rightarrow> u64 list \<Rightarrow> nat \<Rightarrow> u64 list \<times> u64 list \<Rightarrow> bool" where
  "mixed r Bs rest k s \<longleftrightarrow>
     (\<exists>os. s = (pack ((last Bs # chain (last Bs) Bs) ! (2 * k)), concat os @ rest) \<and> length os = 2 * r \<and>
        (\<forall>x\<in>set os. length x = 8) \<and>
        (\<forall>j<k. os ! j = pack (chain (last Bs) Bs ! (2 * j)) \<and> os ! (r + j) = pack (chain (last Bs) Bs ! (2 * j + 1))))"

lemma mix_step_mixed:
  assumes "blocks_ok r Bs" "0 < r" "k < r" "mixed r Bs rest k s"
  shows "\<exists>s'. mix_step (flat Bs @ tail) r (2 * k) s = Some s' \<and> mixed r Bs rest (Suc k) s'"
proof -
  let ?Y = "chain (last Bs) Bs"
  have Bs: "length Bs = 2 * r" "\<forall>B\<in>set Bs. length B = 16" "Bs \<noteq> []" using assms by (auto simp: blocks_ok_def)
  have p8: "\<forall>x\<in>set (map pack Bs). length x = 8" by simp
  have prev16: "length ((last Bs # ?Y) ! i) = 16" if "i < Suc (2 * r)" for i
    using that Bs chain_16 [of "last Bs" Bs "?Y ! (i - 1)"] by (cases i) (auto intro!: chain_16 [of "last Bs" Bs])
  obtain os where os: "s = (pack ((last Bs # ?Y) ! (2 * k)), concat os @ rest)" "length os = 2 * r" "\<forall>x\<in>set os. length x = 8"
    "\<forall>j<k. os ! j = pack (?Y ! (2 * j)) \<and> os ! (r + j) = pack (?Y ! (2 * j + 1))" using assms(4) by (auto simp: mixed_def)
  have i: "2 * k < 2 * r" "2 * k + 1 < 2 * r" using assms(3) by simp_all
  have y: "?Y ! (2 * k) = salsa20_8 (map2 (XOR) ((last Bs # ?Y) ! (2 * k)) (Bs ! (2 * k)))"
    "?Y ! (2 * k + 1) = salsa20_8 (map2 (XOR) (?Y ! (2 * k)) (Bs ! (2 * k + 1)))"
    using chain_nth [of "2 * k" Bs "last Bs"] chain_nth [of "2 * k + 1" Bs "last Bs"] i Bs(1) by simp_all
  obtain a b where ab: "slice_from (flat Bs @ tail) (2 * k * 8) = Some (pack (Bs ! (2 * k)) @ a)"
    "slice_from (flat Bs @ tail) ((2 * k + 1) * 8) = Some (pack (Bs ! (2 * k + 1)) @ b)"
    using slice_from_block [OF p8, of "2 * k" tail] slice_from_block [OF p8, of "2 * k + 1" tail] i Bs(1) by (auto simp: flat_def)
  have B16: "length (Bs ! (2 * k)) = 16" "length (Bs ! (2 * k + 1)) = 16" using i Bs by simp_all
  have k2: "k < length os" "k + r < length (os[k := pack (?Y ! (2 * k))])" using assms(3) os(2) by simp_all
  have t: "length ((last Bs # ?Y) ! (2 * k)) = 16" "length (?Y ! (2 * k)) = 16" using prev16 [of "2 * k"] prev16 [of "2 * k + 1"] i by simp_all
  note s1 = salsaXOR_block [OF t(1) B16(1) os(3) k2(1) y(1)]
  have os1: "\<forall>x\<in>set (os[k := pack (?Y ! (2 * k))]). length x = 8" by (rule blocks_update [OF os(3) length_pack])
  note s2 = salsaXOR_block [OF t(2) B16(2) os1 k2(2) y(2)]
  let ?os = "os[k := pack (?Y ! (2 * k)), k + r := pack (?Y ! (2 * k + 1))]"
  have "mix_step (flat Bs @ tail) r (2 * k) s = Some (pack (?Y ! (2 * k + 1)), concat ?os @ rest)"
    using s1 [of a rest] s2 [of b rest] ab by (simp add: mix_step_def os(1) algebra_simps)
  moreover have "mixed r Bs rest (Suc k) (pack (?Y ! (2 * k + 1)), concat ?os @ rest)"
    unfolding mixed_def
    by (intro exI [of _ ?os])
      (use os(2,4) assms(3) blocks_update [OF os1 length_pack [of "?Y ! (2 * k + 1)"], of "k + r"] in \<open>auto simp: nth_list_update less_Suc_eq add.commute\<close>)
  ultimately show ?thesis by blast
qed

lemma blockMix_ref:
  assumes "blocks_ok r Bs" "0 < r" "16 * r \<le> length out"
  shows "blockMix (flat Bs @ tail) out r = Some (flat (scryptBlockMix Bs) @ drop (16 * r) out)"
proof -
  let ?Y = "chain (last Bs) Bs" and ?rest = "drop (16 * r) out"
  have Bs: "length Bs = 2 * r" "Bs \<noteq> []" using assms by (auto simp: blocks_ok_def)
  have p8: "\<forall>x\<in>set (map pack Bs). length x = 8" by simp
  obtain obs where obs: "length obs = 2 * r" "\<forall>x\<in>set obs. length x = 8" "out = concat obs @ ?rest"
    using split_blocks [of 8 "2 * r" out] assms(3) by auto
  have "mixed r Bs ?rest 0 (pack (last Bs), out)" unfolding mixed_def using obs by (intro exI [of _ obs]) simp
  then have "\<exists>s. for_each (\<lambda>k. mix_step (flat Bs @ tail) r (2 * k)) [0..<r] (pack (last Bs), out) = Some s \<and> mixed r Bs ?rest r s"
    by (rule for_each_inv [where P = "mixed r Bs ?rest"]) (rule mix_step_mixed [OF assms(1,2)])
  then obtain t os where f: "for_each (\<lambda>k. mix_step (flat Bs @ tail) r (2 * k)) [0..<r] (pack (last Bs), out) = Some (t, concat os @ ?rest)"
    "length os = 2 * r" "\<forall>j<r. os ! j = pack (?Y ! (2 * j)) \<and> os ! (r + j) = pack (?Y ! (2 * j + 1))" by (auto simp: mixed_def)
  have "os = map pack (scryptBlockMix Bs)"
  proof (rule nth_equalityI)
    fix j assume "j < length os"
    then show "os ! j = map pack (scryptBlockMix Bs) ! j"
      using f(2,3) Bs(1) f(3) [rule_format, of "j - r"] by (cases "j < r") (auto simp: scryptBlockMix_def Let_def nth_append)
  qed (simp add: f(2) Bs(1) scryptBlockMix_def Let_def)
  moreover obtain a where "slice_from (flat Bs @ tail) ((2 * r - 1) * 8) = Some (pack (last Bs) @ a)"
    using slice_from_block [OF p8, of "2 * r - 1" tail] Bs assms(2) by (auto simp: flat_def last_conv_nth)
  moreover have "blockCopy (replicate 8 0) 0 (pack (last Bs) @ a) 8 = Some (pack (last Bs))" for a
    by (simp add: blockCopy_def slice_to_def slice_copy_def overwrite_def)
  ultimately show ?thesis using f(1) by (simp add: blockMix_def flat_def)
qed

section \<open>The loops over the memory\<close>

lemma zip_concat_same:
  "length as = length bs \<Longrightarrow> \<forall>(a, b)\<in>set (zip as bs). length a = length b \<Longrightarrow>
   map2 f (concat as) (concat bs) = concat (map2 (map2 f) as bs)"
  by (induction as bs rule: list_induct2) auto

lemma flat_xor:
  assumes "blocks_ok r A" "blocks_ok r B"
  shows "map2 (XOR) (flat A) (flat B) = flat (xor_blocks A B)"
proof -
  have l: "length A = length B" using assms by (simp add: blocks_ok_def)
  have "map2 (XOR) (flat A) (flat B) = concat (map2 (map2 (XOR)) (map pack A) (map pack B))"
    unfolding flat_def by (rule zip_concat_same) (auto simp: l zip_map_map)
  also have "map2 (map2 (XOR)) (map pack A) (map pack B) = map pack (xor_blocks A B)"
    using assms unfolding xor_blocks_def blocks_ok_def
    by (intro nth_equalityI) (auto simp: pack_xor l)
  finally show ?thesis by (simp add: flat_def)
qed

lemma blocks_ok_xor: "blocks_ok r A \<Longrightarrow> blocks_ok r B \<Longrightarrow> blocks_ok r (xor_blocks A B)"
  by (auto simp: blocks_ok_def xor_blocks_def set_zip)

lemma blocks_ok_iter: "blocks_ok r Bs \<Longrightarrow> 0 < r \<Longrightarrow> blocks_ok r ((scryptBlockMix ^^ i) Bs)"
  by (induction i) (simp_all add: blocks_ok_mix)

lemma blocks_ok_romix: "blocks_ok r Bs \<Longrightarrow> blocks_ok r X \<Longrightarrow> 0 < r \<Longrightarrow> blocks_ok r ((romix_step N Bs ^^ i) X)"
  by (induction i) (simp_all add: romix_step_def blocks_ok_mix blocks_ok_xor blocks_ok_iter)

lemma length_flat_ok: "blocks_ok r Bs \<Longrightarrow> length (flat Bs) = 16 * r"
  by (simp add: length_flat blocks_ok_def)

lemma integer_flat: "blocks_ok r Bs \<Longrightarrow> 0 < r \<Longrightarrow> integer (flat Bs @ tail) r = Some (last Bs ! 0)"
proof -
  assume b: "blocks_ok r Bs" "0 < r"
  then have l: "length Bs = 2 * r" "Bs \<noteq> []" by (auto simp: blocks_ok_def)
  have "take 8 (drop ((2 * r - 1) * 8) (flat Bs)) = pack (last Bs)"
    using block_at [of "map pack Bs" 8 "2 * r - 1"] l b(2) by (simp add: flat_def last_conv_nth)
  moreover have p: "(2 * r - 1) * 8 + 8 \<le> length (flat Bs)" using b by (simp add: length_flat l(1) algebra_simps)
  ultimately have "flat Bs ! ((2 * r - 1) * 8) = pack (last Bs) ! 0"
    by (metis add_0_right add_leD1 nth_drop nth_take zero_less_numeral)
  then show ?thesis using p by (simp add: integer_def slice_get_def nth_append pack_def)
qed

text \<open>The memory: block \<open>i\<close> is the \<open>i\<close>-th iterate, up to \<open>n\<close>.\<close>

definition holds :: "nat \<Rightarrow> nat \<Rightarrow> u32 list list \<Rightarrow> nat \<Rightarrow> u64 list \<Rightarrow> bool" where
  "holds r N Bs n v \<longleftrightarrow>
     (\<exists>vs rest. v = concat vs @ rest \<and> length vs = N \<and> (\<forall>x\<in>set vs. length x = 16 * r) \<and>
        (\<forall>i<n. vs ! i = flat ((scryptBlockMix ^^ i) Bs)))"

lemma holds_copy:
  assumes "holds r N Bs n v" "n < N" "x = flat ((scryptBlockMix ^^ n) Bs) @ tail" "blocks_ok r Bs" "0 < r"
  shows "\<exists>v'. blockCopy v (n * (16 * r)) x (16 * r) = Some v' \<and> holds r N Bs (Suc n) v'"
proof -
  let ?f = "flat ((scryptBlockMix ^^ n) Bs)"
  obtain vs rest where v: "v = concat vs @ rest" "length vs = N" "\<forall>x\<in>set vs. length x = 16 * r"
    "\<forall>i<n. vs ! i = flat ((scryptBlockMix ^^ i) Bs)" using assms(1) by (auto simp: holds_def)
  have l: "length ?f = 16 * r" using blocks_ok_iter [OF assms(4,5)] by (rule length_flat_ok)
  have "blockCopy v (n * (16 * r)) x (16 * r) = Some (concat (vs[n := ?f]) @ rest)"
    unfolding v(1) assms(3) by (rule blockCopy_block [OF v(3) _ l]) (simp add: assms(2) v(2))
  moreover have "holds r N Bs (Suc n) (concat (vs[n := ?f]) @ rest)"
    unfolding holds_def using v assms(2) blocks_update [OF v(3) l, of n]
    by (intro exI [of _ "vs[n := ?f]"] exI [of _ rest]) (auto simp: nth_list_update less_Suc_eq)
  ultimately show ?thesis by blast
qed

lemma holds_read:
  assumes "holds r N Bs N v" "j < N"
  shows "\<exists>tail. slice_from v (j * (16 * r)) = Some (flat ((scryptBlockMix ^^ j) Bs) @ tail)"
  using assms slice_from_block by (fastforce simp: holds_def)

lemma classic_fill_ref:
  assumes "holds r N Bs i v" "i + 1 < N" "blocks_ok r Bs" "0 < r" "16 * r \<le> length y"
  shows "\<exists>v' y'. classic_fill r i (v, flat ((scryptBlockMix ^^ i) Bs), y) = Some (v', flat ((scryptBlockMix ^^ (i + 2)) Bs), y') \<and>
    holds r N Bs (i + 2) v' \<and> length y' = length y"
proof -
  let ?X = "\<lambda>i. (scryptBlockMix ^^ i) Bs"
  note ok = blocks_ok_iter [OF assms(3,4)]
  obtain v1 where v1: "blockCopy v (i * (16 * r)) (flat (?X i)) (16 * r) = Some v1" "holds r N Bs (Suc i) v1"
    using holds_copy [OF assms(1) _ _ assms(3,4), of "flat (?X i)" "[]"] assms(2) by auto
  have m1: "blockMix (flat (?X i)) y r = Some (flat (?X (Suc i)) @ drop (16 * r) y)"
    using blockMix_ref [OF ok [of i] assms(4,5), of "[]"] by simp
  obtain v2 where v2: "blockCopy v1 (Suc i * (16 * r)) (flat (?X (Suc i)) @ drop (16 * r) y) (16 * r) = Some v2" "holds r N Bs (Suc (Suc i)) v2"
    using holds_copy [OF v1(2) _ refl assms(3,4)] assms(2) by auto
  have "16 * r \<le> length (flat (?X i))" "drop (16 * r) (flat (?X i)) = []" using length_flat_ok [OF ok [of i]] by simp_all
  then have m2: "blockMix (flat (?X (Suc i)) @ drop (16 * r) y) (flat (?X i)) r = Some (flat (?X (Suc (Suc i))))"
    using blockMix_ref [OF ok [of "Suc i"] assms(4), of "flat (?X i)"] by simp
  show ?thesis using v1 m1 v2 m2 length_flat_ok [OF ok [of "Suc i"]] assms(5)
    by (simp add: classic_fill_def Let_def)
qed

lemma mask_mod:
  assumes "N = 2 ^ e" "e \<le> 32"
  shows "unat ((n :: u32) AND of_nat (N - 1)) = unat n mod N"
proof -
  have "of_nat (N - 1) = (mask e :: u32)" using assms by (simp add: mask_eq_exp_minus_1 of_nat_diff)
  then have "n AND of_nat (N - 1) = take_bit e n" by (simp add: take_bit_eq_mask)
  then show ?thesis using assms by (simp only: unsigned_take_bit_eq) (simp add: take_bit_eq_mod)
qed

lemma classic_mem_ref:
  assumes "holds r N Bs N v" "blocks_ok r Bs" "blocks_ok r X" "0 < r" "N = 2 ^ e" "e \<le> 32" "16 * r \<le> length y"
  shows "\<exists>y'. classic_mem r N v k (flat X, y) = Some (flat (romix_step N Bs (romix_step N Bs X)), y') \<and> length y' = length y"
proof -
  have N: "0 < N" using assms(5) by simp
  have step: "\<exists>x1. blockXOR (flat A @ tail) 0 (flat ((scryptBlockMix ^^ (Integerify A mod N)) Bs) @ t) (16 * r) = Some (x1 @ tail) \<and>
      blockMix (x1 @ tail) out r = Some (flat (romix_step N Bs A) @ drop (16 * r) out) \<and> length x1 = 16 * r"
    if A: "blocks_ok r A" and out: "16 * r \<le> length out" for A tail t out
  proof -
    let ?V = "(scryptBlockMix ^^ (Integerify A mod N)) Bs"
    have V: "blocks_ok r ?V" by (rule blocks_ok_iter [OF assms(2,4)])
    note ok = blocks_ok_xor [OF A V]
    show ?thesis using blockXOR_all [OF length_flat_ok [OF A] length_flat_ok [OF V], of tail t] flat_xor [OF A V] length_flat_ok [OF ok]
        blockMix_ref [OF ok assms(4) out, of tail] by (simp add: romix_step_def)
  qed
  have j: "unat (last A ! 0 AND of_nat (N - 1)) = Integerify A mod N" for A by (simp only: mask_mod [OF assms(5,6)] Integerify_def)
  have lt: "Integerify A mod N < N" for A using N by simp
  obtain t1 where t1: "slice_from v (Integerify X mod N * (16 * r)) = Some (flat ((scryptBlockMix ^^ (Integerify X mod N)) Bs) @ t1)"
    using holds_read [OF assms(1) lt] by blast
  from step [OF assms(3,7), of "[]" t1] obtain x1 where x1:
    "blockXOR (flat X) 0 (flat ((scryptBlockMix ^^ (Integerify X mod N)) Bs) @ t1) (16 * r) = Some x1"
    "blockMix x1 y r = Some (flat (romix_step N Bs X) @ drop (16 * r) y)" "length x1 = 16 * r" by auto
  let ?Y = "romix_step N Bs X"
  have Y: "blocks_ok r ?Y" using blocks_ok_romix [OF assms(2,3,4), where N = N and i = 1] by simp
  obtain t2 where t2: "slice_from v (Integerify ?Y mod N * (16 * r)) = Some (flat ((scryptBlockMix ^^ (Integerify ?Y mod N)) Bs) @ t2)"
    using holds_read [OF assms(1) lt] by blast
  from step [OF Y, of x1 "drop (16 * r) y" t2] x1(3) obtain y1 where y1:
    "blockXOR (flat ?Y @ drop (16 * r) y) 0 (flat ((scryptBlockMix ^^ (Integerify ?Y mod N)) Bs) @ t2) (16 * r) = Some (y1 @ drop (16 * r) y)"
    "blockMix (y1 @ drop (16 * r) y) x1 r = Some (flat (romix_step N Bs ?Y))" "length y1 = 16 * r" by auto
  show ?thesis
    using integer_flat [OF assms(3,4), of "[]"] integer_flat [OF Y assms(4), of "drop (16 * r) y"] t1 x1 t2 y1 assms(7) length_flat_ok [OF Y]
    by (simp add: classic_mem_def Let_def j [unfolded One_nat_def])
qed

section \<open>The buffer\<close>

definition LE :: "u32 \<Rightarrow> bytes" where
  "LE w = [ucast w, ucast (drop_bit 8 w), ucast (drop_bit 16 w), ucast (drop_bit 24 w)]"

definition bytes_of :: "u32 list list \<Rightarrow> bytes" where
  "bytes_of Bs = concat (map LE (concat Bs))"

lemma length_LE [simp]: "length (LE w) = 4"
  by (simp add: LE_def)

lemma Uint32_LE: "j < length ws \<Longrightarrow> Uint32 (concat (map LE ws) @ tail) (j * 4) = Some (ws ! j)"
proof -
  assume j: "j < length ws"
  have p: "\<forall>x\<in>set (map LE ws). length x = 4" by simp
  have l: "j * 4 + 4 \<le> length (concat (map LE ws))" using j by (simp add: length_blocks [OF p])
  have t: "take 4 (drop (j * 4) (concat (map LE ws))) = LE (ws ! j)" using block_at [OF p] j by simp
  have n: "(concat (map LE ws) @ tail) ! (j * 4 + i) = LE (ws ! j) ! i" if "i < 4" for i
    using that l by (simp add: nth_append flip: t)
  have w: "ucast (ucast w :: 8 word) OR push_bit 8 (ucast (ucast (drop_bit 8 w) :: 8 word)) OR push_bit 16 (ucast (ucast (drop_bit 16 w) :: 8 word)) OR
      push_bit 24 (ucast (ucast (drop_bit 24 w) :: 8 word)) = w" for w :: u32
  proof (rule bit_word_eqI)
    have b: "bit (push_bit k (ucast (ucast (drop_bit k w) :: 8 word)) :: u32) n \<longleftrightarrow> k \<le> n \<and> n < k + 8 \<and> bit w n" for k n
      using bit_imp_le_length [of w n] by (auto simp: bit_push_bit_iff bit_unsigned_iff bit_drop_bit_eq)
    have b0: "bit (ucast (ucast w :: 8 word) :: u32) n \<longleftrightarrow> n < 8 \<and> bit w n" for n using b [of 0 n] by simp
    show "bit ((ucast (ucast w :: 8 word) :: u32) OR push_bit 8 (ucast (ucast (drop_bit 8 w) :: 8 word)) OR push_bit 16 (ucast (ucast (drop_bit 16 w) :: 8 word)) OR
      push_bit 24 (ucast (ucast (drop_bit 24 w) :: 8 word))) n = bit w n" for n
    proof (cases "bit w n")
      case True
      then have "n < 32" using bit_imp_le_length [of w n] by simp
      then show ?thesis unfolding bit_or_iff b b0 using True by linarith
    qed (simp only: bit_or_iff b b0, simp)
  qed
  show ?thesis using l n [of 0] n [of 1] n [of 2] n [of 3] w [of "ws ! j"] by (simp add: Uint32_def LE_def)
qed

lemma PutUint32_LE:
  "j < length ws \<Longrightarrow> PutUint32 (concat (map LE ws) @ tail) (j * 4) w = Some (concat (map LE (ws[j := w])) @ tail)"
proof -
  assume j: "j < length ws"
  have p: "\<forall>x\<in>set (map LE ws). length x = 4" by simp
  have l: "j * 4 + 4 \<le> length (concat (map LE ws))" using j by (simp add: length_blocks [OF p])
  show ?thesis using l j overwrite_block [OF p _ length_LE, of j w]
    by (simp add: PutUint32_def overwrite_app map_update flip: LE_def)
qed

text \<open>The two words of the number \<open>i\<close> in the buffer.\<close>

definition lo_place :: "nat \<Rightarrow> nat" where "lo_place i = 16 * (i div 8) + 10 * i mod 16"

definition hi_place :: "nat \<Rightarrow> nat" where "hi_place i = 16 * (i div 8) + (10 * i + 5) mod 16"

lemma shuffled_place: "shuffled (8 * i) = lo_place i * 4" "shuffled (8 * i + 4) = hi_place i * 4"
proof -
  have "8 * i * 5 mod 64 = 4 * (10 * i mod 16)" using mult_mod_right [of 4 "10 * i" 16] by simp
  moreover have "(8 * i + 4) * 5 mod 64 = 4 * ((10 * i + 5) mod 16)" using mult_mod_right [of 4 "10 * i + 5" 16] by (simp add: algebra_simps)
  moreover have "8 * i div 64 = i div 8" "(8 * i + 4) div 64 = i div 8" by linarith+
  ultimately show "shuffled (8 * i) = lo_place i * 4" "shuffled (8 * i + 4) = hi_place i * 4"
    by (simp_all add: shuffled_def lo_place_def hi_place_def)
qed

lemma word_index: "q < 2 * r \<Longrightarrow> a < 16 \<Longrightarrow> 16 * q + a < 32 * (r :: nat)"
  by linarith

lemma place_less: "i < 16 * r \<Longrightarrow> lo_place i < 32 * r" "i < 16 * r \<Longrightarrow> hi_place i < 32 * r"
  unfolding lo_place_def hi_place_def by (rule word_index; simp add: less_mult_imp_div_less)+

lemma places_all: "m < 32 * r \<Longrightarrow> \<exists>i<16 * r. m = lo_place i \<or> m = hi_place i"
proof -
  assume m: "m < 32 * r"
  have "\<exists>j<8. c = 10 * j mod 16 \<or> c = (10 * j + 5) mod 16" if "c < 16" for c :: nat
  proof -
    have "list_all (\<lambda>c. list_ex (\<lambda>j. c = 10 * j mod 16 \<or> c = (10 * j + 5) mod 16) [0..<8]) [0..<16]" by code_simp
    then show ?thesis using that by (simp add: list_all_iff list_ex_iff) (metis atLeastLessThan_iff zero_le)
  qed
  from this [of "m mod 16"] obtain j where j: "j < 8" "m mod 16 = 10 * j mod 16 \<or> m mod 16 = (10 * j + 5) mod 16" by auto
  let ?i = "8 * (m div 16) + j"
  have "m div 16 < 2 * r" using m by (simp add: less_mult_imp_div_less)
  then have "?i < 16 * r" using j(1) by linarith
  moreover have "10 * ?i mod 16 = 10 * j mod 16" "(10 * ?i + 5) mod 16 = (10 * j + 5) mod 16"
    using mod_mult_self4 [of 16 "5 * (m div 16)" "10 * j"] mod_mult_self4 [of 16 "5 * (m div 16)" "10 * j + 5"]
    by (simp_all add: algebra_simps)
  moreover have "?i div 8 = m div 16" using j(1) by simp
  moreover have "m = 16 * (m div 16) + m mod 16" by simp
  ultimately show ?thesis using j(2) unfolding lo_place_def hi_place_def by metis
qed

lemma concat_word:
  assumes "blocks_ok r Bs" "q < 2 * r" "m < 16"
  shows "concat Bs ! (16 * q + m) = Bs ! q ! m"
proof -
  have b: "\<forall>x\<in>set Bs. length x = 16" "q < length Bs" using assms by (auto simp: blocks_ok_def)
  have "Bs ! q ! m = take 16 (drop (q * 16) (concat Bs)) ! m" using block_at [OF b] by simp
  also have "\<dots> = concat Bs ! (q * 16 + m)"
    using assms(3) mult_le_mono1 [of "Suc q" "length Bs" 16] b(2) by (simp add: length_blocks [OF b(1)])
  finally show ?thesis by (simp add: ac_simps)
qed

lemma place_mod: "10 * (i mod 8) mod 16 = 10 * i mod (16 :: nat)" "(10 * (i mod 8) + 5) mod 16 = (10 * i + 5) mod (16 :: nat)"
proof -
  have e: "10 * i = 10 * (i mod 8) + 16 * (5 * (i div 8))" using div_mult_mod_eq [of i 8] by linarith
  then have "10 * i mod 16 = (10 * (i mod 8) + 16 * (5 * (i div 8))) mod 16" by (rule arg_cong)
  then show "10 * (i mod 8) mod 16 = 10 * i mod 16" by (simp only: mod_mult_self2)
  have "10 * i + 5 = 10 * (i mod 8) + 5 + 16 * (5 * (i div 8))" using e by linarith
  then show "(10 * (i mod 8) + 5) mod 16 = (10 * i + 5) mod 16" by (metis mod_mult_self2)
qed

lemma flat_nth:
  assumes "blocks_ok r Bs" "i < 16 * r"
  shows "flat Bs ! i = join32 (concat Bs ! lo_place i) (concat Bs ! hi_place i)"
proof -
  have q: "i div 8 < 2 * r" using assms(2) by (simp add: less_mult_imp_div_less)
  then have b: "\<forall>x\<in>set (map pack Bs). length x = 8" "i div 8 < length (map pack Bs)" using assms(1) by (simp_all add: blocks_ok_def)
  have "flat Bs ! i = pack (Bs ! (i div 8)) ! (i mod 8)"
  proof -
    have "pack (Bs ! (i div 8)) ! (i mod 8) = take 8 (drop (i div 8 * 8) (flat Bs)) ! (i mod 8)"
      using block_at [OF b] b(2) by (simp add: flat_def)
    also have "\<dots> = flat Bs ! (i div 8 * 8 + i mod 8)" using assms by (simp add: length_flat_ok)
    finally show ?thesis by simp
  qed
  then show ?thesis using concat_word [OF assms(1) q] by (simp add: pack_def lo_place_def hi_place_def place_mod)
qed

lemma words_len: "blocks_ok r Bs \<Longrightarrow> length (concat Bs) = 32 * r"
  using length_blocks [of Bs 16] by (simp add: blocks_ok_def)

lemma load_words_ref:
  assumes "blocks_ok r Bs" "length x = 16 * r"
  shows "load_words (bytes_of Bs @ tail) (16 * r) x = Some (flat Bs)"
proof -
  let ?f = "\<lambda>i x. Option.bind (Uint32 (bytes_of Bs @ tail) (shuffled (8 * i))) (\<lambda>lo.
         Option.bind (Uint32 (bytes_of Bs @ tail) (shuffled (8 * i + 4))) (\<lambda>hi. slice_set x i (join32 lo hi)))"
  let ?P = "\<lambda>k x'. length x' = 16 * r \<and> (\<forall>i<k. x' ! i = flat Bs ! i)"
  have "\<exists>x'. for_each ?f [0..<16 * r] x = Some x' \<and> ?P (16 * r) x'"
  proof (rule for_each_inv [where P = ?P])
    fix k and x' :: "u64 list" assume k: "k < 16 * r" and p: "?P k x'"
    have "Uint32 (bytes_of Bs @ tail) (shuffled (8 * k)) = Some (concat Bs ! lo_place k)"
      "Uint32 (bytes_of Bs @ tail) (shuffled (8 * k + 4)) = Some (concat Bs ! hi_place k)"
      unfolding shuffled_place bytes_of_def using place_less [OF k] words_len [OF assms(1)] by (simp_all add: Uint32_LE)
    then show "\<exists>x''. ?f k x' = Some x'' \<and> ?P (Suc k) x''"
      using k p by (simp add: slice_set_def flat_nth [OF assms(1) k] nth_list_update less_Suc_eq)
  qed (simp add: assms(2))
  then obtain x' where x': "for_each ?f [0..<16 * r] x = Some x'" "?P (16 * r) x'" by blast
  then have "x' = flat Bs" using length_flat_ok [OF assms(1)] by (intro nth_equalityI) simp_all
  then show ?thesis using x'(1) by (simp add: load_words_def)
qed

lemma store_words_ref:
  assumes "blocks_ok r Xs" "blocks_ok r Bs"
  shows "store_words (flat Xs) (16 * r) (bytes_of Bs @ tail) = Some (bytes_of Xs @ tail)"
proof -
  let ?f = "\<lambda>i b. Option.bind (PutUint32 b (shuffled (8 * i)) (lo32 (flat Xs ! i))) (\<lambda>b.
         PutUint32 b (shuffled (8 * i + 4)) (hi32 (flat Xs ! i)))"
  let ?P = "\<lambda>k b. \<exists>ws. b = concat (map LE ws) @ tail \<and> length ws = 32 * r \<and>
      (\<forall>i<k. ws ! lo_place i = concat Xs ! lo_place i \<and> ws ! hi_place i = concat Xs ! hi_place i)"
  have "\<exists>b. for_each ?f [0..<16 * r] (bytes_of Bs @ tail) = Some b \<and> ?P (16 * r) b"
  proof (rule for_each_inv [where P = ?P])
    show "?P 0 (bytes_of Bs @ tail)" using words_len [OF assms(2)] by (auto simp: bytes_of_def)
    fix k b assume k: "k < 16 * r" and p: "?P k b"
    then obtain ws where ws: "b = concat (map LE ws) @ tail" "length ws = 32 * r"
      "\<forall>i<k. ws ! lo_place i = concat Xs ! lo_place i \<and> ws ! hi_place i = concat Xs ! hi_place i" by blast
    let ?ws = "ws[lo_place k := concat Xs ! lo_place k, hi_place k := concat Xs ! hi_place k]"
    have "?f k b = Some (concat (map LE ?ws) @ tail)"
      using place_less [OF k] ws(2) by (simp add: ws(1) shuffled_place PutUint32_LE flat_nth [OF assms(1) k])
    moreover have "?P (Suc k) (concat (map LE ?ws) @ tail)"
      using ws(2,3) place_less [OF k] by (intro exI [of _ ?ws]) (simp add: nth_list_update less_Suc_eq)
    ultimately show "\<exists>b'. ?f k b = Some b' \<and> ?P (Suc k) b'" by blast
  qed
  then obtain ws where ws: "for_each ?f [0..<16 * r] (bytes_of Bs @ tail) = Some (concat (map LE ws) @ tail)" "length ws = 32 * r"
    "\<forall>i<16 * r. ws ! lo_place i = concat Xs ! lo_place i \<and> ws ! hi_place i = concat Xs ! hi_place i" by blast
  have "ws = concat Xs"
    using ws(2,3) places_all words_len [OF assms(1)] by (intro nth_equalityI) (simp, metis)
  then show ?thesis using ws(1) length_flat_ok [OF assms(1)] by (simp add: store_words_def slice_to_def bytes_of_def)
qed

section \<open>Properties\<close>

text \<open>
  C29. Without tables \<open>smix\<close> is the function \<open>scryptROMix\<close> of RFC 7914 on the little-endian words of the buffer, for all
  sizes of the blocks and for every power of two up to the thirty-second as the number of blocks: the order in which
  the code keeps the words of a block and its unrolled loops do not show.
\<close>

theorem smix_is_scryptROMix:
  assumes "blocks_ok r Bs" "0 < r" "N = 2 ^ e" "1 \<le> e" "e \<le> 32" "N * (16 * r) \<le> length v" "32 * r \<le> length xy"
  shows "\<exists>v'. smix_classic (bytes_of Bs @ tail) r N N v xy = Some (bytes_of (scryptROMix N Bs) @ tail, v')"
proof -
  let ?X = "\<lambda>i. (scryptBlockMix ^^ i) Bs" and ?y = "drop (16 * r) xy"
  obtain h where h: "N = 2 * h" using assms(3,4) by (metis le_add_diff_inverse power_add power_one_right)
  obtain vs where vs: "length vs = N" "\<forall>x\<in>set vs. length x = 16 * r" "v = concat vs @ drop (16 * r * N) v"
    using split_blocks [of "16 * r" N v] assms(6) by (auto simp: ac_simps)
  have v0: "holds r N Bs 0 v" using vs unfolding holds_def by blast
  let ?P = "\<lambda>k (v, x, y). holds r N Bs (2 * k) v \<and> x = flat (?X (2 * k)) \<and> 16 * r \<le> length y"
  have "\<exists>s. for_each (\<lambda>k. classic_fill r (2 * k)) [0..<h] (v, flat Bs, ?y) = Some s \<and> ?P h s"
  proof (rule for_each_inv [where P = ?P])
    fix k and s :: "u64 list \<times> u64 list \<times> u64 list" assume k: "k < h" and p: "?P k s"
    obtain v1 y1 where s: "s = (v1, flat (?X (2 * k)), y1)" "holds r N Bs (2 * k) v1" "16 * r \<le> length y1" using p by (cases s) auto
    have "2 * k + 1 < N" using k h by simp
    from classic_fill_ref [OF s(2) this assms(1,2) s(3)] show "\<exists>s'. classic_fill r (2 * k) s = Some s' \<and> ?P (Suc k) s'"
      using s(3) by (auto simp: s(1))
  qed (use v0 assms(7) in simp)
  then obtain v1 y1 where f: "for_each (\<lambda>k. classic_fill r (2 * k)) [0..<h] (v, flat Bs, ?y) = Some (v1, flat (?X N), y1)"
    "holds r N Bs N v1" "16 * r \<le> length y1" by (auto simp: h)
  let ?R = "\<lambda>k. (romix_step N Bs ^^ k) (?X N)"
  have XN: "blocks_ok r (?X N)" by (rule blocks_ok_iter [OF assms(1,2)])
  note R = blocks_ok_romix [OF assms(1) XN assms(2)]
  let ?Q = "\<lambda>k (x, y). x = flat (?R (2 * k)) \<and> 16 * r \<le> length y"
  have "\<exists>s. for_each (classic_mem r N v1) [0..<h] (flat (?X N), y1) = Some s \<and> ?Q h s"
  proof (rule for_each_inv [where P = ?Q])
    fix k and s :: "u64 list \<times> u64 list" assume p: "?Q k s"
    obtain y2 where s: "s = (flat (?R (2 * k)), y2)" "16 * r \<le> length y2" using p by (cases s) auto
    from classic_mem_ref [OF f(2) assms(1) R assms(2,3,5) s(2)] s(2)
    show "\<exists>s'. classic_mem r N v1 k s = Some s' \<and> ?Q (Suc k) s'" by (fastforce simp: s(1))
  qed (use f(3) in simp)
  then obtain y2 where m: "for_each (classic_mem r N v1) [0..<h] (flat (?X N), y1) = Some (flat (scryptROMix N Bs), y2)"
    by (auto simp: scryptROMix_def h)
  have ok: "blocks_ok r (scryptROMix N Bs)" unfolding scryptROMix_def by (rule R)
  have half: "(N + 1) div 2 = h" by (simp add: h)
  show ?thesis using load_words_ref [OF assms(1), of "take (16 * r) xy" tail] store_words_ref [OF ok assms(1), of tail] f(1) m assms(7)
    unfolding smix_classic_def half by (simp add: slice_from_def Let_def)
qed

lemma smix_is_scryptROMix_witness:
  "\<exists>v'. smix_classic (bytes_of [replicate 16 1, replicate 16 2] @ []) 1 16 16 (replicate 256 0) (replicate 32 0) =
     Some (bytes_of (scryptROMix 16 [replicate 16 1, replicate 16 2]) @ [], v')"
  by (rule smix_is_scryptROMix [where e = 4]) (simp_all add: blocks_ok_def)

end
