(* ===== verification/Work_Queue.thy ===== *)
theory Work_Queue
  imports Main
begin

text \<open>
  The queue that serialises calls to Incus, \<open>src/pkg/queue/queue.go\<close>: callers put operations into a
  buffered channel under a mutex, one goroutine runs them in order, and every caller receives from one
  unbuffered channel of results that all callers share. The interleavings are a step relation; what an
  operation returns is a parameter.
\<close>

section \<open>Model\<close>

text \<open>The goroutine is between two operations, or holds a result it wants to send, or has returned.\<close>

datatype 'r worker = Idle | Sending 'r | Stopped

text \<open>
  The state: the capacity of the channel and its content, the goroutine, whether \<open>done\<close> is closed,
  and the callers that are at \<open><-q.results\<close>. The last two components are histories: the operations in
  the order they were run, and what each caller received.
\<close>

record ('o, 'r) work_queue =
  wq_cap :: nat
  wq_queue :: "'o list"
  wq_worker :: "'r worker"
  wq_done :: bool
  wq_waiting :: "nat list"
  wq_run :: "'o list"
  wq_got :: "(nat \<times> 'r) list"

definition queue_New :: "nat \<Rightarrow> ('o, 'r) work_queue" where
  "queue_New bufferSize =
     \<lparr>wq_cap = bufferSize, wq_queue = [], wq_worker = Idle, wq_done = False, wq_waiting = [], wq_run = [], wq_got = []\<rparr>"

text \<open>
  \<open>Enqueue\<close>, first half: the send, which blocks (with the mutex held) while the channel is full. The
  caller then waits for a result.
\<close>

definition Enqueue_send :: "nat \<Rightarrow> 'o \<Rightarrow> ('o, 'r) work_queue \<Rightarrow> ('o, 'r) work_queue option" where
  "Enqueue_send caller op q =
     (if length (wq_queue q) < wq_cap q
      then Some (q\<lparr>wq_queue := wq_queue q @ [op], wq_waiting := wq_waiting q @ [caller]\<rparr>) else None)"

text \<open>\<open>Enqueue\<close>, second half: any caller that waits may be the one that takes the result.\<close>

definition Enqueue_receive :: "nat \<Rightarrow> ('o, 'r) work_queue \<Rightarrow> ('o, 'r) work_queue option" where
  "Enqueue_receive caller q =
     (case wq_worker q of
        Sending r \<Rightarrow>
          if caller \<in> set (wq_waiting q)
          then Some (q\<lparr>wq_worker := Idle, wq_waiting := remove1 caller (wq_waiting q), wq_got := wq_got q @ [(caller, r)]\<rparr>)
          else None
      | _ \<Rightarrow> None)"

text \<open>\<open>process\<close>: both cases of the select may be ready; an operation may be taken after \<open>Shutdown\<close>.\<close>

definition process_op :: "('o \<Rightarrow> 'r) \<Rightarrow> ('o, 'r) work_queue \<Rightarrow> ('o, 'r) work_queue option" where
  "process_op exec q =
     (case (wq_worker q, wq_queue q) of
        (Idle, op # ops) \<Rightarrow> Some (q\<lparr>wq_queue := ops, wq_worker := Sending (exec op), wq_run := wq_run q @ [op]\<rparr>)
      | _ \<Rightarrow> None)"

definition process_done :: "('o, 'r) work_queue \<Rightarrow> ('o, 'r) work_queue option" where
  "process_done q =
     (case wq_worker q of Idle \<Rightarrow> if wq_done q then Some (q\<lparr>wq_worker := Stopped\<rparr>) else None | _ \<Rightarrow> None)"

text \<open>\<open>Shutdown\<close>; closing a second time panics.\<close>

definition queue_Shutdown :: "('o, 'r) work_queue \<Rightarrow> ('o, 'r) work_queue option" where
  "queue_Shutdown q = (if wq_done q then None else Some (q\<lparr>wq_done := True\<rparr>))"

inductive queue_step :: "('o \<Rightarrow> 'r) \<Rightarrow> ('o, 'r) work_queue \<Rightarrow> ('o, 'r) work_queue \<Rightarrow> bool"
  for exec :: "'o \<Rightarrow> 'r" where
  send: "Enqueue_send caller op q = Some q' \<Longrightarrow> caller \<notin> set (wq_waiting q) \<Longrightarrow> queue_step exec q q'"
| receive: "Enqueue_receive caller q = Some q' \<Longrightarrow> queue_step exec q q'"
| run: "process_op exec q = Some q' \<Longrightarrow> queue_step exec q q'"
| stop: "process_done q = Some q' \<Longrightarrow> queue_step exec q q'"
| shutdown: "queue_Shutdown q = Some q' \<Longrightarrow> queue_step exec q q'"

inductive_cases queue_stepE: "queue_step exec q q'"

abbreviation queue_reachable :: "('o \<Rightarrow> 'r) \<Rightarrow> ('o, 'r) work_queue \<Rightarrow> ('o, 'r) work_queue \<Rightarrow> bool" where
  "queue_reachable exec \<equiv> (queue_step exec)\<^sup>*\<^sup>*"

text \<open>
  The wrappers build the operation that is enqueued, from what the function of the caller returns, and
  pick a part of the result: \<open>EnqueueError\<close>, \<open>EnqueueFn\<close> and their variants with a parameter.
\<close>

definition EnqueueError_op :: "'t \<Rightarrow> 'e option \<Rightarrow> 't \<times> 'e option" where
  "EnqueueError_op zero err = (zero, err)"

definition EnqueueFn_op :: "'t \<Rightarrow> 't \<times> 'e option" where
  "EnqueueFn_op val = (val, None)"

definition EnqueueWithParam_op :: "('p \<Rightarrow> 't \<times> 'e option) \<Rightarrow> 'p \<Rightarrow> 't \<times> 'e option" where
  "EnqueueWithParam_op f param = f param"

definition EnqueueErrorWithParam_op :: "'t \<Rightarrow> ('p \<Rightarrow> 'e option) \<Rightarrow> 'p \<Rightarrow> 't \<times> 'e option" where
  "EnqueueErrorWithParam_op zero f param = EnqueueError_op zero (f param)"

definition EnqueueFnWithParam_op :: "('p \<Rightarrow> 't) \<Rightarrow> 'p \<Rightarrow> 't \<times> 'e option" where
  "EnqueueFnWithParam_op f param = EnqueueFn_op (f param)"

definition EnqueueBoolFn_op :: "('p \<Rightarrow> bool) \<Rightarrow> 'p \<Rightarrow> bool \<times> 'e option" where
  "EnqueueBoolFn_op f param = EnqueueFnWithParam_op f param"

section \<open>Lemmas\<close>

lemmas queue_defs = Enqueue_send_def Enqueue_receive_def process_op_def process_done_def queue_Shutdown_def

text \<open>What the goroutine holds, as a list.\<close>

fun held :: "'r worker \<Rightarrow> 'r list" where
  "held (Sending r) = [r]"
| "held Idle = []"
| "held Stopped = []"

text \<open>
  The results handed out so far and the one in the hands of the goroutine are those of the operations
  that were run, in their order; every caller that waits stands for one operation that is queued or
  whose result is still held.
\<close>

definition queue_inv :: "('o \<Rightarrow> 'r) \<Rightarrow> ('o, 'r) work_queue \<Rightarrow> bool" where
  "queue_inv exec q \<longleftrightarrow>
     map snd (wq_got q) @ held (wq_worker q) = map exec (wq_run q) \<and>
     length (wq_waiting q) = length (wq_queue q) + length (held (wq_worker q)) \<and>
     length (wq_queue q) \<le> wq_cap q \<and> distinct (wq_waiting q)"

lemma queue_inv_step: "queue_step exec q q' \<Longrightarrow> queue_inv exec q \<Longrightarrow> queue_inv exec q'"
proof (induction rule: queue_step.induct)
  case (receive caller q q')
  then obtain r where "wq_worker q = Sending r" "caller \<in> set (wq_waiting q)"
    "q' = q\<lparr>wq_worker := Idle, wq_waiting := remove1 caller (wq_waiting q), wq_got := wq_got q @ [(caller, r)]\<rparr>"
    by (auto simp: Enqueue_receive_def split: worker.splits if_splits)
  with receive(2) show ?case by (auto simp: queue_inv_def length_remove1)
qed (auto simp: queue_inv_def queue_defs split: if_splits worker.splits list.splits)

lemma queue_inv_reachable: "queue_reachable exec (queue_New n) q \<Longrightarrow> queue_inv exec q"
proof (induction rule: rtranclp_induct)
  case base
  show ?case by (simp add: queue_New_def queue_inv_def)
qed (rule queue_inv_step)

text \<open>The operations leave the queue in the order in which they entered it.\<close>

inductive queue_trace :: "('o \<Rightarrow> 'r) \<Rightarrow> 'o list \<Rightarrow> ('o, 'r) work_queue \<Rightarrow> bool" for exec :: "'o \<Rightarrow> 'r" where
  start: "queue_trace exec [] (queue_New n)"
| sent: "queue_trace exec ops q \<Longrightarrow> Enqueue_send caller op q = Some q' \<Longrightarrow> caller \<notin> set (wq_waiting q) \<Longrightarrow>
    queue_trace exec (ops @ [op]) q'"
| other: "queue_trace exec ops q \<Longrightarrow> queue_step exec q q' \<Longrightarrow> length (wq_waiting q') \<le> length (wq_waiting q) \<Longrightarrow>
    queue_trace exec ops q'"

lemma other_keeps:
  assumes "queue_step exec q q'" and "length (wq_waiting q') \<le> length (wq_waiting q)"
  shows "wq_run q' @ wq_queue q' = wq_run q @ wq_queue q"
  using assms(1)
proof cases
  case (send caller op)
  with assms(2) show ?thesis by (auto simp: Enqueue_send_def split: if_splits)
qed (auto simp: queue_defs split: if_splits worker.splits list.splits)

lemma trace_order: "queue_trace exec ops q \<Longrightarrow> wq_run q @ wq_queue q = ops"
  by (induction rule: queue_trace.induct)
    (auto simp: queue_New_def Enqueue_send_def other_keeps split: if_splits)

lemma trace_reachable: "queue_trace exec ops q \<Longrightarrow> \<exists>n. queue_reachable exec (queue_New n) q"
  by (induction rule: queue_trace.induct) (auto intro: rtranclp.rtrancl_into_rtrancl queue_step.send)

section \<open>Properties\<close>

text \<open>
  Operations are run one after the other in the order in which they were enqueued, each once, and
  no result is lost or repeated: with the operations enqueued so far, those that were run are a prefix,
  what the callers received are the results of these in this order (but the last one while it is still
  in the hands of the goroutine), the channel never holds more than its capacity, and exactly as many
  callers wait as operations are unanswered.
\<close>

theorem queue_fifo:
  assumes "queue_trace exec ops q"
  shows "wq_run q @ wq_queue q = ops \<and>
         map snd (wq_got q) @ held (wq_worker q) = map exec (wq_run q) \<and>
         length (wq_waiting q) = length ops - length (wq_got q) \<and> length (wq_queue q) \<le> wq_cap q"
proof -
  obtain n where "queue_reachable exec (queue_New n) q" using trace_reachable [OF assms] by blast
  from queue_inv_reachable [OF this] have inv: "queue_inv exec q" .
  then have "length (wq_got q) + length (held (wq_worker q)) = length (wq_run q)"
    unfolding queue_inv_def by (metis length_append length_map)
  with inv trace_order [OF assms] show ?thesis by (auto simp: queue_inv_def)
qed

text \<open>Two callers with different operations.\<close>

definition two_calls :: "(string, string) work_queue" where
  "two_calls =
     \<lparr>wq_cap = 100, wq_queue = [''B''], wq_worker = Sending ''A'', wq_done = False, wq_waiting = [1, 2],
      wq_run = [''A''], wq_got = []\<rparr>"

lemma two_calls_trace: "queue_trace id [''A'', ''B''] two_calls"
proof -
  let ?q1 = "(queue_New 100 :: (string, string) work_queue)\<lparr>wq_queue := [''A''], wq_waiting := [1]\<rparr>"
  let ?q2 = "?q1\<lparr>wq_queue := [], wq_worker := Sending ''A'', wq_run := [''A'']\<rparr>"
  have 1: "queue_trace id ([] @ [''A'']) ?q1"
    by (rule queue_trace.sent [OF queue_trace.start [of id 100], of 1]) (simp_all add: Enqueue_send_def queue_New_def)
  have 2: "queue_trace id [''A''] ?q2"
    by (rule queue_trace.other [OF 1 [simplified]], rule queue_step.run) (simp_all add: process_op_def queue_New_def)
  have "queue_trace id ([''A''] @ [''B'']) two_calls"
    by (rule queue_trace.sent [OF 2, of 2]) (simp_all add: Enqueue_send_def queue_New_def two_calls_def)
  then show ?thesis by simp
qed

theorem queue_fifo_witness: "wq_run two_calls @ wq_queue two_calls = [''A'', ''B''] \<and> length (wq_waiting two_calls) = 2"
  using queue_fifo [OF two_calls_trace] by (simp add: two_calls_def)

text \<open>
  The runs in which no caller enqueues while another one waits, with the calls made so far; every such
  run is one of the runs above.
\<close>

inductive solo_trace :: "('o \<Rightarrow> 'r) \<Rightarrow> (nat \<times> 'o) list \<Rightarrow> ('o, 'r) work_queue \<Rightarrow> bool" for exec :: "'o \<Rightarrow> 'r" where
  start: "solo_trace exec [] (queue_New n)"
| call: "solo_trace exec calls q \<Longrightarrow> wq_waiting q = [] \<Longrightarrow> Enqueue_send caller op q = Some q' \<Longrightarrow>
    solo_trace exec (calls @ [(caller, op)]) q'"
| other: "solo_trace exec calls q \<Longrightarrow> queue_step exec q q' \<Longrightarrow> length (wq_waiting q') \<le> length (wq_waiting q) \<Longrightarrow>
    solo_trace exec calls q'"

lemma solo_is_trace: "solo_trace exec calls q \<Longrightarrow> queue_trace exec (map snd calls) q"
  by (induction rule: solo_trace.induct) (auto intro: queue_trace.intros)

text \<open>The call that is not answered yet, if there is one, is the last.\<close>

definition solo_inv :: "('o \<Rightarrow> 'r) \<Rightarrow> (nat \<times> 'o) list \<Rightarrow> ('o, 'r) work_queue \<Rightarrow> bool" where
  "solo_inv exec calls q \<longleftrightarrow>
     (wq_waiting q = [] \<and> wq_got q = map (\<lambda>(c, op). (c, exec op)) calls) \<or>
     (\<exists>cs c op. calls = cs @ [(c, op)] \<and> wq_waiting q = [c] \<and> wq_got q = map (\<lambda>(c, op). (c, exec op)) cs)"

lemma solo_inv_holds: "solo_trace exec calls q \<Longrightarrow> solo_inv exec calls q"
proof (induction rule: solo_trace.induct)
  case (start n)
  show ?case by (simp add: solo_inv_def queue_New_def)
next
  case (call calls q caller op q')
  then show ?case by (auto simp: solo_inv_def Enqueue_send_def split: if_splits)
next
  case (other calls q q')
  note tr = solo_is_trace [OF other.hyps(1)]
  then have "queue_inv exec q" using trace_reachable queue_inv_reachable by metis
  then have got: "map snd (wq_got q) @ held (wq_worker q) = map exec (wq_run q)" by (simp add: queue_inv_def)
  note ord = trace_order [OF tr]
  from other.hyps(2) show ?case
  proof cases
    case (receive caller)
    then obtain r where r: "wq_worker q = Sending r" "caller \<in> set (wq_waiting q)"
      "q' = q\<lparr>wq_worker := Idle, wq_waiting := remove1 caller (wq_waiting q), wq_got := wq_got q @ [(caller, r)]\<rparr>"
      by (auto simp: Enqueue_receive_def split: worker.splits if_splits)
    with other.IH obtain cs op where c: "calls = cs @ [(caller, op)]" "wq_waiting q = [caller]"
      "wq_got q = map (\<lambda>(c, op). (c, exec op)) cs"
      by (auto simp: solo_inv_def)
    have "length (wq_run q) = Suc (length cs)" using arg_cong [OF got, of length] r(1) c(3) by simp
    then have "wq_run q = map snd calls" using ord c(1) by (metis append_Nil2 append_eq_append_conv length_append_singleton length_map)
    then have "r = exec op" using got r(1) c(1) by simp
    with r c show ?thesis by (auto simp: solo_inv_def)
  qed (use other in \<open>auto simp: solo_inv_def queue_defs split: if_splits worker.splits list.splits\<close>)
qed

text \<open>
  Callers that do not overlap get their own results: in a run in which no caller enqueues while
  another one waits, the results received so far are exactly those of the calls in their order, each with
  the caller that made the call; only the last call may still be open.
\<close>

theorem queue_solo_results:
  assumes "solo_trace exec calls q"
  shows "wq_got q = map (\<lambda>(c, op). (c, exec op)) (take (length (wq_got q)) calls) \<and>
         length calls \<le> Suc (length (wq_got q))"
  using solo_inv_holds [OF assms] by (auto simp: solo_inv_def)

theorem queue_solo_results_witness:
  "\<exists>q. solo_trace id [(7, ''A'')] q \<and> wq_got q = [(7, ''A'')]"
proof -
  let ?q1 = "(queue_New 100 :: (string, string) work_queue)\<lparr>wq_queue := [''A''], wq_waiting := [7]\<rparr>"
  let ?q2 = "?q1\<lparr>wq_queue := [], wq_worker := Sending ''A'', wq_run := [''A'']\<rparr>"
  let ?q3 = "?q2\<lparr>wq_worker := Idle, wq_waiting := [], wq_got := [(7, ''A'')]\<rparr>"
  have 1: "solo_trace id ([] @ [(7, ''A'')]) ?q1"
    by (rule solo_trace.call [OF solo_trace.start [of id 100]]) (simp_all add: Enqueue_send_def queue_New_def)
  have 2: "solo_trace id [(7, ''A'')] ?q2"
    by (rule solo_trace.other [OF 1 [simplified]], rule queue_step.run) (simp_all add: process_op_def queue_New_def)
  have 3: "solo_trace id [(7, ''A'')] ?q3"
    by (rule solo_trace.other [OF 2], rule queue_step.receive [of 7]) (simp_all add: Enqueue_receive_def queue_New_def)
  from 3 queue_solo_results [OF 3] show ?thesis by (intro exI conjI) auto
qed

text \<open>
  C13. Callers that overlap can get each other's results: for any two callers and any two operations there is
  a run in which both enqueue and the second caller receives the result of the operation of the first.
\<close>

theorem queue_results_exchanged:
  assumes "c \<noteq> d" and "2 \<le> n"
  shows "\<exists>q. queue_trace exec [a, b] q \<and> wq_cap q = n \<and> wq_got q = [(d, exec a)] \<and> wq_waiting q = [c]"
proof -
  let ?q1 = "(queue_New n)\<lparr>wq_queue := [a], wq_waiting := [c]\<rparr>"
  let ?q2 = "?q1\<lparr>wq_queue := [a, b], wq_waiting := [c, d]\<rparr>"
  let ?q3 = "?q2\<lparr>wq_queue := [b], wq_worker := Sending (exec a), wq_run := [a]\<rparr>"
  let ?q4 = "?q3\<lparr>wq_worker := Idle, wq_waiting := [c], wq_got := [(d, exec a)]\<rparr>"
  have 1: "queue_trace exec ([] @ [a]) ?q1"
    by (rule queue_trace.sent [OF queue_trace.start [of exec n], of c]) (use assms in \<open>simp_all add: Enqueue_send_def queue_New_def\<close>)
  have 2: "queue_trace exec ([a] @ [b]) ?q2"
    by (rule queue_trace.sent [OF 1 [simplified], of d]) (use assms in \<open>simp_all add: Enqueue_send_def queue_New_def\<close>)
  have 3: "queue_trace exec [a, b] ?q3"
    by (rule queue_trace.other [OF 2 [simplified]], rule queue_step.run) (simp_all add: process_op_def queue_New_def)
  have 4: "queue_trace exec [a, b] ?q4"
    by (rule queue_trace.other [OF 3], rule queue_step.receive [of d]) (use assms in \<open>simp_all add: Enqueue_receive_def queue_New_def\<close>)
  then show ?thesis by (intro exI [of _ ?q4]) (simp add: queue_New_def)
qed

theorem queue_results_exchanged_witness:
  "\<exists>q. queue_trace id [''uid of alice'', ''uid of root''] q \<and> wq_got q = [(2 :: nat, ''uid of alice'')]"
  using queue_results_exchanged [of 1 2 100 id "''uid of alice''" "''uid of root''"] by auto

lemma worker_answers:
  assumes "queue_inv exec q" and "wq_worker q \<noteq> Stopped" and "wq_waiting q = c # cs"
  shows "\<exists>q'. queue_reachable exec q q' \<and> wq_waiting q' = cs \<and> wq_worker q' = Idle \<and> (\<exists>r. wq_got q' = wq_got q @ [(c, r)])"
proof -
  obtain q1 r where q1: "queue_reachable exec q q1" "wq_worker q1 = Sending r" "wq_waiting q1 = c # cs" "wq_got q1 = wq_got q"
  proof (cases "wq_worker q")
    case Idle
    with assms obtain op ops where "wq_queue q = op # ops" by (cases "wq_queue q") (auto simp: queue_inv_def)
    with Idle have "queue_step exec q (q\<lparr>wq_queue := ops, wq_worker := Sending (exec op), wq_run := wq_run q @ [op]\<rparr>)"
      by (intro queue_step.run) (simp add: process_op_def)
    with assms(3) show ?thesis
      by (intro that [of "q\<lparr>wq_queue := ops, wq_worker := Sending (exec op), wq_run := wq_run q @ [op]\<rparr>"]) auto
  qed (use assms that in auto)
  let ?q2 = "q1\<lparr>wq_worker := Idle, wq_waiting := cs, wq_got := wq_got q1 @ [(c, r)]\<rparr>"
  have "queue_step exec q1 ?q2"
    using q1 by (intro queue_step.receive [of c]) (simp add: Enqueue_receive_def)
  with q1 have "queue_reachable exec q ?q2" by (metis rtranclp.rtrancl_into_rtrancl)
  with q1 show ?thesis by (intro exI [of _ ?q2]) simp
qed

text \<open>
  C38. While the goroutine runs, every waiting caller can be answered: from every state that is reached
  and in which it has not returned, a run leads to a state in which nobody waits. Once it has returned
  after \<open>Shutdown\<close>, nobody is answered any more: what was received stays as it is and who waits goes on
  waiting, in every continuation.
\<close>

theorem queue_progress:
  assumes "queue_reachable exec (queue_New n) q"
  shows "(wq_worker q \<noteq> Stopped \<longrightarrow> (\<exists>q'. queue_reachable exec q q' \<and> wq_waiting q' = [] \<and> wq_queue q' = [])) \<and>
         (\<forall>q'. wq_worker q = Stopped \<and> queue_reachable exec q q' \<longrightarrow>
            wq_got q' = wq_got q \<and> set (wq_waiting q) \<subseteq> set (wq_waiting q'))"
proof (intro conjI impI allI)
  have "queue_inv exec q" using queue_inv_reachable [OF assms] .
  moreover assume "wq_worker q \<noteq> Stopped"
  moreover have "\<exists>q'. queue_reachable exec q q' \<and> wq_waiting q' = [] \<and> wq_queue q' = []"
    if "queue_inv exec q" "wq_worker q \<noteq> Stopped" for q
    using that
  proof (induction "wq_waiting q" arbitrary: q)
    case Nil
    then show ?case by (intro exI [of _ q]) (simp add: queue_inv_def)
  next
    case (Cons c cs)
    then obtain q1 where q1: "queue_reachable exec q q1" "wq_waiting q1 = cs" "wq_worker q1 = Idle"
      using worker_answers [of exec q c cs] by metis
    have "queue_inv exec q1" using q1(1) Cons.prems(1) by (induction rule: rtranclp_induct) (auto intro: queue_inv_step)
    with Cons.hyps(1) [of q1] q1 obtain q2 where "queue_reachable exec q1 q2" "wq_waiting q2 = []" "wq_queue q2 = []"
      by auto
    with q1(1) show ?case by (intro exI [of _ q2]) auto
  qed
  ultimately show "\<exists>q'. queue_reachable exec q q' \<and> wq_waiting q' = [] \<and> wq_queue q' = []" by blast
next
  fix q'
  assume "wq_worker q = Stopped \<and> queue_reachable exec q q'"
  then have "queue_reachable exec q q'" "wq_worker q = Stopped" by simp_all
  then have "wq_worker q' = Stopped \<and> wq_got q' = wq_got q \<and> set (wq_waiting q) \<subseteq> set (wq_waiting q')"
  proof (induction rule: rtranclp_induct)
    case (step y z)
    have "wq_worker z = Stopped \<and> wq_got z = wq_got y \<and> set (wq_waiting y) \<subseteq> set (wq_waiting z)"
      using step.hyps(2) step.IH step.prems
      by (auto elim!: queue_stepE simp: queue_defs split: if_splits worker.splits list.splits)
    with step show ?case by auto
  qed simp
  then show "wq_got q' = wq_got q" "set (wq_waiting q) \<subseteq> set (wq_waiting q')" by simp_all
qed

theorem queue_progress_witness: "\<exists>q'. queue_reachable id two_calls q' \<and> wq_waiting q' = [] \<and> wq_queue q' = []"
proof -
  obtain n where "queue_reachable id (queue_New n) two_calls" using trace_reachable [OF two_calls_trace] by blast
  from queue_progress [OF this] show ?thesis by (simp add: two_calls_def)
qed

end
