(* ===== verification/Cron_Parser.thy ===== *)
theory Cron_Parser
  imports Go_Base
begin

text \<open>
  The parser of schedules, \<open>src/pkg/cron/parser.go\<close>, and constant delays, \<open>constantdelay.go\<close>. A
  field is a set of bits in a 64-bit word. \<open>Parse\<close> turns every panic into an error, so a panic is an
  error value here; a loop that does not end is \<^const>\<open>None\<close>. Time zones and the parser of durations
  of the library are parameters.
\<close>

unbundle bit_operations_syntax

section \<open>Model\<close>

type_synonym bits = "64 word"

datatype cron_error =
    BadLocation
  | SliceBounds
  | FieldCount nat
  | TooManyHyphens
  | TooManySlashes
  | NotANumber
  | Negative
  | BelowMinimum
  | AboveMaximum
  | BeyondEnd
  | BadDuration
  | UnknownDescriptor

text \<open>A computation that may not return, and may panic.\<close>

type_synonym 'a run = "(cron_error + 'a) option"

definition bind_run :: "'a run \<Rightarrow> ('a \<Rightarrow> 'b run) \<Rightarrow> 'b run" where
  "bind_run m f = (case m of None \<Rightarrow> None | Some (Inl e) \<Rightarrow> Some (Inl e) | Some (Inr x) \<Rightarrow> f x)"

abbreviation ret :: "'a \<Rightarrow> 'a run" where "ret x \<equiv> Some (Inr x)"
abbreviation panic :: "cron_error \<Rightarrow> 'a run" where "panic e \<equiv> Some (Inl e)"

record bounds =
  bd_min :: bits
  bd_max :: bits
  bd_names :: "(string \<times> bits) list"

definition seconds :: bounds where "seconds = \<lparr>bd_min = 0, bd_max = 59, bd_names = []\<rparr>"
definition minutes :: bounds where "minutes = \<lparr>bd_min = 0, bd_max = 59, bd_names = []\<rparr>"
definition hours :: bounds where "hours = \<lparr>bd_min = 0, bd_max = 23, bd_names = []\<rparr>"
definition dom_bounds :: bounds where "dom_bounds = \<lparr>bd_min = 1, bd_max = 31, bd_names = []\<rparr>"

definition months :: bounds where
  "months =
     \<lparr>bd_min = 1, bd_max = 12,
      bd_names = [(''jan'', 1), (''feb'', 2), (''mar'', 3), (''apr'', 4), (''may'', 5), (''jun'', 6), (''jul'', 7),
                  (''aug'', 8), (''sep'', 9), (''oct'', 10), (''nov'', 11), (''dec'', 12)]\<rparr>"

definition dow_bounds :: bounds where
  "dow_bounds =
     \<lparr>bd_min = 0, bd_max = 6,
      bd_names = [(''sun'', 0), (''mon'', 1), (''tue'', 2), (''wed'', 3), (''thu'', 4), (''fri'', 5), (''sat'', 6)]\<rparr>"

definition starBit :: bits where
  "starBit = push_bit 63 1"

text \<open>The loop of \<open>getBits\<close>; the index is an unsigned 64-bit number, as the step that is added to it.\<close>

partial_function (option) bits_loop :: "bits \<Rightarrow> bits \<Rightarrow> bits \<Rightarrow> bits \<Rightarrow> bits option" where
  "bits_loop i hi step bits =
     (if i \<le> hi then bits_loop (i + step) hi step (bits OR push_bit (unat i) 1) else Some bits)"

definition getBits :: "bits \<Rightarrow> bits \<Rightarrow> bits \<Rightarrow> bits option" where
  "getBits lo hi step =
     (if step = 1 then Some (NOT (push_bit (unat (hi + 1)) (- 1)) AND push_bit (unat lo) (- 1))
      else bits_loop lo hi step 0)"

definition mustParseInt :: "string \<Rightarrow> bits run" where
  "mustParseInt expr =
     (case atoi expr of
        None \<Rightarrow> panic NotANumber
      | Some num \<Rightarrow> if num < 0 then panic Negative else ret (word_of_int num))"

definition parseIntOrName :: "string \<Rightarrow> (string \<times> bits) list \<Rightarrow> bits run" where
  "parseIntOrName expr names =
     (case map_of names (to_lower expr) of Some n \<Rightarrow> ret n | None \<Rightarrow> mustParseInt expr)"

text \<open>The first and last value of a range, and the star bit when it is a star.\<close>

definition range_ends :: "string list \<Rightarrow> bounds \<Rightarrow> (bits \<times> bits \<times> bits) run" where
  "range_ends lowAndHigh r =
     (if lowAndHigh ! 0 = ''*'' \<or> lowAndHigh ! 0 = ''?'' then ret (bd_min r, bd_max r, starBit)
      else bind_run (parseIntOrName (lowAndHigh ! 0) (bd_names r)) (\<lambda>start.
             if length lowAndHigh = 1 then ret (start, start, 0)
             else if length lowAndHigh = 2
             then bind_run (parseIntOrName (lowAndHigh ! 1) (bd_names r)) (\<lambda>en. ret (start, en, 0))
             else panic TooManyHyphens))"

definition getRange :: "string \<Rightarrow> bounds \<Rightarrow> bits run" where
  "getRange expr r =
     (let rangeAndStep = split_char (CHR ''/'') expr;
          lowAndHigh = split_char (CHR ''-'') (rangeAndStep ! 0);
          singleDigit = (length lowAndHigh = 1)
      in bind_run (range_ends lowAndHigh r) (\<lambda>(start, en, extraStar).
         bind_run (if length rangeAndStep = 1 then ret (1, en)
                   else if length rangeAndStep = 2
                   then bind_run (mustParseInt (rangeAndStep ! 1)) (\<lambda>step.
                          ret (step, if singleDigit then bd_max r else en))
                   else panic TooManySlashes) (\<lambda>(step, en).
           if start < bd_min r then panic BelowMinimum
           else if en > bd_max r then panic AboveMaximum
           else if start > en then panic BeyondEnd
           else (case getBits start en step of
                   None \<Rightarrow> None
                 | Some b \<Rightarrow> ret (b OR extraStar)))))"

text \<open>\<open>strings.FieldsFunc\<close> on commas drops the empty pieces.\<close>

fun get_ranges :: "string list \<Rightarrow> bounds \<Rightarrow> bits \<Rightarrow> bits run" where
  "get_ranges [] r bits = ret bits"
| "get_ranges (expr # exprs) r bits = bind_run (getRange expr r) (\<lambda>b. get_ranges exprs r (bits OR b))"

definition getField :: "string \<Rightarrow> bounds \<Rightarrow> bits run" where
  "getField field r = get_ranges (filter (\<lambda>p. p \<noteq> []) (split_char (CHR '','') field)) r 0"

definition all_bits :: "bounds \<Rightarrow> bits" where
  "all_bits r =
     (NOT (push_bit (unat (bd_max r + 1)) (- 1)) AND push_bit (unat (bd_min r)) (- 1)) OR starBit"

record 'loc SpecSchedule =
  Second :: bits
  Minute :: bits
  Hour :: bits
  Dom :: bits
  Month :: bits
  Dow :: bits
  Location :: 'loc

datatype 'loc schedule = Spec "'loc SpecSchedule" | ConstantDelay int

definition second_ns :: int where
  "second_ns = 1000000000"

text \<open>\<open>Every\<close>: at least a second, and whole seconds; the remainder of Go has the sign of the dividend.\<close>

definition Every :: "int \<Rightarrow> int" where
  "Every duration =
     (let d = (if duration < second_ns then second_ns else duration) in d - d mod second_ns)"

definition first_bit :: "bounds \<Rightarrow> bits" where
  "first_bit r = push_bit (unat (bd_min r)) 1"

definition parseDescriptor :: "(string \<Rightarrow> int option) \<Rightarrow> string \<Rightarrow> 'loc \<Rightarrow> 'loc schedule run" where
  "parseDescriptor parse_duration spec loc =
     (if spec = ''@yearly'' \<or> spec = ''@annually''
      then ret (Spec \<lparr>Second = first_bit seconds, Minute = first_bit minutes, Hour = first_bit hours,
                      Dom = first_bit dom_bounds, Month = first_bit months, Dow = all_bits dow_bounds, Location = loc\<rparr>)
      else if spec = ''@monthly''
      then ret (Spec \<lparr>Second = first_bit seconds, Minute = first_bit minutes, Hour = first_bit hours,
                      Dom = first_bit dom_bounds, Month = all_bits months, Dow = all_bits dow_bounds, Location = loc\<rparr>)
      else if spec = ''@weekly''
      then ret (Spec \<lparr>Second = first_bit seconds, Minute = first_bit minutes, Hour = first_bit hours,
                      Dom = all_bits dom_bounds, Month = all_bits months, Dow = first_bit dow_bounds, Location = loc\<rparr>)
      else if spec = ''@daily'' \<or> spec = ''@midnight''
      then ret (Spec \<lparr>Second = first_bit seconds, Minute = first_bit minutes, Hour = first_bit hours,
                      Dom = all_bits dom_bounds, Month = all_bits months, Dow = all_bits dow_bounds, Location = loc\<rparr>)
      else if spec = ''@hourly''
      then ret (Spec \<lparr>Second = first_bit seconds, Minute = first_bit minutes, Hour = all_bits hours,
                      Dom = all_bits dom_bounds, Month = all_bits months, Dow = all_bits dow_bounds, Location = loc\<rparr>)
      else (case cut_prefix spec ''@every '' of
              Some d \<Rightarrow> (case parse_duration d of None \<Rightarrow> panic BadDuration | Some v \<Rightarrow> ret (ConstantDelay (Every v)))
            | None \<Rightarrow> panic UnknownDescriptor))"

text \<open>\<open>TZ=\<close> and the zone up to the first blank; without a blank the slice \<open>spec[3:-1]\<close> panics.\<close>

definition parse_zone ::
  "(string \<Rightarrow> 'loc option) \<Rightarrow> 'loc \<Rightarrow> string \<Rightarrow> ('loc \<times> string) run" where
  "parse_zone load_location local spec =
     (case cut_prefix spec ''TZ='' of
        None \<Rightarrow> ret (local, spec)
      | Some rest \<Rightarrow>
          (case cut_char (CHR '' '') rest of
             None \<Rightarrow> panic SliceBounds
           | Some (zone, rest) \<Rightarrow>
               (case load_location zone of
                  None \<Rightarrow> panic BadLocation
                | Some loc \<Rightarrow> ret (loc, trim_space ('' '' @ rest)))))"

definition spec_fields :: "string list \<Rightarrow> 'loc \<Rightarrow> 'loc schedule run" where
  "spec_fields fs loc =
     bind_run (getField (fs ! 0) seconds) (\<lambda>sec.
     bind_run (getField (fs ! 1) minutes) (\<lambda>mi.
     bind_run (getField (fs ! 2) hours) (\<lambda>ho.
     bind_run (getField (fs ! 3) dom_bounds) (\<lambda>da.
     bind_run (getField (fs ! 4) months) (\<lambda>mo.
     bind_run (getField (fs ! 5) dow_bounds) (\<lambda>dw.
       ret (Spec \<lparr>Second = sec, Minute = mi, Hour = ho, Dom = da, Month = mo, Dow = dw, Location = loc\<rparr>)))))))"

definition cron_Parse ::
  "(string \<Rightarrow> 'loc option) \<Rightarrow> (string \<Rightarrow> int option) \<Rightarrow> 'loc \<Rightarrow> string \<Rightarrow> 'loc schedule run" where
  "cron_Parse load_location parse_duration local spec =
     bind_run (parse_zone load_location local spec) (\<lambda>(loc, spec).
       if has_prefix spec ''@'' then parseDescriptor parse_duration spec loc
       else let fs = Go_Base.fields spec
            in if length fs \<noteq> 5 \<and> length fs \<noteq> 6 then panic (FieldCount (length fs))
               else spec_fields (if length fs = 5 then ''0'' # fs else fs) loc)"

text \<open>\<open>Next\<close> of a constant delay, on times in nanoseconds.\<close>

definition ConstantDelay_Next :: "int \<Rightarrow> int \<Rightarrow> int" where
  "ConstantDelay_Next delay t = t + (delay - t mod second_ns)"

section \<open>Lemmas\<close>

lemma bits_loop_members:
  assumes "0 < unat step" and "unat hi + unat step < 2 ^ 64" and "unat hi < 64"
  shows "\<exists>r. bits_loop i hi step b = Some r \<and>
    (\<forall>n < 64. bit r n \<longleftrightarrow> bit b n \<or> (\<exists>k. n = unat i + k * unat step \<and> n \<le> unat hi))"
proof (induction "Suc (unat hi) - unat i" arbitrary: i b rule: less_induct)
  case less
  show ?case
  proof (cases "i \<le> hi")
    case False
    then have "\<not> unat i \<le> unat hi" by (simp add: word_le_nat_alt)
    then show ?thesis using False by (subst bits_loop.simps) auto
  next
    case True
    then have le: "unat i \<le> unat hi" by (simp add: word_le_nat_alt)
    then have "unat i + unat step < 2 ^ 64" using assms(2) by linarith
    then have i': "unat (i + step) = unat i + unat step" by (subst unat_add_lem [symmetric]) simp
    then have "Suc (unat hi) - unat (i + step) < Suc (unat hi) - unat i" using assms(1) le by simp
    from less [OF this, of "b OR push_bit (unat i) 1"] obtain r where
      r: "bits_loop (i + step) hi step (b OR push_bit (unat i) 1) = Some r"
      "\<forall>n < 64. bit r n \<longleftrightarrow> bit (b OR push_bit (unat i) 1) n \<or> (\<exists>k. n = unat i + unat step + k * unat step \<and> n \<le> unat hi)"
      unfolding i' by blast
    have "bit r n \<longleftrightarrow> bit b n \<or> (\<exists>k. n = unat i + k * unat step \<and> n \<le> unat hi)" if "n < 64" for n
    proof -
      have "bit (b OR push_bit (unat i) 1) n \<longleftrightarrow> bit b n \<or> n = unat i"
        using that le assms(3) by (auto simp: bit_or_iff bit_exp_iff)
      moreover have "(\<exists>k. n = unat i + k * unat step \<and> n \<le> unat hi) \<longleftrightarrow>
        n = unat i \<or> (\<exists>k. n = unat i + unat step + k * unat step \<and> n \<le> unat hi)"
        using le by (metis (no_types, opaque_lifting) add.assoc add.right_neutral mult_Suc mult_zero_left not0_implies_Suc)
      ultimately show ?thesis using r(2) that by auto
    qed
    with r(1) True show ?thesis by (subst bits_loop.simps) auto
  qed
qed

lemma bits_loop_stuck: "bits_loop i hi step b = Some r \<Longrightarrow> \<not> (step = 0 \<and> i \<le> hi)"
proof (induction rule: bits_loop.raw_induct [rotated, consumes 1])
  case (1 f i hi step b r)
  then show ?case by (auto split: if_splits)
qed

lemma mask_members:
  fixes lo hi :: bits
  assumes "unat lo \<le> unat hi" and "unat hi < 63" and "n < 64"
  shows "bit (NOT (push_bit (unat (hi + 1)) (- 1)) AND push_bit (unat lo) (- 1) :: bits) n \<longleftrightarrow> unat lo \<le> n \<and> n \<le> unat hi"
proof -
  have "unat (hi + 1) = unat hi + unat (1 :: bits)"
    by (rule iffD1 [OF unat_add_lem]) (use assms(2) in simp)
  then show ?thesis using assms(3) by (auto simp: bit_and_iff bit_not_iff bit_mask_iff)
qed

lemma getBits_members:
  assumes "unat lo \<le> unat hi" and "unat hi < 63" and "0 < unat step" and "unat step < 2 ^ 63"
  shows "\<exists>b. getBits lo hi step = Some b \<and>
    (\<forall>n < 64. bit b n \<longleftrightarrow> (\<exists>k. n = unat lo + k * unat step \<and> n \<le> unat hi))"
proof (cases "step = 1")
  case True
  have "(\<exists>k. n = unat lo + k * unat step \<and> n \<le> unat hi) \<longleftrightarrow> unat lo \<le> n \<and> n \<le> unat hi" for n
    using True by (auto intro: exI [of _ "n - unat lo"])
  with True show ?thesis using mask_members [OF assms(1,2)] by (simp add: getBits_def)
next
  case False
  then show ?thesis
    using bits_loop_members [of step hi lo 0] assms by (auto simp: getBits_def)
qed

lemma unat_small: "n < 2 ^ 64 \<Longrightarrow> unat (of_nat n :: bits) = n"
  by (simp add: unat_of_nat take_bit_nat_eq_self)

section \<open>Specification of a field\<close>

text \<open>The documented syntax: a star, a number or a span, each with an optional step.\<close>

datatype range = Star "nat option" | One nat "nat option" | Span nat nat "nat option"

definition show_step :: "nat option \<Rightarrow> string" where
  "show_step s = (case s of None \<Rightarrow> [] | Some n \<Rightarrow> ''/'' @ show_nat n)"

fun show_range :: "range \<Rightarrow> string" where
  "show_range (Star s) = ''*'' @ show_step s"
| "show_range (One a s) = show_nat a @ show_step s"
| "show_range (Span a b s) = show_nat a @ ''-'' @ show_nat b @ show_step s"

definition stepped :: "nat \<Rightarrow> nat \<Rightarrow> nat option \<Rightarrow> nat set" where
  "stepped a b s = {n. a \<le> n \<and> n \<le> b \<and> (case s of None \<Rightarrow> True | Some k \<Rightarrow> k dvd (n - a))}"

text \<open>A number with a step runs to the end of the field.\<close>

fun range_values :: "nat \<Rightarrow> nat \<Rightarrow> range \<Rightarrow> nat set" where
  "range_values lo hi (Star s) = stepped lo hi s"
| "range_values lo hi (One a s) = stepped a (if s = None then a else hi) s"
| "range_values lo hi (Span a b s) = stepped a b s"

fun range_step :: "range \<Rightarrow> nat option" where
  "range_step (Star s) = s" | "range_step (One a s) = s" | "range_step (Span a b s) = s"

fun wf_range :: "nat \<Rightarrow> nat \<Rightarrow> range \<Rightarrow> bool" where
  "wf_range lo hi (Star s) \<longleftrightarrow> True"
| "wf_range lo hi (One a s) \<longleftrightarrow> lo \<le> a \<and> a \<le> hi"
| "wf_range lo hi (Span a b s) \<longleftrightarrow> lo \<le> a \<and> a \<le> b \<and> b \<le> hi"

definition wf_step :: "range \<Rightarrow> bool" where
  "wf_step r \<longleftrightarrow> (case range_step r of None \<Rightarrow> True | Some k \<Rightarrow> 0 < k \<and> k < 2 ^ 63)"

definition wf_bounds :: "bounds \<Rightarrow> bool" where
  "wf_bounds r \<longleftrightarrow> unat (bd_min r) \<le> unat (bd_max r) \<and> unat (bd_max r) < 63 \<and>
     list_all (\<lambda>(n, _). \<not> list_ex is_digit n) (bd_names r)"

lemma wf_all_bounds: "wf_bounds seconds" "wf_bounds minutes" "wf_bounds hours" "wf_bounds dom_bounds" "wf_bounds months" "wf_bounds dow_bounds"
  by (simp_all add: wf_bounds_def seconds_def minutes_def hours_def dom_bounds_def months_def dow_bounds_def is_digit_def)

lemma to_lower_digit: "is_digit c \<Longrightarrow> to_lower_char c = c"
  by (auto simp: is_digit_def to_lower_char_def)

lemma names_no_number:
  assumes "wf_bounds r"
  shows "map_of (bd_names r) (to_lower (show_nat a)) = None"
proof -
  have "to_lower (show_nat a) = show_nat a"
    using show_nat_digits to_lower_digit by (simp add: to_lower_def map_idI)
  moreover have "list_ex is_digit (show_nat a)"
    by (metis list_ex_iff list.set_intros(1) neq_Nil_conv show_nat_digits show_nat_nonempty)
  ultimately have "to_lower (show_nat a) \<notin> fst ` set (bd_names r)"
    using assms by (fastforce simp: wf_bounds_def list_all_iff)
  then show ?thesis by (simp add: map_of_eq_None_iff)
qed

lemma parse_number: "a < 2 ^ 63 \<Longrightarrow> mustParseInt (show_nat a) = ret (of_nat a)"
proof -
  assume "a < 2 ^ 63"
  then have "int a < 2 ^ 63" by (metis of_nat_less_numeral_power_cancel_iff)
  then have "in_int64 (int a)" by (simp add: in_int64_def)
  moreover have "itoa (int a) = show_nat a" by (simp add: itoa_def)
  ultimately have "atoi (show_nat a) = Some (int a)" using atoi_itoa by metis
  then show ?thesis by (simp add: mustParseInt_def)
qed

lemma parse_number_name: "wf_bounds r \<Longrightarrow> a < 2 ^ 63 \<Longrightarrow> parseIntOrName (show_nat a) (bd_names r) = ret (of_nat a)"
  by (simp add: parseIntOrName_def names_no_number parse_number)

lemma show_nat_absent: "\<not> is_digit c \<Longrightarrow> c \<notin> set (show_nat n)"
  using show_nat_digits by blast

lemma split_step:
  "CHR ''/'' \<notin> set e \<Longrightarrow>
   split_char (CHR ''/'') (e @ show_step s) = e # (case s of None \<Rightarrow> [] | Some k \<Rightarrow> [show_nat k])"
  by (auto simp: show_step_def split_char_append show_nat_absent is_digit_def split: option.split)

lemma range_ends_show:
  assumes "wf_bounds r" and "wf_range (unat (bd_min r)) (unat (bd_max r)) x"
  shows "\<exists>e lh. split_char (CHR ''/'') (show_range x) = e # (case range_step x of None \<Rightarrow> [] | Some k \<Rightarrow> [show_nat k]) \<and>
    split_char (CHR ''-'') e = lh \<and>
    (case x of
       Star _ \<Rightarrow> length lh = 1 \<and> range_ends lh r = ret (bd_min r, bd_max r, starBit)
     | One a _ \<Rightarrow> length lh = 1 \<and> range_ends lh r = ret (of_nat a, of_nat a, 0)
     | Span a b _ \<Rightarrow> length lh = 2 \<and> range_ends lh r = ret (of_nat a, of_nat b, 0))"
proof -
  have big: "n \<le> unat (bd_max r) \<Longrightarrow> n < 2 ^ 63" for n using assms(1) by (simp add: wf_bounds_def)
  have star: "show_nat n \<noteq> ''*''" "show_nat n \<noteq> ''?''" for n
    using show_nat_digits [of _ n] by (auto simp: is_digit_def)
  have minus: "CHR ''-'' \<notin> set (show_nat n)" "CHR ''/'' \<notin> set (show_nat n)" for n
    by (simp_all add: show_nat_absent is_digit_def)
  show ?thesis
  proof (cases x)
    case (Star s)
    then show ?thesis using split_step [of "''*''" s] by (simp add: range_ends_def)
  next
    case (One a s)
    with assms(2) have "parseIntOrName (show_nat a) (bd_names r) = ret (of_nat a)"
      by (intro parse_number_name assms big) simp
    with One show ?thesis using split_step [of "show_nat a" s] minus star
      by (simp add: range_ends_def bind_run_def)
  next
    case (Span a b s)
    with assms(2) have "parseIntOrName (show_nat a) (bd_names r) = ret (of_nat a)" "parseIntOrName (show_nat b) (bd_names r) = ret (of_nat b)"
      by (intro parse_number_name assms big; simp)+
    moreover have "split_char (CHR ''-'') (show_nat a @ CHR ''-'' # show_nat b) = [show_nat a, show_nat b]"
      using minus by (simp add: split_char_append)
    ultimately show ?thesis using Span split_step [of "show_nat a @ ''-'' @ show_nat b" s] minus star
      by (simp add: range_ends_def bind_run_def)
  qed
qed

lemma stepped_members:
  "(\<exists>k. n = a + k * (case s of None \<Rightarrow> 1 | Some k \<Rightarrow> k) \<and> n \<le> b) \<longleftrightarrow> n \<in> stepped a b s"
proof -
  have "(\<exists>k. n = a + k * m \<and> n \<le> b) \<longleftrightarrow> a \<le> n \<and> n \<le> b \<and> m dvd (n - a)" for m
    by (auto simp: dvd_def mult.commute) (metis le_add_diff_inverse)
  then show ?thesis by (auto simp: stepped_def split: option.split)
qed

fun is_star :: "range \<Rightarrow> bool" where
  "is_star (Star _) = True" | "is_star _ = False"

lemma bit_starBit: "n < 64 \<Longrightarrow> bit starBit n \<longleftrightarrow> n = 63"
  unfolding starBit_def bit_push_bit_iff bit_1_iff by auto

lemma getRange_values:
  assumes "wf_bounds r" and "wf_range (unat (bd_min r)) (unat (bd_max r)) x" and "wf_step x"
  shows "\<exists>b. getRange (show_range x) r = ret b \<and>
    (\<forall>n < 64. bit b n \<longleftrightarrow> n \<in> range_values (unat (bd_min r)) (unat (bd_max r)) x \<or> n = 63 \<and> is_star x)"
proof -
  let ?lo = "unat (bd_min r)" let ?hi = "unat (bd_max r)"
  have hi: "?lo \<le> ?hi" "?hi < 63" using assms(1) by (simp_all add: wf_bounds_def)
  obtain e lh where sp: "split_char (CHR ''/'') (show_range x) = e # (case range_step x of None \<Rightarrow> [] | Some k \<Rightarrow> [show_nat k])"
    "split_char (CHR ''-'') e = lh"
    and ends: "case x of
       Star _ \<Rightarrow> length lh = 1 \<and> range_ends lh r = ret (bd_min r, bd_max r, starBit)
     | One a _ \<Rightarrow> length lh = 1 \<and> range_ends lh r = ret (of_nat a, of_nat a, 0)
     | Span a b _ \<Rightarrow> length lh = 2 \<and> range_ends lh r = ret (of_nat a, of_nat b, 0)"
    using range_ends_show [OF assms(1,2)] by blast
  define st :: bits where "st = (case range_step x of None \<Rightarrow> 1 | Some k \<Rightarrow> of_nat k)"
  have st: "unat st = (case range_step x of None \<Rightarrow> 1 | Some k \<Rightarrow> k)" "0 < unat st" "unat st < 2 ^ 63"
    using assms(3) by (auto simp: st_def wf_step_def unat_small split: option.splits)
  obtain a b star where se: "range_ends lh r = ret (a, b, star)" "range_values ?lo ?hi x = stepped (unat a)
      (if range_step x \<noteq> None \<and> length lh = 1 then ?hi else unat b) (range_step x)"
    "unat a \<le> unat b" "?lo \<le> unat a" "unat b \<le> ?hi" "star = (if is_star x then starBit else 0)"
  proof (cases x)
    case (One n s)
    with assms(2) hi have "unat (of_nat n :: bits) = n" by (intro unat_small) simp
    with One ends assms(2) hi show ?thesis by (intro that [of "of_nat n" "of_nat n" 0]) auto
  next
    case (Span n m s)
    with assms(2) hi have "unat (of_nat n :: bits) = n" "unat (of_nat m :: bits) = m"
      by (intro unat_small; simp)+
    with Span ends assms(2) hi show ?thesis by (intro that [of "of_nat n" "of_nat m" 0]) auto
  qed (use ends hi that in auto)
  define en where "en = (if range_step x \<noteq> None \<and> length lh = 1 then bd_max r else b)"
  have en: "unat a \<le> unat en" "unat en \<le> ?hi" using se hi by (auto simp: en_def)
  obtain g where g: "getBits a en st = Some g"
    "\<forall>n < 64. bit g n \<longleftrightarrow> (\<exists>k. n = unat a + k * unat st \<and> n \<le> unat en)"
    using getBits_members [OF en(1) _ st(2,3)] en(2) hi by auto
  have "(if range_step x = None then ret (1, b)
         else bind_run (mustParseInt (show_nat (the (range_step x)))) (\<lambda>step. ret (step, if length lh = 1 then bd_max r else b))) =
        ret (st, en)"
    using assms(3) by (auto simp: st_def en_def wf_step_def parse_number bind_run_def split: option.splits)
  moreover have "\<not> a < bd_min r" "\<not> en > bd_max r" "\<not> a > en"
    using se(4) en by (auto simp: word_less_nat_alt)
  ultimately have "getRange (show_range x) r = ret (g OR star)"
    using sp se(1) g(1) unfolding getRange_def Let_def
    by (cases "range_step x") (auto simp: bind_run_def)
  moreover have "bit (g OR star) n \<longleftrightarrow> n \<in> range_values ?lo ?hi x \<or> n = 63 \<and> is_star x" if "n < 64" for n
  proof -
    have "bit g n \<longleftrightarrow> n \<in> stepped (unat a) (unat en) (range_step x)"
      using g(2) that stepped_members [of n "unat a" "range_step x" "unat en"] unfolding st(1) by simp
    moreover have "stepped (unat a) (unat en) (range_step x) = range_values ?lo ?hi x"
      using se(2) by (simp add: en_def)
    ultimately show ?thesis using that se(6) bit_starBit by (auto simp: bit_or_iff)
  qed
  ultimately show ?thesis by blast
qed

lemma get_ranges_values:
  assumes "wf_bounds r" and "list_all (\<lambda>x. wf_range (unat (bd_min r)) (unat (bd_max r)) x \<and> wf_step x) xs"
  shows "\<exists>b. get_ranges (map show_range xs) r acc = ret b \<and>
    (\<forall>n < 64. bit b n \<longleftrightarrow> bit acc n \<or>
       (\<exists>x \<in> set xs. n \<in> range_values (unat (bd_min r)) (unat (bd_max r)) x \<or> n = 63 \<and> is_star x))"
  using assms(2)
proof (induction xs arbitrary: acc)
  case (Cons x xs)
  then obtain b where b: "getRange (show_range x) r = ret b"
    "\<forall>n < 64. bit b n \<longleftrightarrow> n \<in> range_values (unat (bd_min r)) (unat (bd_max r)) x \<or> n = 63 \<and> is_star x"
    using getRange_values [OF assms(1), of x] by auto
  from Cons.IH [of "acc OR b"] Cons.prems obtain c where "get_ranges (map show_range xs) r (acc OR b) = ret c"
    "\<forall>n < 64. bit c n \<longleftrightarrow> bit (acc OR b) n \<or>
       (\<exists>x \<in> set xs. n \<in> range_values (unat (bd_min r)) (unat (bd_max r)) x \<or> n = 63 \<and> is_star x)"
    by auto
  with b show ?case by (auto simp: bind_run_def bit_or_iff)
qed simp

lemma show_step_plain: "CHR '','' \<notin> set (show_step s)"
  by (auto simp: show_step_def show_nat_absent is_digit_def split: option.split)

lemma show_range_plain: "CHR '','' \<notin> set (show_range x)" "show_range x \<noteq> []"
  by (cases x; auto simp: show_step_plain show_nat_absent is_digit_def)+

section \<open>Properties\<close>

text \<open>
  C31. A field of a schedule means what its syntax says: for a list of stars, numbers and spans within the
  bounds of the field, each with an optional positive step, the bits are exactly the values of these
  ranges (a number with a step runs to the end of the field), and the top bit tells whether there was a
  star. In particular the loop over the values of a range ends and its shifts stay within the word.
\<close>

theorem field_values:
  assumes "wf_bounds r" and "list_all (\<lambda>x. wf_range (unat (bd_min r)) (unat (bd_max r)) x \<and> wf_step x) xs" and "xs \<noteq> []"
  shows "\<exists>b. getField (join '','' (map show_range xs)) r = ret b \<and>
    (\<forall>n < 63. bit b n \<longleftrightarrow> (\<exists>x \<in> set xs. n \<in> range_values (unat (bd_min r)) (unat (bd_max r)) x)) \<and>
    (bit b 63 \<longleftrightarrow> (\<exists>x \<in> set xs. is_star x))"
proof -
  have "split_char (CHR '','') (join '','' (map show_range xs)) = map show_range xs"
    using assms(3) by (intro split_join) (auto simp: show_range_plain)
  then have f: "getField (join '','' (map show_range xs)) r = get_ranges (map show_range xs) r 0"
    by (simp add: getField_def show_range_plain filter_map comp_def)
  have hi: "n \<in> range_values (unat (bd_min r)) (unat (bd_max r)) x \<Longrightarrow> n < 63"
    if "x \<in> set xs" for n x
    using assms(1,2) that by (cases x) (auto simp: list_all_iff wf_bounds_def stepped_def split: if_splits)
  obtain b where "get_ranges (map show_range xs) r 0 = ret b"
    "\<forall>n < 64. bit b n \<longleftrightarrow> (\<exists>x \<in> set xs. n \<in> range_values (unat (bd_min r)) (unat (bd_max r)) x \<or> n = 63 \<and> is_star x)"
    using get_ranges_values [OF assms(1,2), of 0] by auto
  with f show ?thesis by (intro exI [of _ b]) (auto dest: hi)
qed

theorem field_values_witness:
  "\<exists>b. getField ''1-5,30/10'' minutes = ret b \<and> bit b 5 \<and> bit b 40 \<and> \<not> bit b 6 \<and> \<not> bit b 63"
proof -
  have s: "join '','' (map show_range [Span 1 5 None, One 30 (Some 10)]) = ''1-5,30/10''"
    by code_simp
  have "list_all (\<lambda>x. wf_range (unat (bd_min minutes)) (unat (bd_max minutes)) x \<and> wf_step x) [Span 1 5 None, One 30 (Some 10)]"
    by (simp add: minutes_def wf_step_def)
  from field_values [OF wf_all_bounds(2) this] s show ?thesis
    by (auto simp: stepped_def minutes_def)
qed

lemma step_zero_stuck: "lo \<le> hi \<Longrightarrow> getBits lo hi 0 = None"
  using bits_loop_stuck [of lo hi 0 0] by (cases "bits_loop lo hi 0 0") (auto simp: getBits_def)

text \<open>
  A step of zero makes the parser run for ever: \<open>Parse\<close> does not return for a schedule whose first field
  is a star, or any number within its bounds, with step zero, whatever the other fields are.
\<close>

theorem step_zero_diverges:
  assumes "n \<le> 59" and "first \<in> {''*/0'', show_nat n @ ''/0''}"
  shows "spec_fields (first # rest) loc = None"
proof -
  have "show_nat 0 = ''0''" by code_simp
  then have zero: "mustParseInt ''0'' = ret 0" using parse_number [of 0] by simp
  have sp: "split_char (CHR ''/'') (e @ ''/0'') = [e, ''0'']" if "CHR ''/'' \<notin> set e" for e
    using that by (simp add: split_char_append)
  have stuck: "getRange (e @ ''/0'') seconds = None"
    if "CHR ''/'' \<notin> set e" "CHR ''-'' \<notin> set e" "range_ends [e] seconds = ret (a, b, star)" "a \<le> 59" for e a b star
    using that step_zero_stuck [of a 59] zero
    by (simp add: getRange_def Let_def sp bind_run_def seconds_def)
  have "\<exists>e. first = e @ ''/0'' \<and> CHR ''/'' \<notin> set e \<and> CHR ''-'' \<notin> set e \<and> CHR '','' \<notin> set e \<and>
      (\<exists>a b star. range_ends [e] seconds = ret (a, b, star) \<and> a \<le> 59)"
    using assms(2)
  proof (elim insertE emptyE)
    assume "first = ''*/0''"
    then show ?thesis by (intro exI [of _ "''*''"]) (simp add: range_ends_def seconds_def)
  next
    assume f: "first = show_nat n @ ''/0''"
    have "parseIntOrName (show_nat n) (bd_names seconds) = ret (of_nat n)"
      using assms(1) by (intro parse_number_name wf_all_bounds) simp
    moreover have "show_nat n \<noteq> ''*''" "show_nat n \<noteq> ''?''" using show_nat_digits [of _ n] by (auto simp: is_digit_def)
    moreover have "(of_nat n :: bits) \<le> 59" using assms(1) by (simp add: word_le_nat_alt unat_small)
    ultimately show ?thesis using f
      by (intro exI [of _ "show_nat n"]) (simp add: range_ends_def bind_run_def show_nat_absent is_digit_def)
  qed
  then obtain e a b star where e: "first = e @ ''/0''" "CHR ''/'' \<notin> set e" "CHR ''-'' \<notin> set e" "CHR '','' \<notin> set e"
    "range_ends [e] seconds = ret (a, b, star)" "a \<le> 59" by blast
  then have "getField first seconds = None"
    using stuck [OF e(2,3,5,6)] by (simp add: getField_def bind_run_def)
  then show ?thesis by (simp add: spec_fields_def bind_run_def)
qed

theorem step_zero_diverges_witness:
  "cron_Parse (\<lambda>_. None :: unit option) (\<lambda>_. None) () ''*/0 0 3 * * *'' = None"
proof -
  have "Go_Base.fields ''*/0 0 3 * * *'' = [''*/0'', ''0'', ''3'', ''*'', ''*'', ''*'']" by code_simp
  then show ?thesis
    using step_zero_diverges [of 0 "''*/0''" "[''0'', ''3'', ''*'', ''*'', ''*'']" "()"]
    by (simp add: cron_Parse_def parse_zone_def bind_run_def cut_prefix_def has_prefix_def)
qed

text \<open>
  A constant delay fires on whole seconds: a delay is at least one second and a whole number of seconds,
  not longer than asked for unless that was below a second, and the next activation is on a full second,
  later than the given time and at most the delay after it.
\<close>

theorem constant_delay:
  "second_ns \<le> Every d \<and> Every d mod second_ns = 0 \<and> (second_ns \<le> d \<longrightarrow> Every d \<le> d \<and> d < Every d + second_ns) \<and>
   ConstantDelay_Next (Every d) t mod second_ns = 0 \<and> t < ConstantDelay_Next (Every d) t \<and>
   ConstantDelay_Next (Every d) t \<le> t + Every d"
proof -
  have pos: "(0 :: int) < second_ns" by (simp add: second_ns_def)
  have m: "Every d mod second_ns = 0" by (simp add: Every_def Let_def mod_diff_eq)
  have ge: "second_ns \<le> Every d"
  proof -
    let ?d = "if d < second_ns then second_ns else d"
    have "1 * second_ns \<le> ?d div second_ns * second_ns" using pos
      by (intro mult_right_mono) (auto simp: pos_imp_zdiv_pos_iff int_one_le_iff_zero_less)
    then show ?thesis by (simp add: Every_def Let_def minus_mod_eq_div_mult)
  qed
  have t: "0 \<le> t mod second_ns" "t mod second_ns < second_ns" using pos by simp_all
  have "ConstantDelay_Next (Every d) t = (t - t mod second_ns) + Every d" by (simp add: ConstantDelay_Next_def)
  moreover have "((t - t mod second_ns) + Every d) mod second_ns = 0" 
    using m by (intro dvd_imp_mod_0 dvd_add) (auto simp: dvd_minus_mod mod_eq_0_iff_dvd)
  moreover have "second_ns \<le> d \<longrightarrow> Every d \<le> d \<and> d < Every d + second_ns"
    using pos by (auto simp: Every_def Let_def)
  ultimately show ?thesis using m ge t by auto
qed

theorem constant_delay_witness: "second_ns \<le> Every 90000000000 \<and> Every 90000000000 \<le> 90000000000"
  using constant_delay [of 90000000000 0] by (simp add: second_ns_def)

end
