(* ===== verification/Calendar.thy ===== *)
theory Calendar
  imports Main
begin

text \<open>
  The calendar of the package \<open>time\<close>, as far as schedules need it: days are counted from 1 January 1970,
  a time is a number of seconds from the start of that day in UTC, and a location is the function that
  gives its offset from UTC, in seconds, at a time. The lemmas say that a day lies in the month and in the
  year that its date names.
\<close>

section \<open>Dates\<close>

definition is_leap :: "int \<Rightarrow> bool" where
  "is_leap y \<longleftrightarrow> y mod 4 = 0 \<and> (y mod 100 \<noteq> 0 \<or> y mod 400 = 0)"

text \<open>The day of 1 January.\<close>

definition year_start :: "int \<Rightarrow> int" where
  "year_start y = 365 * y + (y + 3) div 4 - (y + 99) div 100 + (y + 399) div 400 - 719528"

text \<open>An estimate from the mean length of a year is off by at most one.\<close>

definition year_of :: "int \<Rightarrow> int" where
  "year_of d =
     (let y = (400 * (d + 719528)) div 146097
      in if d < year_start y then y - 1 else if year_start (y + 1) \<le> d then y + 1 else y)"

definition days_before :: "int \<Rightarrow> int \<Rightarrow> int" where
  "days_before y m =
     [0, 31, 59, 90, 120, 151, 181, 212, 243, 273, 304, 334, 365] ! nat (m - 1) + (if m > 2 \<and> is_leap y then 1 else 0)"

definition month_start :: "int \<Rightarrow> int \<Rightarrow> int" where
  "month_start y m = year_start y + days_before y m"

definition month_of :: "int \<Rightarrow> int" where
  "month_of d =
     (let y = year_of d
      in int (length (filter (\<lambda>m. month_start y m \<le> d) [2, 3, 4, 5, 6, 7, 8, 9, 10, 11, 12])) + 1)"

definition day_of :: "int \<Rightarrow> int" where
  "day_of d = d - month_start (year_of d) (month_of d) + 1"

text \<open>Sunday is 0; the first day was a Thursday.\<close>

definition weekday_of :: "int \<Rightarrow> int" where
  "weekday_of d = (d + 4) mod 7"

text \<open>The day of a date whose month and day may be out of range, as \<open>time.Date\<close> normalises it.\<close>

definition date_day :: "int \<Rightarrow> int \<Rightarrow> int \<Rightarrow> int" where
  "date_day y m d = month_start (y + (m - 1) div 12) ((m - 1) mod 12 + 1) + d - 1"

section \<open>Times in a location\<close>

type_synonym location = "int \<Rightarrow> int"

definition day_number :: "int \<Rightarrow> int" where
  "day_number t = t div 86400"

definition local :: "location \<Rightarrow> int \<Rightarrow> int" where
  "local l t = t + l t"

definition t_Year :: "location \<Rightarrow> int \<Rightarrow> int" where "t_Year l t = year_of (day_number (local l t))"
definition t_Month :: "location \<Rightarrow> int \<Rightarrow> int" where "t_Month l t = month_of (day_number (local l t))"
definition t_Day :: "location \<Rightarrow> int \<Rightarrow> int" where "t_Day l t = day_of (day_number (local l t))"
definition t_Weekday :: "location \<Rightarrow> int \<Rightarrow> int" where "t_Weekday l t = weekday_of (day_number (local l t))"
definition t_Hour :: "location \<Rightarrow> int \<Rightarrow> int" where "t_Hour l t = local l t div 3600 mod 24"
definition t_Minute :: "location \<Rightarrow> int \<Rightarrow> int" where "t_Minute l t = local l t div 60 mod 60"
definition t_Second :: "location \<Rightarrow> int \<Rightarrow> int" where "t_Second l t = local l t mod 60"

text \<open>
  \<open>time.Date\<close>: the offset is looked up for the date taken as UTC and, when it is not zero, again for
  the time that this offset gives.
\<close>

definition t_Date :: "location \<Rightarrow> int \<Rightarrow> int \<Rightarrow> int \<Rightarrow> int \<Rightarrow> int" where
  "t_Date l y m d clock =
     (let unix = date_day y m d * 86400 + clock
      in if l unix = 0 then unix else unix - l (unix - l unix))"

definition t_AddDate :: "location \<Rightarrow> int \<Rightarrow> int \<Rightarrow> int \<Rightarrow> int" where
  "t_AddDate l months days t =
     t_Date l (t_Year l t) (t_Month l t + months) (t_Day l t + days) (local l t mod 86400)"

text \<open>\<open>Truncate\<close> counts from a midnight in UTC, whatever the location is.\<close>

definition t_Truncate :: "int \<Rightarrow> int \<Rightarrow> int" where
  "t_Truncate d t = t - t mod d"

section \<open>Lemmas\<close>

lemma div_bounds: "0 < k \<Longrightarrow> k * (x div k) \<le> x \<and> x < k * (x div k) + k" for k x :: int
  by (smt (verit) minus_mod_eq_mult_div pos_mod_bound pos_mod_sign)

lemma year_start_bounds: "146097 * y - 396 \<le> 400 * (year_start y + 719528) \<and> 400 * (year_start y + 719528) \<le> 146097 * y + 699"
  using div_bounds [of 4 "y + 3"] div_bounds [of 100 "y + 99"] div_bounds [of 400 "y + 399"]
  unfolding year_start_def by auto

lemma div_ceiling: "0 < k \<Longrightarrow> (y + (k - 1)) div k = y div k + (if y mod k = 0 then 0 else 1)" for k y :: int
proof -
  assume k: "0 < k"
  define q r where "q = y div k" and "r = y mod k"
  have y: "y = k * q + r" and r: "0 \<le> r" "r < k" using k by (simp_all add: q_def r_def)
  have "(y + (k - 1)) div k = (r + k - 1 + q * k) div k" by (simp add: y algebra_simps)
  also have "\<dots> = q + (r + k - 1) div k" using k by (subst div_mult_self1) auto
  also have "(r + k - 1) div k = (if r = 0 then 0 else 1)"
  proof (cases "r = 0")
    case False
    have "(r + k - 1) div k = (r - 1 + 1 * k) div k" by (simp add: algebra_simps)
    also have "\<dots> = 1 + (r - 1) div k" using k by (subst div_mult_self1) auto
    finally show ?thesis using False r by simp
  qed (use k in simp)
  finally show ?thesis by (simp add: q_def r_def)
qed

lemma div_ceiling_Suc: "0 < k \<Longrightarrow> (y + 1 + (k - 1)) div k = (y + (k - 1)) div k + (if y mod k = 0 then 1 else 0)" for k y :: int
  using div_ceiling [of k y] div_mult_self1 [of k y 1] by (auto simp: algebra_simps)

lemma year_start_Suc: "year_start (y + 1) = year_start y + (if is_leap y then 366 else 365)"
proof -
  have k: "(4 :: int) - 1 = 3" "(100 :: int) - 1 = 99" "(400 :: int) - 1 = 399" by simp_all
  have a: "(y + 1 + 3) div 4 = (y + 3) div 4 + (if y mod 4 = 0 then 1 else 0)"
    and b: "(y + 1 + 99) div 100 = (y + 99) div 100 + (if y mod 100 = 0 then 1 else 0)"
    and c: "(y + 1 + 399) div 400 = (y + 399) div 400 + (if y mod 400 = 0 then 1 else 0)"
    by (rule div_ceiling_Suc [of 4 y, unfolded k], simp, rule div_ceiling_Suc [of 100 y, unfolded k], simp,
        rule div_ceiling_Suc [of 400 y, unfolded k], simp)
  have "y mod 400 = 0 \<Longrightarrow> y mod 100 = 0" "y mod 100 = 0 \<Longrightarrow> y mod 4 = 0"
    using dvd_trans [of 100 400 y] dvd_trans [of 4 100 y] by (auto simp: mod_eq_0_iff_dvd)
  moreover define A B C where "A = (y + 3) div 4" and "B = (y + 99) div 100" and "C = (y + 399) div 400"
  moreover define p q r where "p \<longleftrightarrow> y mod 4 = 0" and "q \<longleftrightarrow> y mod 100 = 0" and "r \<longleftrightarrow> y mod 400 = 0"
  ultimately show ?thesis
    unfolding year_start_def a b c is_leap_def A_def [symmetric] B_def [symmetric] C_def [symmetric]
      p_def [symmetric] q_def [symmetric] r_def [symmetric]
    by (cases p; cases q; cases r) simp_all
qed

lemma year_start_mono: "y \<le> z \<Longrightarrow> year_start y \<le> year_start z"
proof (induction "nat (z - y)" arbitrary: z)
  case (Suc n)
  then have "year_start y \<le> year_start (z - 1)" by (intro Suc.hyps) auto
  then show ?case using year_start_Suc [of "z - 1"] by (simp split: if_splits)
qed simp

lemma year_of_bounds: "year_start (year_of d) \<le> d \<and> d < year_start (year_of d + 1)"
proof -
  define y where "y = (400 * (d + 719528)) div 146097"
  have e: "146097 * y \<le> 400 * (d + 719528) \<and> 400 * (d + 719528) < 146097 * y + 146097"
    unfolding y_def by (rule div_bounds) simp
  have "year_start (y - 1) \<le> d" "d < year_start (y + 2)"
    using e year_start_bounds [of "y - 1"] year_start_bounds [of "y + 2"] by auto
  then show ?thesis unfolding year_of_def Let_def y_def [symmetric] by (auto simp: algebra_simps)
qed

lemma year_of_unique: "year_start y \<le> d \<Longrightarrow> d < year_start (y + 1) \<Longrightarrow> year_of d = y"
  using year_of_bounds [of d] year_start_mono [of "year_of d + 1" y] year_start_mono [of "y + 1" "year_of d"] by linarith

lemma year_of_mono: "d \<le> e \<Longrightarrow> year_of d \<le> year_of e"
  using year_of_bounds [of d] year_of_bounds [of e] year_start_mono [of "year_of e + 1" "year_of d"] by linarith

lemma month_start_first: "month_start y 1 = year_start y"
  by (simp add: month_start_def days_before_def)

lemma month_start_end: "month_start y 13 = year_start (y + 1)"
  by (simp add: month_start_def days_before_def year_start_Suc)

lemma month_start_values:
  "month_start y 2 = year_start y + 31"
  "month_start y 3 = year_start y + (if is_leap y then 60 else 59)"
  "month_start y 4 = year_start y + (if is_leap y then 91 else 90)"
  "month_start y 5 = year_start y + (if is_leap y then 121 else 120)"
  "month_start y 6 = year_start y + (if is_leap y then 152 else 151)"
  "month_start y 7 = year_start y + (if is_leap y then 182 else 181)"
  "month_start y 8 = year_start y + (if is_leap y then 213 else 212)"
  "month_start y 9 = year_start y + (if is_leap y then 244 else 243)"
  "month_start y 10 = year_start y + (if is_leap y then 274 else 273)"
  "month_start y 11 = year_start y + (if is_leap y then 305 else 304)"
  "month_start y 12 = year_start y + (if is_leap y then 335 else 334)"
  by (simp_all add: month_start_def days_before_def)

lemma month_of_bounds:
  "1 \<le> month_of d \<and> month_of d \<le> 12 \<and> month_start (year_of d) (month_of d) \<le> d \<and>
   d < month_start (year_of d) (month_of d + 1)"
  using year_of_bounds [of d] month_start_end [of "year_of d"] month_start_first [of "year_of d"]
  unfolding month_of_def Let_def
  by (cases "is_leap (year_of d)") (simp_all add: month_start_values year_start_Suc)

lemma month_cases:
  assumes "1 \<le> m" "m \<le> 12"
  shows "m \<in> {1, 2, 3, 4, 5, 6, 7, 8, 9, 10, 11, 12 :: int}"
  using assms by simp presburger

lemma month_start_less: "1 \<le> m \<Longrightarrow> m \<le> 12 \<Longrightarrow> month_start y m < month_start y (m + 1)"
  using month_cases [of m]
  by (auto simp: month_start_values month_start_first month_start_end year_start_Suc)

lemma month_start_mono: "1 \<le> m \<Longrightarrow> m \<le> n \<Longrightarrow> n \<le> 13 \<Longrightarrow> month_start y m \<le> month_start y n"
proof (induction "nat (n - m)" arbitrary: n)
  case (Suc k)
  then have "month_start y m \<le> month_start y (n - 1)" by (intro Suc.hyps) auto
  moreover have "month_start y (n - 1) < month_start y n"
    using month_start_less [of "n - 1" y] Suc by auto
  ultimately show ?case by simp
qed simp

lemma month_unique:
  assumes "1 \<le> m" "m \<le> 12" "month_start y m \<le> d" "d < month_start y (m + 1)"
  shows "year_of d = y \<and> month_of d = m"
proof -
  have "year_start y \<le> d" "d < year_start (y + 1)"
    using assms month_start_mono [of 1 m y] month_start_mono [of "m + 1" 13 y]
    by (auto simp: month_start_first month_start_end)
  then have y: "year_of d = y" by (rule year_of_unique)
  note b = month_of_bounds [of d, unfolded y]
  have "\<not> month_of d < m" using month_start_mono [of "month_of d + 1" m y] b assms by auto
  moreover have "\<not> m < month_of d" using month_start_mono [of "m + 1" "month_of d" y] b assms by auto
  ultimately show ?thesis using y by simp
qed

text \<open>The first day of the month of a day, and the first day of the month after it.\<close>

definition month_first :: "int \<Rightarrow> int" where
  "month_first d = month_start (year_of d) (month_of d)"

definition month_next :: "int \<Rightarrow> int" where
  "month_next d = month_start (year_of d) (month_of d + 1)"

lemma month_block:
  "month_first d \<le> d" "d < month_next d"
  "month_first d \<le> e \<Longrightarrow> e < month_next d \<Longrightarrow> year_of e = year_of d \<and> month_of e = month_of d"
  using month_of_bounds [of d] month_unique [of "month_of d" "year_of d" e]
  by (auto simp: month_first_def month_next_def)

lemma date_day_next: "1 \<le> m \<Longrightarrow> m \<le> 12 \<Longrightarrow> date_day y (m + 1) 1 = month_start y (m + 1)"
  using month_cases [of m] by (auto simp: date_day_def month_start_first month_start_end)

lemma date_day_same: "1 \<le> m \<Longrightarrow> m \<le> 12 \<Longrightarrow> date_day y m d = month_start y m + d - 1"
  using month_cases [of m] by (auto simp: date_day_def)

lemma month_next_first: "month_first (month_next d) = month_next d"
proof -
  let ?y = "year_of d" let ?m = "month_of d"
  have m: "1 \<le> ?m" "?m \<le> 12" using month_of_bounds [of d] by auto
  show ?thesis
  proof (cases "?m = 12")
    case True
    then have e: "month_next d = month_start (?y + 1) 1"
      by (simp add: month_next_def month_start_first month_start_end)
    then have "year_of (month_next d) = ?y + 1 \<and> month_of (month_next d) = 1"
      using month_start_less [of 1 "?y + 1"] by (intro month_unique) auto
    with e show ?thesis by (simp add: month_first_def)
  next
    case False
    then have "year_of (month_next d) = ?y \<and> month_of (month_next d) = ?m + 1"
      using m month_start_less [of "?m + 1" ?y] by (intro month_unique) (auto simp: month_next_def)
    then show ?thesis by (simp add: month_first_def month_next_def)
  qed
qed

lemma day_of_first: "day_of d = 1 \<longleftrightarrow> month_first d = d"
  by (auto simp: day_of_def month_first_def)

end
