(* ===== verification/Cron_Schedule.thy ===== *)
theory Cron_Schedule
  imports Cron_Parser Calendar
begin

text \<open>
  The next activation of a schedule, \<open>src/pkg/cron/spec.go\<close>. \<open>Next\<close> is a loop per field with jumps
  back to the first one; it is modelled as a machine whose states are the places in the code, the time
  reached and the flag \<open>added\<close>. The machine is defined for every location; the correctness theorem is
  about UTC, through a locale for searches over nested blocks of time.
\<close>

section \<open>Model\<close>

datatype place = Wrap | MonthLoop | DayLoop | HourLoop | MinuteLoop | SecondLoop

type_synonym search = "place \<times> int \<times> bool"

definition has_bit :: "bits \<Rightarrow> int \<Rightarrow> bool" where
  "has_bit b n = bit b (nat n)"

definition dayMatches :: "location \<Rightarrow> 'l SpecSchedule \<Rightarrow> int \<Rightarrow> bool" where
  "dayMatches l s t =
     (let domMatch = has_bit (Dom s) (t_Day l t); dowMatch = has_bit (Dow s) (t_Weekday l t)
      in if has_bit (Dom s) 63 \<or> has_bit (Dow s) 63 then domMatch \<and> dowMatch else domMatch \<or> dowMatch)"

text \<open>
  One step: to the next place, \<^const>\<open>Inl\<close>, or to the result, \<^const>\<open>Inr\<close>, which is \<^const>\<open>None\<close> for the
  zero time.
\<close>

definition next_step :: "location \<Rightarrow> 'l SpecSchedule \<Rightarrow> int \<Rightarrow> search \<Rightarrow> search + int option" where
  "next_step l s yearLimit st =
     (case st of (pc, t, added) \<Rightarrow>
        (case pc of
           Wrap \<Rightarrow> if t_Year l t > yearLimit then Inr None else Inl (MonthLoop, t, added)
         | MonthLoop \<Rightarrow>
             if has_bit (Month s) (t_Month l t) then Inl (DayLoop, t, added)
             else let t = (if added then t else t_Date l (t_Year l t) (t_Month l t) 1 0);
                      t = t_AddDate l 1 0 t
                  in Inl (if t_Month l t = 1 then Wrap else MonthLoop, t, True)
         | DayLoop \<Rightarrow>
             if dayMatches l s t then Inl (HourLoop, t, added)
             else let t = (if added then t else t_Date l (t_Year l t) (t_Month l t) (t_Day l t) 0);
                      t = t_AddDate l 0 1 t
                  in Inl (if t_Day l t = 1 then Wrap else DayLoop, t, True)
         | HourLoop \<Rightarrow>
             if has_bit (Hour s) (t_Hour l t) then Inl (MinuteLoop, t, added)
             else let t = (if added then t else t_Truncate 3600 t); t = t + 3600
                  in Inl (if t_Hour l t = 0 then Wrap else HourLoop, t, True)
         | MinuteLoop \<Rightarrow>
             if has_bit (Minute s) (t_Minute l t) then Inl (SecondLoop, t, added)
             else let t = (if added then t else t_Truncate 60 t); t = t + 60
                  in Inl (if t_Minute l t = 0 then Wrap else MinuteLoop, t, True)
         | SecondLoop \<Rightarrow>
             if has_bit (Second s) (t_Second l t) then Inr (Some t)
             else let t = (if added then t else t_Truncate 1 t); t = t + 1
                  in Inl (if t_Second l t = 0 then Wrap else SecondLoop, t, True)))"

partial_function (option) next_loop :: "location \<Rightarrow> 'l SpecSchedule \<Rightarrow> int \<Rightarrow> search \<Rightarrow> int option option" where
  "next_loop l s yearLimit st =
     (case next_step l s yearLimit st of Inl st \<Rightarrow> next_loop l s yearLimit st | Inr r \<Rightarrow> Some r)"

text \<open>
  \<open>Next\<close>, from a time in nanoseconds: the search starts at the next full second, and ends five years
  later. The result is in seconds.
\<close>

definition Spec_Next :: "location \<Rightarrow> 'l SpecSchedule \<Rightarrow> int \<Rightarrow> int option option" where
  "Spec_Next l s ns = (let t = ns div second_ns + 1 in next_loop l s (t_Year l t + 5) (Wrap, t, False))"

section \<open>Searching in nested blocks\<close>

text \<open>
  Five levels of blocks of time, the finer within the coarser; a condition per level that is the same in
  a whole block. Such a search skips the rest of a block whose condition fails.
\<close>

locale nested_search =
  fixes first after :: "nat \<Rightarrow> int \<Rightarrow> int" and holds :: "nat \<Rightarrow> int \<Rightarrow> bool"
  assumes first_le: "first i t \<le> t" and less_after: "t < after i t"
    and same_block: "first i t \<le> u \<Longrightarrow> u < after i t \<Longrightarrow> first i u = first i t \<and> after i u = after i t \<and> holds i u = holds i t"
    and first_after: "first i (after i t) = after i t"
    and finer_first: "i \<le> j \<Longrightarrow> first i t \<le> first j t" and finer_after: "i \<le> j \<Longrightarrow> after j t \<le> after i t"
begin

definition hit :: "int \<Rightarrow> bool" where
  "hit t \<longleftrightarrow> (\<forall>i < 5. holds i t)"

text \<open>
  The invariant of the search at a level: nothing was missed, the coarser levels hold, and once the time
  was moved, every level holds or the time is at the start of its block.
\<close>

definition searching :: "int \<Rightarrow> nat \<Rightarrow> int \<Rightarrow> bool \<Rightarrow> bool" where
  "searching t0 i t added \<longleftrightarrow>
     t0 \<le> t \<and> (\<forall>u. t0 \<le> u \<and> u < t \<longrightarrow> \<not> hit u) \<and> (\<forall>k < i. holds k t) \<and>
     (added \<longrightarrow> (\<forall>k. holds k t \<or> first k t = t))"

lemma searching_start: "searching t 0 t False"
  by (auto simp: searching_def)

lemma searching_deeper: "searching t0 i t added \<Longrightarrow> holds i t \<Longrightarrow> searching t0 (Suc i) t added"
  by (auto simp: searching_def less_Suc_eq)

lemma searching_restart: "searching t0 i t added \<Longrightarrow> searching t0 0 t added"
  by (auto simp: searching_def)

text \<open>Where a level fails, the time to go on from is the start of its block, moved or not.\<close>

lemma failing_first: "searching t0 i t added \<Longrightarrow> \<not> holds i t \<Longrightarrow> (if added then t else first i t) = first i t"
  by (auto simp: searching_def)

lemma searching_skip:
  assumes s: "searching t0 i t added" and f: "\<not> holds i t" and i: "i < 5"
  shows "searching t0 0 (after i t) True"
    and "j \<le> i \<Longrightarrow> (\<And>k. k < j \<Longrightarrow> after i t < after k t) \<Longrightarrow> searching t0 j (after i t) True"
proof -
  have miss: "\<not> hit u" if "t0 \<le> u" "u < after i t" for u
  proof (cases "u < t")
    case True
    with s that show ?thesis by (auto simp: searching_def)
  next
    case False
    then have "first i t \<le> u" using first_le [of i t] by linarith
    with same_block [of i t u] that f i show ?thesis by (auto simp: hit_def)
  qed
  have same: "holds k (after i t) \<or> first k (after i t) = after i t" if "k < i" for k
  proof (cases "after i t < after k t")
    case True
    then have "holds k (after i t) = holds k t"
      using same_block [of k t "after i t"] first_le [of k t] less_after [of t i] by linarith
    with s that show ?thesis by (auto simp: searching_def)
  next
    case False
    with finer_after [of k i t] that have "after i t = after k t" by simp
    then show ?thesis by (simp add: first_after)
  qed
  have fine: "first k (after i t) = after i t" if "i \<le> k" for k
    using finer_first [OF that, of "after i t"] first_after [of i t] first_le [of k "after i t"] by simp
  have aligned: "\<forall>k. holds k (after i t) \<or> first k (after i t) = after i t"
    using same fine by (metis linorder_not_less)
  show 0: "searching t0 0 (after i t) True"
    using miss aligned s less_after [of t i] by (auto simp: searching_def)
  assume j: "j \<le> i" and k: "\<And>k. k < j \<Longrightarrow> after i t < after k t"
  have "holds k (after i t)" if "k < j" for k
    using same_block [of k t "after i t"] first_le [of k t] less_after [of t i] k [OF that] s that j
    by (auto simp: searching_def)
  with 0 show "searching t0 j (after i t) True" by (auto simp: searching_def)
qed

lemma first_of_after: "k \<le> i \<Longrightarrow> first k (after i t) = after i t \<longleftrightarrow> after i t = after k t"
proof
  assume k: "k \<le> i" and f: "first k (after i t) = after i t"
  show "after i t = after k t"
  proof (rule ccontr)
    assume "after i t \<noteq> after k t"
    then have "first k (after i t) = first k t"
      using finer_after [OF k, of t] same_block [of k t "after i t"] first_le [of k t] less_after [of t i] by simp
    then show False using f first_le [of k t] less_after [of t i] by simp
  qed
qed (simp add: first_after)

lemma searching_found: "searching t0 5 t added \<Longrightarrow> hit t \<and> t0 \<le> t \<and> (\<forall>u. t0 \<le> u \<and> u < t \<longrightarrow> \<not> hit u)"
  by (auto simp: searching_def hit_def)

end

section \<open>Blocks of time in UTC\<close>

abbreviation utc :: location where "utc \<equiv> \<lambda>_. 0"

fun block_first :: "nat \<Rightarrow> int \<Rightarrow> int" where
  "block_first 0 t = 86400 * month_first (t div 86400)"
| "block_first (Suc 0) t = 86400 * (t div 86400)"
| "block_first (Suc (Suc 0)) t = 3600 * (t div 3600)"
| "block_first (Suc (Suc (Suc 0))) t = 60 * (t div 60)"
| "block_first (Suc (Suc (Suc (Suc _)))) t = t"

fun block_after :: "nat \<Rightarrow> int \<Rightarrow> int" where
  "block_after 0 t = 86400 * month_next (t div 86400)"
| "block_after (Suc 0) t = 86400 * (t div 86400 + 1)"
| "block_after (Suc (Suc 0)) t = 3600 * (t div 3600 + 1)"
| "block_after (Suc (Suc (Suc 0))) t = 60 * (t div 60 + 1)"
| "block_after (Suc (Suc (Suc (Suc _)))) t = t + 1"

fun field_holds :: "'l SpecSchedule \<Rightarrow> nat \<Rightarrow> int \<Rightarrow> bool" where
  "field_holds s 0 t = has_bit (Month s) (t_Month utc t)"
| "field_holds s (Suc 0) t = dayMatches utc s t"
| "field_holds s (Suc (Suc 0)) t = has_bit (Hour s) (t_Hour utc t)"
| "field_holds s (Suc (Suc (Suc 0))) t = has_bit (Minute s) (t_Minute utc t)"
| "field_holds s (Suc (Suc (Suc (Suc _)))) t = has_bit (Second s) (t_Second utc t)"

lemma div_block: "0 < k \<Longrightarrow> k * q \<le> u \<Longrightarrow> u < k * (q + 1) \<Longrightarrow> u div k = q" for k q u :: int
proof -
  assume "0 < k" "k * q \<le> u" "u < k * (q + 1)"
  then have "0 \<le> u - q * k" "u - q * k < k" by (simp_all add: algebra_simps)
  then have "(u - q * k + q * k) div k = q" using \<open>0 < k\<close> by (subst div_mult_self1) auto
  then show ?thesis by simp
qed

lemma block_le: "0 < k \<Longrightarrow> k * (t div k) \<le> t \<and> t < k * (t div k + 1)" for k t :: int
  using div_bounds [of k t] by (simp add: algebra_simps)

lemma local_utc [simp]: "local utc t = t"
  by (simp add: local_def)

lemma div_hours: "t div 86400 = t div 3600 div 24" "t div 3600 = t div 60 div 60" for t :: int
  using zdiv_zmult2_eq [of 24 t 3600] zdiv_zmult2_eq [of 60 t 60] by simp_all

lemma adjacent_first: "block_first i t \<le> block_first (Suc i) t"
proof (cases "(i, t)" rule: block_first.cases)
  case (1 t')
  then show ?thesis using month_block(1) [of "t div 86400"] by simp
next
  case (2 t')
  have "24 * (t div 3600 div 24) \<le> t div 3600" using block_le [of 24] by simp
  then show ?thesis using 2 by (simp add: div_hours(1))
next
  case (3 t')
  have "60 * (t div 60 div 60) \<le> t div 60" using block_le [of 60] by simp
  then show ?thesis using 3 by (simp add: div_hours(2))
next
  case (4 t')
  then show ?thesis using block_le [of 60 t] by simp
qed simp

lemma adjacent_after: "block_after (Suc i) t \<le> block_after i t"
proof (cases "(i, t)" rule: block_first.cases)
  case (1 t')
  then show ?thesis using month_block(2) [of "t div 86400"] by simp
next
  case (2 t')
  have "t div 3600 < 24 * (t div 3600 div 24 + 1)" using block_le [of 24] by simp
  then show ?thesis using 2 by (simp add: div_hours(1))
next
  case (3 t')
  have "t div 60 < 60 * (t div 60 div 60 + 1)" using block_le [of 60] by simp
  then show ?thesis using 3 by (simp add: div_hours(2))
next
  case (4 t')
  then show ?thesis using block_le [of 60 t] by simp
qed simp

lemma month_day_bounds:
  assumes "86400 * month_first (t div 86400) \<le> u" "u < 86400 * month_next (t div 86400)"
  shows "month_first (t div 86400) \<le> u div 86400 \<and> u div 86400 < month_next (t div 86400)"
  using assms block_le [of 86400 u] by (auto simp: algebra_simps)

interpretation utc_search: nested_search block_first block_after "field_holds s" for s
proof
  fix i j :: nat and t u :: int
  show "block_first i t \<le> t"
    using block_le [of 86400 t] block_le [of 3600 t] block_le [of 60 t] month_block(1) [of "t div 86400"]
    by (cases "(i, t)" rule: block_first.cases) auto
  show "t < block_after i t"
    using block_le [of 86400 t] block_le [of 3600 t] block_le [of 60 t] month_block(2) [of "t div 86400"]
    by (cases "(i, t)" rule: block_first.cases) auto
  show "block_first i u = block_first i t \<and> block_after i u = block_after i t \<and> field_holds s i u = field_holds s i t"
    if a: "block_first i t \<le> u" "u < block_after i t"
  proof (cases "(i, t)" rule: block_first.cases)
    case (1 t')
    with a month_day_bounds [of t u] have "month_first (t div 86400) \<le> u div 86400" "u div 86400 < month_next (t div 86400)" by auto
    then have "year_of (u div 86400) = year_of (t div 86400) \<and> month_of (u div 86400) = month_of (t div 86400)"
      by (rule month_block(3))
    then show ?thesis using 1 by (simp add: month_first_def month_next_def t_Month_def day_number_def)
  next
    case (2 t')
    with a div_block [of 86400 "t div 86400" u] have "u div 86400 = t div 86400" by simp
    then show ?thesis using 2 by (simp add: dayMatches_def t_Day_def t_Weekday_def day_number_def)
  next
    case (3 t')
    with a div_block [of 3600 "t div 3600" u] have "u div 3600 = t div 3600" by simp
    then show ?thesis using 3 by (simp add: t_Hour_def)
  next
    case (4 t')
    with a div_block [of 60 "t div 60" u] have "u div 60 = t div 60" by simp
    then show ?thesis using 4 by (simp add: t_Minute_def)
  next
    case (5 k t')
    with a show ?thesis by simp
  qed
  show "block_first i (block_after i t) = block_after i t"
    by (cases "(i, t)" rule: block_first.cases) (simp_all add: month_next_first)
  show "block_first i t \<le> block_first j t" if "i \<le> j"
    using lift_Suc_mono_le [of "\<lambda>i. block_first i t" i j] adjacent_first that by blast
  show "block_after j t \<le> block_after i t" if "i \<le> j"
    using lift_Suc_antimono_le [of "\<lambda>i. block_after i t" i j] adjacent_after that by blast
qed

declare next_loop.simps [code]

section \<open>The search in UTC\<close>

text \<open>The second satisfies every field of the schedule.\<close>

definition activates :: "location \<Rightarrow> 'l SpecSchedule \<Rightarrow> int \<Rightarrow> bool" where
  "activates l s t \<longleftrightarrow>
     has_bit (Month s) (t_Month l t) \<and> dayMatches l s t \<and> has_bit (Hour s) (t_Hour l t) \<and>
     has_bit (Minute s) (t_Minute l t) \<and> has_bit (Second s) (t_Second l t)"

lemma less_five: "(\<forall>i < 5. P i) \<longleftrightarrow> P 0 \<and> P (Suc 0) \<and> P (Suc (Suc 0)) \<and> P (Suc (Suc (Suc 0))) \<and> P (Suc (Suc (Suc (Suc 0))))"
  by (auto simp: numeral_eq_Suc less_Suc_eq)

abbreviation spec_searching :: "'l SpecSchedule \<Rightarrow> int \<Rightarrow> nat \<Rightarrow> int \<Rightarrow> bool \<Rightarrow> bool" where
  "spec_searching s \<equiv> nested_search.searching block_first (field_holds s)"

lemma hit_activates: "nested_search.hit (field_holds s) t \<longleftrightarrow> activates utc s t"
  by (simp add: utc_search.hit_def less_five activates_def)

fun level :: "place \<Rightarrow> nat" where
  "level Wrap = 0" | "level MonthLoop = 0" | "level DayLoop = 1" | "level HourLoop = 2"
| "level MinuteLoop = 3" | "level SecondLoop = 4"

fun deeper :: "place \<Rightarrow> place" where
  "deeper Wrap = MonthLoop" | "deeper MonthLoop = DayLoop" | "deeper DayLoop = HourLoop"
| "deeper HourLoop = MinuteLoop" | "deeper MinuteLoop = SecondLoop" | "deeper SecondLoop = SecondLoop"

fun wrapped :: "place \<Rightarrow> int \<Rightarrow> bool" where
  "wrapped Wrap u = False"
| "wrapped MonthLoop u = (t_Month utc u = 1)"
| "wrapped DayLoop u = (t_Day utc u = 1)"
| "wrapped HourLoop u = (t_Hour utc u = 0)"
| "wrapped MinuteLoop u = (t_Minute utc u = 0)"
| "wrapped SecondLoop u = (t_Second utc u = 0)"

lemma mult_mod_eq: "t - t mod k = k * (t div k)" for t k :: int
  by (simp add: minus_mod_eq_mult_div)

lemma utc_Date_month: "t_Date utc (t_Year utc t) (t_Month utc t) 1 0 = block_first 0 t"
  using month_of_bounds [of "t div 86400"]
  by (simp add: t_Date_def t_Year_def t_Month_def day_number_def date_day_same month_first_def)

lemma utc_Date_day: "t_Date utc (t_Year utc t) (t_Month utc t) (t_Day utc t) 0 = block_first 1 t"
  using month_of_bounds [of "t div 86400"]
  by (simp add: t_Date_def t_Year_def t_Month_def t_Day_def day_number_def date_day_same day_of_def)

lemma utc_AddDate_month: "block_first 0 t = t \<Longrightarrow> t_AddDate utc 1 0 t = block_after 0 t"
proof -
  assume a: "block_first 0 t = t"
  then have d: "t div 86400 = month_first (t div 86400)" "t mod 86400 = 0"
    by (simp_all, metis a block_first.simps(1) mod_mult_self1_is_0)
  have "day_of (t div 86400) = 1" using d(1) by (simp add: day_of_first)
  then show ?thesis
    using month_of_bounds [of "t div 86400"] d(2)
    by (simp add: t_AddDate_def t_Date_def t_Year_def t_Month_def t_Day_def day_number_def date_day_next month_next_def)
qed

lemma utc_AddDate_day: "block_first 1 t = t \<Longrightarrow> t_AddDate utc 0 1 t = block_after 1 t"
  using month_of_bounds [of "t div 86400"] div_mult_mod_eq [of t 86400]
  by (simp add: t_AddDate_def t_Date_def t_Year_def t_Month_def t_Day_def day_number_def date_day_same day_of_def)

text \<open>The test for a wrap-around asks whether the next coarser block is over too.\<close>

lemma wrapped_first:
  assumes "block_first (level pc) u = u" "pc \<in> {DayLoop, HourLoop, MinuteLoop, SecondLoop}"
  shows "wrapped pc u \<longleftrightarrow> block_first (level pc - 1) u = u"
proof -
  define d h m where "d = u div 86400" and "h = u div 3600" and "m = u div 60"
  have hd: "d = h div 24" and mh: "h = m div 60" by (simp_all add: d_def h_def m_def div_hours)
  consider "pc = DayLoop" | "pc = HourLoop" | "pc = MinuteLoop" | "pc = SecondLoop" using assms(2) by auto
  then show ?thesis
  proof cases
    case 1
    with assms have "u = 86400 * d" by (simp add: d_def)
    with 1 show ?thesis by (simp add: t_Day_def day_number_def day_of_first)
  next
    case 2
    with assms have "u = 3600 * h" by (simp add: h_def numeral_2_eq_2)
    moreover have "h mod 24 = 0 \<longleftrightarrow> 24 * (h div 24) = h" using mult_div_mod_eq [of 24 h] by linarith
    ultimately show ?thesis using 2 hd by (simp add: t_Hour_def flip: d_def h_def)
  next
    case 3
    with assms have "u = 60 * m" by (simp add: m_def numeral_3_eq_3)
    moreover have "m mod 60 = 0 \<longleftrightarrow> 60 * (m div 60) = m" using mult_div_mod_eq [of 60 m] by linarith
    ultimately show ?thesis using 3 mh by (simp add: t_Minute_def numeral_2_eq_2 flip: h_def m_def)
  next
    case 4
    have "u mod 60 = 0 \<longleftrightarrow> 60 * (u div 60) = u" using mult_div_mod_eq [of 60 u] by linarith
    with 4 show ?thesis by (simp add: t_Second_def numeral_3_eq_3)
  qed
qed

lemma wrapped_after: "0 < level pc \<Longrightarrow> wrapped pc (block_after (level pc) t) \<longleftrightarrow> block_after (level pc) t = block_after (level pc - 1) t"
  using wrapped_first [of pc "block_after (level pc) t"] utc_search.first_after [of "level pc" t]
    utc_search.first_of_after [of "level pc - 1" "level pc" t]
  by (cases pc) auto

text \<open>A step of the search, over the blocks.\<close>

lemma next_step_blocks:
  assumes "spec_searching s t0 (level pc) t added" "pc \<noteq> Wrap"
  shows "next_step utc s lim (pc, t, added) =
    (if field_holds s (level pc) t then if pc = SecondLoop then Inr (Some t) else Inl (deeper pc, t, added)
     else let u = block_after (level pc) t in Inl (if wrapped pc u then Wrap else pc, u, True))"
proof -
  have f: "(if added then t else block_first (level pc) t) = block_first (level pc) t" if "\<not> field_holds s (level pc) t"
    using utc_search.failing_first [OF assms(1) that] .
  have ff: "block_first i (block_first i t) = block_first i t" "block_after i (block_first i t) = block_after i t" for i
    using utc_search.same_block [of i t "block_first i t"] utc_search.first_le [of i t] utc_search.less_after [of t i] by auto
  have am: "t_AddDate utc 1 0 (86400 * month_first (t div 86400)) = 86400 * month_next (t div 86400)"
    using utc_AddDate_month [of "block_first 0 t"] ff [of 0] by simp
  have tr: "t_Truncate k t = k * (t div k)" for k by (simp add: t_Truncate_def mult_mod_eq)
  show ?thesis
    using assms(2) f ff
    by (cases pc; cases added)
      (auto simp: next_step_def Let_def tr utc_Date_month utc_Date_day utc_AddDate_month utc_AddDate_day am
        numeral_eq_Suc algebra_simps)
qed

definition year_end :: "int \<Rightarrow> int" where
  "year_end lim = 86400 * year_start (lim + 1)"

lemma before_year_end: "t < year_end lim \<longleftrightarrow> t_Year utc t \<le> lim"
proof -
  let ?d = "t div 86400"
  have "t < year_end lim \<longleftrightarrow> ?d < year_start (lim + 1)"
    using block_le [of 86400 t] by (auto simp: year_end_def)
  also have "\<dots> \<longleftrightarrow> year_of ?d \<le> lim"
    using year_of_bounds [of ?d] year_start_mono [of "lim + 1" "year_of ?d"] year_start_mono [of "year_of ?d + 1" "lim + 1"]
    by linarith
  finally show ?thesis by (simp add: t_Year_def day_number_def)
qed

lemma after_year_end: "t < year_end lim \<Longrightarrow> block_after i t \<le> year_end lim"
proof -
  let ?d = "t div 86400"
  assume "t < year_end lim"
  then have "year_of ?d \<le> lim" by (simp add: before_year_end t_Year_def day_number_def)
  moreover have "month_next ?d \<le> year_start (year_of ?d + 1)"
    using month_of_bounds [of ?d] month_start_mono [of "month_of ?d + 1" 13 "year_of ?d"]
    by (simp add: month_next_def month_start_end)
  ultimately have "block_after 0 t \<le> year_end lim"
    using year_start_mono [of "year_of ?d + 1" "lim + 1"] by (simp add: year_end_def)
  then show ?thesis using utc_search.finer_after [of 0 i t] by simp
qed

lemma month_year_end: "t_Month utc (year_end lim) = 1"
  using month_unique [of 1 "lim + 1" "year_start (lim + 1)"] month_start_less [of 1 "lim + 1"]
  by (simp add: year_end_def t_Month_def day_number_def month_start_first)

definition search_inv :: "'l SpecSchedule \<Rightarrow> int \<Rightarrow> int \<Rightarrow> search \<Rightarrow> bool" where
  "search_inv s t0 lim st =
     (case st of (pc, t, added) \<Rightarrow> spec_searching s t0 (level pc) t added \<and> t \<le> year_end lim \<and> (pc \<noteq> Wrap \<longrightarrow> t < year_end lim))"

text \<open>Every step moves the time, or goes on to a deeper loop.\<close>

definition place_rank :: "place \<Rightarrow> nat" where
  "place_rank pc = (case pc of Wrap \<Rightarrow> 5 | _ \<Rightarrow> 4 - level pc)"

definition search_measure :: "int \<Rightarrow> search \<Rightarrow> nat" where
  "search_measure lim st = (case st of (pc, t, _) \<Rightarrow> 6 * nat (year_end lim - t) + place_rank pc)"

definition search_result :: "'l SpecSchedule \<Rightarrow> int \<Rightarrow> int \<Rightarrow> int option \<Rightarrow> bool" where
  "search_result s t0 lim r =
     (case r of
        Some t \<Rightarrow> t0 \<le> t \<and> t_Year utc t \<le> lim \<and> activates utc s t \<and> (\<forall>u. t0 \<le> u \<and> u < t \<longrightarrow> \<not> activates utc s u)
      | None \<Rightarrow> \<forall>u. t0 \<le> u \<and> t_Year utc u \<le> lim \<longrightarrow> \<not> activates utc s u)"

lemma place_deeper: "pc \<notin> {Wrap, SecondLoop} \<Longrightarrow> level (deeper pc) = Suc (level pc) \<and> deeper pc \<noteq> Wrap \<and> place_rank (deeper pc) < place_rank pc"
  by (cases pc) (auto simp: place_rank_def)

lemma place_rank_less: "place_rank pc < 6"
  by (cases pc) (auto simp: place_rank_def)

lemma not_wrapped_year_end:
  assumes "t < year_end lim" "\<not> wrapped pc (block_after (level pc) t)" "pc \<noteq> Wrap"
  shows "block_after (level pc) t < year_end lim"
proof (cases "level pc = 0")
  case True
  with assms(3) have "pc = MonthLoop" by (cases pc) auto
  with assms month_year_end [of lim] after_year_end [OF assms(1), of 0] show ?thesis
    by (auto simp: order_less_le)
next
  case False
  with assms(2) wrapped_after [of pc t] utc_search.finer_after [of "level pc - 1" "level pc" t]
  have "block_after (level pc) t < block_after (level pc - 1) t" by auto
  with after_year_end [OF assms(1), of "level pc - 1"] show ?thesis by simp
qed

lemma search_skipped:
  assumes s: "spec_searching s t0 (level pc) t added" and f: "\<not> field_holds s (level pc) t" and pc: "pc \<noteq> Wrap"
  shows "spec_searching s t0 (level (if wrapped pc (block_after (level pc) t) then Wrap else pc)) (block_after (level pc) t) True"
proof (cases "wrapped pc (block_after (level pc) t)")
  case True
  have "level pc < 5" by (cases pc) auto
  then show ?thesis using True utc_search.searching_skip(1) [OF s f] by simp
next
  case False
  have l: "level pc < 5" by (cases pc) auto
  have "block_after (level pc) t < block_after k t" if k: "k < level pc" for k
  proof -
    have "block_after (level pc) t \<noteq> block_after (level pc - 1) t" using wrapped_after [of pc t] False k by simp
    moreover have "block_after (level pc) t \<le> block_after (level pc - 1) t" by (rule utc_search.finer_after) simp
    moreover have "block_after (level pc - 1) t \<le> block_after k t" by (rule utc_search.finer_after) (use k in simp)
    ultimately show ?thesis by linarith
  qed
  then show ?thesis using False utc_search.searching_skip(2) [OF s f l order_refl] by simp
qed

definition progresses :: "'l SpecSchedule \<Rightarrow> int \<Rightarrow> int \<Rightarrow> search \<Rightarrow> bool" where
  "progresses s t0 lim st \<longleftrightarrow>
     (case next_step utc s lim st of
        Inl st' \<Rightarrow> search_inv s t0 lim st' \<and> search_measure lim st' < search_measure lim st
      | Inr r \<Rightarrow> search_result s t0 lim r)"

lemma wrap_progresses:
  assumes s: "spec_searching s t0 (level Wrap) t added" and "t \<le> year_end lim"
  shows "progresses s t0 lim (Wrap, t, added)"
proof (cases "t < year_end lim")
  case True
  with s before_year_end [of t lim] show ?thesis
    by (simp add: progresses_def next_step_def search_inv_def search_measure_def place_rank_def)
next
  case False
  then have "t = year_end lim" using assms(2) by simp
  moreover have "\<not> activates utc s u" if "t0 \<le> u" "u < t" for u
    using s that by (auto simp: utc_search.searching_def hit_activates)
  moreover have "lim < t_Year utc t" using before_year_end [of t lim] False by simp
  ultimately show ?thesis
    by (auto simp: progresses_def next_step_def search_result_def before_year_end [symmetric])
qed

lemma hit_progresses:
  assumes s: "spec_searching s t0 (level pc) t added" and "t < year_end lim" "t \<le> year_end lim" "pc \<noteq> Wrap"
    and "field_holds s (level pc) t"
  shows "progresses s t0 lim (pc, t, added)"
proof -
  note step = next_step_blocks [OF s assms(4), of lim]
  note d = utc_search.searching_deeper [OF s assms(5)]
  show ?thesis
  proof (cases "pc = SecondLoop")
    case True
    with d have "spec_searching s t0 5 t added" by (simp add: numeral_eq_Suc)
    moreover have "next_step utc s lim (pc, t, added) = Inr (Some t)" using step assms(5) True by simp
    ultimately show ?thesis using utc_search.searching_found [of s t0 t added] assms(2)
      by (simp add: progresses_def search_result_def hit_activates before_year_end)
  next
    case False
    from place_deeper [of pc] False d assms(2-5) show ?thesis
      by (auto simp: progresses_def step search_inv_def search_measure_def)
  qed
qed

lemma miss_progresses:
  assumes s: "spec_searching s t0 (level pc) t added" and t: "t < year_end lim" "t \<le> year_end lim" and pc: "pc \<noteq> Wrap"
    and f: "\<not> field_holds s (level pc) t"
  shows "progresses s t0 lim (pc, t, added)"
proof -
  note step = next_step_blocks [OF s pc, of lim]
  let ?u = "block_after (level pc) t"
  have u: "t < ?u" by (rule utc_search.less_after)
  have "6 * nat (year_end lim - ?u) + 6 \<le> 6 * nat (year_end lim - t)"
    using u after_year_end [OF t(1), of "level pc"] t by linarith
  moreover have "search_inv s t0 lim (if wrapped pc ?u then Wrap else pc, ?u, True)"
    using search_skipped [OF s f pc] after_year_end [OF t(1), of "level pc"]
      not_wrapped_year_end [OF t(1) _ pc] by (simp add: search_inv_def)
  ultimately show ?thesis
    using f place_rank_less [of "if wrapped pc ?u then Wrap else pc"]
    by (auto simp: progresses_def step Let_def search_measure_def)
qed

lemma search_progress:
  assumes "search_inv s t0 lim st"
  shows "case next_step utc s lim st of
      Inl st' \<Rightarrow> search_inv s t0 lim st' \<and> search_measure lim st' < search_measure lim st
    | Inr r \<Rightarrow> search_result s t0 lim r"
proof -
  obtain pc t added where st: "st = (pc, t, added)" by (cases st)
  have s: "spec_searching s t0 (level pc) t added" and e: "t \<le> year_end lim" "pc \<noteq> Wrap \<Longrightarrow> t < year_end lim"
    using assms by (auto simp: search_inv_def st)
  have "progresses s t0 lim (pc, t, added)"
    using wrap_progresses hit_progresses miss_progresses s e by (metis (full_types))
  then show ?thesis unfolding progresses_def st .
qed

lemma next_loop_result: "search_inv s t0 lim st \<Longrightarrow> \<exists>r. next_loop utc s lim st = Some r \<and> search_result s t0 lim r"
proof (induction "search_measure lim st" arbitrary: st rule: less_induct)
  case less
  show ?case
  proof (cases "next_step utc s lim st")
    case (Inl st')
    with search_progress [OF less.prems] less.hyps [of st'] show ?thesis by (auto simp: next_loop.simps [of _ _ _ st])
  next
    case (Inr r)
    with search_progress [OF less.prems] show ?thesis by (auto simp: next_loop.simps [of _ _ _ st])
  qed
qed

section \<open>Properties\<close>

definition five_to_six :: "unit SpecSchedule" where
  "five_to_six = \<lparr>Second = -1, Minute = -1, Hour = push_bit 5 1, Dom = -1, Month = -1, Dow = -1, Location = ()\<rparr>"

abbreviation india :: location where "india \<equiv> \<lambda>_. 19800"

text \<open>
  C10. \<open>Next\<close> in UTC returns for every schedule and every time, and what it returns is right: the first
  second after the time that satisfies every field, or the zero time when no second up to the end of the
  fifth year after does.
\<close>

theorem next_activation:
  "\<exists>r. Spec_Next utc s ns = Some r \<and>
     (case r of
        Some t \<Rightarrow> ns < t * second_ns \<and> activates utc s t \<and>
          (\<forall>u. ns < u * second_ns \<and> u < t \<longrightarrow> \<not> activates utc s u)
      | None \<Rightarrow> \<forall>u. ns < u * second_ns \<and> t_Year utc u \<le> t_Year utc (ns div second_ns + 1) + 5 \<longrightarrow> \<not> activates utc s u)"
proof -
  let ?t0 = "ns div second_ns + 1" and ?lim = "t_Year utc (ns div second_ns + 1) + 5"
  have sec: "ns < u * second_ns \<longleftrightarrow> ?t0 \<le> u" for u
    using div_bounds [of second_ns ns] by (auto simp: second_ns_def)
  have "?t0 < year_end ?lim" by (simp add: before_year_end)
  then have "search_inv s ?t0 ?lim (Wrap, ?t0, False)"
    by (simp add: search_inv_def utc_search.searching_start)
  from next_loop_result [OF this] show ?thesis
    by (auto simp: Spec_Next_def Let_def search_result_def sec split: option.splits)
qed

definition half_minutes :: "unit SpecSchedule" where
  "half_minutes = \<lparr>Second = push_bit 30 1, Minute = -1, Hour = -1, Dom = -1, Month = -1, Dow = -1, Location = ()\<rparr>"

lemma has_bit_single: "0 \<le> n \<Longrightarrow> has_bit (push_bit k 1) n \<longleftrightarrow> nat n = k \<and> k < 64"
  by (auto simp: has_bit_def bit_simps)

theorem next_activation_witness: "Spec_Next utc half_minutes 0 = Some (Some 30)"
proof -
  have a: "activates utc half_minutes 30"
    by (simp add: activates_def half_minutes_def dayMatches_def has_bit_def t_Second_def t_Minute_def t_Hour_def
        t_Weekday_def t_Day_def t_Month_def weekday_of_def day_number_def bit_simps) code_simp
  have "t_Year utc 30 \<le> t_Year utc (0 div second_ns + 1) + 5" by (simp add: t_Year_def day_number_def)
  with next_activation [of half_minutes 0] a obtain t where
    t: "Spec_Next utc half_minutes 0 = Some (Some t)" "activates utc half_minutes t" "0 < t" "t \<le> 30"
    by (fastforce simp: second_ns_def not_less split: option.splits)
  have sec: "Second half_minutes = push_bit 30 1" unfolding half_minutes_def by (rule SpecSchedule.select_convs)
  from t(2) have "has_bit (push_bit 30 1) (t mod 60)" by (simp only: activates_def sec t_Second_def local_utc)
  then have "nat (t mod 60) = 30" by (simp only: has_bit_single pos_mod_sign [of 60 t])
  with t show ?thesis by simp
qed

text \<open>
  Elsewhere \<open>Next\<close> may skip activations: \<open>Truncate(time.Hour)\<close> counts from midnight in UTC, so in a
  location half an hour off, the first hour that matches is entered in its middle. In India a schedule
  for every second from 05:00 to 05:59 is next run, seen from 04:10, at 05:30.
\<close>

theorem next_half_hour_zone:
  "\<exists>t u. Spec_Next india five_to_six ((4 * 3600 + 10 * 60 - 19800) * second_ns) = Some (Some t) \<and>
     4 * 3600 + 10 * 60 - 19800 < u \<and> u < t \<and> activates india five_to_six u"
proof -
  have "Spec_Next india five_to_six ((4 * 3600 + 10 * 60 - 19800) * second_ns) = Some (Some 0)" by code_simp
  moreover have "activates india five_to_six (- 1800)" by code_simp
  ultimately show ?thesis by (intro exI [of _ 0] exI [of _ "- 1800"]) simp
qed

end
