(* ===== verification/Cron_Runner.thy ===== *)
theory Cron_Runner
  imports Cron_Parser Go_Sort "HOL-Library.Product_Lexorder"
begin

text \<open>
  The runner of the scheduler, \<open>src/pkg/cron/cron.go\<close>: the entries, and the loop that sleeps until the next of
  them is due as one function for each event it waits for. Times are nanoseconds, the zero time is
  \<^const>\<open>None\<close>. Two entries are due together when their times are the same instant; the code compares the
  representations, which are the same when the schedules are of one kind. The list \<open>cr_runs\<close> of what was started is the only part of the state that the code has not.
\<close>

section \<open>Model\<close>

type_synonym next_fun = "int \<Rightarrow> int option"

record cron_entry =
  en_ID :: nat
  en_Schedule :: next_fun
  en_Next :: "int option"
  en_Prev :: "int option"

record Cron =
  cr_entries :: "cron_entry list"
  cr_running :: bool
  cr_nextID :: nat
  cr_now :: int
  cr_runs :: "(nat \<times> int) list"

definition cron_New :: Cron where
  "cron_New = \<lparr>cr_entries = [], cr_running = False, cr_nextID = 0, cr_now = 0, cr_runs = []\<rparr>"

definition entry_Valid :: "cron_entry \<Rightarrow> bool" where
  "entry_Valid e \<longleftrightarrow> en_ID e \<noteq> 0"

text \<open>Entries without a next time come last.\<close>

definition byTime_Less :: "cron_entry \<Rightarrow> cron_entry \<Rightarrow> bool" where
  "byTime_Less a b =
     (case en_Next a of None \<Rightarrow> False
      | Some x \<Rightarrow> (case en_Next b of None \<Rightarrow> True | Some y \<Rightarrow> x < y))"

definition new_entry :: "next_fun \<Rightarrow> Cron \<Rightarrow> cron_entry" where
  "new_entry sched c = \<lparr>en_ID = cr_nextID c + 1, en_Schedule = sched, en_Next = None, en_Prev = None\<rparr>"

text \<open>\<open>Schedule\<close> before the loop runs; the result is the new entry's number.\<close>

definition cron_Schedule :: "next_fun \<Rightarrow> Cron \<Rightarrow> Cron \<times> nat" where
  "cron_Schedule sched c =
     (c\<lparr>cr_nextID := cr_nextID c + 1, cr_entries := cr_entries c @ [new_entry sched c]\<rparr>, cr_nextID c + 1)"

definition AddJob :: "(string \<Rightarrow> next_fun option) \<Rightarrow> string \<Rightarrow> Cron \<Rightarrow> Cron \<times> nat option" where
  "AddJob parse spec c =
     (case parse spec of None \<Rightarrow> (c, None) | Some sched \<Rightarrow> (case cron_Schedule sched c of (c, i) \<Rightarrow> (c, Some i)))"

definition removeEntry :: "nat \<Rightarrow> Cron \<Rightarrow> Cron" where
  "removeEntry i c = c\<lparr>cr_entries := filter (\<lambda>e. en_ID e \<noteq> i) (cr_entries c)\<rparr>"

definition entrySnapshot :: "Cron \<Rightarrow> cron_entry list" where
  "entrySnapshot c = cr_entries c"

definition zero_entry :: cron_entry where
  "zero_entry = \<lparr>en_ID = 0, en_Schedule = (\<lambda>_. None), en_Next = None, en_Prev = None\<rparr>"

definition cron_Entry :: "nat \<Rightarrow> Cron \<Rightarrow> cron_entry" where
  "cron_Entry i c = (case find (\<lambda>e. i = en_ID e) (entrySnapshot c) of Some e \<Rightarrow> e | None \<Rightarrow> zero_entry)"

text \<open>\<open>Start\<close>: the first activations, from the time the loop starts.\<close>

definition cron_Start :: "int \<Rightarrow> Cron \<Rightarrow> Cron" where
  "cron_Start now c =
     c\<lparr>cr_running := True, cr_now := now, cr_entries := map (\<lambda>e. e\<lparr>en_Next := en_Schedule e now\<rparr>) (cr_entries c)\<rparr>"

text \<open>What the loop sleeps until: the first time, or ten years of 365 days and more.\<close>

definition effective :: "int \<Rightarrow> cron_entry list \<Rightarrow> int option" where
  "effective now es = (case es of [] \<Rightarrow> None | e # _ \<Rightarrow> en_Next e)"

text \<open>The entries are started up to the first one with another time.\<close>

fun fire :: "int \<Rightarrow> cron_entry list \<Rightarrow> cron_entry list \<times> (nat \<times> int) list" where
  "fire eff [] = ([], [])"
| "fire eff (e # es) =
     (if en_Next e \<noteq> Some eff then (e # es, [])
      else (case fire eff es of
              (es, rs) \<Rightarrow> (e\<lparr>en_Prev := en_Next e, en_Next := en_Schedule e eff\<rparr> # es, (en_ID e, eff) # rs)))"

datatype cron_event = Timer int | Add next_fun int | Remove nat int | Snapshot int

type_synonym entry_sorter = "(cron_entry \<Rightarrow> cron_entry \<Rightarrow> bool) \<Rightarrow> cron_entry list \<Rightarrow> cron_entry list"

text \<open>
  One turn of the loop: sorting, then what it waited for, with the time that the clock shows afterwards. When
  nothing is due the timer only sets the time.
\<close>

definition cron_turn :: "entry_sorter \<Rightarrow> cron_event \<Rightarrow> Cron \<Rightarrow> Cron" where
  "cron_turn srt ev c =
     (let c = c\<lparr>cr_entries := srt byTime_Less (cr_entries c)\<rparr>
      in case ev of
           Timer now \<Rightarrow>
             (case effective (cr_now c) (cr_entries c) of
                None \<Rightarrow> c\<lparr>cr_now := now\<rparr>
              | Some eff \<Rightarrow>
                  (case fire eff (cr_entries c) of
                     (es, rs) \<Rightarrow> c\<lparr>cr_now := now, cr_entries := es, cr_runs := rev rs @ cr_runs c\<rparr>))
         | Add sched now \<Rightarrow>
             c\<lparr>cr_nextID := cr_nextID c + 1,
               cr_entries := cr_entries c @ [(new_entry sched c)\<lparr>en_Next := sched (cr_now c)\<rparr>], cr_now := now\<rparr>
         | Remove i now \<Rightarrow> (removeEntry i c)\<lparr>cr_now := now\<rparr>
         | Snapshot now \<Rightarrow> c\<lparr>cr_now := now\<rparr>)"

definition cron_run :: "entry_sorter \<Rightarrow> cron_event list \<Rightarrow> Cron \<Rightarrow> Cron" where
  "cron_run srt evs c = fold (cron_turn srt) evs c"

text \<open>\<open>Stop\<close> hands a value to the loop: without a loop to take it the call never returns.\<close>

definition cron_Stop :: "Cron \<Rightarrow> Cron option" where
  "cron_Stop c = (if cr_running c then Some (c\<lparr>cr_running := False\<rparr>) else None)"

section \<open>Lemmas\<close>

definition time_key :: "cron_entry \<Rightarrow> bool \<times> int" where
  "time_key e = (case en_Next e of None \<Rightarrow> (True, 0) | Some t \<Rightarrow> (False, t))"

lemma byTime_key: "byTime_Less = (\<lambda>a b. time_key a < time_key b)"
  by (intro ext) (auto simp: byTime_Less_def time_key_def less_prod_def split: option.split)

lemma time_key_le: "time_key a \<le> time_key b \<Longrightarrow> en_Next b = Some t \<Longrightarrow> \<exists>s. en_Next a = Some s \<and> s \<le> t"
  by (auto simp: time_key_def less_eq_prod_def split: option.splits)

text \<open>Sorted entries: the due ones are a prefix, and the loop starts exactly those.\<close>

definition fired :: "int \<Rightarrow> cron_entry \<Rightarrow> cron_entry" where
  "fired eff e = (if en_Next e = Some eff then e\<lparr>en_Prev := Some eff, en_Next := en_Schedule e eff\<rparr> else e)"

lemma fire_sorted:
  assumes "sorted (map time_key es)" "\<forall>e\<in>set es. time_key e \<ge> (False, eff)"
  shows "fire eff es = (map (fired eff) es, map (\<lambda>e. (en_ID e, eff)) (filter (\<lambda>e. en_Next e = Some eff) es))"
  using assms
proof (induction es)
  case (Cons e es)
  show ?case
  proof (cases "en_Next e = Some eff")
    case True
    then show ?thesis using Cons by (simp add: fired_def)
  next
    case False
    then have "(False, eff) < time_key e" using Cons.prems(2) by (auto simp: time_key_def less_eq_prod_def less_prod_def split: option.splits)
    then have later: "(False, eff) < time_key x" if "x \<in> set es" for x
      using Cons.prems(1) that by (auto dest: less_le_trans)
    have "en_Next x \<noteq> Some eff" if "x \<in> set (e # es)" for x
      using later [of x] False that by (auto simp: time_key_def less_prod_def)
    then show ?thesis by (auto simp: fired_def filter_empty_conv intro!: map_idI [symmetric])
  qed
qed simp

lemma effective_first:
  assumes "sorted (map time_key es)" "effective now es = Some eff"
  shows "\<forall>e\<in>set es. time_key e \<ge> (False, eff)"
  using assms by (cases es) (auto simp: effective_def time_key_def less_eq_prod_def)

lemma timer_fires:
  assumes "slice_sort srt" "effective (cr_now c) (srt byTime_Less (cr_entries c)) = Some eff"
  shows "cr_entries (cron_turn srt (Timer now) c) = map (fired eff) (srt byTime_Less (cr_entries c))"
    and "cr_runs (cron_turn srt (Timer now) c) =
      rev (map (\<lambda>e. (en_ID e, eff)) (filter (\<lambda>e. en_Next e = Some eff) (srt byTime_Less (cr_entries c)))) @ cr_runs c"
proof -
  have s: "sorted (map time_key (srt byTime_Less (cr_entries c)))"
    using slice_sort.sorted_keys [OF assms(1), of time_key] by (simp add: byTime_key)
  note f = fire_sorted [OF s effective_first [OF s assms(2)]]
  show "cr_entries (cron_turn srt (Timer now) c) = map (fired eff) (srt byTime_Less (cr_entries c))"
    "cr_runs (cron_turn srt (Timer now) c) =
      rev (map (\<lambda>e. (en_ID e, eff)) (filter (\<lambda>e. en_Next e = Some eff) (srt byTime_Less (cr_entries c)))) @ cr_runs c"
    using assms(2) f by (simp_all add: cron_turn_def)
qed
section \<open>What is started\<close>

definition earliest :: "cron_entry list \<Rightarrow> int \<Rightarrow> bool" where
  "earliest es t \<longleftrightarrow> (\<exists>e\<in>set es. en_Next e = Some t) \<and> list_all (\<lambda>e. \<not> (case en_Next e of None \<Rightarrow> False | Some u \<Rightarrow> u < t)) es"

lemma effective_earliest:
  assumes "slice_sort srt" "earliest es t"
  shows "effective now (srt byTime_Less es) = Some t"
proof -
  note srt = slice_sort.sorted_keys [OF assms(1)] slice_sort.set_srt [OF assms(1)]
  let ?ss = "srt byTime_Less es"
  have s: "sorted (map time_key ?ss)" using srt(1) [of time_key es] by (simp add: byTime_key)
  obtain e where e: "e \<in> set ?ss" "en_Next e = Some t" using assms(2) srt(2) by (auto simp: earliest_def)
  then obtain x xs where ss: "?ss = x # xs" by (cases ?ss) auto
  have "time_key x \<le> time_key e" using s e(1) by (auto simp: ss)
  then obtain u where u: "en_Next x = Some u" "u \<le> t" using time_key_le e(2) by blast
  have "x \<in> set es" using srt(2) ss by (metis list.set_intros(1))
  then have "\<not> u < t" using assms(2) u(1) by (auto simp: earliest_def list_all_iff split: option.splits)
  then show ?thesis using u by (simp add: effective_def ss)
qed

text \<open>When the earliest time is reached every entry with that time is started, once, and no other; it is
  stamped with this time and its schedule's next one, and the other entries stay as they are.\<close>

theorem due_entries_run:
  assumes "slice_sort srt" and "earliest (cr_entries c) t"
  shows "(\<exists>started. cr_runs (cron_turn srt (Timer now) c) = started @ cr_runs c \<and>
      mset started = image_mset (\<lambda>e. (en_ID e, t)) (filter_mset (\<lambda>e. en_Next e = Some t) (mset (cr_entries c)))) \<and>
    mset (cr_entries (cron_turn srt (Timer now) c)) =
      image_mset (\<lambda>e. if en_Next e = Some t then e\<lparr>en_Prev := Some t, en_Next := en_Schedule e t\<rparr> else e) (mset (cr_entries c))"
proof -
  note f = timer_fires [OF assms(1) effective_earliest [OF assms], of now]
  note m = slice_sort.mset_srt [OF assms(1), of byTime_Less "cr_entries c"]
  have fired: "fired t = (\<lambda>e. if en_Next e = Some t then e\<lparr>en_Prev := Some t, en_Next := en_Schedule e t\<rparr> else e)"
    by (intro ext) (simp add: fired_def)
  show ?thesis unfolding f 
    by (intro conjI exI, rule refl) (simp_all add: mset_filter m fired)
qed

definition two_jobs :: Cron where
  "two_jobs = cron_Start 500 (fst (cron_Schedule (\<lambda>t. Some (ConstantDelay_Next (Every (3 * second_ns)) t))
     (fst (cron_Schedule (\<lambda>t. Some (ConstantDelay_Next (Every second_ns) t)) cron_New))))"

lemma due_entries_run_witness:
  "\<exists>started. cr_runs (cron_turn insertion_sort (Timer 1000000003) two_jobs) = started @ [] \<and> mset started = {#(1, 1000000000)#}"
proof -
  have c: "cr_runs two_jobs = []"
    "cr_entries two_jobs = [\<lparr>en_ID = 1, en_Schedule = \<lambda>t. Some (ConstantDelay_Next (Every second_ns) t), en_Next = Some 1000000000, en_Prev = None\<rparr>,
      \<lparr>en_ID = 2, en_Schedule = \<lambda>t. Some (ConstantDelay_Next (Every (3 * second_ns)) t), en_Next = Some 3000000000, en_Prev = None\<rparr>]"
    by (simp_all add: two_jobs_def cron_Start_def cron_Schedule_def cron_New_def new_entry_def ConstantDelay_Next_def Every_def second_ns_def)
  have "earliest (cr_entries two_jobs) 1000000000" by (simp add: earliest_def c)
  from due_entries_run [OF insertion.slice_sort_axioms this, of 1000000003] show ?thesis by (simp add: c)
qed

section \<open>The order of the starts\<close>

definition later_sched :: "next_fun \<Rightarrow> bool" where
  "later_sched s \<longleftrightarrow> (\<forall>t u. s t = Some u \<longrightarrow> t < u)"

definition starts_of :: "nat \<Rightarrow> Cron \<Rightarrow> int list" where
  "starts_of i c = map snd (filter (\<lambda>r. fst r = i) (cr_runs c))"

definition cron_ok :: "Cron \<Rightarrow> bool" where
  "cron_ok c \<longleftrightarrow>
     distinct (map en_ID (cr_entries c)) \<and>
     (\<forall>e\<in>set (cr_entries c). 1 \<le> en_ID e \<and> en_ID e \<le> cr_nextID c \<and> later_sched (en_Schedule e)) \<and>
     (\<forall>e\<in>set (cr_entries c). \<forall>t n. t \<in> set (starts_of (en_ID e) c) \<longrightarrow> en_Next e = Some n \<longrightarrow> t < n) \<and>
     (\<forall>i. starts_of i c \<noteq> [] \<longrightarrow> i \<le> cr_nextID c) \<and>
     (\<forall>i. sorted_wrt (>) (starts_of i c))"

lemma starts_simps [simp]:
  "starts_of i (c\<lparr>cr_entries := es\<rparr>) = starts_of i c" "starts_of i (c\<lparr>cr_now := n\<rparr>) = starts_of i c"
  "starts_of i (c\<lparr>cr_nextID := k\<rparr>) = starts_of i c" "starts_of i (c\<lparr>cr_running := b\<rparr>) = starts_of i c"
  by (simp_all add: starts_of_def)

lemma ok_now [simp]: "cron_ok (c\<lparr>cr_now := n\<rparr>) = cron_ok c"
  by (simp add: cron_ok_def)

lemma ok_perm: "mset es = mset (cr_entries c) \<Longrightarrow> cron_ok (c\<lparr>cr_entries := es\<rparr>) = cron_ok c"
  using mset_eq_setD [of es "cr_entries c"] mset_eq_imp_distinct_iff [of "map en_ID es" "map en_ID (cr_entries c)"]
  by (simp add: cron_ok_def)

lemma ok_add:
  assumes "cron_ok c" "later_sched s"
  shows "cron_ok (c\<lparr>cr_nextID := cr_nextID c + 1, cr_entries := cr_entries c @ [(new_entry s c)\<lparr>en_Next := n\<rparr>]\<rparr>)"
proof -
  have "starts_of (Suc (cr_nextID c)) c = []" using assms(1) by (auto simp: cron_ok_def)
  then show ?thesis using assms by (force simp: cron_ok_def new_entry_def le_SucI)
qed

lemma ok_remove: "cron_ok c \<Longrightarrow> cron_ok (removeEntry i c)"
  by (auto simp: cron_ok_def removeEntry_def distinct_map_filter)

lemma starts_fire:
  assumes "distinct (map en_ID es)"
  shows "starts_of i (c\<lparr>cr_runs := rev (map (\<lambda>e. (en_ID e, t)) (filter (\<lambda>e. en_Next e = Some t) es)) @ cr_runs c\<rparr>) =
    (if \<exists>e\<in>set es. en_ID e = i \<and> en_Next e = Some t then t # starts_of i c else starts_of i c)"
  using assms
proof (induction es rule: rev_induct)
  case (snoc e es)
  have "en_ID x \<noteq> en_ID e" if "x \<in> set es" for x using snoc.prems that by (force simp: image_iff)
  then show ?case using snoc by (auto simp: starts_of_def)
qed (simp add: starts_of_def)

lemma ok_fire:
  assumes "cron_ok c" "list_all (\<lambda>e. time_key e \<ge> (False, t)) (cr_entries c)"
  shows "cron_ok (c\<lparr>cr_entries := map (fired t) (cr_entries c),
     cr_runs := rev (map (\<lambda>e. (en_ID e, t)) (filter (\<lambda>e. en_Next e = Some t) (cr_entries c))) @ cr_runs c\<rparr>)"
    (is "cron_ok ?c")
proof -
  have d: "distinct (map en_ID (cr_entries c))" using assms(1) by (simp add: cron_ok_def)
  have st: "starts_of i ?c =
      (if \<exists>e\<in>set (cr_entries c). en_ID e = i \<and> en_Next e = Some t then t # starts_of i c else starts_of i c)" for i
    using starts_fire [OF d, of i t "c\<lparr>cr_entries := map (fired t) (cr_entries c)\<rparr>"] by simp
  have id: "en_ID (fired t e) = en_ID e" "en_Schedule (fired t e) = en_Schedule e" for e by (simp_all add: fired_def)
  have uniq: "x = y" if "x \<in> set (cr_entries c)" "y \<in> set (cr_entries c)" "en_ID x = en_ID y" for x y
    using d that by (simp add: distinct_map inj_on_def)
  have old: "u < n" if "e \<in> set (cr_entries c)" "u \<in> set (starts_of (en_ID e) c)" "en_Next e = Some n" for e u n
    using assms(1) that unfolding cron_ok_def by blast
  have nxt: "u < n" if e: "e \<in> set (cr_entries c)" and u: "u \<in> set (starts_of (en_ID e) ?c)" and n: "en_Next (fired t e) = Some n" for e u n
  proof (cases "en_Next e = Some t")
    case True
    then have "en_Schedule e t = Some n" using n by (simp add: fired_def)
    then have "t < n" using assms(1) e by (auto simp: cron_ok_def later_sched_def)
    moreover have "u = t \<or> u \<in> set (starts_of (en_ID e) c)" using u st [of "en_ID e"] by (auto split: if_splits)
    ultimately show ?thesis using old [OF e _ True] by force
  next
    case False
    then have "\<not> (\<exists>x\<in>set (cr_entries c). en_ID x = en_ID e \<and> en_Next x = Some t)" using uniq [OF _ e] by blast
    then have "starts_of (en_ID e) ?c = starts_of (en_ID e) c" using st [of "en_ID e"] by (simp only: if_False)
    then have "u \<in> set (starts_of (en_ID e) c)" using u by simp
    then show ?thesis using old [OF e] n False by (simp add: fired_def)
  qed
  have sorted: "sorted_wrt (>) (starts_of i ?c)" for i
    using assms(1) old by (auto simp: st cron_ok_def)
  have bound: "i \<le> cr_nextID c" if "starts_of i ?c \<noteq> []" for i
    using that assms(1) by (auto simp: st cron_ok_def split: if_splits)
  show ?thesis unfolding cron_ok_def using assms(1) nxt sorted bound
    by (auto simp: id cron_ok_def comp_def)
qed

lemma ok_turn:
  assumes "slice_sort srt" "cron_ok c" "case ev of Add s now \<Rightarrow> later_sched s | _ \<Rightarrow> True"
  shows "cron_ok (cron_turn srt ev c)"
proof -
  let ?c = "c\<lparr>cr_entries := srt byTime_Less (cr_entries c)\<rparr>"
  have c: "cron_ok ?c" using ok_perm [OF slice_sort.mset_srt [OF assms(1)]] assms(2) by simp
  have s: "sorted (map time_key (cr_entries ?c))"
    using slice_sort.sorted_keys [OF assms(1), of time_key] by (simp add: byTime_key)
  show ?thesis
  proof (cases ev)
    case (Timer now)
    show ?thesis
    proof (cases "effective (cr_now c) (cr_entries ?c)")
      case None
      then show ?thesis using c Timer by (simp add: cron_turn_def)
    next
      case (Some t)
      note first = effective_first [OF s Some]
      note ok_fire [of "?c\<lparr>cr_now := now\<rparr>" t]
      then show ?thesis using c first Some fire_sorted [OF s first] Timer by (simp add: cron_turn_def list_all_iff)
    qed
  next
    case (Add s now)
    then show ?thesis using ok_add [OF c, of s "s (cr_now c)"] assms(3) by (simp add: cron_turn_def new_entry_def)
  next
    case (Remove i now)
    then show ?thesis using ok_remove [OF c] by (simp add: cron_turn_def)
  qed (use c in \<open>simp add: cron_turn_def\<close>)
qed

lemma ok_run:
  "slice_sort srt \<Longrightarrow> cron_ok c \<Longrightarrow> list_all (\<lambda>ev. case ev of Add s now \<Rightarrow> later_sched s | _ \<Rightarrow> True) evs \<Longrightarrow>
   cron_ok (cron_run srt evs c)"
  by (induction evs arbitrary: c) (auto simp: cron_run_def ok_turn)

lemma ok_start: "cron_ok c \<Longrightarrow> cr_runs c = [] \<Longrightarrow> cron_ok (cron_Start now c)"
  by (simp add: cron_ok_def cron_Start_def starts_of_def comp_def)

text \<open>C34. Whatever is added, removed and inspected while the loop runs, and whatever the clock shows, the times for
  which an entry is started strictly increase: no job is started twice for the same time.\<close>

theorem starts_increase:
  assumes "slice_sort srt" and "list_all later_sched scheds"
    and "list_all (\<lambda>ev. case ev of Add s now \<Rightarrow> later_sched s | _ \<Rightarrow> True) evs"
  shows "sorted_wrt (>) (starts_of i (cron_run srt evs
     (cron_Start now (fold (\<lambda>s c. fst (cron_Schedule s c)) scheds cron_New))))"
proof -
  have sched: "cron_ok (fold (\<lambda>s c. fst (cron_Schedule s c)) scheds c)" if "cron_ok c" for c
    using assms(2) that
  proof (induction scheds arbitrary: c)
    case (Cons s scheds)
    then show ?case using ok_add [of c s None] by (simp add: cron_Schedule_def new_entry_def)
  qed simp
  have none: "cr_runs (fold (\<lambda>s c. fst (cron_Schedule s c)) scheds c) = cr_runs c" for c
    by (induction scheds arbitrary: c) (simp_all add: cron_Schedule_def)
  let ?c = "fold (\<lambda>s c. fst (cron_Schedule s c)) scheds cron_New"
  have "cron_ok cron_New" by (simp add: cron_ok_def cron_New_def starts_of_def)
  moreover have "cr_runs ?c = []" by (simp only: none) (simp add: cron_New_def)
  ultimately have "cron_ok (cron_Start now ?c)" using sched ok_start by blast
  from ok_run [OF assms(1) this assms(3)] show ?thesis by (simp add: cron_ok_def)
qed

text \<open>A job every second and one every two seconds that is added while the loop runs.\<close>

lemma starts_increase_witness:
  "sorted_wrt (>) (starts_of 1 (cron_run insertion_sort
     [Timer 1000000000, Add (\<lambda>t. Some (ConstantDelay_Next (Every (2 * second_ns)) t)) 1000000003, Timer 2000000000, Timer 3000000001]
     (cron_Start 500 (fold (\<lambda>s c. fst (cron_Schedule s c)) [\<lambda>t. Some (ConstantDelay_Next (Every second_ns) t)] cron_New))))"
proof -
  have "later_sched (\<lambda>t. Some (ConstantDelay_Next (Every d) t))" for d
    using constant_delay by (auto simp: later_sched_def)
  then show ?thesis by (intro starts_increase insertion.slice_sort_axioms) simp_all
qed

section \<open>Entries that are added late\<close>

text \<open>
  The first activation of an entry that is added while the loop runs counts from the last time the loop woke up, not
  from the time of the call. With \<open>k\<close> activations already past, the timer fires \<open>k\<close> times in a row.
\<close>

theorem late_entry_catches_up:
  assumes "slice_sort srt" "cr_entries c = []" "cr_runs c = []" "\<And>t. s t = Some (nx t)"
  shows "rev (starts_of (cr_nextID c + 1) (cron_run srt (Add s now # map Timer nows) c)) =
    map (\<lambda>k. (nx ^^ k) (cr_now c)) [1..<length nows + 1]"
proof -
  have one: "srt byTime_Less [e] = [e]" "srt byTime_Less [] = []" for e
    using slice_sort.length_srt [OF assms(1), of byTime_Less "[e]"] slice_sort.set_srt [OF assms(1), of byTime_Less "[e]"]
      slice_sort.length_srt [OF assms(1), of byTime_Less "[]"]
    by (auto simp: length_Suc_conv)
  let ?i = "cr_nextID c + 1"
  have "rev (starts_of ?i (cron_run srt (map Timer nows) d)) = rev (starts_of ?i d) @ map (\<lambda>k. (nx ^^ k) t) [0..<length nows]"
    if "cr_entries d = [e]" "en_ID e = ?i" "en_Schedule e = s" "en_Next e = Some t" for d e t
    using that
  proof (induction nows arbitrary: d e t)
    case (Cons now nows)
    let ?d = "cron_turn srt (Timer now) d"
    have "cr_entries ?d = [e\<lparr>en_Prev := Some t, en_Next := Some (nx t)\<rparr>]" "starts_of ?i ?d = t # starts_of ?i d"
      using Cons.prems by (simp_all add: cron_turn_def one effective_def assms(4) starts_of_def)
    with Cons.IH [of ?d _ "nx t"] Cons.prems show ?case
      by (simp add: cron_run_def upt_conv_Cons map_Suc_upt [symmetric] comp_def funpow_swap1 del: upt_Suc)
  qed (simp add: cron_run_def)
  from this [of "cron_turn srt (Add s now) c" "(new_entry s c)\<lparr>en_Next := s (cr_now c)\<rparr>" "nx (cr_now c)"]
  show ?thesis
    by (simp add: cron_run_def cron_turn_def one assms new_entry_def starts_of_def map_Suc_upt [symmetric] comp_def funpow_swap1 del: upt_Suc)
qed

end
