(* ===== verification/Host_User.thy ===== *)
theory Host_User
  imports Auth
begin

text \<open>
  Users and groups of the host, the package \<open>src/pkg/user\<close>: the searches in the password file and the
  group file, the programs \<open>getent\<close>, \<open>dscacheutil\<close> and \<open>id\<close>, the lookups with and without cgo, and
  the user of the process. The model keeps the package's variables in a record; files, programs and
  \<open>os/user\<close> are its parameters. A locale states what the two files have in common, and the checks of
  \<open>src/server/user.go\<close> are put on top of it.
\<close>

section \<open>Model\<close>

subsection \<open>Data\<close>

record os_user =
  usr_Username :: string
  usr_Uid :: string
  usr_Gid :: string
  usr_Name :: string
  usr_HomeDir :: string

record os_group =
  grp_Name :: string
  grp_Gid :: string

record luser =
  lus_User :: os_user
  lus_IsLuser :: bool

record lgroup =
  lgr_Group :: os_group
  lgr_IsLuser :: bool

datatype user_error =
    UnknownUserError string | UnknownUserIdError int | UnknownGroupError string | UnknownGroupIdError string
  | ErrListGroups | ErrCurrentUser | ErrNotFound | AtoiError | CommandError | LibraryError

text \<open>
  The variables of the package and what it calls: files, programs, and \<open>os/user\<close> in builds with cgo.
\<close>

record user_env =
  fallbackEnabled :: bool
  GetentParseFiles :: bool
  getentExe :: string
  passwdFilePath :: string
  groupFilePath :: string
  dscacheutilExe :: string
  idExe :: string
  ue_Open :: "string \<Rightarrow> string option"
  ue_command :: "string \<Rightarrow> string list \<Rightarrow> string option"
  ou_Lookup :: "string \<Rightarrow> os_user option"
  ou_LookupId :: "string \<Rightarrow> os_user option"
  ou_LookupGroup :: "string \<Rightarrow> os_group option"
  ou_LookupGroupId :: "string \<Rightarrow> os_group option"
  ou_GroupIds :: "os_user \<Rightarrow> string list option"
  ou_Current :: "os_user option"

text \<open>The \<open>init\<close> functions: programs on the search path and files that exist.\<close>

definition user_init :: "(string \<Rightarrow> string option) \<Rightarrow> (string \<Rightarrow> bool) \<Rightarrow> user_env \<Rightarrow> user_env" where
  "user_init lookPath exists env =
     env\<lparr>getentExe := (case lookPath ''getent'' of Some p \<Rightarrow> p | None \<Rightarrow> []),
         passwdFilePath := (if exists ''/etc/passwd'' then ''/etc/passwd'' else []),
         groupFilePath := (if exists ''/etc/group'' then ''/etc/group'' else []),
         GetentParseFiles := True\<rparr>"

subsection \<open>The databases\<close>

text \<open>\<open>entityIndex\<close>: the place of the \<open>index\<close>-th colon, or \<^const>\<open>None\<close> for the \<open>-1\<close> of \<open>IndexFunc\<close>.\<close>

fun entityIndex :: "string \<Rightarrow> nat \<Rightarrow> nat option" where
  "entityIndex [] index = None"
| "entityIndex (c # line) index =
     (if c = CHR '':''
      then (if index = 1 then Some 0 else map_option Suc (entityIndex line (index - 1)))
      else map_option Suc (entityIndex line index))"

definition entity_matches :: "bool \<Rightarrow> string \<Rightarrow> string \<Rightarrow> bool" where
  "entity_matches id_key key_text line =
     (if id_key
      then has_prefix (case entityIndex line 2 of None \<Rightarrow> line | Some i \<Rightarrow> drop (i + 1) line) (key_text @ '':'')
      else has_prefix line (key_text @ '':''))"

definition searchEntityDatabase :: "user_env \<Rightarrow> string \<Rightarrow> string \<Rightarrow> string option" where
  "searchEntityDatabase env filename key_text =
     (case ue_Open env filename of
        None \<Rightarrow> None
      | Some content \<Rightarrow> List.find (entity_matches (atoi key_text \<noteq> None) key_text) (fst (scan_lines content)))"

definition getent :: "user_env \<Rightarrow> string \<Rightarrow> string \<Rightarrow> string option" where
  "getent env database key_text =
     (case (if \<not> GetentParseFiles env \<and> getentExe env \<noteq> []
            then ue_command env (getentExe env) [database, key_text] else None) of
        Some out \<Rightarrow> Some (trim_space out)
      | None \<Rightarrow>
          let dbfile = (if database = ''passwd'' then passwdFilePath env
                        else if database = ''group'' then groupFilePath env else [])
          in if dbfile \<noteq> [] then searchEntityDatabase env dbfile key_text else None)"

text \<open>The text before the first comma.\<close>

definition gecos_name :: "string \<Rightarrow> string" where
  "gecos_name s = takeWhile (\<lambda>c. c \<noteq> CHR '','') s"

definition getentUser :: "user_env \<Rightarrow> string \<Rightarrow> os_user option" where
  "getentUser env key_text =
     (case getent env ''passwd'' key_text of
        None \<Rightarrow> None
      | Some entity \<Rightarrow>
          let parts = split_char (CHR '':'') entity
          in if length parts < 6 then None
             else Some \<lparr>usr_Username = parts ! 0, usr_Uid = parts ! 2, usr_Gid = parts ! 3,
                        usr_Name = gecos_name (parts ! 4), usr_HomeDir = parts ! 5\<rparr>)"

definition getentGroup :: "user_env \<Rightarrow> string \<Rightarrow> os_group option" where
  "getentGroup env key_text =
     (case getent env ''group'' key_text of
        None \<Rightarrow> None
      | Some entity \<Rightarrow>
          let parts = split_char (CHR '':'') entity
          in if length parts < 3 then None else Some \<lparr>grp_Name = parts ! 0, grp_Gid = parts ! 2\<rparr>)"

subsection \<open>Directory services\<close>

text \<open>The text before and after the first colon with a space.\<close>

fun cut_colon_space :: "string \<Rightarrow> (string \<times> string) option" where
  "cut_colon_space (x # y # s) =
     (if x = CHR '':'' \<and> y = CHR '' '' then Some ([], s)
      else map_option (\<lambda>(a, b). (x # a, b)) (cut_colon_space (y # s)))"
| "cut_colon_space s = None"

definition ds_user_line :: "string \<Rightarrow> os_user \<Rightarrow> os_user" where
  "ds_user_line line u =
     (case cut_colon_space line of
        None \<Rightarrow> u
      | Some (field_name, v) \<Rightarrow>
          if field_name = ''name'' then u\<lparr>usr_Username := v\<rparr>
          else if field_name = ''uid'' then u\<lparr>usr_Uid := v\<rparr>
          else if field_name = ''gid'' then u\<lparr>usr_Gid := v\<rparr>
          else if field_name = ''dir'' then u\<lparr>usr_HomeDir := v\<rparr>
          else if field_name = ''gecos'' then u\<lparr>usr_Name := gecos_name v\<rparr>
          else u)"

definition dsParseUser :: "string \<Rightarrow> os_user" where
  "dsParseUser data =
     fold ds_user_line (fst (scan_lines data))
       \<lparr>usr_Username = [], usr_Uid = [], usr_Gid = [], usr_Name = [], usr_HomeDir = []\<rparr>"

definition ds_user_found :: "os_user \<Rightarrow> os_user option" where
  "ds_user_found u = (if usr_Uid u \<noteq> [] \<and> usr_Username u \<noteq> [] \<and> usr_HomeDir u \<noteq> [] then Some u else None)"

definition dsUser :: "user_env \<Rightarrow> string \<Rightarrow> os_user option" where
  "dsUser env username =
     (case ue_command env (dscacheutilExe env) [''-q'', ''user'', ''-a'', ''name'', username] of
        None \<Rightarrow> None
      | Some data \<Rightarrow> ds_user_found (dsParseUser data))"

definition dsUserId :: "user_env \<Rightarrow> string \<Rightarrow> os_user option" where
  "dsUserId env uid =
     (case ue_command env (dscacheutilExe env) [''-q'', ''user'', ''-a'', ''uid'', uid] of
        None \<Rightarrow> None
      | Some data \<Rightarrow> ds_user_found (dsParseUser data))"

definition ds_group_line :: "string \<Rightarrow> os_group \<Rightarrow> os_group" where
  "ds_group_line line g =
     (case cut_colon_space line of
        None \<Rightarrow> g
      | Some (field_name, v) \<Rightarrow>
          if field_name = ''name'' then g\<lparr>grp_Name := v\<rparr>
          else if field_name = ''gid'' then g\<lparr>grp_Gid := v\<rparr>
          else g)"

definition dsParseGroup :: "string \<Rightarrow> os_group" where
  "dsParseGroup data = fold ds_group_line (fst (scan_lines data)) \<lparr>grp_Name = [], grp_Gid = []\<rparr>"

definition ds_group_found :: "os_group \<Rightarrow> os_group option" where
  "ds_group_found g = (if grp_Name g \<noteq> [] \<and> grp_Gid g \<noteq> [] then Some g else None)"

definition dsGroup :: "user_env \<Rightarrow> string \<Rightarrow> os_group option" where
  "dsGroup env key_text =
     (case ue_command env (dscacheutilExe env) [''-q'', ''group'', ''-a'', ''name'', key_text] of
        None \<Rightarrow> None
      | Some data \<Rightarrow> ds_group_found (dsParseGroup data))"

definition dsGroupId :: "user_env \<Rightarrow> string \<Rightarrow> os_group option" where
  "dsGroupId env key_text =
     (case ue_command env (dscacheutilExe env) [''-q'', ''group'', ''-a'', ''gid'', key_text] of
        None \<Rightarrow> None
      | Some data \<Rightarrow> ds_group_found (dsParseGroup data))"

subsection \<open>Users\<close>

definition wrap_luser :: "os_user \<Rightarrow> luser" where
  "wrap_luser u = \<lparr>lus_User = u, lus_IsLuser = True\<rparr>"

definition lookupUser :: "user_env \<Rightarrow> string \<Rightarrow> user_error + luser" where
  "lookupUser env username =
     (if atoi username \<noteq> None then Inl (UnknownUserError username)
      else case (if dscacheutilExe env \<noteq> [] then dsUser env username else None) of
             Some u \<Rightarrow> Inr (wrap_luser u)
           | None \<Rightarrow>
               (case getentUser env username of
                  Some u \<Rightarrow> Inr (wrap_luser u)
                | None \<Rightarrow> Inl (UnknownUserError username)))"

definition lookupId :: "user_env \<Rightarrow> string \<Rightarrow> user_error + luser" where
  "lookupId env uid =
     (case atoi uid of
        None \<Rightarrow> Inl AtoiError
      | Some n \<Rightarrow>
          (case (if dscacheutilExe env \<noteq> [] then dsUserId env uid else None) of
             Some u \<Rightarrow> Inr (wrap_luser u)
           | None \<Rightarrow>
               (case getentUser env uid of
                  Some u \<Rightarrow> Inr (wrap_luser u)
                | None \<Rightarrow> Inl (UnknownUserIdError n))))"

definition Lookup :: "user_env \<Rightarrow> string \<Rightarrow> user_error + luser" where
  "Lookup env username =
     (if fallbackEnabled env then lookupUser env username
      else case ou_Lookup env username of
             Some u \<Rightarrow> Inr \<lparr>lus_User = u, lus_IsLuser = False\<rparr>
           | None \<Rightarrow> Inl LibraryError)"

definition LookupId :: "user_env \<Rightarrow> string \<Rightarrow> user_error + luser" where
  "LookupId env uid =
     (if fallbackEnabled env then lookupId env uid
      else case ou_LookupId env uid of
             Some u \<Rightarrow> Inr \<lparr>lus_User = u, lus_IsLuser = False\<rparr>
           | None \<Rightarrow> Inl LibraryError)"

text \<open>\<open>currentUser\<close> of a build without cgo, with its variables \<open>currentUid\<close> and \<open>current\<close>.\<close>

record current_vars =
  currentUid :: int
  current_user :: "luser option"

definition currentUser :: "user_env \<Rightarrow> int \<Rightarrow> current_vars \<Rightarrow> (user_error + luser) \<times> current_vars" where
  "currentUser env uid vars =
     (let stub = (case ou_Current env of Some u \<Rightarrow> Inr (wrap_luser u) | None \<Rightarrow> Inl ErrCurrentUser)
      in if uid \<ge> 0
         then (case (if uid = currentUid vars then current_user vars else None) of
                 Some u \<Rightarrow> (Inr u, vars)
               | None \<Rightarrow>
                   (case lookupId env (itoa uid) of
                      Inr u \<Rightarrow> (Inr u, \<lparr>currentUid = uid, current_user = Some u\<rparr>)
                    | Inl e \<Rightarrow> (stub, \<lparr>currentUid = uid, current_user = None\<rparr>)))
         else (stub, vars))"

subsection \<open>Groups\<close>

definition wrap_lgroup :: "os_group \<Rightarrow> lgroup" where
  "wrap_lgroup g = \<lparr>lgr_Group = g, lgr_IsLuser = True\<rparr>"

definition lookupGroup :: "user_env \<Rightarrow> string \<Rightarrow> user_error + lgroup" where
  "lookupGroup env name =
     (if atoi name \<noteq> None then Inl (UnknownGroupError name)
      else case (if dscacheutilExe env \<noteq> [] then dsGroup env name else None) of
             Some g \<Rightarrow> Inr (wrap_lgroup g)
           | None \<Rightarrow>
               (case getentGroup env name of
                  Some g \<Rightarrow> Inr (wrap_lgroup g)
                | None \<Rightarrow> Inl (UnknownGroupError name)))"

definition lookupGroupId :: "user_env \<Rightarrow> string \<Rightarrow> user_error + lgroup" where
  "lookupGroupId env gid =
     (case atoi gid of
        None \<Rightarrow> Inl AtoiError
      | Some _ \<Rightarrow>
          (case (if dscacheutilExe env \<noteq> [] then dsGroupId env gid else None) of
             Some g \<Rightarrow> Inr (wrap_lgroup g)
           | None \<Rightarrow>
               (case getentGroup env gid of
                  Some g \<Rightarrow> Inr (wrap_lgroup g)
                | None \<Rightarrow> Inl (UnknownGroupIdError gid))))"

definition LookupGroup :: "user_env \<Rightarrow> string \<Rightarrow> user_error + lgroup" where
  "LookupGroup env name =
     (if fallbackEnabled env then lookupGroup env name
      else case ou_LookupGroup env name of
             Some g \<Rightarrow> Inr \<lparr>lgr_Group = g, lgr_IsLuser = False\<rparr>
           | None \<Rightarrow> Inl LibraryError)"

definition LookupGroupId :: "user_env \<Rightarrow> string \<Rightarrow> user_error + lgroup" where
  "LookupGroupId env gid =
     (if fallbackEnabled env then lookupGroupId env gid
      else case ou_LookupGroupId env gid of
             Some g \<Rightarrow> Inr \<lparr>lgr_Group = g, lgr_IsLuser = False\<rparr>
           | None \<Rightarrow> Inl LibraryError)"

text \<open>\<open>idGroupList\<close> and \<open>idGroupNameList\<close> differ in the option they give to \<open>id\<close>.\<close>

definition id_list :: "user_env \<Rightarrow> string \<Rightarrow> os_user \<Rightarrow> user_error + string list" where
  "id_list env option_text u =
     (case ue_command env (idExe env) [option_text, usr_Username u] of
        None \<Rightarrow> Inl CommandError
      | Some data \<Rightarrow>
          let data = trim_space data
          in if data \<noteq> [] then Inr (Go_Base.fields data) else Inl ErrNotFound)"

definition idGroupList :: "user_env \<Rightarrow> os_user \<Rightarrow> user_error + string list" where
  "idGroupList env u = id_list env ''-G'' u"

definition idGroupNameList :: "user_env \<Rightarrow> os_user \<Rightarrow> user_error + string list" where
  "idGroupNameList env u = id_list env ''-Gn'' u"

definition lookupUserGroupIds :: "user_env \<Rightarrow> luser \<Rightarrow> user_error + string list" where
  "lookupUserGroupIds env u = (if idExe env \<noteq> [] then idGroupList env (lus_User u) else Inl ErrListGroups)"

definition lookupUserGroupNames :: "user_env \<Rightarrow> luser \<Rightarrow> user_error + string list" where
  "lookupUserGroupNames env u = (if idExe env \<noteq> [] then idGroupNameList env (lus_User u) else Inl ErrListGroups)"

definition GroupIds :: "user_env \<Rightarrow> luser \<Rightarrow> user_error + string list" where
  "GroupIds env u =
     (if lus_IsLuser u then lookupUserGroupIds env u
      else case ou_GroupIds env (lus_User u) of None \<Rightarrow> Inl LibraryError | Some ids \<Rightarrow> Inr ids)"

definition GroupNames :: "user_env \<Rightarrow> luser \<Rightarrow> user_error + string list" where
  "GroupNames env u =
     (if lus_IsLuser u then lookupUserGroupNames env u
      else case ou_GroupIds env (lus_User u) of
             None \<Rightarrow> Inl LibraryError
           | Some ids \<Rightarrow> Inr (List.map_filter (\<lambda>gid. map_option grp_Name (ou_LookupGroupId env gid)) ids))"
subsection \<open>The users of a login\<close>

text \<open>
  \<open>getHostUser\<close>, \<open>getUserGroups\<close> and the lookup of the matched group in \<open>checkHostUser\<close>, on the host
  of a build without cgo: every user comes from the functions above.
\<close>

definition host_of :: "luser \<Rightarrow> host_user" where
  "host_of u =
     \<lparr>hu_Username = usr_Username (lus_User u), hu_Uid = usr_Uid (lus_User u), hu_HomeDir = usr_HomeDir (lus_User u)\<rparr>"

definition result_of :: "user_error + 'a \<Rightarrow> 'a option" where
  "result_of r = (case r of Inl _ \<Rightarrow> None | Inr x \<Rightarrow> Some x)"

definition host_users :: "user_env \<Rightarrow> 'k auth_env \<Rightarrow> 'k auth_env" where
  "host_users ue env =
     env\<lparr>ae_Lookup := (\<lambda>name. map_option host_of (result_of (Lookup ue name))),
         ae_GroupIds := (\<lambda>hu. result_of (GroupIds ue
            (wrap_luser \<lparr>usr_Username = hu_Username hu, usr_Uid = hu_Uid hu, usr_Gid = [], usr_Name = [],
                         usr_HomeDir = hu_HomeDir hu\<rparr>))),
         ae_LookupGroupId := (\<lambda>gid. map_option (grp_Name \<circ> lgr_Group) (result_of (LookupGroupId ue gid)))\<rparr>"

section \<open>Lemmas\<close>

subsection \<open>Lines of a database\<close>

abbreviation colon :: char where
  "colon \<equiv> CHR '':''"

lemma prefix_colon:
  assumes "colon \<notin> set m" and "colon \<notin> set n"
  shows "has_prefix (n @ colon # r) (m @ '':'') \<longleftrightarrow> n = m"
proof
  assume "has_prefix (n @ colon # r) (m @ '':'')"
  then obtain t where "n @ colon # r = (m @ '':'') @ t"
    unfolding has_prefix_def by (metis append_take_drop_id)
  then have "cut_char colon (n @ colon # r) = cut_char colon (m @ colon # t)" by simp
  then show "n = m" using assms by simp
next
  assume "n = m"
  then show "has_prefix (n @ colon # r) (m @ '':'')"
    using has_prefix_append [of "m @ '':''" r] by simp
qed

lemma entityIndex_skip: "colon \<notin> set a \<Longrightarrow> entityIndex (a @ s) k = map_option (\<lambda>i. length a + i) (entityIndex s k)"
  by (cases "entityIndex s k"; induction a) (auto simp: option.map_comp comp_def)

lemma entityIndex_second:
  assumes "colon \<notin> set a" and "colon \<notin> set b"
  shows "entityIndex (a @ colon # b @ colon # r) 2 = Some (length a + Suc (length b))"
  using assms by (simp add: entityIndex_skip)

text \<open>
  A database whose lines have a name, a second field, an id and more, separated by colons. The
  password file and the group file are both of this kind.
\<close>

locale entity_db =
  fixes key_name :: "'e \<Rightarrow> string" and second :: "'e \<Rightarrow> string" and ident :: "'e \<Rightarrow> string"
    and tail :: "'e \<Rightarrow> string" and print :: "'e \<Rightarrow> string" and wf :: "'e \<Rightarrow> bool"
  assumes layout: "print e = key_name e @ colon # second e @ colon # ident e @ colon # tail e"
    and plain: "wf e \<Longrightarrow> colon \<notin> set (key_name e) \<and> colon \<notin> set (second e) \<and> colon \<notin> set (ident e)"
    and one_line: "wf e \<Longrightarrow> newline \<notin> set (print e) \<and> dropCR (print e) = print e \<and> length (print e) < MaxScanTokenSize"
begin

lemma matches_name:
  assumes "wf e" and "colon \<notin> set m"
  shows "entity_matches False m (print e) \<longleftrightarrow> key_name e = m"
  using prefix_colon [OF assms(2)] plain [OF assms(1)] by (simp add: entity_matches_def layout)

lemma matches_id:
  assumes "wf e" and "colon \<notin> set m"
  shows "entity_matches True m (print e) \<longleftrightarrow> ident e = m"
proof -
  have "entityIndex (print e) 2 = Some (length (key_name e) + Suc (length (second e)))"
    using plain [OF assms(1)] by (simp add: layout entityIndex_second)
  moreover have "drop (length (key_name e) + Suc (length (second e)) + 1) (print e) = ident e @ colon # tail e"
    by (simp add: layout)
  ultimately show ?thesis
    using prefix_colon [OF assms(2)] plain [OF assms(1)] by (simp add: entity_matches_def)
qed

lemma matches:
  assumes "wf e" and "colon \<notin> set m"
  shows "entity_matches k m (print e) \<longleftrightarrow> (if k then ident e else key_name e) = m"
  using matches_name [OF assms] matches_id [OF assms] by (cases k) auto

lemma find_lines:
  assumes "list_all wf es" and "colon \<notin> set m"
  shows "List.find (entity_matches k m) (map print es) =
    map_option print (List.find (\<lambda>e. (if k then ident e else key_name e) = m) es)"
  using assms(1)
proof (induction es)
  case (Cons e es)
  then have "wf e" by simp
  then show ?case
    using Cons by (cases k) (simp_all add: matches_name matches_id assms(2))
qed simp

lemma scan_printed:
  assumes "list_all wf es"
  shows "fst (scan_lines (unlines (map print es))) = map print es"
proof -
  have "\<forall>l \<in> set (map print es). newline \<notin> set l" "\<forall>l \<in> set (map print es). length l < MaxScanTokenSize"
    "map dropCR (map print es) = map print es"
    using assms one_line by (auto simp: list_all_iff)
  then show ?thesis by (simp only: scan_lines_def raw_unlines until_long_short fst_conv)
qed

lemma search_printed:
  assumes "ue_Open env file = Some (unlines (map print es))" and "list_all wf es" and "colon \<notin> set m"
  shows "searchEntityDatabase env file m =
    map_option print (List.find (\<lambda>e. (if atoi m \<noteq> None then ident e else key_name e) = m) es)"
  using assms(1) find_lines [OF assms(2,3)] by (simp add: searchEntityDatabase_def scan_printed [OF assms(2)])

end

subsection \<open>The password file and the group file\<close>

record pw_entry =
  pw_Name :: string
  pw_Pass :: string
  pw_Uid :: string
  pw_Gid :: string
  pw_Gecos :: string
  pw_Dir :: string
  pw_Shell :: string

record gr_entry =
  gr_Name :: string
  gr_Pass :: string
  gr_Gid :: string
  gr_Members :: string

definition pw_fields :: "pw_entry \<Rightarrow> string list" where
  "pw_fields e = [pw_Name e, pw_Pass e, pw_Uid e, pw_Gid e, pw_Gecos e, pw_Dir e, pw_Shell e]"

definition gr_fields :: "gr_entry \<Rightarrow> string list" where
  "gr_fields e = [gr_Name e, gr_Pass e, gr_Gid e, gr_Members e]"

text \<open>A line that the scanner returns as it is, made of fields without a colon.\<close>

definition field_ok :: "string \<Rightarrow> bool" where
  "field_ok f \<longleftrightarrow> colon \<notin> set f \<and> newline \<notin> set f \<and> CHR 0x0D \<notin> set f"

definition line_ok :: "string list \<Rightarrow> bool" where
  "line_ok fs \<longleftrightarrow> list_all field_ok fs \<and> length (join '':'' fs) < MaxScanTokenSize"

lemma join_chars: "c \<in> set (join sep fs) \<Longrightarrow> c \<in> set sep \<or> (\<exists>f \<in> set fs. c \<in> set f)"
  by (induction sep fs rule: join.induct) auto

lemma line_ok_line:
  assumes "line_ok fs"
  shows "newline \<notin> set (join '':'' fs) \<and> dropCR (join '':'' fs) = join '':'' fs \<and>
    length (join '':'' fs) < MaxScanTokenSize"
proof -
  have "newline \<notin> set (join '':'' fs)" "CHR 0x0D \<notin> set (join '':'' fs)"
    using assms by (auto simp: line_ok_def field_ok_def list_all_iff dest!: join_chars)
  then show ?thesis
    using assms by (auto simp: line_ok_def dropCR_def dest: last_in_set)
qed

lemma split_line_ok: "line_ok fs \<Longrightarrow> fs \<noteq> [] \<Longrightarrow> split_char colon (join '':'' fs) = fs"
  by (rule split_join) (auto simp: line_ok_def field_ok_def list_all_iff)

abbreviation print_pw :: "pw_entry \<Rightarrow> string" where
  "print_pw e \<equiv> join '':'' (pw_fields e)"

abbreviation print_gr :: "gr_entry \<Rightarrow> string" where
  "print_gr e \<equiv> join '':'' (gr_fields e)"

interpretation pw: entity_db pw_Name pw_Pass pw_Uid
  "\<lambda>e. join '':'' [pw_Gid e, pw_Gecos e, pw_Dir e, pw_Shell e]" print_pw "\<lambda>e. line_ok (pw_fields e)"
proof unfold_locales
  fix e
  show "print_pw e = pw_Name e @ colon # pw_Pass e @ colon # pw_Uid e @ colon # join '':'' [pw_Gid e, pw_Gecos e, pw_Dir e, pw_Shell e]"
    by (simp add: pw_fields_def)
  show "line_ok (pw_fields e) \<Longrightarrow> colon \<notin> set (pw_Name e) \<and> colon \<notin> set (pw_Pass e) \<and> colon \<notin> set (pw_Uid e)"
    by (simp add: line_ok_def pw_fields_def field_ok_def)
qed (rule line_ok_line)

interpretation gr: entity_db gr_Name gr_Pass gr_Gid gr_Members print_gr "\<lambda>e. line_ok (gr_fields e)"
proof unfold_locales
  fix e
  show "print_gr e = gr_Name e @ colon # gr_Pass e @ colon # gr_Gid e @ colon # gr_Members e"
    by (simp add: gr_fields_def)
  show "line_ok (gr_fields e) \<Longrightarrow> colon \<notin> set (gr_Name e) \<and> colon \<notin> set (gr_Pass e) \<and> colon \<notin> set (gr_Gid e)"
    by (simp add: line_ok_def gr_fields_def field_ok_def)
qed (rule line_ok_line)

text \<open>A host without cgo and directory services whose two files hold the entries.\<close>

definition files_host :: "pw_entry list \<Rightarrow> gr_entry list \<Rightarrow> user_env \<Rightarrow> bool" where
  "files_host ps gs env \<longleftrightarrow>
     fallbackEnabled env \<and> GetentParseFiles env \<and> dscacheutilExe env = [] \<and>
     passwdFilePath env = ''/etc/passwd'' \<and> groupFilePath env = ''/etc/group'' \<and>
     ue_Open env ''/etc/passwd'' = Some (unlines (map print_pw ps)) \<and>
     ue_Open env ''/etc/group'' = Some (unlines (map print_gr gs)) \<and>
     list_all (\<lambda>e. line_ok (pw_fields e)) ps \<and> list_all (\<lambda>e. line_ok (gr_fields e)) gs"

definition user_of :: "pw_entry \<Rightarrow> os_user" where
  "user_of e =
     \<lparr>usr_Username = pw_Name e, usr_Uid = pw_Uid e, usr_Gid = pw_Gid e, usr_Name = gecos_name (pw_Gecos e),
      usr_HomeDir = pw_Dir e\<rparr>"

definition group_of :: "gr_entry \<Rightarrow> os_group" where
  "group_of e = \<lparr>grp_Name = gr_Name e, grp_Gid = gr_Gid e\<rparr>"

lemma find_member: "List.find P xs = Some x \<Longrightarrow> x \<in> set xs \<and> P x"
  by (auto simp: find_Some_iff)

lemma getent_files:
  assumes "files_host ps gs env"
  shows "getent env ''passwd'' m = searchEntityDatabase env ''/etc/passwd'' m"
    and "getent env ''group'' m = searchEntityDatabase env ''/etc/group'' m"
  using assms by (simp_all add: getent_def files_host_def)

lemma getentUser_files:
  assumes "files_host ps gs env" and "colon \<notin> set m"
  shows "getentUser env m =
    map_option user_of (List.find (\<lambda>e. (if atoi m \<noteq> None then pw_Uid e else pw_Name e) = m) ps)"
proof -
  let ?found = "List.find (\<lambda>e. (if atoi m \<noteq> None then pw_Uid e else pw_Name e) = m) ps"
  have host: "ue_Open env ''/etc/passwd'' = Some (unlines (map print_pw ps))" "list_all (\<lambda>e. line_ok (pw_fields e)) ps"
    using assms(1) by (simp_all add: files_host_def)
  have "getent env ''passwd'' m = map_option print_pw ?found"
    using getent_files [OF assms(1)] pw.search_printed [OF host assms(2)] by (simp only:)
  moreover have "split_char colon (print_pw e) = pw_fields e" if "?found = Some e" for e
  proof -
    have "line_ok (pw_fields e)" using find_member [OF that] host(2) by (auto simp: list_all_iff)
    then show ?thesis by (intro split_line_ok) (simp_all add: pw_fields_def)
  qed
  ultimately show ?thesis
    by (cases ?found) (simp_all add: getentUser_def user_of_def pw_fields_def Let_def)
qed

lemma getentGroup_files:
  assumes "files_host ps gs env" and "colon \<notin> set m"
  shows "getentGroup env m =
    map_option group_of (List.find (\<lambda>e. (if atoi m \<noteq> None then gr_Gid e else gr_Name e) = m) gs)"
proof -
  let ?found = "List.find (\<lambda>e. (if atoi m \<noteq> None then gr_Gid e else gr_Name e) = m) gs"
  have host: "ue_Open env ''/etc/group'' = Some (unlines (map print_gr gs))" "list_all (\<lambda>e. line_ok (gr_fields e)) gs"
    using assms(1) by (simp_all add: files_host_def)
  have "getent env ''group'' m = map_option print_gr ?found"
    using getent_files [OF assms(1)] gr.search_printed [OF host assms(2)] by (simp only:)
  moreover have "split_char colon (print_gr e) = gr_fields e" if "?found = Some e" for e
  proof -
    have "line_ok (gr_fields e)" using find_member [OF that] host(2) by (auto simp: list_all_iff)
    then show ?thesis by (intro split_line_ok) (simp_all add: gr_fields_def)
  qed
  ultimately show ?thesis
    by (cases ?found) (simp_all add: getentGroup_def group_of_def gr_fields_def Let_def)
qed

lemma Lookup_files:
  assumes "files_host ps gs env" and "colon \<notin> set name"
  shows "Lookup env name =
    (if atoi name \<noteq> None then Inl (UnknownUserError name)
     else case List.find (\<lambda>e. pw_Name e = name) ps of
            Some e \<Rightarrow> Inr (wrap_luser (user_of e))
          | None \<Rightarrow> Inl (UnknownUserError name))"
  using getentUser_files [OF assms] assms(1)
  by (cases "List.find (\<lambda>e. pw_Name e = name) ps") (simp_all add: Lookup_def lookupUser_def files_host_def)

lemma LookupGroupId_files:
  assumes "files_host ps gs env" and "colon \<notin> set gid" and "atoi gid \<noteq> None"
  shows "LookupGroupId env gid =
    (case List.find (\<lambda>e. gr_Gid e = gid) gs of
       Some e \<Rightarrow> Inr (wrap_lgroup (group_of e))
     | None \<Rightarrow> Inl (UnknownGroupIdError gid))"
  using getentGroup_files [OF assms(1,2)] assms(1,3)
  by (cases "List.find (\<lambda>e. gr_Gid e = gid) gs") (auto simp: LookupGroupId_def lookupGroupId_def files_host_def)

lemma groupMatch_member: "groupMatch a b = Some g \<Longrightarrow> g \<in> set a"
  by (induction a) (auto split: if_splits)

lemma groupMatch_empty: "groupMatch a [] = None"
  by (induction a) auto

definition host_entry :: "pw_entry \<Rightarrow> host_user" where
  "host_entry e = \<lparr>hu_Username = pw_Name e, hu_Uid = pw_Uid e, hu_HomeDir = pw_Dir e\<rparr>"

lemma host_users_Lookup:
  assumes "files_host ps gs ue" and "colon \<notin> set name" and "atoi name = None"
  shows "ae_Lookup (host_users ue env) name = map_option host_entry (List.find (\<lambda>e. pw_Name e = name) ps)"
  using assms
  by (cases "List.find (\<lambda>e. pw_Name e = name) ps")
    (simp_all add: host_users_def Lookup_files result_of_def host_of_def wrap_luser_def user_of_def host_entry_def)

lemma host_users_GroupIds:
  assumes "idExe ue \<noteq> []"
  shows "ae_GroupIds (host_users ue env) hu =
    (case ue_command ue (idExe ue) [''-G'', hu_Username hu] of
       None \<Rightarrow> None
     | Some out \<Rightarrow> if trim_space out = [] then None else Some (Go_Base.fields (trim_space out)))"
  using assms
  by (simp add: host_users_def GroupIds_def wrap_luser_def lookupUserGroupIds_def idGroupList_def id_list_def
      result_of_def Let_def split: option.split)

lemma host_users_group:
  assumes "files_host ps gs ue" and "colon \<notin> set gid" and "atoi gid \<noteq> None"
  shows "ae_LookupGroupId (host_users ue env) gid = None \<longleftrightarrow> gid \<notin> gr_Gid ` set gs"
proof (cases "List.find (\<lambda>e. gr_Gid e = gid) gs")
  case None
  then have "gid \<notin> gr_Gid ` set gs" by (auto simp: find_None_iff)
  with None show ?thesis
    by (simp add: host_users_def LookupGroupId_files [OF assms] result_of_def)
next
  case (Some g)
  then show ?thesis
    using find_member [OF Some] by (auto simp: host_users_def LookupGroupId_files [OF assms] result_of_def)
qed

lemma host_users_frame [simp]: "ae_AllowedGroups (host_users ue env) = ae_AllowedGroups env"
  by (simp add: host_users_def)

section \<open>Properties\<close>


text \<open>
  A name with a colon is compared with more than the name of the entries: with the second field added
  it finds the entry of another name.
\<close>

lemma colon_name_finds_other:
  assumes "ue_Open ue ''/etc/passwd'' = Some ''root:x:0:0:root:/root:/bin/sh\<newline>''"
    and "fallbackEnabled ue" and "GetentParseFiles ue" and "dscacheutilExe ue = []"
    and "passwdFilePath ue = ''/etc/passwd''"
  shows "\<exists>u. Lookup ue ''root:x'' = Inr u \<and> usr_Username (lus_User u) = ''root''"
proof -
  have line: "fst (scan_lines ''root:x:0:0:root:/root:/bin/sh\<newline>'') = [''root:x:0:0:root:/root:/bin/sh'']"
    by (simp add: scan_lines_def raw_lines_def MaxScanTokenSize_def dropCR_def)
  have "getentUser ue ''root:x'' =
    Some \<lparr>usr_Username = ''root'', usr_Uid = ''0'', usr_Gid = ''0'', usr_Name = ''root'', usr_HomeDir = ''/root''\<rparr>"
    using assms by (simp add: getentUser_def getent_def searchEntityDatabase_def line entity_matches_def gecos_name_def
        atoi_def parse_nat_def is_digit_def)
  then show ?thesis
    using assms by (simp add: Lookup_def lookupUser_def wrap_luser_def atoi_def parse_nat_def is_digit_def)
qed

section \<open>Witness\<close>

definition demo_users :: user_env where
  "demo_users =
     \<lparr>fallbackEnabled = True, GetentParseFiles = True, getentExe = [], passwdFilePath = ''/etc/passwd'',
      groupFilePath = ''/etc/group'', dscacheutilExe = [], idExe = ''/bin/id'',
      ue_Open = (\<lambda>p. if p = ''/etc/passwd'' then Some ''bob:x:1000:1000:Bob,,:/home/bob:/bin/sh\<newline>''
                     else if p = ''/etc/group'' then Some ''incus:x:990:bob\<newline>'' else None),
      ue_command = (\<lambda>p as. if as = [''-G'', ''bob''] then Some ''1000 990\<newline>'' else None),
      ou_Lookup = (\<lambda>_. None), ou_LookupId = (\<lambda>_. None), ou_LookupGroup = (\<lambda>_. None),
      ou_LookupGroupId = (\<lambda>_. None), ou_GroupIds = (\<lambda>_. None), ou_Current = None\<rparr>"

definition demo_pw :: pw_entry where
  "demo_pw = \<lparr>pw_Name = ''bob'', pw_Pass = ''x'', pw_Uid = ''1000'', pw_Gid = ''1000'', pw_Gecos = ''Bob,,'',
     pw_Dir = ''/home/bob'', pw_Shell = ''/bin/sh''\<rparr>"

definition demo_gr :: gr_entry where
  "demo_gr = \<lparr>gr_Name = ''incus'', gr_Pass = ''x'', gr_Gid = ''990'', gr_Members = ''bob''\<rparr>"

lemma demo_files: "files_host [demo_pw] [demo_gr] demo_users"
  by (simp add: files_host_def demo_users_def demo_pw_def demo_gr_def pw_fields_def gr_fields_def line_ok_def field_ok_def
      MaxScanTokenSize_def)


end
