(* ===== verification/Ssh_Context.thy ===== *)
theory Ssh_Context
  imports Auth
begin

text \<open>
  The context of a connection, \<open>src/pkg/ssh/context.go\<close>, and the callbacks of \<open>src/pkg/ssh/server.go\<close>
  that fill it, around the handlers of \<open>src/server/auth.go\<close>: from the attempts to authenticate to the
  login that the sessions of the connection work for. A locale states what the handlers do to that
  login, and it is interpreted on the four of them.
\<close>

section \<open>Model\<close>

subsection \<open>The context of a connection\<close>

datatype ctx_key =
    KeyUser | KeySessionID | KeyPermissions | KeyClientVersion | KeyServerVersion | KeyLocalAddr
  | KeyRemoteAddr | KeyServer | KeyConn | KeyPublicKey | KeyCancelFunc

text \<open>What the library tells a callback about its connection; the name is that of the current attempt.\<close>

record ConnMetadata =
  cm_User :: string
  cm_SessionID :: string
  cm_ClientVersion :: string
  cm_ServerVersion :: string
  cm_RemoteAddr :: string
  cm_LocalAddr :: string

datatype 'k ctx_value =
  StringV string | AddrV string | ServerV | PermissionsV | ConnV ConnMetadata | PublicKeyV 'k | CancelV

type_synonym 'k ssh_context = "ctx_key \<rightharpoonup> 'k ctx_value"

definition SetValue :: "ctx_key \<Rightarrow> 'k ctx_value \<Rightarrow> 'k ssh_context \<Rightarrow> 'k ssh_context" where
  "SetValue k v ctx = ctx(k \<mapsto> v)"

text \<open>The context inside is that of \<open>context.WithCancel\<close>, which has no values.\<close>

definition Value :: "ctx_key \<Rightarrow> 'k ssh_context \<Rightarrow> 'k ctx_value option" where
  "Value k ctx = (case ctx k of Some v \<Rightarrow> Some v | None \<Rightarrow> None)"

definition NewContext :: "'k ssh_context" where
  "NewContext = SetValue KeyPermissions PermissionsV (SetValue KeyServer ServerV Map.empty)"

definition hex_char :: "nat \<Rightarrow> char" where
  "hex_char n = ''0123456789abcdef'' ! n"

definition EncodeToString :: "string \<Rightarrow> string" where
  "EncodeToString s = concat (map (\<lambda>c. [hex_char (of_char c div 16), hex_char (of_char c mod 16)]) s)"

definition applyConnMetadata :: "ConnMetadata \<Rightarrow> 'k ssh_context \<Rightarrow> 'k ssh_context" where
  "applyConnMetadata conn ctx =
     (if Value KeySessionID ctx \<noteq> None then ctx
      else SetValue KeyRemoteAddr (AddrV (cm_RemoteAddr conn))
          (SetValue KeyLocalAddr (AddrV (cm_LocalAddr conn))
          (SetValue KeyUser (StringV (cm_User conn))
          (SetValue KeyServerVersion (StringV (cm_ServerVersion conn))
          (SetValue KeyClientVersion (StringV (cm_ClientVersion conn))
          (SetValue KeySessionID (StringV (EncodeToString (cm_SessionID conn))) ctx))))))"

text \<open>The accessors; a type assertion without a second result panics.\<close>

definition string_value :: "ctx_key \<Rightarrow> 'k ssh_context \<Rightarrow> string call" where
  "string_value k ctx = (case Value k ctx of Some (StringV s) \<Rightarrow> Return s | _ \<Rightarrow> Crash)"

definition User :: "'k ssh_context \<Rightarrow> string call" where
  "User ctx = string_value KeyUser ctx"

definition SessionID :: "'k ssh_context \<Rightarrow> string call" where
  "SessionID ctx = string_value KeySessionID ctx"

definition ClientVersion :: "'k ssh_context \<Rightarrow> string call" where
  "ClientVersion ctx = string_value KeyClientVersion ctx"

definition ServerVersion :: "'k ssh_context \<Rightarrow> string call" where
  "ServerVersion ctx = string_value KeyServerVersion ctx"

definition ShortSessionID :: "'k ssh_context \<Rightarrow> string call" where
  "ShortSessionID ctx =
     (case Value KeySessionID ctx of
        Some (StringV s) \<Rightarrow> if 8 \<le> length s then Return (take 8 s) else Crash
      | _ \<Rightarrow> Return ''unknown'')"

definition RemoteAddr :: "'k ssh_context \<Rightarrow> string option" where
  "RemoteAddr ctx = (case Value KeyRemoteAddr ctx of Some (AddrV a) \<Rightarrow> Some a | _ \<Rightarrow> None)"

definition LocalAddr :: "'k ssh_context \<Rightarrow> string call" where
  "LocalAddr ctx = (case Value KeyLocalAddr ctx of Some (AddrV a) \<Rightarrow> Return a | _ \<Rightarrow> Crash)"

definition Permissions :: "'k ssh_context \<Rightarrow> unit call" where
  "Permissions ctx = (case Value KeyPermissions ctx of Some PermissionsV \<Rightarrow> Return () | _ \<Rightarrow> Crash)"

subsection \<open>Attempts to authenticate\<close>

text \<open>
  The callbacks that the server gives to the library, around the handlers of \<open>src/server/auth.go\<close>.
  A handler has the time, the name in the context, the credential and the state; the name is read
  where the login is first parsed.
\<close>

type_synonym 'c login_handler = "int \<Rightarrow> string \<Rightarrow> 'c \<Rightarrow> auth_state \<Rightarrow> bool call \<times> auth_state"

record 'k conn_handlers =
  ch_Password :: "string login_handler option"
  ch_PublicKey :: "'k login_handler option"

record 'k conn_state =
  cs_ctx :: "'k ssh_context"
  cs_auth :: auth_state

definition call_handler ::
  "'c login_handler \<Rightarrow> int \<Rightarrow> ConnMetadata \<Rightarrow> 'c \<Rightarrow> 'k conn_state \<Rightarrow> bool call \<times> 'k conn_state" where
  "call_handler h now conn cred c =
     (let ctx = applyConnMetadata conn (cs_ctx c)
      in case User ctx of
           Return name \<Rightarrow> (case h now name cred (cs_auth c) of (r, st) \<Rightarrow> (r, \<lparr>cs_ctx = ctx, cs_auth = st\<rparr>))
         | _ \<Rightarrow> (Crash, c\<lparr>cs_ctx := ctx\<rparr>))"

definition password_callback ::
  "string login_handler \<Rightarrow> int \<Rightarrow> ConnMetadata \<Rightarrow> string \<Rightarrow> 'k conn_state \<Rightarrow> bool call \<times> 'k conn_state" where
  "password_callback h now conn password c = call_handler h now conn password c"

definition public_key_callback ::
  "'k login_handler \<Rightarrow> int \<Rightarrow> ConnMetadata \<Rightarrow> 'k \<Rightarrow> 'k conn_state \<Rightarrow> bool call \<times> 'k conn_state" where
  "public_key_callback h now conn key c =
     (case call_handler h now conn key c of
        (Return True, c) \<Rightarrow> (Return True, c\<lparr>cs_ctx := SetValue KeyPublicKey (PublicKeyV key) (cs_ctx c)\<rparr>)
      | r \<Rightarrow> r)"

datatype 'k credential = PasswordCred string | KeyCred 'k

record 'k attempt =
  at_conn :: ConnMetadata
  at_now :: int
  at_cred :: "'k credential"

text \<open>Without a handler for the method there is no callback, and the library refuses the attempt.\<close>

definition offered :: "'k conn_handlers \<Rightarrow> 'k attempt \<Rightarrow> bool" where
  "offered hs a =
     (case at_cred a of PasswordCred _ \<Rightarrow> ch_Password hs \<noteq> None | KeyCred _ \<Rightarrow> ch_PublicKey hs \<noteq> None)"

definition try_login :: "'k conn_handlers \<Rightarrow> 'k attempt \<Rightarrow> 'k conn_state \<Rightarrow> bool call \<times> 'k conn_state" where
  "try_login hs a c =
     (case at_cred a of
        PasswordCred pw \<Rightarrow>
          (case ch_Password hs of
             None \<Rightarrow> (Return False, c) | Some h \<Rightarrow> password_callback h (at_now a) (at_conn a) pw c)
      | KeyCred key \<Rightarrow>
          (case ch_PublicKey hs of
             None \<Rightarrow> (Return False, c) | Some h \<Rightarrow> public_key_callback h (at_now a) (at_conn a) key c))"

text \<open>The attempts of a client, until one panics; which success completes the login is the library's matter.\<close>

fun try_logins :: "'k conn_handlers \<Rightarrow> 'k attempt list \<Rightarrow> 'k conn_state \<Rightarrow> bool call list \<times> 'k conn_state" where
  "try_logins hs [] c = ([], c)"
| "try_logins hs (a # as) c =
     (case try_login hs a c of
        (Crash, c) \<Rightarrow> ([Crash], c)
      | (r, c) \<Rightarrow> (case try_logins hs as c of (rs, c) \<Rightarrow> (r # rs, c)))"

definition new_connection :: "auth_state \<Rightarrow> 'k conn_state" where
  "new_connection st = \<lparr>cs_ctx = NewContext, cs_auth = st\<lparr>as_user := None, as_client := None\<rparr>\<rparr>"

text \<open>After the handshake: the connection of the library, whose name is that of the last attempt.\<close>

definition established :: "ConnMetadata \<Rightarrow> 'k conn_state \<Rightarrow> 'k conn_state" where
  "established conn c = c\<lparr>cs_ctx := applyConnMetadata conn (SetValue KeyConn (ConnV conn) (cs_ctx c))\<rparr>"

text \<open>The login a session of the connection works for, and what the session's own \<open>User\<close> returns.\<close>

definition session_login :: "'k auth_env \<Rightarrow> 'k conn_state \<Rightarrow> LoginUser call" where
  "session_login env c =
     (case User (cs_ctx c) of Return name \<Rightarrow> Return (fst (LoginUserFromContext env name (cs_auth c))) | _ \<Rightarrow> Crash)"

definition session_User :: "'k conn_state \<Rightarrow> string call" where
  "session_User c = (case Value KeyConn (cs_ctx c) of Some (ConnV conn) \<Rightarrow> Return (cm_User conn) | _ \<Rightarrow> Crash)"

definition session_PublicKey :: "'k conn_state \<Rightarrow> 'k option call" where
  "session_PublicKey c =
     (case Value KeyPublicKey (cs_ctx c) of
        None \<Rightarrow> Return None | Some (PublicKeyV k) \<Rightarrow> Return (Some k) | _ \<Rightarrow> Crash)"

definition session_Permissions :: "'k conn_state \<Rightarrow> unit call" where
  "session_Permissions c = (case Value KeyPermissions (cs_ctx c) of Some PermissionsV \<Rightarrow> Return () | _ \<Rightarrow> Crash)"

definition session_RemoteAddr :: "'k conn_state \<Rightarrow> string call" where
  "session_RemoteAddr c = (case Value KeyConn (cs_ctx c) of Some (ConnV conn) \<Rightarrow> Return (cm_RemoteAddr conn) | _ \<Rightarrow> Crash)"

definition session_LocalAddr :: "'k conn_state \<Rightarrow> string call" where
  "session_LocalAddr c = (case Value KeyConn (cs_ctx c) of Some (ConnV conn) \<Rightarrow> Return (cm_LocalAddr conn) | _ \<Rightarrow> Crash)"

section \<open>Lemmas\<close>

lemmas ctx_defs = SetValue_def Value_def string_value_def User_def SessionID_def

text \<open>The login that a name stands for, and a login without the key that a handler records in it.\<close>

definition login_of :: "'k auth_env \<Rightarrow> string \<Rightarrow> LoginUser" where
  "login_of env name =
     (case parseLoginUser (ae_os env) name of
        LoginUser c ex rm \<Rightarrow> LoginUser (if lu_Remote c = [] then c\<lparr>lu_Remote := ae_Remote env\<rparr> else c) ex rm)"

definition without_key :: "LoginUser \<Rightarrow> LoginUser" where
  "without_key lu = LoginUser ((lu_core lu)\<lparr>lu_PublicKey := None\<rparr>) (lu_ExplainUser lu) (lu_RemoveUser lu)"

lemma without_key_recorded [simp]:
  "without_key (LoginUser ((lu_core lu)\<lparr>lu_PublicKey := k\<rparr>) (lu_ExplainUser lu) (lu_RemoveUser lu)) = without_key lu"
  by (simp add: without_key_def)

definition login_known :: "LoginUser \<Rightarrow> auth_state \<Rightarrow> bool" where
  "login_known lu st \<longleftrightarrow> (\<exists>lu'. as_user st = Some lu' \<and> without_key lu' = without_key lu)"

lemma login_known_same: "as_user st' = as_user st \<Longrightarrow> login_known lu st' = login_known lu st"
  by (simp add: login_known_def)

lemma LoginUserFromContext_known:
  assumes "LoginUserFromContext env name st = (lu, st')" and "as_user st = None \<or> login_known (login_of env name) st"
  shows "as_user st' = Some lu \<and> without_key lu = without_key (login_of env name)"
  using assms by (auto simp: LoginUserFromContext_def login_of_def login_known_def Let_def split: LoginUser.splits)

lemma LoginUserFromContext_name:
  "as_user st \<noteq> None \<Longrightarrow> LoginUserFromContext env name st = LoginUserFromContext env name' st"
  by (auto simp: LoginUserFromContext_def)

lemma context_client_user: "context_client env lu st = (c, st') \<Longrightarrow> as_user st' = as_user st"
  by (auto simp: context_client_def split: option.splits)

lemma context_instance_user_user: "context_instance_user now lu cl st = (r, st') \<Longrightarrow> as_user st' = as_user st"
  by (auto simp: context_instance_user_def split: prod.splits)

lemmas keeps_user = context_client_user context_instance_user_user

lemma IsValid_user: "IsValid env now lu st = (r, st') \<Longrightarrow> as_user st' = as_user st"
  by (auto simp: IsValid_def dest!: keeps_user split: if_splits option.splits prod.splits call.splits)

lemma instance_password_user: "instance_password_check env now lu pw st = (r, st') \<Longrightarrow> as_user st' = as_user st"
  by (auto simp: instance_password_check_def dest!: keeps_user split: option.splits prod.splits call.splits)

lemma authKeyCheck_known:
  assumes "authKeyCheck env now key lu keys st = (r, st')" and "as_user st = Some lu"
    and "without_key lu = without_key l"
  shows "login_known l st'"
  using assms
  by (auto simp: authKeyCheck_def login_known_def dest!: IsValid_user
      split: if_splits prod.splits call.splits bool.splits)

lemma instance_key_known:
  assumes "instance_key_check env now lu key st = (r, st')" and "as_user st = Some lu"
    and "without_key lu = without_key l"
  shows "login_known l st'"
proof -
  have "login_known l st'" if "authKeyCheck env now key lu keys s = (r, st')" and "as_user s = Some lu" for keys s
    using authKeyCheck_known [OF that assms(3)] .
  then show ?thesis
    using assms
    by (auto simp: instance_key_check_def login_known_def dest!: keeps_user split: option.splits prod.splits call.splits)
qed

lemma authKeyCheck_refused:
  "authKeyCheck env now key lu keys st = (r, st') \<Longrightarrow> r \<noteq> Return True \<Longrightarrow> as_user st' = as_user st"
  by (auto simp: authKeyCheck_def dest!: IsValid_user split: if_splits prod.splits call.splits bool.splits)

text \<open>
  What a handler does to the login of the connection: it is the one of the name in the context from the
  first call on, and only the key recorded with it may change.
\<close>

locale login_keeper =
  fixes env :: "'k auth_env" and run :: "'c login_handler"
  assumes keeps: "run now name cred st = (r, st') \<Longrightarrow>
    as_user st = None \<or> login_known (login_of env name) st \<Longrightarrow> login_known (login_of env name) st'"
begin

lemma call_keeps:
  assumes "call_handler run now conn cred c = (r, c')" and "User (cs_ctx c) = Return name"
    and "Value KeySessionID (cs_ctx c) \<noteq> None"
    and "as_user (cs_auth c) = None \<or> login_known (login_of env name) (cs_auth c)"
  shows "cs_ctx c' = cs_ctx c \<and> login_known (login_of env name) (cs_auth c')"
  using assms(1-3) keeps [OF _ assms(4)]
  by (auto simp: call_handler_def applyConnMetadata_def Let_def split: prod.splits)

lemma call_first:
  assumes "call_handler run now conn cred c = (r, c')" and "Value KeySessionID (cs_ctx c) = None"
    and "as_user (cs_auth c) = None"
  shows "cs_ctx c' = applyConnMetadata conn (cs_ctx c) \<and> login_known (login_of env (cm_User conn)) (cs_auth c')"
proof -
  have "User (applyConnMetadata conn (cs_ctx c)) = Return (cm_User conn)"
    using assms(2) by (simp add: applyConnMetadata_def ctx_defs)
  then show ?thesis
    using assms(1) keeps [of now "cm_User conn" cred "cs_auth c"] assms(3)
    by (auto simp: call_handler_def Let_def split: prod.splits)
qed

end

lemma LoginUserFromContext_obtain:
  assumes "as_user st = None \<or> login_known (login_of env name) st"
  obtains lu s where "LoginUserFromContext env name st = (lu, s)" and "as_user s = Some lu"
    and "without_key lu = without_key (login_of env name)"
  using LoginUserFromContext_known [OF _ assms] by (metis surj_pair)

lemma hostAuthHandler_known:
  assumes "hostAuthHandler env now name key st = (r, st')" and "LoginUserFromContext env name st = (lu, s)"
    and "as_user s = Some lu" and "without_key lu = without_key l"
  shows "login_known l st' \<and> (r \<noteq> Return True \<longrightarrow> as_user st' = Some lu)"
proof -
  consider "st' = s" | keys where "authKeyCheck env now key lu keys s = (r, st')"
    using assms(1,2) by (auto simp: hostAuthHandler_def split: option.splits)
  then show ?thesis
  proof cases
    case 1
    then show ?thesis using assms(3,4) by (simp add: login_known_def)
  next
    case 2
    then show ?thesis
      using authKeyCheck_known [OF 2 assms(3,4)] authKeyCheck_refused [OF 2] assms(3) by auto
  qed
qed

interpretation password: login_keeper env "passwordHandler env" for env :: "'k auth_env"
proof
  fix now name pw st r st'
  assume run: "passwordHandler env now name pw st = (r, st')"
    and "as_user st = None \<or> login_known (login_of env name) st"
  then obtain lu s where "LoginUserFromContext env name st = (lu, s)" "as_user s = Some lu"
      "without_key lu = without_key (login_of env name)"
    using LoginUserFromContext_obtain by blast
  then show "login_known (login_of env name) st'"
    using run
    by (auto simp: passwordHandler_def login_known_def dest!: IsValid_user instance_password_user
        split: option.splits prod.splits call.splits bool.splits if_splits)
qed

interpretation host_keys: login_keeper env "hostAuthHandler env" for env :: "'k auth_env"
proof
  fix now name key st r st'
  assume "hostAuthHandler env now name key st = (r, st')" "as_user st = None \<or> login_known (login_of env name) st"
  then show "login_known (login_of env name) st'"
    using LoginUserFromContext_obtain hostAuthHandler_known by metis
qed

interpretation instance_keys: login_keeper env "instanceAuthHandler env" for env :: "'k auth_env"
proof
  fix now name key st r st'
  assume run: "instanceAuthHandler env now name key st = (r, st')"
    and "as_user st = None \<or> login_known (login_of env name) st"
  then obtain lu s where lu: "LoginUserFromContext env name st = (lu, s)" "as_user s = Some lu"
      "without_key lu = without_key (login_of env name)"
    using LoginUserFromContext_obtain by blast
  obtain r1 s1 where host: "hostAuthHandler env now name key s = (r1, s1)" by fastforce
  have s1: "login_known (login_of env name) s1" "r1 \<noteq> Return True \<Longrightarrow> as_user s1 = Some lu"
    using hostAuthHandler_known [OF host login_again [OF lu(1)] lu(2,3)] by auto
  show "login_known (login_of env name) st'"
  proof (cases "r1 = Return False")
    case True
    obtain r2 s2 where valid: "IsValid env now lu s1 = (r2, s2)" by fastforce
    have s2: "as_user s2 = Some lu" using IsValid_user [OF valid] s1(2) True by simp
    then have "login_known (login_of env name) s2" using lu(3) by (simp add: login_known_def)
    then show ?thesis
      using run lu host valid True instance_key_known [OF _ s2 lu(3)]
      by (auto simp: instanceAuthHandler_def split: call.splits bool.splits if_splits)
  next
    case False
    then show ?thesis
      using run lu host s1(1) by (auto simp: instanceAuthHandler_def split: call.splits bool.splits)
  qed
qed

interpretation no_auth: login_keeper env "noAuthHandler env" for env :: "'k auth_env"
proof
  fix now name key st r st'
  assume run: "noAuthHandler env now name key st = (r, st')"
    and "as_user st = None \<or> login_known (login_of env name) st"
  then obtain lu s where "LoginUserFromContext env name st = (lu, s)" "as_user s = Some lu"
      "without_key lu = without_key (login_of env name)"
    using LoginUserFromContext_obtain by blast
  then show "login_known (login_of env name) st'"
    using run
    by (auto simp: noAuthHandler_def login_known_def dest!: IsValid_user split: prod.splits call.splits bool.splits)
qed

text \<open>The handlers that the settings choose from.\<close>

definition code_handlers :: "'k auth_env \<Rightarrow> 'k conn_handlers \<Rightarrow> bool" where
  "code_handlers env hs \<longleftrightarrow>
     ch_Password hs \<in> {None, Some (passwordHandler env)} \<and>
     ch_PublicKey hs \<in> {None, Some (hostAuthHandler env), Some (instanceAuthHandler env), Some (noAuthHandler env)}"

definition named :: "'k auth_env \<Rightarrow> string \<Rightarrow> 'k conn_state \<Rightarrow> bool" where
  "named env name c \<longleftrightarrow>
     User (cs_ctx c) = Return name \<and> Value KeySessionID (cs_ctx c) \<noteq> None \<and>
     login_known (login_of env name) (cs_auth c)"

lemma named_key [simp]:
  "named env name (c\<lparr>cs_ctx := SetValue KeyPublicKey k (cs_ctx c)\<rparr>) = named env name c"
  by (simp add: named_def ctx_defs)

lemmas keepers = password.login_keeper_axioms host_keys.login_keeper_axioms instance_keys.login_keeper_axioms
  no_auth.login_keeper_axioms

lemma handlers_keep:
  assumes "code_handlers env hs"
  shows "ch_Password hs = Some p \<Longrightarrow> login_keeper env p" and "ch_PublicKey hs = Some q \<Longrightarrow> login_keeper env q"
  using assms by (auto simp: code_handlers_def intro: keepers)

lemma call_named:
  assumes "login_keeper env h" and "call_handler h now conn cred c = (r, c')" and "named env name c"
  shows "named env name c'"
proof -
  have n: "User (cs_ctx c) = Return name" "Value KeySessionID (cs_ctx c) \<noteq> None"
    "as_user (cs_auth c) = None \<or> login_known (login_of env name) (cs_auth c)"
    using assms(3) by (simp_all add: named_def)
  from login_keeper.call_keeps [OF assms(1,2) n] n show ?thesis by (simp add: named_def)
qed

lemma call_names:
  assumes "login_keeper env h" and "call_handler h now conn cred c = (r, c')"
    and "Value KeySessionID (cs_ctx c) = None" and "as_user (cs_auth c) = None"
  shows "named env (cm_User conn) c'"
  using login_keeper.call_first [OF assms] assms(3) by (simp add: named_def applyConnMetadata_def ctx_defs)

lemma call_later:
  "Value KeySessionID (cs_ctx c) \<noteq> None \<Longrightarrow> call_handler h now conn cred c = call_handler h now conn' cred c"
  by (simp add: call_handler_def applyConnMetadata_def)

lemmas callbacks = password_callback_def public_key_callback_def

lemma try_named:
  assumes "code_handlers env hs" and "try_login hs a c = (r, c')" and "named env name c"
  shows "named env name c'"
  using assms(2) call_named [OF handlers_keep(1) [OF assms(1)] _ assms(3)]
    call_named [OF handlers_keep(2) [OF assms(1)] _ assms(3)] assms(3)
  by (auto simp: try_login_def callbacks split: credential.splits option.splits prod.splits call.splits bool.splits)

lemma try_names:
  assumes "code_handlers env hs" and "try_login hs a c = (r, c')" and "offered hs a"
    and "Value KeySessionID (cs_ctx c) = None" and "as_user (cs_auth c) = None"
  shows "named env (cm_User (at_conn a)) c'"
  using assms(2,3) call_names [OF handlers_keep(1) [OF assms(1)] _ assms(4,5)]
    call_names [OF handlers_keep(2) [OF assms(1)] _ assms(4,5)]
  by (auto simp: try_login_def offered_def callbacks
      split: credential.splits option.splits prod.splits call.splits bool.splits)

lemma try_later:
  "named env name c \<Longrightarrow> try_login hs (a\<lparr>at_conn := conn\<rparr>) c = try_login hs a c"
  by (auto simp: named_def try_login_def callbacks call_later [where conn = conn and conn' = "at_conn a"]
      split: credential.splits option.splits)

lemma try_not_offered: "\<not> offered hs a \<Longrightarrow> try_login hs a c = (Return False, c)"
  by (auto simp: offered_def try_login_def split: credential.splits)

lemma logins_later:
  assumes "code_handlers env hs" and "named env name c"
  shows "try_logins hs (map (\<lambda>b. b\<lparr>at_conn := f b\<rparr>) as) c = try_logins hs as c \<and>
    named env name (snd (try_logins hs as c))"
  using assms(2)
proof (induction "as" arbitrary: c)
  case (Cons a "as")
  obtain r c' where r: "try_login hs a c = (r, c')" by fastforce
  show ?case
    using Cons.IH [OF try_named [OF assms(1) r Cons.prems]] try_named [OF assms(1) r Cons.prems]
    by (auto simp: try_later [OF Cons.prems] r split: call.splits prod.splits)
qed simp

lemma logins_first:
  assumes "code_handlers env hs" and "filter (offered hs) as = a # rest"
    and "Value KeySessionID (cs_ctx c) = None" and "as_user (cs_auth c) = None" and "f a = at_conn a"
  shows "try_logins hs (map (\<lambda>b. b\<lparr>at_conn := f b\<rparr>) as) c = try_logins hs as c \<and>
    named env (cm_User (at_conn a)) (snd (try_logins hs as c))"
  using assms(2)
proof (induction "as")
  case (Cons b "as")
  show ?case
  proof (cases "offered hs b")
    case True
    then have b: "b = a" using Cons.prems by simp
    obtain r c' where r: "try_login hs a c = (r, c')" by fastforce
    have c': "named env (cm_User (at_conn a)) c'"
      using try_names [OF assms(1) r _ assms(3,4)] True b by simp
    obtain rs c2 where rs: "try_logins hs as c' = (rs, c2)" by fastforce
    have "try_logins hs (map (\<lambda>b. b\<lparr>at_conn := f b\<rparr>) as) c' = (rs, c2)" "named env (cm_User (at_conn a)) c2"
      using logins_later [OF assms(1) c', of f "as"] rs by simp_all
    moreover have "a\<lparr>at_conn := f a\<rparr> = a" using assms(5) by simp
    ultimately show ?thesis using r rs b c' by (auto split: call.splits)
  next
    case False
    then have "\<not> offered hs (b\<lparr>at_conn := f b\<rparr>)" by (simp add: offered_def)
    with False Cons show ?thesis by (auto simp: try_not_offered split: prod.splits)
  qed
qed simp

section \<open>Properties\<close>

text \<open>
  C23. All attempts to authenticate on a connection are checked for the login that the first attempt
  names, which is also the login its sessions work for: with every later name replaced by the first the
  verdicts are the same. A client cannot be checked under one name and work under another.
\<close>

theorem login_fixed_by_first_attempt:
  assumes "code_handlers env hs" and "filter (offered hs) as = a # rest"
    and "try_logins hs as (new_connection st) = (rs, c)"
  shows "try_logins hs (map (\<lambda>b. b\<lparr>at_conn := (at_conn b)\<lparr>cm_User := cm_User (at_conn a)\<rparr>\<rparr>) as) (new_connection st) = (rs, c) \<and>
    (\<exists>lu. session_login env (established conn c) = Return lu \<and>
          without_key lu = without_key (login_of env (cm_User (at_conn a))))"
proof -
  have "Value KeySessionID (cs_ctx (new_connection st)) = None" "as_user (cs_auth (new_connection st)) = None"
    by (simp_all add: new_connection_def NewContext_def ctx_defs)
  from logins_first [OF assms(1,2) this, of "\<lambda>b. (at_conn b)\<lparr>cm_User := cm_User (at_conn a)\<rparr>"]
  have "try_logins hs (map (\<lambda>b. b\<lparr>at_conn := (at_conn b)\<lparr>cm_User := cm_User (at_conn a)\<rparr>\<rparr>) as) (new_connection st) = (rs, c)"
    and c: "named env (cm_User (at_conn a)) c"
    using assms(3) by simp_all
  moreover have "User (cs_ctx (established conn c)) = Return (cm_User (at_conn a))"
    using c by (simp add: named_def established_def applyConnMetadata_def ctx_defs)
  moreover obtain lu where "as_user (cs_auth c) = Some lu" "without_key lu = without_key (login_of env (cm_User (at_conn a)))"
    using c by (auto simp: named_def login_known_def)
  ultimately show ?thesis
    by (auto simp: session_login_def established_def LoginUserFromContext_def)
qed

text \<open>What the library's session reports as its user is the name of the last attempt all the same.\<close>

lemma session_reports_last_name: "session_User (established conn c) = Return (cm_User conn)"
  by (simp add: session_User_def established_def applyConnMetadata_def ctx_defs)

text \<open>
  The key that a handler accepts is recorded when the callback returns, before the client has to prove
  that it holds the key; a password accepted afterwards leaves it there.
\<close>

lemma accepted_key_recorded:
  assumes "public_key_callback h now conn key c = (Return True, c')"
  shows "session_PublicKey c' = Return (Some key)"
  using assms
  by (auto simp: public_key_callback_def session_PublicKey_def ctx_defs split: prod.splits call.splits bool.splits)

lemma password_keeps_key:
  assumes "password_callback h now conn pw c = (r, c')"
  shows "session_PublicKey c' = session_PublicKey c"
  using assms
  by (auto simp: password_callback_def call_handler_def applyConnMetadata_def session_PublicKey_def ctx_defs Let_def
      split: prod.splits call.splits if_splits)

text \<open>
  A new context has no user: the accessors panic before the first attempt, and the short identifier
  is cut from the hexadecimal digits of the identifier afterwards.
\<close>

lemma new_context_accessors:
  "User NewContext = Crash" "SessionID NewContext = Crash" "LocalAddr NewContext = Crash"
  "ShortSessionID NewContext = Return ''unknown''" "RemoteAddr NewContext = None" "Permissions NewContext = Return ()"
  by (simp_all add: NewContext_def LocalAddr_def ShortSessionID_def RemoteAddr_def
      Permissions_def ctx_defs)

lemma take_concat_pairs:
  "take (2 * n) (concat (map (\<lambda>c. [f c, g c]) s)) = concat (map (\<lambda>c. [f c, g c]) (take n s))"
proof (induction s arbitrary: n)
  case (Cons c s)
  then show ?case by (cases n) simp_all
qed simp

lemma length_EncodeToString: "length (EncodeToString s) = 2 * length s"
  by (induction s) (simp_all add: EncodeToString_def)

lemma short_session_id:
  assumes "Value KeySessionID ctx = None" and "4 \<le> length (cm_SessionID conn)"
  shows "ShortSessionID (applyConnMetadata conn ctx) = Return (EncodeToString (take 4 (cm_SessionID conn)))"
proof -
  have "take 8 (EncodeToString s) = EncodeToString (take 4 s)" for s
    using take_concat_pairs [of 4] by (simp add: EncodeToString_def)
  then show ?thesis
    using assms length_EncodeToString [of "cm_SessionID conn"]
    by (simp add: ShortSessionID_def applyConnMetadata_def ctx_defs)
qed

section \<open>Witness\<close>

definition meta_of :: "string \<Rightarrow> ConnMetadata" where
  "meta_of name =
     \<lparr>cm_User = name, cm_SessionID = ''0123456789abcdef'', cm_ClientVersion = ''SSH-2.0-OpenSSH'',
      cm_ServerVersion = ''SSH-2.0-Go'', cm_RemoteAddr = ''192.0.2.1:50000'', cm_LocalAddr = ''192.0.2.2:22''\<rparr>"

definition closed_env :: "string auth_env" where
  "closed_env = demo_env\<lparr>ae_InstanceAuth := False\<rparr>"

definition demo_handlers :: "string conn_handlers" where
  "demo_handlers = \<lparr>ch_Password = Some (passwordHandler closed_env), ch_PublicKey = None\<rparr>"

text \<open>
  A key, which no handler takes, for one name, a wrong password for \<open>web+bob\<close>, and the password of
  \<open>bob\<close> for another name.
\<close>

definition demo_attempts :: "string attempt list" where
  "demo_attempts =
     [\<lparr>at_conn = meta_of ''web'', at_now = 0, at_cred = KeyCred ''key''\<rparr>,
      \<lparr>at_conn = meta_of ''web+bob'', at_now = 1, at_cred = PasswordCred ''wrong''\<rparr>,
      \<lparr>at_conn = meta_of ''web'', at_now = 2, at_cred = PasswordCred ''secret''\<rparr>]"

abbreviation demo_connection :: "string conn_state" where
  "demo_connection \<equiv> new_connection (demo_state (demo_login [] []))"

lemma demo_handlers_code: "code_handlers closed_env demo_handlers"
  by (simp add: code_handlers_def demo_handlers_def)

lemma demo_offered: "filter (offered demo_handlers) demo_attempts =
   [\<lparr>at_conn = meta_of ''web+bob'', at_now = 1, at_cred = PasswordCred ''wrong''\<rparr>,
    \<lparr>at_conn = meta_of ''web'', at_now = 2, at_cred = PasswordCred ''secret''\<rparr>]"
  by (simp add: demo_attempts_def offered_def demo_handlers_def)

definition bob_login :: LoginUser where
  "bob_login =
     LoginUser (empty_core\<lparr>lu_OrigUser := ''web+bob'', lu_User := ''bob'', lu_Instance := ''web'', lu_Project := ''default'',
                           lu_InstanceUser := ''root''\<rparr>) None None"

lemma bob_login_parsed: "parseLoginUser (ae_os closed_env) ''web+bob'' = bob_login"
  by (simp add: parseLoginUser_def cut_prefix_def ParseFrom.simps parseRegularFormat.simps empty_LoginUser_def empty_core_def
      bob_login_def closed_env_def demo_env_def isCreationFormat_def parseRegularInstance_def setDefaults_def
      parseRemoteAndInstance_def parseInstanceAndUser_def parseInstanceAndProject_def has_prefix_def)

lemma bob_login_of: "login_of closed_env ''web+bob'' = bob_login"
  by (simp add: login_of_def bob_login_parsed) (simp add: bob_login_def closed_env_def demo_env_def empty_core_def)

lemma bob_core: "lu_User (lu_core bob_login) = ''bob''"
  by (simp add: bob_login_def)

lemma closed_password:
  assumes "as_user st \<in> {None, Some bob_login}"
  shows "passwordHandler closed_env now ''web+bob'' pw st =
    (Return (checkHostShadowPassword demo_host (ae_crypto demo_env) ''bob'' pw = None), st\<lparr>as_user := Some bob_login\<rparr>)"
proof -
  have "LoginUserFromContext closed_env ''web+bob'' st = (bob_login, st\<lparr>as_user := Some bob_login\<rparr>)"
    using assms bob_login_of
    by (cases "as_user st") (auto simp: LoginUserFromContext_def login_of_def Let_def split: LoginUser.splits)
  moreover have "checkHostUser closed_env bob_login = Some \<lparr>hu_Username = ''bob'', hu_Uid = ''1000'', hu_HomeDir = ''/home/bob''\<rparr>"
    by (simp add: checkHostUser_def bob_core closed_env_def demo_env_def)
  ultimately show ?thesis
    by (simp add: passwordHandler_def) (simp add: closed_env_def demo_env_def)
qed

lemma demo_wrong: "checkHostShadowPassword demo_host (ae_crypto demo_env) ''bob'' ''wrong'' \<noteq> None"
  by (simp add: checkHostShadowPassword_def Shadow_Read_def shadow_New_def verify_user_def Shadow_Lookup_def ShadowFile_def
      shadow_Read_printed [of "[sample_entry]"] wf_sample_entry demo_host_def)
    (simp add: sample_entry_def VerifyPassword_def demo_env_def)

lemma apply_twice: "applyConnMetadata m (applyConnMetadata m' ctx) = applyConnMetadata m' ctx"
  by (simp add: applyConnMetadata_def ctx_defs)

lemma closed_try:
  assumes "as_user (cs_auth c) \<in> {None, Some bob_login}" and "User (applyConnMetadata m (cs_ctx c)) = Return ''web+bob''"
  shows "try_login demo_handlers \<lparr>at_conn = m, at_now = n, at_cred = PasswordCred pw\<rparr> c =
    (Return (checkHostShadowPassword demo_host (ae_crypto demo_env) ''bob'' pw = None),
     \<lparr>cs_ctx = applyConnMetadata m (cs_ctx c), cs_auth = (cs_auth c)\<lparr>as_user := Some bob_login\<rparr>\<rparr>)"
  by (simp add: try_login_def demo_handlers_def password_callback_def call_handler_def Let_def assms(2)
      closed_password [OF assms(1)])

lemma demo_verdicts: "fst (try_logins demo_handlers demo_attempts demo_connection) = [Return False, Return False, Return True]"
proof -
  let ?c = "demo_connection" and ?m = "meta_of ''web+bob''"
  let ?c1 = "\<lparr>cs_ctx = applyConnMetadata ?m (cs_ctx ?c), cs_auth = (cs_auth ?c)\<lparr>as_user := Some bob_login\<rparr>\<rparr>"
  have u: "User (applyConnMetadata ?m (cs_ctx ?c)) = Return ''web+bob''"
    by (simp add: applyConnMetadata_def meta_of_def new_connection_def NewContext_def ctx_defs)
  have u1: "User (applyConnMetadata (meta_of ''web'') (cs_ctx ?c1)) = Return ''web+bob''"
    using u by (simp add: apply_twice)
  have key: "try_login demo_handlers \<lparr>at_conn = meta_of ''web'', at_now = 0, at_cred = KeyCred ''key''\<rparr> c = (Return False, c)" for c
    by (simp add: try_login_def demo_handlers_def)
  obtain c1 where c1: "c1 = ?c1" by blast
  have fresh: "as_user (cs_auth ?c) \<in> {None, Some bob_login}" by (simp add: new_connection_def)
  have wrong: "try_login demo_handlers \<lparr>at_conn = ?m, at_now = 1, at_cred = PasswordCred ''wrong''\<rparr> ?c = (Return False, c1)"
    unfolding c1 closed_try [OF fresh u] using demo_wrong by simp
  have later: "as_user (cs_auth c1) \<in> {None, Some bob_login}" by (simp add: c1)
  obtain c2 where right:
    "try_login demo_handlers \<lparr>at_conn = meta_of ''web'', at_now = 2, at_cred = PasswordCred ''secret''\<rparr> c1 = (Return True, c2)"
    using closed_try [OF later u1 [folded c1]] demo_password by simp
  obtain c0 :: "string conn_state" where c0: "c0 = ?c" by blast
  show ?thesis
    unfolding demo_attempts_def c0 [symmetric] by (simp add: key wrong [folded c0] right)
qed

lemma without_key_core: "without_key lu = without_key lu' \<Longrightarrow> lu_User (lu_core lu) = lu_User (lu_core lu')"
  by (cases "lu_core lu"; cases "lu_core lu'") (simp add: without_key_def)

lemma login_fixed_by_first_attempt_witness:
  "\<exists>c lu. try_logins demo_handlers demo_attempts demo_connection = ([Return False, Return False, Return True], c) \<and>
     session_login closed_env (established (meta_of ''web'') c) = Return lu \<and> lu_User (lu_core lu) = ''bob''"
proof -
  obtain c where c: "try_logins demo_handlers demo_attempts demo_connection = ([Return False, Return False, Return True], c)"
    using demo_verdicts by (metis prod.collapse)
  have name: "cm_User (at_conn \<lparr>at_conn = meta_of n, at_now = now, at_cred = cred\<rparr>) = n" for n now and cred :: "string credential"
    by (simp add: meta_of_def)
  obtain lu where lu: "session_login closed_env (established (meta_of ''web'') c) = Return lu" "without_key lu = without_key bob_login"
    using login_fixed_by_first_attempt [OF demo_handlers_code demo_offered c] unfolding name bob_login_of by blast
  have "lu_User (lu_core lu) = ''bob''" using without_key_core [OF lu(2)] by (simp only: bob_core)
  with c lu(1) show ?thesis by blast
qed

end
