(* ===== verification/Shell_Pipes.thy ===== *)
theory Shell_Pipes
  imports Ssh_Wire "HOL-Library.Sublist"
begin

text \<open>
  The pipes between a session and the command it runs, \<open>setupShellPipesWithCleanup\<close>,
  \<open>startWindowChannel\<close> and \<open>setWinsize\<close> of \<open>src/server/shell.go\<close>: the two goroutines, the client, the command
  and the deferred calls as a step relation with every interleaving, texts as the bytes that pass.
  An \<open>io.Pipe\<close> has no buffer: a write returns when a reader took its text or an end is closed. A session has no
  \<open>SetReadDeadline\<close>, so no read of it times out.
\<close>

section \<open>Model\<close>

subsection \<open>The pipes of a session\<close>

text \<open>Where the two goroutines are; what one of them has in its hands is the text it has to pass on.\<close>

datatype in_place = InCheck | InRead | InWrite string | InEnded

datatype err_place = ErrCheck | ErrRead | ErrWrite string | ErrEnded

text \<open>
  \<open>pp_cancelled\<close>: the context of the goroutines is cancelled; \<open>pp_over\<close>: the connection's context is
  done; \<open>pp_open\<close>: the channel of the session is open; \<open>pp_eof\<close>: the client has closed its input. A pipe is
  closed by closing either of its ends. The last fields are what the client still sends, and what passed
  each place so far.
\<close>

record pipes =
  pp_cancelled :: bool
  pp_over :: bool
  pp_open :: bool
  pp_eof :: bool
  pp_in :: in_place
  pp_inPipe :: bool
  pp_err :: err_place
  pp_errPipe :: bool
  pp_client :: string
  pp_read :: string
  pp_given :: string
  pp_written :: string
  pp_shown :: string

definition bufSize :: nat where
  "bufSize = 8 * 1024"

definition setupShellPipesWithCleanup :: "string \<Rightarrow> pipes" where
  "setupShellPipesWithCleanup input =
     \<lparr>pp_cancelled = False, pp_over = False, pp_open = True, pp_eof = False,
      pp_in = InCheck, pp_inPipe = True, pp_err = ErrCheck, pp_errPipe = True,
      pp_client = input, pp_read = [], pp_given = [], pp_written = [], pp_shown = []\<rparr>"

text \<open>The goroutine for the input: the checks of the loop, the read, and the write to the pipe.\<close>

inductive in_step :: "pipes \<Rightarrow> pipes \<Rightarrow> bool" where
  in_stop: "pp_in s = InCheck \<Longrightarrow> pp_cancelled s \<or> pp_over s \<Longrightarrow>
    in_step s (s\<lparr>pp_in := InEnded, pp_inPipe := False\<rparr>)"
| in_go: "pp_in s = InCheck \<Longrightarrow> \<not> pp_cancelled s \<Longrightarrow> \<not> pp_over s \<Longrightarrow> in_step s (s\<lparr>pp_in := InRead\<rparr>)"
| in_data: "pp_in s = InRead \<Longrightarrow> pp_client s = p @ rest \<Longrightarrow> p \<noteq> [] \<Longrightarrow> length p \<le> bufSize \<Longrightarrow>
    in_step s (s\<lparr>pp_in := InWrite p, pp_client := rest, pp_read := pp_read s @ p\<rparr>)"
| in_end: "pp_in s = InRead \<Longrightarrow> pp_eof s \<or> \<not> pp_open s \<Longrightarrow>
    in_step s (s\<lparr>pp_in := InEnded, pp_inPipe := False\<rparr>)"
| in_closed: "pp_in s = InWrite p \<Longrightarrow> \<not> pp_inPipe s \<Longrightarrow> in_step s (s\<lparr>pp_in := InEnded\<rparr>)"

text \<open>The goroutine for the error output.\<close>

inductive err_step :: "pipes \<Rightarrow> pipes \<Rightarrow> bool" where
  err_stop: "pp_err s = ErrCheck \<Longrightarrow> pp_cancelled s \<or> pp_over s \<Longrightarrow>
    err_step s (s\<lparr>pp_err := ErrEnded, pp_errPipe := False\<rparr>)"
| err_go: "pp_err s = ErrCheck \<Longrightarrow> \<not> pp_cancelled s \<Longrightarrow> \<not> pp_over s \<Longrightarrow> err_step s (s\<lparr>pp_err := ErrRead\<rparr>)"
| err_end: "pp_err s = ErrRead \<Longrightarrow> \<not> pp_errPipe s \<Longrightarrow> err_step s (s\<lparr>pp_err := ErrEnded\<rparr>)"
| err_show: "pp_err s = ErrWrite p \<Longrightarrow> pp_open s \<Longrightarrow>
    err_step s (s\<lparr>pp_err := ErrCheck, pp_shown := pp_shown s @ p\<rparr>)"
| err_fail: "pp_err s = ErrWrite p \<Longrightarrow> \<not> pp_open s \<Longrightarrow>
    err_step s (s\<lparr>pp_err := ErrEnded, pp_errPipe := False\<rparr>)"

text \<open>\<open>cleanup\<close>, up to its wait for the goroutines, and the wrappers that call it, each at its first \<open>Close\<close>.\<close>

definition cleanup :: "pipes \<Rightarrow> pipes" where
  "cleanup s = s\<lparr>pp_cancelled := True, pp_inPipe := False, pp_errPipe := False\<rparr>"

definition close_reader :: "bool \<Rightarrow> pipes \<Rightarrow> bool \<times> pipes" where
  "close_reader cleanedUp s =
     (let (cleanedUp, s) = (if \<not> cleanedUp then (True, cleanup s) else (cleanedUp, s))
      in (cleanedUp, s\<lparr>pp_inPipe := False\<rparr>))"

definition close_writer :: "bool \<Rightarrow> pipes \<Rightarrow> bool \<times> pipes" where
  "close_writer cleanedUp s =
     (let (cleanedUp, s) = (if \<not> cleanedUp then (True, cleanup s) else (cleanedUp, s))
      in (cleanedUp, s\<lparr>pp_errPipe := False\<rparr>))"

text \<open>What the handler defers: both wrappers are closed.\<close>

definition close_pipes :: "pipes \<Rightarrow> pipes" where
  "close_pipes s = snd (close_writer False (snd (close_reader False s)))"

text \<open>
  The others: the command takes input from the pipe and writes errors to it, both in pieces that the
  other side takes at once; the client ends its input, the channel is closed, by the exit of the session or
  by the client, the connection ends, and the handler closes the pipes.
\<close>

inductive other_step :: "pipes \<Rightarrow> pipes \<Rightarrow> bool" where
  give: "pp_in s = InWrite (p @ rest) \<Longrightarrow> p \<noteq> [] \<Longrightarrow> pp_inPipe s \<Longrightarrow>
    other_step s (s\<lparr>pp_in := (if rest = [] then InCheck else InWrite rest), pp_given := pp_given s @ p\<rparr>)"
| write_err: "pp_err s = ErrRead \<Longrightarrow> pp_errPipe s \<Longrightarrow> p \<noteq> [] \<Longrightarrow> length p \<le> bufSize \<Longrightarrow>
    other_step s (s\<lparr>pp_err := ErrWrite p, pp_written := pp_written s @ p\<rparr>)"
| client_eof: "other_step s (s\<lparr>pp_eof := True\<rparr>)"
| channel_closed: "other_step s (s\<lparr>pp_open := False\<rparr>)"
| connection_over: "other_step s (s\<lparr>pp_over := True\<rparr>)"
| deferred: "other_step s (close_pipes s)"

definition pipe_step :: "pipes \<Rightarrow> pipes \<Rightarrow> bool" where
  "pipe_step s s' \<longleftrightarrow> in_step s s' \<or> err_step s s' \<or> other_step s s'"

inductive pipes_reach :: "string \<Rightarrow> pipes \<Rightarrow> bool" for input where
  start: "pipes_reach input (setupShellPipesWithCleanup input)"
| more: "pipes_reach input s \<Longrightarrow> pipe_step s s' \<Longrightarrow> pipes_reach input s'"

subsection \<open>Window sizes\<close>

text \<open>
  What the receiver of a size does: it waits for one, it is busy, or the channel is closed, where the send
  panics and the goroutine ends.
\<close>

datatype receiver = Waiting | Busy | Gone

fun startWindowChannel :: "(Window \<times> receiver) list \<Rightarrow> Window list" where
  "startWindowChannel [] = []"
| "startWindowChannel ((win, Waiting) # ws) = win # startWindowChannel ws"
| "startWindowChannel ((win, Busy) # ws) = startWindowChannel ws"
| "startWindowChannel ((win, Gone) # ws) = []"

text \<open>Rows and columns of a terminal of the host, as 16 bits.\<close>

definition setWinsize :: "int \<Rightarrow> int \<Rightarrow> 16 word \<times> 16 word" where
  "setWinsize w h = (word_of_int h, word_of_int w)"

section \<open>Lemmas\<close>

lemma close_pipes_cleanup: "close_pipes s = cleanup s"
  by (simp add: close_pipes_def close_reader_def close_writer_def cleanup_def)

fun in_hand :: "in_place \<Rightarrow> string" where
  "in_hand (InWrite p) = p"
| "in_hand _ = []"

fun err_hand :: "err_place \<Rightarrow> string" where
  "err_hand (ErrWrite p) = p"
| "err_hand _ = []"

text \<open>
  What left the client is what the command was given, then at most one buffer that was lost when the
  goroutine ended or that it still holds; the same for the errors.
\<close>

definition pipes_inv :: "string \<Rightarrow> pipes \<Rightarrow> bool" where
  "pipes_inv input s \<longleftrightarrow>
     input = pp_read s @ pp_client s \<and>
     (\<exists>rest. pp_read s = pp_given s @ rest \<and> length rest \<le> bufSize \<and> (pp_in s = InEnded \<or> rest = in_hand (pp_in s))) \<and>
     (\<exists>rest. pp_written s = pp_shown s @ rest \<and> length rest \<le> bufSize \<and> (pp_err s = ErrEnded \<or> rest = err_hand (pp_err s)))"

lemma pipes_inv_start: "pipes_inv input (setupShellPipesWithCleanup input)"
  by (simp add: pipes_inv_def setupShellPipesWithCleanup_def)

lemma pipes_inv_in: "in_step s s' \<Longrightarrow> pipes_inv input s \<Longrightarrow> pipes_inv input s'"
  by (induction rule: in_step.induct) (auto simp: pipes_inv_def)

lemma pipes_inv_err: "err_step s s' \<Longrightarrow> pipes_inv input s \<Longrightarrow> pipes_inv input s'"
  by (induction rule: err_step.induct) (auto simp: pipes_inv_def)

lemma pipes_inv_other: "other_step s s' \<Longrightarrow> pipes_inv input s \<Longrightarrow> pipes_inv input s'"
  by (induction rule: other_step.induct) (auto simp: pipes_inv_def close_pipes_cleanup cleanup_def)

lemma pipes_inv_reach: "pipes_reach input s \<Longrightarrow> pipes_inv input s"
  by (induction rule: pipes_reach.induct)
    (auto simp: pipe_step_def intro: pipes_inv_start pipes_inv_in pipes_inv_err pipes_inv_other)

section \<open>Properties\<close>


text \<open>How many steps the goroutines have left once the pipes and the channel are closed.\<close>

definition steps_left :: "pipes \<Rightarrow> nat" where
  "steps_left s =
     (case pp_in s of InCheck \<Rightarrow> 1 | InRead \<Rightarrow> 2 | InWrite _ \<Rightarrow> 1 | InEnded \<Rightarrow> 0) + (if pp_err s = ErrEnded then 0 else 1)"

definition shut :: "pipes \<Rightarrow> bool" where
  "shut s \<longleftrightarrow> pp_cancelled s \<and> \<not> pp_open s \<and> \<not> pp_inPipe s \<and> \<not> pp_errPipe s"

lemma shut_steps: "shut s \<Longrightarrow> in_step s s' \<or> err_step s s' \<Longrightarrow> shut s' \<and> steps_left s' < steps_left s"
  by (auto elim!: in_step.cases err_step.cases simp: shut_def steps_left_def)

lemma shut_others: "shut s \<Longrightarrow> other_step s s' \<Longrightarrow> shut s' \<and> steps_left s' = steps_left s"
  by (auto elim!: other_step.cases simp: shut_def steps_left_def close_pipes_cleanup cleanup_def)

text \<open>
  After the exit of a session and the deferred calls, the goroutines end: none of them is stuck, they take
  at most three steps, whatever the others do, and the pipes stay closed.
\<close>

theorem pipes_end:
  assumes "shut s"
  shows "(steps_left s = 0 \<longleftrightarrow> pp_in s = InEnded \<and> pp_err s = ErrEnded) \<and> steps_left s \<le> 3 \<and>
    (pp_in s \<noteq> InEnded \<longrightarrow> (\<exists>s'. in_step s s')) \<and> (pp_err s \<noteq> ErrEnded \<longrightarrow> (\<exists>s'. err_step s s')) \<and>
    (\<forall>s'. pipe_step s s' \<longrightarrow> shut s' \<and> steps_left s' \<le> steps_left s)"
proof -
  have "\<exists>s'. in_step s s'" if "pp_in s \<noteq> InEnded"
    using that assms by (cases "pp_in s") (auto simp: shut_def intro: in_stop in_end in_closed)
  moreover have "\<exists>s'. err_step s s'" if "pp_err s \<noteq> ErrEnded"
    using that assms by (cases "pp_err s") (auto simp: shut_def intro: err_stop err_end err_fail)
  moreover have "shut s' \<and> steps_left s' \<le> steps_left s" if "pipe_step s s'" for s'
    using that shut_steps [OF assms] shut_others [OF assms] by (auto simp: pipe_step_def dest: less_imp_le)
  moreover have "(steps_left s = 0 \<longleftrightarrow> pp_in s = InEnded \<and> pp_err s = ErrEnded) \<and> steps_left s \<le> 3"
    by (auto simp: steps_left_def split: in_place.splits)
  ultimately show ?thesis by blast
qed

text \<open>
  The write of the command to its error output returns when the goroutine has taken the text, and the
  handler sends the exit status then: the channel may be closed before the text is written to it.
\<close>

lemma last_errors_lost:
  "\<exists>s. pipes_reach input s \<and> pp_written s = ''failed'' \<and> pp_shown s = [] \<and> pp_err s = ErrEnded"
proof -
  let ?s0 = "setupShellPipesWithCleanup input"
  let ?s1 = "?s0\<lparr>pp_err := ErrRead\<rparr>"
  let ?s2 = "?s1\<lparr>pp_err := ErrWrite ''failed'', pp_written := ''failed''\<rparr>"
  let ?s3 = "?s2\<lparr>pp_open := False\<rparr>"
  have "err_step ?s0 ?s1" by (rule err_go) (simp_all add: setupShellPipesWithCleanup_def)
  moreover have "other_step ?s1 ?s2"
    using write_err [of ?s1 "''failed''"] by (simp add: setupShellPipesWithCleanup_def bufSize_def)
  moreover have "other_step ?s2 ?s3" by (rule channel_closed)
  moreover have "err_step ?s3 (?s3\<lparr>pp_err := ErrEnded, pp_errPipe := False\<rparr>)" by (rule err_fail) simp_all
  ultimately have "pipes_reach input (?s3\<lparr>pp_err := ErrEnded, pp_errPipe := False\<rparr>)"
    unfolding pipe_step_def by (meson more pipe_step_def start)
  then show ?thesis by (intro exI) (auto simp: setupShellPipesWithCleanup_def)
qed

text \<open>A size that comes while the receiver is busy is dropped, and nothing sends it again.\<close>

lemma last_size_dropped: "startWindowChannel [(w1, Waiting), (w2, Busy)] = [w1]"
  by simp

section \<open>Witness\<close>

text \<open>The client types a line; the command has taken the first letter of it.\<close>

lemma typed_reach:
  "\<exists>s. pipes_reach ''ls'' s \<and> pp_given s = ''l'' \<and> pp_in s = InWrite ''s''"
proof -
  let ?s0 = "setupShellPipesWithCleanup ''ls''"
  let ?s1 = "?s0\<lparr>pp_in := InRead\<rparr>"
  let ?s2 = "?s1\<lparr>pp_in := InWrite ''ls'', pp_client := [], pp_read := ''ls''\<rparr>"
  let ?s3 = "?s2\<lparr>pp_in := InWrite ''s'', pp_given := ''l''\<rparr>"
  have "in_step ?s0 ?s1" by (rule in_go) (simp_all add: setupShellPipesWithCleanup_def)
  moreover have "in_step ?s1 ?s2"
    using in_data [of ?s1 "''ls''" "[]"] by (simp add: setupShellPipesWithCleanup_def bufSize_def)
  moreover have "other_step ?s2 ?s3"
    using give [of ?s2 "''l''" "''s''"] by (simp add: setupShellPipesWithCleanup_def)
  ultimately have "pipes_reach ''ls'' ?s3" by (meson more pipe_step_def start)
  then show ?thesis by (intro exI) (auto simp: setupShellPipesWithCleanup_def)
qed


end
