(* ===== verification/Life_Cycle.thy ===== *)
theory Life_Cycle
  imports Go_Base
begin

text \<open>
  The life of a process, \<open>src/server/server.go\<close>: the daemon with its start and its shutdown, the master
  with its accept loop and the handover of a connection, and the child that serves one connection. Each is
  the list of what its main goroutine does; the outcomes of calls to the system are arguments. The
  servers that run beside the main goroutine may end the process by a fatal error at any time; the model of them
  is \<open>Ssh_Server\<close>.
\<close>

section \<open>Model\<close>

datatype life_event =
    FatalExit | HealthCheckOn string | ServerSetUp | LeftoversCleaned | SshServing | WebServing | Signalled
  | DevicesShutDown | SshShutDown bool | WebShutDown bool | Listening | SignalsIgnored | ConnectionServed
  | DeviceAdded string | Returned

record life_env =
  le_checkIncus :: bool
  le_HealthCheck :: string
  le_AddFunc :: "string \<Rightarrow> bool"
  le_Web :: bool
  le_Listen :: bool
  le_sshShutdown :: bool
  le_webShutdown :: bool
  le_NewFile :: bool
  le_FileConn :: bool

definition enableHealthCheck :: "life_env \<Rightarrow> life_event list" where
  "enableHealthCheck env =
     (let spec = ''@every '' @ le_HealthCheck env in if le_AddFunc env spec then [HealthCheckOn spec] else [])"

definition checkHealth :: "life_env \<Rightarrow> bool" where
  "checkHealth env = le_checkIncus env"

text \<open>The daemon. Errors of the cleanup and of the devices are logged only.\<close>

definition Server_ListenAndServe :: "life_env \<Rightarrow> life_event list" where
  "Server_ListenAndServe env =
     (if \<not> le_checkIncus env then [FatalExit]
      else (if le_HealthCheck env \<noteq> [] then enableHealthCheck env else []) @
        [ServerSetUp, LeftoversCleaned, SshServing] @
        (if le_Web env then [WebServing] else []) @
        [Signalled, DevicesShutDown, SshShutDown (le_sshShutdown env)] @
        (if \<not> le_sshShutdown env then [FatalExit]
         else (if le_Web env then [WebShutDown (le_webShutdown env)] else []) @ [Returned]))"

text \<open>The master, and the loop beside it, for what \<open>Accept\<close> returns.\<close>

definition Server_Listen :: "life_env \<Rightarrow> life_event list" where
  "Server_Listen env =
     (if \<not> le_Listen env then [FatalExit]
      else [Listening] @ (if le_Web env then [WebServing] else []) @ [Signalled, Returned])"

datatype 'c accepted_conn = Accepted 'c | NetClosed | AcceptError

fun master_accept :: "'c accepted_conn list \<Rightarrow> 'c list" where
  "master_accept [] = []"
| "master_accept (Accepted c # rs) = c # master_accept rs"
| "master_accept (NetClosed # rs) = []"
| "master_accept (AcceptError # rs) = master_accept rs"

text \<open>The handover: whether the connection is one of TCP, its descriptor can be had and the child starts.\<close>

datatype handoff = ConnClosed | FileClosed | ChildStarted | ChildReaped

definition handoffToChild :: "bool \<Rightarrow> bool \<Rightarrow> bool \<Rightarrow> handoff list" where
  "handoffToChild tcp file start =
     (if \<not> tcp then [ConnClosed]
      else if \<not> file then [ConnClosed]
      else [ConnClosed] @ (if \<not> start then [] else [ChildStarted, ChildReaped]) @ [FileClosed])"

text \<open>The child.\<close>

definition Server_Serve :: "life_env \<Rightarrow> life_event list" where
  "Server_Serve env =
     [SignalsIgnored, ServerSetUp] @
     (if \<not> le_NewFile env then [FatalExit]
      else if \<not> le_FileConn env then [FatalExit]
      else [ConnectionServed, DevicesShutDown, Returned])"

section \<open>Lemmas\<close>

text \<open>The connections before the close of the listener are handed over once each, in order; errors are passed over.\<close>

lemma master_hands_over:
  "master_accept rs = List.map_filter (\<lambda>r. case r of Accepted c \<Rightarrow> Some c | _ \<Rightarrow> None) (takeWhile (\<lambda>r. r \<noteq> NetClosed) rs)"
  by (induction rs rule: master_accept.induct) auto

text \<open>The parent always closes its connection, and whatever it opened for the child.\<close>

lemma handoff_closes:
  "hd (handoffToChild tcp file start) = ConnClosed \<and>
   (tcp \<and> file \<longrightarrow> last (handoffToChild tcp file start) = FileClosed) \<and>
   (ChildStarted \<in> set (handoffToChild tcp file start) \<longleftrightarrow> tcp \<and> file \<and> start)"
  by (auto simp: handoffToChild_def)

text \<open>
  The daemon does not serve without a connection to Incus, and it cleans up what an earlier process left before
  it serves; the master does neither, and has no health checks.
\<close>

lemma daemon_start:
  assumes "SshServing \<in> set (Server_ListenAndServe env)"
  shows "le_checkIncus env \<and> (\<exists>before after. Server_ListenAndServe env = before @ SshServing # after \<and> LeftoversCleaned \<in> set before)"
proof -
  let ?before = "(if le_HealthCheck env \<noteq> [] then enableHealthCheck env else []) @ [ServerSetUp, LeftoversCleaned]"
  have check: "le_checkIncus env" using assms by (auto simp: Server_ListenAndServe_def split: if_splits)
  then have "\<exists>after. Server_ListenAndServe env = ?before @ SshServing # after" by (simp add: Server_ListenAndServe_def)
  moreover have "LeftoversCleaned \<in> set ?before" by simp
  ultimately show ?thesis using check by blast
qed

lemma master_start: "LeftoversCleaned \<notin> set (Server_Listen env)" "HealthCheckOn s \<notin> set (Server_Listen env)"
  by (auto simp: Server_Listen_def)

text \<open>
  While the SSH server serves, sessions add devices: a run of the daemon is its list of events with such
  additions between the start and the end of the service. The devices that exist follow the events.
\<close>

fun service_run :: "bool \<Rightarrow> life_event list \<Rightarrow> life_event list \<Rightarrow> bool" where
  "service_run on main [] \<longleftrightarrow> main = []"
| "service_run on main (DeviceAdded d # evs) \<longleftrightarrow> on \<and> service_run on main evs"
| "service_run on (m # main) (e # evs) \<longleftrightarrow>
     m = e \<and> service_run ((on \<or> m = SshServing) \<and> (\<forall>ok. m \<noteq> SshShutDown ok)) main evs"
| "service_run on [] (e # evs) \<longleftrightarrow> False"

fun devices_after :: "string set \<Rightarrow> life_event list \<Rightarrow> string set" where
  "devices_after ds [] = ds"
| "devices_after ds (DeviceAdded d # evs) = devices_after (insert d ds) evs"
| "devices_after ds (DevicesShutDown # evs) = devices_after {} evs"
| "devices_after ds (_ # evs) = devices_after ds evs"

lemma device_left_at_shutdown:
  assumes "le_checkIncus env" and "le_sshShutdown env" and "le_HealthCheck env = []" and "\<not> le_Web env"
  shows "\<exists>run. service_run False (Server_ListenAndServe env) run \<and> last run = Returned \<and> d \<in> devices_after {} run"
proof -
  let ?run = "[ServerSetUp, LeftoversCleaned, SshServing, Signalled, DevicesShutDown, DeviceAdded d, SshShutDown True, Returned]"
  have "service_run False (Server_ListenAndServe env) ?run" using assms by (simp add: Server_ListenAndServe_def)
  then show ?thesis by (intro exI [of _ ?run]) simp
qed

text \<open>A session that outlives the limit of five seconds makes the end of the daemon a fatal one, without the web server's.\<close>

lemma long_session_fatal:
  "le_checkIncus env \<Longrightarrow> \<not> le_sshShutdown env \<Longrightarrow>
   last (Server_ListenAndServe env) = FatalExit \<and> (\<forall>ok. WebShutDown ok \<notin> set (Server_ListenAndServe env))"
  by (auto simp: Server_ListenAndServe_def enableHealthCheck_def Let_def)

end
