(* ===== verification/Spec2Isabelle.thy ===== *)
theory Spec2Isabelle
  imports Login_User Sharded Shell_Command Instance_Create Ssh_Session Ssh_Auth Auth Instance_Services Remote_Forward Shell_Handler Startup Ssh_Server Web_Api Web_Terminal Incus_Connect Password_Check Yescrypt_Scrypt Work_Queue Cron_Schedule Cron_Runner Host_User Ssh_Context Shell_Pipes Life_Cycle
begin

text \<open>
  ssh2incus is an SSH server in front of Incus: the user name of an SSH login says which instance, of
  which remote and project, as which user, and optionally which new instance is wanted; the server
  authenticates the login against the users of the host and of the instance and connects the session to a
  command in that instance. It also forwards ports, serves SFTP, and has a web interface. This development
  models the Go sources under \<open>src/\<close> function by function, and proves what makes the parts correct. A
  path below is relative to \<open>src/\<close>; a definition has the name of the function it models, with a
  suffix or prefix where a name is taken.

  \<^bold>\<open>How the parts interact.\<close> \<open>init.go\<close> reads the settings and starts \<open>server/server.go\<close>, which builds the
  SSH server (\<open>pkg/ssh\<close>) with the handlers of \<open>server\<close>. For every connection the library calls the
  authentication callbacks; they parse the name into a login, keep it in the context of the connection, and
  ask the host (\<open>pkg/user\<close>, \<open>pkg/util/shadow\<close>, \<open>pkg/yescrypt\<close>) and, with instance authentication, the
  instance through the Incus client (\<open>pkg/incus\<close>). A session then reaches \<open>shellHandler\<close> or a
  subsystem, which checks the login again, creates the instance if the login says so, adds the
  proxy devices it needs, and runs the command. All connections share caches (\<open>pkg/cache\<close>), queues
  (\<open>pkg/queue\<close>) and the registry of devices; health checks run on a schedule (\<open>pkg/cron\<close>).

  \<^bold>\<open>Prelude.\<close> \<open>Go_Base\<close> has the parts of the Go library that everything uses: strings as lists of
  bytes, searching, cutting, splitting and joining, decimal numbers with the range of \<open>int64\<close>, wrap-around
  of 64-bit arithmetic, paths, addresses, with the collection \<open>go_strings\<close> of rewrite rules. \<open>Scanner\<close> is
  \<open>bufio.Scanner\<close> with its growing array, so that kept slices see later writes, and the two
  buffers of \<open>pkg/util/buffer\<close>. \<open>Go_Sort\<close> is a locale for what code relies on when it sorts, interpreted on
  insertion. \<open>Calendar\<close> is the proleptic Gregorian calendar of the library \<open>time\<close>.

  \<^bold>\<open>Logins.\<close> \<open>Login_User\<close> (\<open>server/user.go\<close>): the type \<open>LoginUser\<close> as a record with nested logins, the
  parser, the printer, keys and group matching. Lemmas: the result of the parser on every well-formed
  name, logins that can be printed are parsed back, and the shape of every parsed login.
  \<open>Ssh_Context\<close> (\<open>pkg/ssh/context.go\<close>, callbacks of \<open>pkg/ssh/server.go\<close>): the values of a connection and the
  attempts to authenticate on it. Its locale \<open>login_keeper\<close> states that a handler keeps the login of the
  first attempt; it is interpreted on the four handlers.

  \<^bold>\<open>Authentication.\<close> \<open>Ssh_Auth\<close>: which callbacks the methods and handlers give and which sequences of
  attempts they accept; \<open>Auth\<close> (\<open>server/auth.go\<close>): the handlers with the caches and the state of the
  connection, sound in what they accept; \<open>Host_User\<close> (\<open>pkg/user\<close>): users and groups of the host, with the
  locale \<open>entity_db\<close> for the files they come from; \<open>Shadow\<close> (\<open>pkg/util/shadow\<close>): the password
  database; \<open>Yescrypt\<close>, \<open>Yescrypt_Encoding\<close>, \<open>Yescrypt_Hash\<close> (\<open>pkg/yescrypt\<close>): the hash on machine words
  with every slice checked, its encoding, and that no access is out of bounds; \<open>Yescrypt_Scrypt\<close>: its classic
  core equals the scrypt of RFC 7914, on lists of blocks; \<open>Password_Check\<close>: the database and the hash
  together.

  \<^bold>\<open>Sessions.\<close> \<open>Ssh_Wire\<close> and \<open>Ssh_Session\<close> (\<open>pkg/ssh/util.go\<close>, \<open>session.go\<close>): payloads with 32-bit lengths
  and the panics of slices, and the request loop of a session as a step relation with an invariant.
  \<open>Ssh_Server\<close> (\<open>pkg/ssh/server.go\<close>, \<open>conn.go\<close>): host keys, dispatch, deadlines, and listeners and
  connections with \<open>Close\<close> and \<open>Shutdown\<close> as a step relation. \<open>Shlex\<close> (\<open>pkg/shlex\<close>) and
  \<open>Shell_Command\<close>: from the text of a command to the arguments in the instance. \<open>Shell_Handler\<close>
  (\<open>server/shell.go\<close>, \<open>term-mux.go\<close>, \<open>welcome.go\<close>): the handler as a function to a list of events, with
  creation, agent forwarding, persistent sessions, explanation and removal. \<open>Shell_Pipes\<close>: the
  goroutines between session and command as a step relation.

  \<^bold>\<open>Instances.\<close> \<open>Incus_Connect\<close> and \<open>Incus_Client\<close> (\<open>server/incus.go\<close>, \<open>pkg/incus\<close>): where a client
  connects and its calls through caches and queues; \<open>Create_Config\<close> and \<open>Instance_Create\<close>: creation
  defaults and profiles, with the aliasing of Go maps in a store, and the creation of an instance;
  \<open>Proxy_Device\<close>: devices, their removal and the registry, on an abstract server;
  \<open>Instance_Services\<close> and \<open>Remote_Forward\<close>: SFTP, forwarding to and from an instance.

  \<^bold>\<open>Shared services.\<close> \<open>Cache\<close> and \<open>Sharded\<close> (\<open>pkg/cache\<close>): every operation of the expiring cache, its
  history as a map from keys to the last live entry, stated in the locale \<open>expiring_store\<close> that both caches
  interpret, and the sharded cache as a refinement of one cache;
  \<open>Work_Queue\<close>: the channels and goroutines of a queue with every interleaving; \<open>Cron_Parser\<close>, \<open>Cron_Schedule\<close>,
  \<open>Cron_Runner\<close>: parsing, the search for the next activation as an instance of the locale \<open>nested_search\<close>, and the loop
  that runs entries.
  \<open>Startup\<close> (\<open>init.go\<close>, \<open>config.go\<close>, \<open>server.go\<close>): arguments, settings, roles and the configured
  server. \<open>Life_Cycle\<close>: start and shutdown of the daemon, the master and a child, for every outcome of the system calls.
  \<open>Web_Api\<close> and \<open>Web_Terminal\<close>: credentials, routes and handlers of the web interface.

  \<^bold>\<open>Conventions.\<close> A fallible function returns an option or a sum with the error on the left; a panic is a
  value, \<open>Crash\<close> in a \<open>call\<close> and \<^const>\<open>None\<close> for a slice. Functions of state return the new state. Concurrent parts
  are inductive step relations with their reachable states, one step being what happens under one
  lock or at one channel operation. Integers that may wrap are words (hashes, wire lengths, bit sets of schedules,
  yescrypt) or are wrapped to 64 bits explicitly (times of caches and of passwords), and decimal numbers are
  read within the range of \<open>int64\<close>; other integers stay far below the bounds.

  \<^bold>\<open>Fuel and termination.\<close> One loop has fuel: the line scanner is called with twice the length of the
  input and two more rounds, and \<open>scan_all_returns\<close> shows that this is enough for every input. Two loops are
  partial functions whose value is \<^const>\<open>None\<close> where the code does not return: the one that collects the bits of
  a schedule field, which does not end for a step of zero, and the search for the next activation, which is
  proved to end and to find the earliest one. Everything else is recursion with a termination proof.

  \<^bold>\<open>Parameters.\<close> What is not under \<open>src/\<close> is an argument of the model: the Incus API (records of
  functions on an abstract state), the file system, programs of the host, \<open>os/user\<close> in builds with cgo,
  the SSH library's choice of authentication methods and its proofs of possession of keys, decoding of keys, crypt, SHA-256,
  HMAC and PBKDF2 (of which the results on yescrypt use the lengths only), YAML and JSON decoding, time zones, the
  clock. Hypotheses on them are named in the statements, and each property with a hypothesis has an instance.

  \<^bold>\<open>Not modelled.\<close> Copying of data beyond the pipes of a session, web sockets below the wrapper of the
  terminal, and writing caches to files are input and output only. The handlers
  \<open>DirectTCPIPHandler\<close> of \<open>pkg/ssh/tcpip.go\<close> and \<open>directTCPIPHandler\<close> of \<open>server/port-forward.go\<close> are not
  registered, and \<open>incusShellLegacy\<close> and \<open>setupShellPipes\<close> are not called. \<open>pkg/util/structs\<close> (reflection),
  \<open>pkg/util/goagain\<close>, \<open>pkg/util/utmp\<close> and \<open>pkg/isatty\<close> are third-party code or system calls; embedded
  binaries and generators have no logic of the server.
\<close>

end
